(* ===== verification/Prelude.thy ===== *)
theory Prelude
  imports Main "HOL-Library.Multiset"
begin

text \<open>
  Shared material of the development: the collections the component proofs draw on, the error
  type of a fallible Python function, a few facts on lists and options, and the interface of a
  deterministic machine driven by events.
\<close>

section \<open>Collections\<close>

named_theorems model_defs \<open>definitions that the component proofs unfold together\<close>
named_theorems inv_defs \<open>definitions of invariants\<close>
named_theorems frame \<open>what an operation leaves unchanged\<close>

section \<open>Fallible functions\<close>

text \<open>A Python function that raises is a function into a sum: \<open>Inl\<close> is the exception.\<close>

type_synonym ('e, 'a) result = "'e + 'a"

definition bind_result :: "('e, 'a) result \<Rightarrow> ('a \<Rightarrow> ('e, 'b) result) \<Rightarrow> ('e, 'b) result" where
  "bind_result m f = (case m of Inl e \<Rightarrow> Inl e | Inr a \<Rightarrow> f a)"

lemma bind_result_simps [simp]:
  "bind_result (Inl e) f = Inl e"
  "bind_result (Inr a) f = f a"
  by (simp_all add: bind_result_def)

lemma bind_result_Inr [simp]:
  "bind_result m f = Inr b \<longleftrightarrow> (\<exists>a. m = Inr a \<and> f a = Inr b)"
  by (cases m) simp_all

lemma bind_result_assoc:
  "bind_result (bind_result m f) g = bind_result m (\<lambda>a. bind_result (f a) g)"
  by (cases m) simp_all

lemma bind_result_cong [fundef_cong]:
  "m = m' \<Longrightarrow> (\<And>a. m' = Inr a \<Longrightarrow> f a = f' a) \<Longrightarrow> bind_result m f = bind_result m' f'"
  by (cases m') simp_all

definition guard_result :: "'e \<Rightarrow> bool \<Rightarrow> ('e, unit) result" where
  "guard_result e b = (if b then Inl e else Inr ())"

lemma guard_result_Inr [simp]: "guard_result e b = Inr u \<longleftrightarrow> \<not> b"
  by (simp add: guard_result_def)

lemma guard_result_Inl [simp]: "guard_result e b = Inl x \<longleftrightarrow> b \<and> x = e"
  by (auto simp: guard_result_def)

lemma guard_result_simps [simp]:
  "guard_result e True = Inl e"
  "guard_result e False = Inr ()"
  by (simp_all add: guard_result_def)

text \<open>A loop that may raise in each iteration.\<close>

fun fold_result :: "('a \<Rightarrow> 's \<Rightarrow> ('e, 's) result) \<Rightarrow> 'a list \<Rightarrow> 's \<Rightarrow> ('e, 's) result" where
  "fold_result f [] s = Inr s"
| "fold_result f (x # xs) s = bind_result (f x s) (fold_result f xs)"

lemma fold_result_append:
  "fold_result f (xs @ ys) s = bind_result (fold_result f xs s) (fold_result f ys)"
  by (induction xs arbitrary: s) (auto simp: bind_result_def split: sum.splits)

lemma fold_result_invariant:
  assumes "fold_result f xs s = Inr t" and "P s"
    and "\<And>x s t. x \<in> set xs \<Longrightarrow> P s \<Longrightarrow> f x s = Inr t \<Longrightarrow> P t"
  shows "P t"
  using assms
proof (induction xs arbitrary: s)
  case Nil
  then show ?case by simp
next
  case (Cons x xs)
  from Cons.prems(1) obtain u where u: "f x s = Inr u" and t: "fold_result f xs u = Inr t"
    by auto
  have "P u" by (rule Cons.prems(3) [of x s]) (simp_all add: Cons.prems(2) u)
  show ?case
    using Cons.IH [OF t \<open>P u\<close>] Cons.prems(3) by (meson list.set_intros(2))
qed

text \<open>A comprehension whose elements may raise.\<close>

fun map_result :: "('a \<Rightarrow> ('e, 'b) result) \<Rightarrow> 'a list \<Rightarrow> ('e, 'b list) result" where
  "map_result f [] = Inr []"
| "map_result f (x # xs) =
     bind_result (f x) (\<lambda>y. bind_result (map_result f xs) (\<lambda>ys. Inr (y # ys)))"

lemma map_result_Inr:
  "map_result f xs = Inr ys \<longleftrightarrow> list_all2 (\<lambda>x y. f x = Inr y) xs ys"
  by (induction xs arbitrary: ys) (auto simp: list_all2_Cons1)

lemma map_result_total:
  "(\<And>x. x \<in> set xs \<Longrightarrow> \<exists>y. f x = Inr y) \<Longrightarrow> \<exists>ys. map_result f xs = Inr ys"
  by (induction xs) force+

section \<open>Lists\<close>

text \<open>The first element of a stable sort has the least key of the whole list.\<close>

lemma hd_sort_key_least:
  fixes f :: "'a \<Rightarrow> 'k::linorder"
  assumes "xs \<noteq> []" and "x \<in> set xs"
  shows "f (hd (sort_key f xs)) \<le> f x"
proof -
  obtain y ys where s: "sort_key f xs = y # ys"
    using assms(1) by (metis length_0_conv length_sort list.exhaust)
  moreover have "sorted (map f (sort_key f xs))" by simp
  moreover have "x \<in> set (y # ys)" using assms(2) s by (metis set_sort)
  ultimately show ?thesis by auto
qed

lemma hd_sort_key_in: "xs \<noteq> [] \<Longrightarrow> hd (sort_key f xs) \<in> set xs"
  by (metis hd_in_set length_0_conv length_sort set_sort)

lemma sort_key_eq_Nil [simp]: "sort_key f xs = [] \<longleftrightarrow> xs = []"
  by (metis length_0_conv length_sort)

lemma find_Some_iff_mem: "List.find P xs = Some x \<Longrightarrow> x \<in> set xs \<and> P x"
  by (auto simp: find_Some_iff)

text \<open>The first result of a list of attempts.\<close>

fun first_some :: "('a \<Rightarrow> 'b option) \<Rightarrow> 'a list \<Rightarrow> 'b option" where
  "first_some f [] = None"
| "first_some f (x # xs) = (case f x of None \<Rightarrow> first_some f xs | Some y \<Rightarrow> Some y)"

lemma first_some_None: "first_some f xs = None \<longleftrightarrow> (\<forall>x \<in> set xs. f x = None)"
  by (induction xs) (auto split: option.splits)

lemma first_some_SomeD:
  "first_some f xs = Some y \<Longrightarrow> \<exists>i < length xs. f (xs ! i) = Some y \<and> (\<forall>j < i. f (xs ! j) = None)"
proof (induction xs)
  case (Cons x xs)
  show ?case
  proof (cases "f x")
    case None
    with Cons obtain i where "i < length xs" "f (xs ! i) = Some y" "\<forall>j < i. f (xs ! j) = None" by auto
    with None show ?thesis by (intro exI [of _ "Suc i"]) (auto simp: less_Suc_eq_0_disj)
  next
    case (Some z)
    with Cons.prems show ?thesis by (intro exI [of _ 0]) simp
  qed
qed simp

text \<open>The first match in a list sorted by a key has the least key of all matches.\<close>

lemma find_sorted_least:
  assumes "sorted (map f xs)" and "List.find P xs = Some x" and "y \<in> set xs" and "P y"
  shows "f x \<le> f y"
  using assms by (induction xs) (auto split: if_splits)

text \<open>Lists built from optional blocks whose keys increase from block to block.\<close>

definition ascending :: "('a \<Rightarrow> nat) \<Rightarrow> nat \<Rightarrow> 'a list \<Rightarrow> bool" where
  "ascending f lo xs \<longleftrightarrow> sorted_wrt (<) (map f xs) \<and> (\<forall>x \<in> set xs. lo \<le> f x)"

lemma ascending_Nil [simp]: "ascending f lo []"
  by (simp add: ascending_def)

lemma ascending_single [simp]: "ascending f lo [x] \<longleftrightarrow> lo \<le> f x"
  by (simp add: ascending_def)

lemma ascending_append:
  assumes "ascending f lo xs" and "\<And>x. x \<in> set xs \<Longrightarrow> f x < hi" and "lo \<le> hi"
    and "ascending f hi ys"
  shows "ascending f lo (xs @ ys)"
  using assms by (fastforce simp: ascending_def sorted_wrt_append)

lemma ascending_sorted: "ascending f lo xs \<Longrightarrow> sorted_wrt (<) (map f xs)"
  by (simp add: ascending_def)

section \<open>Event-driven machines\<close>

text \<open>
  The interface of a component that keeps a state and is driven by events: a step function, the
  invariant every step keeps, and a latch, a set of states that no step leaves. Runs are the
  folds of the step over a list of events.
\<close>

locale machine =
  fixes step :: "'e \<Rightarrow> 's \<Rightarrow> 's"
    and inv :: "'s \<Rightarrow> bool"
  assumes inv_step: "inv s \<Longrightarrow> inv (step e s)"
begin

lemma inv_run: "inv s \<Longrightarrow> inv (fold step es s)"
  by (induction es arbitrary: s) (simp_all add: inv_step)

end

locale latched_machine = machine +
  fixes latched :: "'s \<Rightarrow> bool"
  assumes latched_step: "inv s \<Longrightarrow> latched s \<Longrightarrow> latched (step e s)"
begin

lemma latched_run: "inv s \<Longrightarrow> latched s \<Longrightarrow> latched (fold step es s)"
  by (induction es arbitrary: s) (simp_all add: inv_step latched_step)

lemma latched_run_append:
  "inv s \<Longrightarrow> latched (fold step es s) \<Longrightarrow> latched (fold step (es @ es') s)"
  using latched_run [OF inv_run] by simp

end

text \<open>The same for a step relation, with a preorder that every step moves along.\<close>

locale transition_system =
  fixes step :: "'s \<Rightarrow> 's \<Rightarrow> bool"
    and inv :: "'s \<Rightarrow> bool"
  assumes inv_next: "step s t \<Longrightarrow> inv s \<Longrightarrow> inv t"
begin

lemma inv_reach: "step\<^sup>*\<^sup>* s t \<Longrightarrow> inv s \<Longrightarrow> inv t"
  by (induction rule: rtranclp_induct) (auto intro: inv_next)

end

locale growing_system = transition_system +
  fixes ext :: "'s \<Rightarrow> 's \<Rightarrow> bool"
  assumes ext_same: "ext s s"
    and ext_chain: "ext s t \<Longrightarrow> ext t u \<Longrightarrow> ext s u"
    and ext_next: "step s t \<Longrightarrow> inv s \<Longrightarrow> ext s t"
begin

lemma ext_reach: "step\<^sup>*\<^sup>* s t \<Longrightarrow> inv s \<Longrightarrow> ext s t"
  by (induction rule: rtranclp_induct) (auto intro: ext_same ext_chain ext_next inv_reach)

end

text \<open>
  The interface of a get-or-create operation in a world of other events: what an operation returned
  and stored is not taken back by any event (the extension order), and asking again returns the same
  thing without a further change, provided that the result is one that can be read back.
\<close>

locale frozen_world = machine step inv
  for step :: "'e \<Rightarrow> 's \<Rightarrow> 's" and inv :: "'s \<Rightarrow> bool" +
  fixes op :: "'a \<Rightarrow> 's \<Rightarrow> ('x, 'r \<times> 's) result"
    and ext :: "'s \<Rightarrow> 's \<Rightarrow> bool"
    and readable :: "'r \<Rightarrow> bool"
  assumes ext_refl: "ext s s"
    and ext_trans: "ext s t \<Longrightarrow> ext t u \<Longrightarrow> ext s u"
    and step_ext: "inv s \<Longrightarrow> ext s (step e s)"
    and op_inv: "inv s \<Longrightarrow> op a s = Inr (r, t) \<Longrightarrow> inv t"
    and op_again: "inv s \<Longrightarrow> op a s = Inr (r, t) \<Longrightarrow> readable r \<Longrightarrow> inv u \<Longrightarrow> ext t u \<Longrightarrow> op a u = Inr (r, u)"
begin

lemma ext_run: "inv s \<Longrightarrow> ext s (fold step es s)"
proof (induction es arbitrary: s)
  case Nil
  then show ?case by (simp add: ext_refl)
next
  case (Cons e es)
  have "ext (step e s) (fold step es (step e s))" by (rule Cons.IH [OF inv_step [OF Cons.prems]])
  from ext_trans [OF step_ext [OF Cons.prems] this] show ?case by simp
qed

lemma op_frozen:
  assumes "inv s" and "op a s = Inr (r, t)" and "readable r"
  shows "op a (fold step es t) = Inr (r, fold step es t)"
proof -
  have "inv t" using assms(1,2) by (rule op_inv)
  then show ?thesis using op_again [OF assms] inv_run ext_run by blast
qed

end

end
