(* ===== verification/Py_Lib.thy ===== *)
theory Py_Lib
  imports Prelude
begin

text \<open>
  The parts of Python's standard library that the modelled code uses: calendar dates, the
  decimal rendering of integers, and the string operations of the validators. A string is a
  list of characters whose codes are read as the code points 0 to 255.
\<close>

section \<open>Decimal numbers\<close>

fun digits_rev :: "nat \<Rightarrow> string" where
  "digits_rev n =
     (if n < 10 then [char_of (48 + n)] else char_of (48 + n mod 10) # digits_rev (n div 10))"

declare digits_rev.simps [simp del]

definition str_nat :: "nat \<Rightarrow> string" where
  "str_nat n = rev (digits_rev n)"

definition str_int :: "int \<Rightarrow> string" where
  "str_int i = (if i < 0 then CHR ''-'' # str_nat (nat (- i)) else str_nat (nat i))"

text \<open>The decimal text determines the number.\<close>

fun digits_value :: "string \<Rightarrow> nat" where
  "digits_value [] = 0"
| "digits_value (c # s) = (of_char c - 48) + 10 * digits_value s"

lemma digits_value_rev [simp]: "digits_value (digits_rev n) = n"
  by (induction n rule: digits_rev.induct) (subst digits_rev.simps, auto simp: of_char_of)

lemma digits_rev_no_sign: "CHR ''-'' \<notin> set (digits_rev n)"
proof (induction n rule: digits_rev.induct)
  case (1 n)
  have "of_char (char_of (48 + d) :: char) \<noteq> (of_char (CHR ''-'') :: nat)" if "d < 10" for d :: nat
    using that by (simp add: of_char_of)
  then have "CHR ''-'' \<noteq> char_of (48 + d)" if "d < 10" for d :: nat using that by metis
  with 1 show ?case by (subst digits_rev.simps) auto
qed

lemma str_int_inject [simp]: "str_int i = str_int j \<longleftrightarrow> i = j"
proof
  have same: "nat m = nat n" if "str_nat (nat m) = str_nat (nat n)" for m n :: int
    using that digits_value_rev by (metis rev_is_rev_conv str_nat_def)
  have sign: "CHR ''-'' # s \<noteq> str_nat n" for s n
    using digits_rev_no_sign [of n] by (metis list.set_intros(1) set_rev str_nat_def)
  assume "str_int i = str_int j"
  then show "i = j" using same [of i j] same [of "- i" "- j"] sign sign [symmetric] by (auto simp: str_int_def split: if_splits)
qed simp

definition pad_zero :: "nat \<Rightarrow> string \<Rightarrow> string" where
  "pad_zero k s = replicate (k - length s) (CHR ''0'') @ s"

section \<open>Dates\<close>

text \<open>
  A \<open>datetime.date\<close> is its proleptic Gregorian ordinal, the value of \<open>date.toordinal()\<close>, so
  that comparison, the difference \<open>(a - b).days\<close> and \<open>a + timedelta(days=k)\<close> are those of
  \<open>int\<close>. \<open>isoformat\<close> follows \<open>_ord2ymd\<close> of the library.
\<close>

type_synonym date = int

definition days_in_months :: "bool \<Rightarrow> int list" where
  "days_in_months leap = [31, if leap then 29 else 28, 31, 30, 31, 30, 31, 31, 30, 31, 30, 31]"

fun month_day :: "int \<Rightarrow> int list \<Rightarrow> int \<Rightarrow> int \<times> int" where
  "month_day m [] n = (m, n + 1)"
| "month_day m (d # ds) n = (if n < d then (m, n + 1) else month_day (m + 1) ds (n - d))"

definition ord2ymd :: "date \<Rightarrow> int \<times> int \<times> int" where
  "ord2ymd ord =
     (let n = ord - 1; n400 = n div 146097; n = n mod 146097;
          n100 = n div 36524; n = n mod 36524;
          n4 = n div 1461; n = n mod 1461;
          n1 = n div 365; n = n mod 365;
          y = n400 * 400 + 1 + n100 * 100 + n4 * 4 + n1
      in if n1 = 4 \<or> n100 = 4 then (y - 1, 12, 31)
         else (y, month_day 1 (days_in_months (n1 = 3 \<and> (n4 \<noteq> 24 \<or> n100 = 3))) n))"

definition isoformat :: "date \<Rightarrow> string" where
  "isoformat d =
     (case ord2ymd d of (y, m, dd) \<Rightarrow>
        pad_zero 4 (str_int y) @ ''-'' @ pad_zero 2 (str_int m) @ ''-'' @ pad_zero 2 (str_int dd))"

text \<open>
  A \<open>datetime\<close> is its date and its time of day in microseconds; a value that the code types
  \<open>date | datetime\<close> is one or the other.
\<close>

datatype date_or_datetime = Date date | DateTime date nat

text \<open>
  An aware \<open>datetime\<close> in UTC as the microseconds since the first day of the calendar, and its \<open>isoformat()\<close>.
\<close>

definition datetime_iso :: "int \<Rightarrow> string" where
  "datetime_iso t =
     (let day = 86400000000; us = nat (t mod day); seconds = us div 1000000; rest = us mod 1000000
      in isoformat (t div day + 1) @ ''T'' @ pad_zero 2 (str_nat (seconds div 3600)) @ '':'' @
         pad_zero 2 (str_nat (seconds div 60 mod 60)) @ '':'' @ pad_zero 2 (str_nat (seconds mod 60)) @
         (if rest = 0 then '''' else ''.'' @ pad_zero 6 (str_nat rest)) @ ''+00:00'')"

section \<open>Strings\<close>

definition py_space :: "char \<Rightarrow> bool" where
  "py_space c \<longleftrightarrow>
     (let n = of_char c :: nat
      in (9 \<le> n \<and> n \<le> 13) \<or> (28 \<le> n \<and> n \<le> 32) \<or> n = 133 \<or> n = 160)"

definition lstrip :: "string \<Rightarrow> string" where
  "lstrip s = dropWhile py_space s"

definition strip :: "string \<Rightarrow> string" where
  "strip s = rev (lstrip (rev (lstrip s)))"

lemma lstrip_idem [simp]: "lstrip (lstrip s) = lstrip s"
  by (simp add: lstrip_def dropWhile_idem)

lemma lstrip_hd: "lstrip s = c # t \<Longrightarrow> \<not> py_space c"
  unfolding lstrip_def by (metis hd_dropWhile list.distinct(1) list.sel(1))

lemma lstrip_fixed: "s = [] \<or> \<not> py_space (hd s) \<Longrightarrow> lstrip s = s"
  by (cases s) (auto simp: lstrip_def)

lemma lstrip_suffix: "\<exists>p. s = p @ lstrip s"
  unfolding lstrip_def by (metis takeWhile_dropWhile_id)

lemma strip_prefix: "\<exists>q. lstrip s = strip s @ q"
proof -
  obtain p where "rev (lstrip s) = p @ lstrip (rev (lstrip s))"
    using lstrip_suffix by blast
  then have "lstrip s = strip s @ rev p"
    unfolding strip_def by (metis rev_append rev_rev_ident)
  then show ?thesis ..
qed

lemma strip_strip [simp]: "strip (strip s) = strip s"
proof -
  have "lstrip (strip s) = strip s"
  proof (rule lstrip_fixed, cases "strip s")
    case (Cons c t)
    with strip_prefix [of s] obtain q where "lstrip s = c # (t @ q)" by auto
    then have "\<not> py_space c" by (rule lstrip_hd)
    then show "strip s = [] \<or> \<not> py_space (hd (strip s))" by (simp add: Cons)
  qed simp
  then show ?thesis
    unfolding strip_def [of "strip s"] by (simp add: strip_def)
qed

text \<open>\<open>s.casefold()\<close> on ASCII text, and \<open>sub in s\<close>.\<close>

definition ascii_lower :: "char \<Rightarrow> char" where
  "ascii_lower c = (let n = of_char c :: nat in if 65 \<le> n \<and> n \<le> 90 then char_of (n + 32) else c)"

definition casefold :: "string \<Rightarrow> string" where
  "casefold s = map ascii_lower s"

fun is_infix :: "string \<Rightarrow> string \<Rightarrow> bool" where
  "is_infix p [] = (p = [])"
| "is_infix p (c # s) = (take (length p) (c # s) = p \<or> is_infix p s)"

lemma is_infix_iff: "is_infix p s \<longleftrightarrow> (\<exists>a b. s = a @ p @ b)"
proof (induction s)
  case Nil
  show ?case by auto
next
  case (Cons c s)
  have "take (length p) (c # s) = p \<longleftrightarrow> (\<exists>b. c # s = p @ b)"
    by (metis append_eq_conv_conj append_take_drop_id)
  with Cons show ?case
    by (auto simp: Cons_eq_append_conv)
qed

end
