(* ===== verification/Action_Policy.thy ===== *)
theory Action_Policy
  imports Py_Lib
begin

text \<open>
  The lifecycle policy of the CRM action surfaces, \<open>linkedin/crm_action_policy.py\<close>: the facts
  about one opportunity, the placement decision of \<open>place_action\<close> and its helpers. The lemmas
  classify every early return, give the exact condition of daily work, and show that the
  relationship only ages in one direction as \<open>today\<close> advances.
\<close>

section \<open>Data\<close>

definition DAILY_MAX_AGE_DAYS :: int where "DAILY_MAX_AGE_DAYS = 21"
definition RECOVERY_MAX_AGE_DAYS :: int where "RECOVERY_MAX_AGE_DAYS = 60"
definition MEETING_PREP_DAYS :: int where "MEETING_PREP_DAYS = 7"

datatype surface =
    SURFACE_DAILY | SURFACE_RECOVERY | SURFACE_ARCHIVE
  | SURFACE_WAITING | SURFACE_EXCLUDED | SURFACE_NONE

definition TERMINAL_STAGES :: "string list" where
  "TERMINAL_STAGES = [''closed_won'', ''closed_lost'']"

definition OPEN_ACTION_STATUSES :: "string list" where
  "OPEN_ACTION_STATUSES = [''open'', ''waiting'']"

record opportunity_action_facts =
  stage :: string
  last_meaningful_activity_on :: "date option"
  action_status :: string
  action_kind :: string
  due_on :: "date option"
  waiting_until :: "date option"
  needs_response :: bool
  fresh_trigger_on :: "date option"
  upcoming_meeting_on :: "date option"
  unresolved_post_meeting :: bool
  missing_next_action :: bool
  explicit_current_action :: bool
  manual_pin :: bool
  lead_disqualified :: bool
  dont_send :: bool
  failed_non_actionable :: bool
  polite_decline :: bool
  unroutable_action :: bool
  routing_conflict :: bool
  manual_pin_unresolved :: bool
  meeting_prep_has_real_meeting :: bool

text \<open>The facts with every field but the stage at its default.\<close>

definition default_facts :: "string \<Rightarrow> opportunity_action_facts" where
  "default_facts s =
     \<lparr>stage = s, last_meaningful_activity_on = None, action_status = '''', action_kind = '''',
      due_on = None, waiting_until = None, needs_response = False, fresh_trigger_on = None,
      upcoming_meeting_on = None, unresolved_post_meeting = False, missing_next_action = False,
      explicit_current_action = False, manual_pin = False, lead_disqualified = False,
      dont_send = False, failed_non_actionable = False, polite_decline = False,
      unroutable_action = False, routing_conflict = False, manual_pin_unresolved = False,
      meeting_prep_has_real_meeting = False\<rparr>"

record action_placement =
  surface :: surface
  category :: string
  reason :: string
  inactivity_days :: "int option"

definition is_daily :: "action_placement \<Rightarrow> bool" where
  "is_daily p \<longleftrightarrow> surface p = SURFACE_DAILY"

section \<open>Operations\<close>

definition placement :: "surface \<Rightarrow> string \<Rightarrow> string \<Rightarrow> int option \<Rightarrow> action_placement" where
  "placement sf c r a = \<lparr>surface = sf, category = c, reason = r, inactivity_days = a\<rparr>"

definition age_days :: "date option \<Rightarrow> date \<Rightarrow> int option" where
  "age_days activity_on today =
     (case activity_on of None \<Rightarrow> None | Some d \<Rightarrow> Some (max 0 (today - d)))"

definition is_fresh :: "date option \<Rightarrow> date \<Rightarrow> bool" where
  "is_fresh trigger_on today =
     (case trigger_on of
        None \<Rightarrow> False
      | Some d \<Rightarrow> 0 \<le> today - d \<and> today - d \<le> DAILY_MAX_AGE_DAYS)"

definition required_action_category ::
  "opportunity_action_facts \<Rightarrow> bool \<Rightarrow> bool \<Rightarrow> string" where
  "required_action_category facts has_open_action fresh_response =
     (if fresh_response then ''needs_response''
      else if unresolved_post_meeting facts then ''post_meeting_commitment''
      else if missing_next_action facts then ''missing_next_action''
      else if has_open_action then
        (if action_kind facts \<noteq> '''' then action_kind facts else ''next_step'')
      else '''')"

text \<open>
  \<open>place_action\<close> is a sequence of early returns. Each group of them is a function to
  \<open>action_placement option\<close>, \<open>None\<close> when no return of the group is taken; \<open>place_action\<close> tries
  the groups in the order of the source.
\<close>

definition exclusion_return ::
  "opportunity_action_facts \<Rightarrow> int option \<Rightarrow> action_placement option" where
  "exclusion_return facts age =
     (if stage facts \<in> set TERMINAL_STAGES then
        Some (placement SURFACE_EXCLUDED ''terminal'' (stage facts) age)
      else if dont_send facts then
        Some (placement SURFACE_EXCLUDED ''dont_send'' ''do_not_contact'' age)
      else if lead_disqualified facts then
        Some (placement SURFACE_EXCLUDED ''disqualified'' ''lead_disqualified'' age)
      else if failed_non_actionable facts then
        Some (placement SURFACE_EXCLUDED ''failed'' ''non_actionable_failure'' age)
      else if routing_conflict facts then
        Some (placement SURFACE_RECOVERY ''manual_review''
                ''inbound_target_conflicts_with_current_action'' age)
      else if manual_pin_unresolved facts then
        Some (placement SURFACE_RECOVERY ''manual_review'' ''manual_pin_needs_target'' age)
      else if unroutable_action facts then
        Some (placement SURFACE_RECOVERY ''manual_review'' ''unresolved_action_target'' age)
      else if action_kind facts = ''meeting_prep'' \<and> \<not> meeting_prep_has_real_meeting facts then
        Some (placement SURFACE_EXCLUDED ''invalid_meeting'' ''meeting_prep_without_real_meeting'' age)
      else if polite_decline facts then
        Some (placement SURFACE_RECOVERY ''manual_review'' ''polite_decline_needs_human_review'' age)
      else None)"

definition waiting_return ::
  "opportunity_action_facts \<Rightarrow> date \<Rightarrow> int option \<Rightarrow> action_placement option" where
  "waiting_return facts today age =
     (case waiting_until facts of
        Some w \<Rightarrow>
          if today < w
          then Some (placement SURFACE_WAITING ''waiting'' (''waiting_until:'' @ isoformat w) age)
          else None
      | None \<Rightarrow> None)"

definition due_return ::
  "opportunity_action_facts \<Rightarrow> date \<Rightarrow> bool \<Rightarrow> int option \<Rightarrow> action_placement option" where
  "due_return facts today has_open_action age =
     (case due_on facts of
        Some d \<Rightarrow>
          if has_open_action \<and> d < today
          then Some (placement SURFACE_DAILY ''overdue_next_action'' (''due:'' @ isoformat d) age)
          else if has_open_action \<and> d = today
          then Some (placement SURFACE_DAILY ''due_today'' ''due_today'' age)
          else None
      | None \<Rightarrow> None)"

definition waiting_due_return ::
  "opportunity_action_facts \<Rightarrow> date \<Rightarrow> bool \<Rightarrow> int option \<Rightarrow> action_placement option" where
  "waiting_due_return facts today has_open_action age =
     (case waiting_until facts of
        Some w \<Rightarrow>
          if has_open_action \<and> w \<le> today
          then Some (placement SURFACE_DAILY ''waiting_due'' (''waiting_due:'' @ isoformat w) age)
          else None
      | None \<Rightarrow> None)"

definition meeting_return ::
  "opportunity_action_facts \<Rightarrow> date \<Rightarrow> int option \<Rightarrow> action_placement option" where
  "meeting_return facts today age =
     (case upcoming_meeting_on facts of
        Some m \<Rightarrow>
          (let days_to_meeting = m - today
           in if 0 \<le> days_to_meeting \<and> days_to_meeting \<le> MEETING_PREP_DAYS
              then Some (placement SURFACE_DAILY ''meeting_prep''
                     (''meeting_in:'' @ str_int days_to_meeting @ ''_days'') age)
              else if action_kind facts = ''meeting_prep'' \<and> MEETING_PREP_DAYS < days_to_meeting
              then Some (placement SURFACE_WAITING ''meeting_scheduled''
                     (''meeting_in:'' @ str_int days_to_meeting @ ''_days'') age)
              else None)
      | None \<Rightarrow> None)"

definition pin_return ::
  "opportunity_action_facts \<Rightarrow> date \<Rightarrow> bool \<Rightarrow> bool \<Rightarrow> int option \<Rightarrow> action_placement option" where
  "pin_return facts today has_open_action fresh_response age =
     (if fresh_response
      then Some (placement SURFACE_DAILY ''needs_response'' ''fresh_inbound'' age)
      else if manual_pin facts then Some (placement SURFACE_DAILY ''manual_pin'' ''manual_pin'' age)
      else (case due_on facts of
              Some d \<Rightarrow>
                if has_open_action \<and> today < d
                then Some (placement SURFACE_WAITING ''scheduled'' (''due:'' @ isoformat d) age)
                else None
            | None \<Rightarrow> None))"

definition aging_return ::
  "opportunity_action_facts \<Rightarrow> string \<Rightarrow> int option \<Rightarrow> action_placement" where
  "aging_return facts cat age =
     (if cat \<noteq> '''' then
        (if explicit_current_action facts \<and> (case age of None \<Rightarrow> True | Some a \<Rightarrow> a \<le> RECOVERY_MAX_AGE_DAYS)
         then placement SURFACE_DAILY cat ''explicit_current_action'' age
         else if (case age of None \<Rightarrow> True | Some a \<Rightarrow> a \<le> DAILY_MAX_AGE_DAYS)
         then placement SURFACE_DAILY cat ''active_action_required'' age
         else if (case age of None \<Rightarrow> True | Some a \<Rightarrow> a \<le> RECOVERY_MAX_AGE_DAYS)
         then placement SURFACE_RECOVERY cat ''inactive_22_to_60_days'' age
         else placement SURFACE_ARCHIVE cat ''inactive_over_60_days'' age)
      else if (case age of None \<Rightarrow> False | Some a \<Rightarrow> RECOVERY_MAX_AGE_DAYS < a)
      then placement SURFACE_ARCHIVE ''nurture'' ''inactive_over_60_days'' age
      else if (case age of None \<Rightarrow> False | Some a \<Rightarrow> DAILY_MAX_AGE_DAYS < a)
      then placement SURFACE_RECOVERY ''review'' ''inactive_22_to_60_days'' age
      else placement SURFACE_NONE ''none'' ''no_action_required'' age)"

definition place_action :: "opportunity_action_facts \<Rightarrow> date \<Rightarrow> action_placement" where
  "place_action facts today =
     (let age = age_days (last_meaningful_activity_on facts) today;
          has_open_action = (action_status facts \<in> set OPEN_ACTION_STATUSES);
          fresh_response = (needs_response facts \<and> is_fresh (fresh_trigger_on facts) today)
      in case exclusion_return facts age of Some p \<Rightarrow> p | None \<Rightarrow>
        (case waiting_return facts today age of Some p \<Rightarrow> p | None \<Rightarrow>
        (case due_return facts today has_open_action age of Some p \<Rightarrow> p | None \<Rightarrow>
        (case waiting_due_return facts today has_open_action age of Some p \<Rightarrow> p | None \<Rightarrow>
        (case meeting_return facts today age of Some p \<Rightarrow> p | None \<Rightarrow>
        (case pin_return facts today has_open_action fresh_response age of Some p \<Rightarrow> p | None \<Rightarrow>
           aging_return facts (required_action_category facts has_open_action fresh_response) age))))))"

section \<open>Classification of the returns\<close>

lemmas return_defs = exclusion_return_def waiting_return_def due_return_def
  waiting_due_return_def meeting_return_def pin_return_def aging_return_def placement_def

text \<open>The facts that keep an opportunity off every work surface, in the code's precedence.\<close>

definition hard_excluded :: "opportunity_action_facts \<Rightarrow> bool" where
  "hard_excluded f \<longleftrightarrow>
     stage f \<in> set TERMINAL_STAGES \<or> dont_send f \<or> lead_disqualified f \<or> failed_non_actionable f"

definition review_conflict :: "opportunity_action_facts \<Rightarrow> bool" where
  "review_conflict f \<longleftrightarrow> routing_conflict f \<or> manual_pin_unresolved f \<or> unroutable_action f"

definition fictional_meeting :: "opportunity_action_facts \<Rightarrow> bool" where
  "fictional_meeting f \<longleftrightarrow> action_kind f = ''meeting_prep'' \<and> \<not> meeting_prep_has_real_meeting f"

definition excluded :: "opportunity_action_facts \<Rightarrow> bool" where
  "excluded f \<longleftrightarrow> hard_excluded f \<or> (\<not> review_conflict f \<and> fictional_meeting f)"

definition workable :: "opportunity_action_facts \<Rightarrow> bool" where
  "workable f \<longleftrightarrow>
     \<not> hard_excluded f \<and> \<not> review_conflict f \<and> \<not> fictional_meeting f \<and> \<not> polite_decline f"

lemmas class_defs = hard_excluded_def review_conflict_def fictional_meeting_def
  excluded_def workable_def

lemma exclusion_return_None [simp]: "exclusion_return f a = None \<longleftrightarrow> workable f"
  by (simp add: exclusion_return_def class_defs)

lemma exclusion_return_surface:
  "exclusion_return f a = Some p \<Longrightarrow>
     surface p = (if excluded f then SURFACE_EXCLUDED else SURFACE_RECOVERY)"
  by (auto simp: exclusion_return_def class_defs placement_def split: if_splits)

lemma not_excluded_if_workable: "workable f \<Longrightarrow> \<not> excluded f"
  by (auto simp: class_defs)

lemma place_action_unworkable:
  assumes "\<not> workable f"
  shows "surface (place_action f t) = (if excluded f then SURFACE_EXCLUDED else SURFACE_RECOVERY)"
proof -
  from assms obtain p where "exclusion_return f (age_days (last_meaningful_activity_on f) t) = Some p"
    using exclusion_return_None by (metis not_None_eq)
  then show ?thesis
    using exclusion_return_surface by (simp add: place_action_def)
qed

text \<open>A placement of a workable opportunity is the first of the dated returns, or the aging one.\<close>

definition has_open_action :: "opportunity_action_facts \<Rightarrow> bool" where
  "has_open_action f \<longleftrightarrow> action_status f \<in> set OPEN_ACTION_STATUSES"

definition fresh_response :: "opportunity_action_facts \<Rightarrow> date \<Rightarrow> bool" where
  "fresh_response f t \<longleftrightarrow> needs_response f \<and> is_fresh (fresh_trigger_on f) t"

definition inactivity :: "opportunity_action_facts \<Rightarrow> date \<Rightarrow> int option" where
  "inactivity f t = age_days (last_meaningful_activity_on f) t"

definition work_category :: "opportunity_action_facts \<Rightarrow> date \<Rightarrow> string" where
  "work_category f t = required_action_category f (has_open_action f) (fresh_response f t)"

lemma place_action_workable:
  assumes "workable f"
  shows "place_action f t =
     (case waiting_return f t (inactivity f t) of Some p \<Rightarrow> p | None \<Rightarrow>
      (case due_return f t (has_open_action f) (inactivity f t) of Some p \<Rightarrow> p | None \<Rightarrow>
      (case waiting_due_return f t (has_open_action f) (inactivity f t) of Some p \<Rightarrow> p | None \<Rightarrow>
      (case meeting_return f t (inactivity f t) of Some p \<Rightarrow> p | None \<Rightarrow>
      (case pin_return f t (has_open_action f) (fresh_response f t) (inactivity f t) of Some p \<Rightarrow> p
       | None \<Rightarrow> aging_return f (work_category f t) (inactivity f t))))))"
proof -
  have "exclusion_return f (age_days (last_meaningful_activity_on f) t) = None"
    using assms by simp
  then show ?thesis
    by (simp only: place_action_def Let_def option.case inactivity_def work_category_def
        has_open_action_def fresh_response_def)
qed

text \<open>When each of the dated returns is taken, and what it shows.\<close>

definition waits :: "opportunity_action_facts \<Rightarrow> date \<Rightarrow> bool" where
  "waits f t \<longleftrightarrow> (\<exists>w. waiting_until f = Some w \<and> t < w)"

definition due_now :: "opportunity_action_facts \<Rightarrow> date \<Rightarrow> bool" where
  "due_now f t \<longleftrightarrow> has_open_action f \<and>
     ((\<exists>d. due_on f = Some d \<and> d \<le> t) \<or> (\<exists>w. waiting_until f = Some w \<and> w \<le> t))"

definition meeting_days :: "opportunity_action_facts \<Rightarrow> date \<Rightarrow> int option" where
  "meeting_days f t = map_option (\<lambda>m. m - t) (upcoming_meeting_on f)"

definition meeting_soon :: "opportunity_action_facts \<Rightarrow> date \<Rightarrow> bool" where
  "meeting_soon f t \<longleftrightarrow> (\<exists>k. meeting_days f t = Some k \<and> 0 \<le> k \<and> k \<le> MEETING_PREP_DAYS)"

definition meeting_later :: "opportunity_action_facts \<Rightarrow> date \<Rightarrow> bool" where
  "meeting_later f t \<longleftrightarrow>
     action_kind f = ''meeting_prep'' \<and> (\<exists>k. meeting_days f t = Some k \<and> MEETING_PREP_DAYS < k)"

definition scheduled :: "opportunity_action_facts \<Rightarrow> date \<Rightarrow> bool" where
  "scheduled f t \<longleftrightarrow> has_open_action f \<and> (\<exists>d. due_on f = Some d \<and> t < d)"

definition younger :: "int option \<Rightarrow> int \<Rightarrow> bool" where
  "younger a k \<longleftrightarrow> (case a of None \<Rightarrow> True | Some n \<Rightarrow> n \<le> k)"

lemma younger_simps [simp]: "younger None k" "younger (Some n) k \<longleftrightarrow> n \<le> k"
  by (simp_all add: younger_def)

definition active_work :: "opportunity_action_facts \<Rightarrow> date \<Rightarrow> bool" where
  "active_work f t \<longleftrightarrow> work_category f t \<noteq> '''' \<and>
     (younger (inactivity f t) DAILY_MAX_AGE_DAYS \<or>
      explicit_current_action f \<and> younger (inactivity f t) RECOVERY_MAX_AGE_DAYS)"

lemmas dated_defs = waits_def due_now_def meeting_soon_def meeting_later_def scheduled_def
  meeting_days_def

lemma waiting_return_surface:
  "surface (case waiting_return f t a of None \<Rightarrow> q | Some p \<Rightarrow> p) =
     (if waits f t then SURFACE_WAITING else surface q)"
  by (auto simp: waiting_return_def waits_def placement_def split: option.splits)

lemma due_returns_surface:
  "surface (case due_return f t (has_open_action f) a of
       None \<Rightarrow> (case waiting_due_return f t (has_open_action f) b of None \<Rightarrow> q | Some p \<Rightarrow> p)
     | Some p \<Rightarrow> p) =
     (if due_now f t then SURFACE_DAILY else surface q)"
  by (auto simp: due_return_def waiting_due_return_def due_now_def placement_def
      split: option.splits)

lemma meeting_return_surface:
  "surface (case meeting_return f t a of None \<Rightarrow> q | Some p \<Rightarrow> p) =
     (if meeting_soon f t then SURFACE_DAILY
      else if meeting_later f t then SURFACE_WAITING else surface q)"
  by (auto simp: meeting_return_def dated_defs placement_def Let_def split: option.splits)

lemma pin_return_surface:
  "surface (case pin_return f t (has_open_action f) r a of None \<Rightarrow> q | Some p \<Rightarrow> p) =
     (if r \<or> manual_pin f then SURFACE_DAILY
      else if scheduled f t then SURFACE_WAITING else surface q)"
  by (auto simp: pin_return_def scheduled_def placement_def split: option.splits)

definition aging_surface :: "opportunity_action_facts \<Rightarrow> date \<Rightarrow> surface" where
  "aging_surface f t =
     (if active_work f t then SURFACE_DAILY
      else if \<not> younger (inactivity f t) RECOVERY_MAX_AGE_DAYS then SURFACE_ARCHIVE
      else if \<not> younger (inactivity f t) DAILY_MAX_AGE_DAYS then SURFACE_RECOVERY
      else SURFACE_NONE)"

lemma aging_return_surface:
  "surface (aging_return f (work_category f t) (inactivity f t)) = aging_surface f t"
  by (auto simp: aging_return_def aging_surface_def active_work_def placement_def
      DAILY_MAX_AGE_DAYS_def RECOVERY_MAX_AGE_DAYS_def split: option.splits)

text \<open>The surface of a workable opportunity as one decision ladder.\<close>

definition surface_ladder :: "opportunity_action_facts \<Rightarrow> date \<Rightarrow> surface" where
  "surface_ladder f t =
     (if waits f t then SURFACE_WAITING
      else if due_now f t \<or> meeting_soon f t then SURFACE_DAILY
      else if meeting_later f t then SURFACE_WAITING
      else if fresh_response f t \<or> manual_pin f then SURFACE_DAILY
      else if scheduled f t then SURFACE_WAITING
      else aging_surface f t)"

lemma place_action_ladder:
  assumes "workable f"
  shows "surface (place_action f t) = surface_ladder f t"
  by (simp add: place_action_workable [OF assms] waiting_return_surface due_returns_surface
      meeting_return_surface pin_return_surface aging_return_surface surface_ladder_def)

section \<open>Properties\<close>

text \<open>The ladder never excludes, and it is daily exactly on its daily rungs.\<close>

lemma surface_ladder_not_excluded: "surface_ladder f t \<noteq> SURFACE_EXCLUDED"
  by (simp add: surface_ladder_def aging_surface_def)

lemma surface_ladder_daily:
  "surface_ladder f t = SURFACE_DAILY \<longleftrightarrow>
     \<not> waits f t \<and>
     (due_now f t \<or> meeting_soon f t \<or>
      \<not> meeting_later f t \<and>
      (fresh_response f t \<or> manual_pin f \<or> \<not> scheduled f t \<and> active_work f t))"
  by (simp add: surface_ladder_def aging_surface_def)

text \<open>
  An opportunity is excluded from every work surface exactly when it is terminal, must not be
  contacted, is disqualified or has a non-actionable failure, or when it prepares a meeting that
  does not exist and no unresolved routing question sends it to manual review first.
\<close>

theorem place_action_excluded:
  "surface (place_action f t) = SURFACE_EXCLUDED \<longleftrightarrow> excluded f"
  by (cases "workable f")
    (simp_all add: place_action_ladder surface_ladder_not_excluded not_excluded_if_workable
      place_action_unworkable)

text \<open>
  The daily surface shows an opportunity exactly when it is workable (neither excluded, nor in
  manual review, nor politely declined), no human-chosen waiting date lies ahead, and either work
  is due, a real meeting is within the preparation window, or, when no later meeting is being
  prepared, there is a fresh inbound, a manual pin, or unscheduled active work that is not too old.
\<close>

theorem place_action_daily:
  "is_daily (place_action f t) \<longleftrightarrow>
     workable f \<and> \<not> waits f t \<and>
     (due_now f t \<or> meeting_soon f t \<or>
      \<not> meeting_later f t \<and>
      (fresh_response f t \<or> manual_pin f \<or> \<not> scheduled f t \<and> active_work f t))"
  by (cases "workable f")
    (simp_all add: is_daily_def place_action_ladder surface_ladder_daily place_action_unworkable)

text \<open>Aging: the facts that no date, pin or reply overrides.\<close>

definition undated :: "opportunity_action_facts \<Rightarrow> bool" where
  "undated f \<longleftrightarrow> due_on f = None \<and> waiting_until f = None \<and> upcoming_meeting_on f = None \<and>
     \<not> manual_pin f \<and> \<not> needs_response f"

fun age_rank :: "surface \<Rightarrow> nat" where
  "age_rank SURFACE_DAILY = 0"
| "age_rank SURFACE_WAITING = 0"
| "age_rank SURFACE_NONE = 0"
| "age_rank SURFACE_RECOVERY = 1"
| "age_rank SURFACE_ARCHIVE = 2"
| "age_rank SURFACE_EXCLUDED = 3"

lemma undated_ladder: "undated f \<Longrightarrow> surface_ladder f t = aging_surface f t"
  by (simp add: surface_ladder_def undated_def dated_defs fresh_response_def)

lemma undated_category: "undated f \<Longrightarrow> work_category f t = work_category f t'"
  by (simp add: work_category_def fresh_response_def undated_def)

lemma younger_antimono: "t \<le> t' \<Longrightarrow> younger (inactivity f t') k \<Longrightarrow> younger (inactivity f t) k"
  by (auto simp: inactivity_def age_days_def split: option.splits)

lemma younger_mono: "younger a j \<Longrightarrow> j \<le> k \<Longrightarrow> younger a k"
  by (auto simp: younger_def split: option.splits)

lemma aging_surface_mono:
  assumes "undated f" and "t \<le> t'"
  shows "age_rank (aging_surface f t) \<le> age_rank (aging_surface f t')"
proof -
  have le: "DAILY_MAX_AGE_DAYS \<le> RECOVERY_MAX_AGE_DAYS"
    by (simp add: DAILY_MAX_AGE_DAYS_def RECOVERY_MAX_AGE_DAYS_def)
  have active: "active_work f t' \<Longrightarrow> active_work f t"
    using undated_category [OF assms(1)] younger_antimono [OF assms(2)]
    by (auto simp: active_work_def) metis+
  show ?thesis
    using active younger_antimono [OF assms(2), of f] younger_mono [OF _ le]
    by (auto simp: aging_surface_def active_work_def)
qed

text \<open>
  With no date, pin or reply in play, letting time pass moves an opportunity from daily work
  to recovery and then to the archive and never back.
\<close>

theorem place_action_ages:
  assumes "undated f" and "t \<le> t'"
  shows "age_rank (surface (place_action f t)) \<le> age_rank (surface (place_action f t'))"
proof (cases "workable f")
  case True
  then show ?thesis
    using aging_surface_mono [OF assms] by (simp add: place_action_ladder undated_ladder assms(1))
next
  case False
  then show ?thesis by (simp add: place_action_unworkable)
qed

definition sample_facts :: opportunity_action_facts where
  "sample_facts = (default_facts ''qualified'')
     \<lparr>last_meaningful_activity_on := Some 738000, action_status := ''open''\<rparr>"

theorem place_action_ages_witness:
  "age_rank (surface (place_action sample_facts 738010)) \<le>
     age_rank (surface (place_action sample_facts 738070)) \<and>
   surface (place_action sample_facts 738010) = SURFACE_DAILY \<and>
   surface (place_action sample_facts 738070) = SURFACE_ARCHIVE"
proof -
  have u: "undated sample_facts"
    by (simp add: undated_def sample_facts_def default_facts_def)
  have w: "workable sample_facts"
    by (simp add: class_defs sample_facts_def default_facts_def TERMINAL_STAGES_def)
  have s: "surface (place_action sample_facts 738010) = SURFACE_DAILY"
    "surface (place_action sample_facts 738070) = SURFACE_ARCHIVE"
    unfolding place_action_ladder [OF w] undated_ladder [OF u]
    by (simp_all add: aging_surface_def active_work_def inactivity_def age_days_def work_category_def required_action_category_def
        fresh_response_def has_open_action_def OPEN_ACTION_STATUSES_def sample_facts_def
        default_facts_def DAILY_MAX_AGE_DAYS_def RECOVERY_MAX_AGE_DAYS_def)
  show ?thesis
    using place_action_ages [OF u, of 738010 738070] s by simp
qed

text \<open>
  A workable opportunity with no date, pin or reply in play is archived on every day more than
  sixty days after its last meaningful activity, whatever action is still left open on it.
\<close>

theorem place_action_archives:
  assumes "workable f" and "undated f"
    and "last_meaningful_activity_on f = Some d" and "d + RECOVERY_MAX_AGE_DAYS < t"
  shows "surface (place_action f t) = SURFACE_ARCHIVE"
proof -
  have "inactivity f t = Some (max 0 (t - d))"
    using assms(3) by (simp add: inactivity_def age_days_def)
  with assms(4) show ?thesis
    by (auto simp: place_action_ladder [OF assms(1)] undated_ladder [OF assms(2)] aging_surface_def
        active_work_def DAILY_MAX_AGE_DAYS_def RECOVERY_MAX_AGE_DAYS_def)
qed

theorem place_action_archives_witness:
  "surface (place_action (sample_facts\<lparr>explicit_current_action := True\<rparr>) 738061) = SURFACE_ARCHIVE"
  by (rule place_action_archives [where d = 738000])
    (simp_all add: class_defs undated_def sample_facts_def default_facts_def TERMINAL_STAGES_def
      RECOVERY_MAX_AGE_DAYS_def)

end
