(* ===== verification/Account_Policy.thy ===== *)
theory Account_Policy
  imports Action_Policy
begin

text \<open>
  The account-first admission and reminder policy of the sales CRM, \<open>linkedin/crm_v2_policy.py\<close>:
  the resolved evidence of one account with the checks of its constructors, the candidate lists
  of \<open>_qualifying_candidates\<close> and \<open>_diagnostic_candidates\<close>, the reminder ladder and
  \<open>evaluate_account\<close>. The lemmas characterise admission, show that the outreach flag is
  separate from it, that LinkedIn evidence never creates a reminder, and how reminders are dated.
\<close>

section \<open>Data\<close>

definition COMPLETED_MEETING_ADMISSION_MAX_AGE_DAYS :: int where
  "COMPLETED_MEETING_ADMISSION_MAX_AGE_DAYS = 180"
definition GMAIL_ADMISSION_MAX_AGE_DAYS :: int where "GMAIL_ADMISSION_MAX_AGE_DAYS = 120"
definition LINKEDIN_ADMISSION_MAX_AGE_DAYS :: int where "LINKEDIN_ADMISSION_MAX_AGE_DAYS = 90"
definition COMPLETED_MEETING_ACTION_MAX_AGE_DAYS :: int where
  "COMPLETED_MEETING_ACTION_MAX_AGE_DAYS = 30"
definition GMAIL_ACTION_MAX_AGE_DAYS :: int where "GMAIL_ACTION_MAX_AGE_DAYS = 30"

lemmas age_limits = COMPLETED_MEETING_ADMISSION_MAX_AGE_DAYS_def GMAIL_ADMISSION_MAX_AGE_DAYS_def
  LINKEDIN_ADMISSION_MAX_AGE_DAYS_def COMPLETED_MEETING_ACTION_MAX_AGE_DAYS_def
  GMAIL_ACTION_MAX_AGE_DAYS_def MEETING_PREP_DAYS_def

datatype admission_status = ACTIVE_ACCOUNT | PEOPLE_ONLY

datatype evidence_tier = AUTHORITATIVE | PRIMARY | SECONDARY | WEAK | NO_TIER

datatype priority = URGENT | HIGH | NORMAL | LOW | NO_PRIORITY

datatype admission_reason_code =
    MANUAL_PIN | SALES_MOTION_ACTIVE | HUMAN_MANAGED_OPPORTUNITY | HUMAN_CURRENT_ACTION
  | UPCOMING_EXTERNAL_MEETING | RECENT_COMPLETED_EXTERNAL_MEETING
  | RECENT_GMAIL_BIDIRECTIONAL_THREAD | RECENT_GMAIL_HUMAN_INBOUND
  | RECENT_LINKEDIN_SUBSTANTIVE_BIDIRECTIONAL
  | STALE_EXTERNAL_MEETING | STALE_GMAIL_HUMAN_ENGAGEMENT
  | STALE_LINKEDIN_SUBSTANTIVE_BIDIRECTIONAL
  | GMAIL_ACKNOWLEDGEMENT_ONLY | GMAIL_POLITE_DECLINE_ONLY | GMAIL_AUTOMATED_ONLY
  | GMAIL_OUTBOUND_ONLY | LINKEDIN_ACKNOWLEDGEMENT_ONLY | LINKEDIN_POLITE_DECLINE_ONLY
  | LINKEDIN_AUTOMATED_ONLY | LINKEDIN_CONNECTION_EVENT_ONLY | LINKEDIN_NOT_BIDIRECTIONAL
  | LINKEDIN_OUTBOUND_ONLY | NO_QUALIFYING_EVIDENCE

datatype policy_flag = DO_NOT_OUTREACH

datatype reminder_state =
    NO_REMINDER | WAITING | OVERDUE_NEXT_ACTION | DUE_TODAY | NEEDS_RESPONSE | MEETING_PREP
  | POST_MEETING_FOLLOWUP | FOLLOW_UP_DUE | REVIEW | SCHEDULED_NEXT_ACTION | DEFINE_NEXT_STEP

datatype reminder_reason_code =
    ACCOUNT_NOT_ACTIVE | WAITING_UNTIL | NEXT_ACTION_OVERDUE | NEXT_ACTION_DUE_TODAY
  | UNANSWERED_GMAIL_HUMAN_INBOUND | UNANSWERED_LINKEDIN_SUBSTANTIVE_INBOUND
  | EXTERNAL_MEETING_IN_PREP_WINDOW | EXTERNAL_MEETING_OUTSIDE_PREP_WINDOW
  | POST_MEETING_FOLLOWUP_REQUIRED | WAITING_FOR_GMAIL_REPLY | GMAIL_FOLLOW_UP_DUE
  | WAITING_FOR_LINKEDIN_REPLY | LINKEDIN_FOLLOW_UP_DUE | OLD_GMAIL_CONVERSATION_REVIEW
  | OLD_LINKEDIN_CONVERSATION_REVIEW | OLD_MEETING_FOLLOWUP_REVIEW | NEXT_ACTION_SCHEDULED
  | ACTIVE_ACCOUNT_MISSING_NEXT_STEP

datatype policy_error = ValueError string | IndexError | KeyError

record conversation_evidence =
  human_inbound_count :: int
  substantive_inbound_count :: int
  acknowledgement_inbound_count :: int
  polite_decline_inbound_count :: int
  automated_inbound_count :: int
  connection_event_count :: int
  outbound_count :: int
  bidirectional_thread_count :: "int option"
  latest_human_inbound_on :: "date_or_datetime option"
  latest_substantive_inbound_on :: "date_or_datetime option"
  latest_outbound_on :: "date_or_datetime option"

definition no_evidence :: conversation_evidence where
  "no_evidence =
     \<lparr>human_inbound_count = 0, substantive_inbound_count = 0, acknowledgement_inbound_count = 0,
      polite_decline_inbound_count = 0, automated_inbound_count = 0, connection_event_count = 0,
      outbound_count = 0, bidirectional_thread_count = None, latest_human_inbound_on = None,
      latest_substantive_inbound_on = None, latest_outbound_on = None\<rparr>"

record account_policy_facts =
  account_key :: string
  manual_pin :: bool
  sales_motion_active :: bool
  human_managed_opportunity :: bool
  human_current_action :: bool
  do_not_outreach :: bool
  upcoming_external_meeting_on :: "date option"
  latest_completed_external_meeting_on :: "date option"
  gmail :: conversation_evidence
  linkedin :: conversation_evidence
  next_action_due_on :: "date option"
  waiting_until :: "date option"
  post_meeting_followup_required :: bool

record reminder_recommendation =
  reminder_state :: reminder_state
  reason_code :: reminder_reason_code
  should_create_reminder :: bool
  reminder_due_on :: "date option"
  reminder_priority :: priority
  reminder_outreach_allowed :: bool

record evidence_candidate =
  candidate_reason :: admission_reason_code
  candidate_tier :: evidence_tier
  confidence :: int
  observed_on :: "date_or_datetime option"

record account_policy_decision =
  decision_account_key :: string
  admission :: admission_status
  primary_reason_code :: admission_reason_code
  reason_codes :: "admission_reason_code list"
  decision_tier :: evidence_tier
  confidence_score :: int
  decision_priority :: priority
  automated_outreach_allowed :: bool
  flags :: "policy_flag list"
  reminder :: reminder_recommendation

definition admitted :: "account_policy_decision \<Rightarrow> bool" where
  "admitted d \<longleftrightarrow> admission d = ACTIVE_ACCOUNT"

definition QUALIFYING_REASON_ORDER :: "admission_reason_code list" where
  "QUALIFYING_REASON_ORDER =
     [MANUAL_PIN, SALES_MOTION_ACTIVE, HUMAN_MANAGED_OPPORTUNITY, HUMAN_CURRENT_ACTION,
      UPCOMING_EXTERNAL_MEETING, RECENT_COMPLETED_EXTERNAL_MEETING,
      RECENT_GMAIL_BIDIRECTIONAL_THREAD, RECENT_GMAIL_HUMAN_INBOUND,
      RECENT_LINKEDIN_SUBSTANTIVE_BIDIRECTIONAL]"

definition DIAGNOSTIC_REASON_ORDER :: "admission_reason_code list" where
  "DIAGNOSTIC_REASON_ORDER =
     [STALE_EXTERNAL_MEETING, STALE_GMAIL_HUMAN_ENGAGEMENT,
      STALE_LINKEDIN_SUBSTANTIVE_BIDIRECTIONAL, GMAIL_ACKNOWLEDGEMENT_ONLY,
      GMAIL_POLITE_DECLINE_ONLY, GMAIL_AUTOMATED_ONLY, GMAIL_OUTBOUND_ONLY,
      LINKEDIN_ACKNOWLEDGEMENT_ONLY, LINKEDIN_POLITE_DECLINE_ONLY, LINKEDIN_AUTOMATED_ONLY,
      LINKEDIN_CONNECTION_EVENT_ONLY, LINKEDIN_NOT_BIDIRECTIONAL, LINKEDIN_OUTBOUND_ONLY,
      NO_QUALIFYING_EVIDENCE]"

section \<open>The checks of the evidence constructors\<close>

definition py_repr_names :: "string list \<Rightarrow> string" where
  "py_repr_names ns = ''['' @
     concat (map (\<lambda>(i, n). (if i = 0 then '''' else '', '') @ [char_of (39::nat)] @ n @ [char_of (39::nat)])
       (enumerate 0 ns)) @ '']''"

definition evidence_post_init ::
  "conversation_evidence \<Rightarrow> (policy_error, conversation_evidence) result" where
  "evidence_post_init e =
     (let counts =
            [(''human_inbound_count'', human_inbound_count e),
             (''substantive_inbound_count'', substantive_inbound_count e),
             (''acknowledgement_inbound_count'', acknowledgement_inbound_count e),
             (''polite_decline_inbound_count'', polite_decline_inbound_count e),
             (''automated_inbound_count'', automated_inbound_count e),
             (''connection_event_count'', connection_event_count e),
             (''outbound_count'', outbound_count e)];
          negative = map fst (filter (\<lambda>(n, v). v < 0) counts);
          classified_human = substantive_inbound_count e + acknowledgement_inbound_count e
            + polite_decline_inbound_count e
      in if negative \<noteq> [] then
           Inl (ValueError (''Conversation counts cannot be negative: '' @ py_repr_names negative))
         else if (case bidirectional_thread_count e of None \<Rightarrow> False | Some n \<Rightarrow> n < 0) then
           Inl (ValueError ''bidirectional_thread_count cannot be negative'')
         else if human_inbound_count e < classified_human then
           Inl (ValueError ''Substantive, acknowledgement, and decline counts must be non-overlapping subsets of human_inbound_count.'')
         else if human_inbound_count e \<noteq> 0 \<and> latest_human_inbound_on e = None then
           Inl (ValueError ''latest_human_inbound_on is required when human inbound exists.'')
         else if substantive_inbound_count e \<noteq> 0 \<and> latest_substantive_inbound_on e = None then
           Inl (ValueError ''latest_substantive_inbound_on is required when substantive inbound exists.'')
         else if outbound_count e \<noteq> 0 \<and> latest_outbound_on e = None then
           Inl (ValueError ''latest_outbound_on is required when outbound messages exist.'')
         else Inr e)"

definition facts_post_init ::
  "account_policy_facts \<Rightarrow> (policy_error, account_policy_facts) result" where
  "facts_post_init f =
     (if strip (account_key f) = '''' then
        Inl (ValueError ''account_key must be a non-empty stable account identity.'')
      else Inr f)"

definition real_human_inbound_count :: "conversation_evidence \<Rightarrow> int" where
  "real_human_inbound_count e = human_inbound_count e
     - (acknowledgement_inbound_count e + polite_decline_inbound_count e)"

definition is_bidirectional :: "conversation_evidence \<Rightarrow> bool" where
  "is_bidirectional e =
     (case bidirectional_thread_count e of
        Some n \<Rightarrow> 0 < n
      | None \<Rightarrow> 0 < real_human_inbound_count e \<and> 0 < outbound_count e)"

definition is_substantive_bidirectional :: "conversation_evidence \<Rightarrow> bool" where
  "is_substantive_bidirectional e =
     (case bidirectional_thread_count e of
        Some n \<Rightarrow> 0 < n \<and> 0 < substantive_inbound_count e
      | None \<Rightarrow> 0 < substantive_inbound_count e \<and> 0 < outbound_count e)"

definition is_acknowledgement_only :: "conversation_evidence \<Rightarrow> bool" where
  "is_acknowledgement_only e \<longleftrightarrow> 0 < human_inbound_count e \<and>
     acknowledgement_inbound_count e = human_inbound_count e"

definition is_decline_only :: "conversation_evidence \<Rightarrow> bool" where
  "is_decline_only e \<longleftrightarrow> 0 < human_inbound_count e \<and>
     polite_decline_inbound_count e = human_inbound_count e"

section \<open>Event dates\<close>

fun event_date :: "date_or_datetime \<Rightarrow> date" where
  "event_date (Date d) = d"
| "event_date (DateTime d us) = d"

fun event_order_key :: "date_or_datetime \<Rightarrow> int \<times> int" where
  "event_order_key (DateTime d us) = (d, int (us div 1000000))"
| "event_order_key (Date d) = (d, 0)"

definition is_later :: "date_or_datetime \<Rightarrow> date_or_datetime \<Rightarrow> bool" where
  "is_later l r =
     (case (event_order_key l, event_order_key r) of
        ((a, b), (c, d)) \<Rightarrow> c < a \<or> c = a \<and> d < b)"

definition is_recent :: "date_or_datetime option \<Rightarrow> date \<Rightarrow> int \<Rightarrow> bool" where
  "is_recent observed today max_age_days =
     (case observed of
        None \<Rightarrow> False
      | Some v \<Rightarrow> 0 \<le> today - event_date v \<and> today - event_date v \<le> max_age_days)"

section \<open>Candidates\<close>

definition candidate ::
  "admission_reason_code \<Rightarrow> evidence_tier \<Rightarrow> int \<Rightarrow> date_or_datetime option \<Rightarrow> evidence_candidate" where
  "candidate r t c ob =
     \<lparr>candidate_reason = r, candidate_tier = t, confidence = c, observed_on = ob\<rparr>"

definition weak :: "admission_reason_code \<Rightarrow> evidence_candidate" where
  "weak r = candidate r WEAK 5 None"

definition when_true :: "bool \<Rightarrow> 'a \<Rightarrow> 'a list" where
  "when_true b x = (if b then [x] else [])"

definition qualifying_candidates :: "account_policy_facts \<Rightarrow> date \<Rightarrow> evidence_candidate list" where
  "qualifying_candidates facts today =
     when_true (manual_pin facts) (candidate MANUAL_PIN AUTHORITATIVE 100 None) @
     when_true (sales_motion_active facts)
       (candidate SALES_MOTION_ACTIVE AUTHORITATIVE 100 None) @
     when_true (human_managed_opportunity facts)
       (candidate HUMAN_MANAGED_OPPORTUNITY AUTHORITATIVE 100 None) @
     when_true (human_current_action facts)
       (candidate HUMAN_CURRENT_ACTION AUTHORITATIVE 100 None) @
     when_true (upcoming_external_meeting_on facts \<noteq> None)
       (candidate UPCOMING_EXTERNAL_MEETING PRIMARY 98
          (map_option Date (upcoming_external_meeting_on facts))) @
     when_true (is_recent (map_option Date (latest_completed_external_meeting_on facts)) today
                  COMPLETED_MEETING_ADMISSION_MAX_AGE_DAYS)
       (candidate RECENT_COMPLETED_EXTERNAL_MEETING PRIMARY 95
          (map_option Date (latest_completed_external_meeting_on facts))) @
     (let g = gmail facts in
        when_true (0 < real_human_inbound_count g \<and>
                   is_recent (latest_human_inbound_on g) today GMAIL_ADMISSION_MAX_AGE_DAYS)
          (candidate
             (if is_bidirectional g then RECENT_GMAIL_BIDIRECTIONAL_THREAD
              else RECENT_GMAIL_HUMAN_INBOUND)
             PRIMARY (if is_bidirectional g then 93 else 90) (latest_human_inbound_on g))) @
     (let l = linkedin facts in
        when_true (is_substantive_bidirectional l \<and>
                   is_recent (latest_substantive_inbound_on l) today LINKEDIN_ADMISSION_MAX_AGE_DAYS)
          (candidate RECENT_LINKEDIN_SUBSTANTIVE_BIDIRECTIONAL SECONDARY 72
             (latest_substantive_inbound_on l)))"

definition meeting_diagnostic :: "date option \<Rightarrow> date \<Rightarrow> evidence_candidate list" where
  "meeting_diagnostic m today =
     when_true (m \<noteq> None \<and>
         \<not> is_recent (map_option Date m) today COMPLETED_MEETING_ADMISSION_MAX_AGE_DAYS)
       (candidate STALE_EXTERNAL_MEETING PRIMARY 35 (map_option Date m))"

definition gmail_diagnostic :: "conversation_evidence \<Rightarrow> date \<Rightarrow> evidence_candidate list" where
  "gmail_diagnostic g today =
     (if 0 < real_human_inbound_count g then
        when_true (\<not> is_recent (latest_human_inbound_on g) today GMAIL_ADMISSION_MAX_AGE_DAYS)
          (candidate STALE_GMAIL_HUMAN_ENGAGEMENT PRIMARY 35 (latest_human_inbound_on g))
      else if is_acknowledgement_only g then [weak GMAIL_ACKNOWLEDGEMENT_ONLY]
      else if is_decline_only g then [weak GMAIL_POLITE_DECLINE_ONLY]
      else if automated_inbound_count g \<noteq> 0 then [weak GMAIL_AUTOMATED_ONLY]
      else if outbound_count g \<noteq> 0 then [weak GMAIL_OUTBOUND_ONLY]
      else [])"

definition linkedin_diagnostic :: "conversation_evidence \<Rightarrow> date \<Rightarrow> evidence_candidate list" where
  "linkedin_diagnostic l today =
     (if is_substantive_bidirectional l then
        when_true (\<not> is_recent (latest_substantive_inbound_on l) today
                     LINKEDIN_ADMISSION_MAX_AGE_DAYS)
          (candidate STALE_LINKEDIN_SUBSTANTIVE_BIDIRECTIONAL SECONDARY 20
             (latest_substantive_inbound_on l))
      else if is_acknowledgement_only l then [weak LINKEDIN_ACKNOWLEDGEMENT_ONLY]
      else if is_decline_only l then [weak LINKEDIN_POLITE_DECLINE_ONLY]
      else if automated_inbound_count l \<noteq> 0 then [weak LINKEDIN_AUTOMATED_ONLY]
      else if connection_event_count l \<noteq> 0 then [weak LINKEDIN_CONNECTION_EVENT_ONLY]
      else if substantive_inbound_count l \<noteq> 0 then [weak LINKEDIN_NOT_BIDIRECTIONAL]
      else if outbound_count l \<noteq> 0 then [weak LINKEDIN_OUTBOUND_ONLY]
      else [])"

definition diagnostic_candidates :: "account_policy_facts \<Rightarrow> date \<Rightarrow> evidence_candidate list" where
  "diagnostic_candidates facts today =
     (let candidates =
            meeting_diagnostic (latest_completed_external_meeting_on facts) today @
            gmail_diagnostic (gmail facts) today @ linkedin_diagnostic (linkedin facts) today
      in if candidates = [] then [candidate NO_QUALIFYING_EVIDENCE NO_TIER 0 None]
         else candidates)"

section \<open>Reminders\<close>

definition make_reminder ::
  "reminder_state \<Rightarrow> reminder_reason_code \<Rightarrow> priority \<Rightarrow> bool \<Rightarrow> date option \<Rightarrow> reminder_recommendation" where
  "make_reminder st r p allowed due =
     \<lparr>reminder_state = st, reason_code = r,
      should_create_reminder = (st \<notin> {NO_REMINDER, WAITING, REVIEW}),
      reminder_due_on = due, reminder_priority = p, reminder_outreach_allowed = allowed\<rparr>"

definition conversation_reminder ::
  "conversation_evidence \<Rightarrow> date \<Rightarrow> string \<Rightarrow> bool
     \<Rightarrow> (date_or_datetime \<times> string \<times> reminder_recommendation) option" where
  "conversation_reminder evidence today src allowed =
     (if src \<noteq> ''gmail'' \<or> substantive_inbound_count evidence \<le> 0 then None
      else case latest_substantive_inbound_on evidence of
        None \<Rightarrow> None
      | Some inbound \<Rightarrow>
         (let inbound_is_latest =
                (case latest_outbound_on evidence of None \<Rightarrow> True | Some ob \<Rightarrow> is_later inbound ob);
              event = (case latest_outbound_on evidence of
                         None \<Rightarrow> inbound | Some ob \<Rightarrow> if inbound_is_latest then inbound else ob)
          in if GMAIL_ACTION_MAX_AGE_DAYS < today - event_date event then
               Some (event, src, make_reminder REVIEW OLD_GMAIL_CONVERSATION_REVIEW LOW allowed None)
             else if inbound_is_latest then
               Some (event, src,
                 make_reminder NEEDS_RESPONSE UNANSWERED_GMAIL_HUMAN_INBOUND URGENT allowed (Some today))
             else (let due = event_date event + 4
                   in if due \<le> today then
                        Some (event, src, make_reminder FOLLOW_UP_DUE GMAIL_FOLLOW_UP_DUE HIGH allowed (Some due))
                      else
                        Some (event, src, make_reminder WAITING WAITING_FOR_GMAIL_REPLY LOW allowed (Some due)))))"

definition latest_conversation_reminder ::
  "conversation_evidence \<Rightarrow> date \<Rightarrow> bool \<Rightarrow> reminder_recommendation option" where
  "latest_conversation_reminder g today allowed =
     map_option (\<lambda>(_, _, r). r) (conversation_reminder g today ''gmail'' allowed)"

definition meeting_reminder :: "date \<Rightarrow> date \<Rightarrow> bool \<Rightarrow> reminder_recommendation" where
  "meeting_reminder meeting_on today allowed =
     (if meeting_on - today \<le> Action_Policy.MEETING_PREP_DAYS
      then make_reminder MEETING_PREP EXTERNAL_MEETING_IN_PREP_WINDOW HIGH allowed (Some today)
      else make_reminder WAITING EXTERNAL_MEETING_OUTSIDE_PREP_WINDOW LOW allowed
             (Some (meeting_on - Action_Policy.MEETING_PREP_DAYS)))"

definition post_meeting_reminder ::
  "date option \<Rightarrow> date \<Rightarrow> bool \<Rightarrow> reminder_recommendation" where
  "post_meeting_reminder meeting_on today allowed =
     (if (case meeting_on of None \<Rightarrow> False
          | Some m \<Rightarrow> today - m \<le> COMPLETED_MEETING_ACTION_MAX_AGE_DAYS)
      then make_reminder POST_MEETING_FOLLOWUP POST_MEETING_FOLLOWUP_REQUIRED HIGH allowed (Some today)
      else make_reminder REVIEW OLD_MEETING_FOLLOWUP_REVIEW LOW allowed None)"

definition earlier_wait :: "reminder_recommendation option \<Rightarrow> reminder_recommendation \<Rightarrow> bool" where
  "earlier_wait c m =
     (case c of
        None \<Rightarrow> False
      | Some r \<Rightarrow> reminder_state r = WAITING \<and>
          (case (reminder_due_on r, reminder_due_on m) of
             (Some a, Some b) \<Rightarrow> a < b
           | _ \<Rightarrow> False))"

definition recommend_reminder ::
  "account_policy_facts \<Rightarrow> date \<Rightarrow> bool \<Rightarrow> evidence_tier \<Rightarrow> reminder_recommendation" where
  "recommend_reminder facts today is_admitted tier =
     (let allowed = (\<not> do_not_outreach facts);
          conversation = latest_conversation_reminder (gmail facts) today allowed
      in if \<not> is_admitted then make_reminder NO_REMINDER ACCOUNT_NOT_ACTIVE NO_PRIORITY allowed None
         else if (case waiting_until facts of None \<Rightarrow> False | Some w \<Rightarrow> today < w) then
           make_reminder WAITING WAITING_UNTIL LOW allowed (waiting_until facts)
         else if (case next_action_due_on facts of None \<Rightarrow> False | Some d \<Rightarrow> d < today) then
           make_reminder OVERDUE_NEXT_ACTION NEXT_ACTION_OVERDUE URGENT allowed (next_action_due_on facts)
         else if next_action_due_on facts = Some today then
           make_reminder DUE_TODAY NEXT_ACTION_DUE_TODAY HIGH allowed (Some today)
         else if (case conversation of None \<Rightarrow> False
                  | Some c \<Rightarrow> reminder_state c \<in> {NEEDS_RESPONSE, FOLLOW_UP_DUE}) then
           the conversation
         else case upcoming_external_meeting_on facts of
           Some m \<Rightarrow>
             (if earlier_wait conversation (meeting_reminder m today allowed) then the conversation
              else meeting_reminder m today allowed)
         | None \<Rightarrow>
             (if post_meeting_followup_required facts then
                post_meeting_reminder (latest_completed_external_meeting_on facts) today allowed
              else case conversation of
                Some c \<Rightarrow> c
              | None \<Rightarrow>
                  (if next_action_due_on facts \<noteq> None then
                     make_reminder SCHEDULED_NEXT_ACTION NEXT_ACTION_SCHEDULED LOW allowed
                       (next_action_due_on facts)
                   else make_reminder NO_REMINDER ACTIVE_ACCOUNT_MISSING_NEXT_STEP NO_PRIORITY
                          allowed None)))"

section \<open>Evaluation\<close>

definition after_today :: "date_or_datetime option \<Rightarrow> date \<Rightarrow> bool" where
  "after_today v today = (case v of None \<Rightarrow> False | Some d \<Rightarrow> today < event_date d)"

definition future_events :: "account_policy_facts \<Rightarrow> date \<Rightarrow> string list" where
  "future_events facts today =
     concat (map (\<lambda>(source_name, evidence).
       map (\<lambda>(field_name, v). source_name @ ''.'' @ field_name)
         (filter (\<lambda>(field_name, v). after_today v today)
           [(''latest_human_inbound_on'', latest_human_inbound_on evidence),
            (''latest_substantive_inbound_on'', latest_substantive_inbound_on evidence),
            (''latest_outbound_on'', latest_outbound_on evidence)]))
       [(''gmail'', gmail facts), (''linkedin'', linkedin facts)])"

definition validate_temporal_facts :: "account_policy_facts \<Rightarrow> date \<Rightarrow> (policy_error, unit) result" where
  "validate_temporal_facts facts today =
     (if (case upcoming_external_meeting_on facts of None \<Rightarrow> False | Some m \<Rightarrow> m < today) then
        Inl (ValueError ''upcoming_external_meeting_on cannot be before the evaluation date.'')
      else if (case latest_completed_external_meeting_on facts of None \<Rightarrow> False | Some m \<Rightarrow> today < m) then
        Inl (ValueError ''latest_completed_external_meeting_on cannot be after the evaluation date.'')
      else case future_events facts today of
        [] \<Rightarrow> Inr ()
      | name # _ \<Rightarrow> Inl (ValueError (name @ '' cannot be after the evaluation date.'')))"

text \<open>
  The order dictionaries: a reason's rank is its position; a reason that is not a key raises
  \<open>KeyError\<close> while sorting. \<open>list.sort\<close> is stable, as \<open>sort_key\<close> is.
\<close>

definition reason_rank :: "admission_reason_code list \<Rightarrow> evidence_candidate \<Rightarrow> nat" where
  "reason_rank ord c = length (takeWhile (\<lambda>r. r \<noteq> candidate_reason c) ord)"

definition sort_candidates ::
  "admission_reason_code list \<Rightarrow> evidence_candidate list
     \<Rightarrow> (policy_error, evidence_candidate list) result" where
  "sort_candidates ord cs =
     (if \<forall>c \<in> set cs. candidate_reason c \<in> set ord then Inr (sort_key (reason_rank ord) cs)
      else Inl KeyError)"

definition max_confidence :: "evidence_candidate list \<Rightarrow> int" where
  "max_confidence cs = Max (set (map confidence cs))"

definition account_decision ::
  "account_policy_facts \<Rightarrow> date \<Rightarrow> bool \<Rightarrow> evidence_candidate \<Rightarrow> evidence_candidate list
     \<Rightarrow> account_policy_decision" where
  "account_decision facts today ok primary cs =
     (let r = recommend_reminder facts today ok (candidate_tier primary)
      in \<lparr>decision_account_key = account_key facts,
          admission = (if ok then ACTIVE_ACCOUNT else PEOPLE_ONLY),
          primary_reason_code = candidate_reason primary,
          reason_codes = map candidate_reason cs,
          decision_tier = candidate_tier primary,
          confidence_score = max_confidence cs,
          decision_priority = (if ok then reminder_priority r else NO_PRIORITY),
          automated_outreach_allowed = (\<not> do_not_outreach facts),
          flags = when_true (do_not_outreach facts) DO_NOT_OUTREACH,
          reminder = r\<rparr>)"

text \<open>\<open>primary = candidates[0]\<close> raises \<open>IndexError\<close> on an empty list.\<close>

definition decide ::
  "account_policy_facts \<Rightarrow> date \<Rightarrow> bool \<Rightarrow> evidence_candidate list
     \<Rightarrow> (policy_error, account_policy_decision) result" where
  "decide facts today ok cs =
     (case cs of
        [] \<Rightarrow> Inl IndexError
      | primary # _ \<Rightarrow> Inr (account_decision facts today ok primary cs))"

definition evaluate_account ::
  "account_policy_facts \<Rightarrow> date \<Rightarrow> (policy_error, account_policy_decision) result" where
  "evaluate_account facts today =
     bind_result (validate_temporal_facts facts today) (\<lambda>_.
       if qualifying_candidates facts today \<noteq> [] then
         bind_result (sort_candidates QUALIFYING_REASON_ORDER (qualifying_candidates facts today))
           (decide facts today True)
       else
         bind_result (sort_candidates DIAGNOSTIC_REASON_ORDER (diagnostic_candidates facts today))
           (decide facts today False))"

section \<open>The ranked candidate lists\<close>

text \<open>
  What \<open>evaluate_account\<close> needs from a producer of candidates: every reason is a key of the order
  dictionary, and no reason is produced twice. Sorting then neither raises nor depends on the
  order in which the producer emitted the candidates.
\<close>

locale ranked_candidates =
  fixes cands :: "'i \<Rightarrow> evidence_candidate list"
    and ord :: "admission_reason_code list"
  assumes known: "c \<in> set (cands i) \<Longrightarrow> candidate_reason c \<in> set ord"
    and distinct_ranks: "distinct (map (reason_rank ord) (cands i))"
begin

lemma sort_candidates_ok: "sort_candidates ord (cands i) = Inr (sort_key (reason_rank ord) (cands i))"
  using known by (auto simp: sort_candidates_def)

lemma sorted_ranks: "sorted_wrt (<) (map (reason_rank ord) (sort_key (reason_rank ord) (cands i)))"
proof -
  have "mset (map (reason_rank ord) (sort_key (reason_rank ord) (cands i))) =
      mset (map (reason_rank ord) (cands i))"
    by simp
  then have "distinct (map (reason_rank ord) (sort_key (reason_rank ord) (cands i)))"
    using distinct_ranks [of i] by (metis mset_eq_imp_distinct_iff)
  then show ?thesis by (simp add: strict_sorted_iff)
qed

lemma decide_ranked:
  assumes "cands i \<noteq> []"
  shows "bind_result (sort_candidates ord (cands i)) (decide f t b) =
    Inr (account_decision f t b (hd (sort_key (reason_rank ord) (cands i)))
           (sort_key (reason_rank ord) (cands i)))"
  using assms unfolding sort_candidates_ok decide_def
  by (cases "sort_key (reason_rank ord) (cands i)") simp_all

lemma primary_least:
  assumes "c \<in> set (cands i)"
  shows "reason_rank ord (hd (sort_key (reason_rank ord) (cands i))) \<le> reason_rank ord c"
proof -
  have "cands i \<noteq> []" using assms by auto
  from hd_sort_key_least [OF this assms] show ?thesis .
qed

end

lemma when_true_simps [simp]: "when_true True x = [x]" "when_true False x = []"
  by (simp_all add: when_true_def)

lemma when_true_Nil [simp]: "when_true b x = [] \<longleftrightarrow> \<not> b"
  by (cases b) simp_all

lemma set_when_true [simp]: "set (when_true b x) = (if b then {x} else {})"
  by (cases b) simp_all

lemma candidate_fields [simp]:
  "candidate_reason (candidate r t c ob) = r"
  "candidate_tier (candidate r t c ob) = t"
  "confidence (candidate r t c ob) = c"
  "candidate_reason (weak r) = r"
  "candidate_tier (weak r) = WEAK"
  "confidence (weak r) = 5"
  by (simp_all add: candidate_def weak_def)

lemma ascending_when_true:
  "lo \<le> f x \<Longrightarrow> ascending f (Suc (f x)) ys \<Longrightarrow> ascending f lo (when_true b x @ ys)"
  by (cases b) (auto simp: ascending_def)

lemma ascending_when_true_last: "lo \<le> f x \<Longrightarrow> ascending f lo (when_true b x)"
  by (cases b) simp_all

lemma qualifying_ranks:
  "reason_rank QUALIFYING_REASON_ORDER (candidate MANUAL_PIN t c ob) = 0"
  "reason_rank QUALIFYING_REASON_ORDER (candidate SALES_MOTION_ACTIVE t c ob) = 1"
  "reason_rank QUALIFYING_REASON_ORDER (candidate HUMAN_MANAGED_OPPORTUNITY t c ob) = 2"
  "reason_rank QUALIFYING_REASON_ORDER (candidate HUMAN_CURRENT_ACTION t c ob) = 3"
  "reason_rank QUALIFYING_REASON_ORDER (candidate UPCOMING_EXTERNAL_MEETING t c ob) = 4"
  "reason_rank QUALIFYING_REASON_ORDER (candidate RECENT_COMPLETED_EXTERNAL_MEETING t c ob) = 5"
  "reason_rank QUALIFYING_REASON_ORDER (candidate RECENT_GMAIL_BIDIRECTIONAL_THREAD t c ob) = 6"
  "reason_rank QUALIFYING_REASON_ORDER (candidate RECENT_GMAIL_HUMAN_INBOUND t c ob) = 7"
  "reason_rank QUALIFYING_REASON_ORDER (candidate RECENT_LINKEDIN_SUBSTANTIVE_BIDIRECTIONAL t c ob) = 8"
  by (simp_all add: reason_rank_def QUALIFYING_REASON_ORDER_def)

lemma diagnostic_ranks:
  "reason_rank DIAGNOSTIC_REASON_ORDER (candidate STALE_EXTERNAL_MEETING t c ob) = 0"
  "reason_rank DIAGNOSTIC_REASON_ORDER (candidate STALE_GMAIL_HUMAN_ENGAGEMENT t c ob) = 1"
  "reason_rank DIAGNOSTIC_REASON_ORDER
     (candidate STALE_LINKEDIN_SUBSTANTIVE_BIDIRECTIONAL t c ob) = 2"
  "reason_rank DIAGNOSTIC_REASON_ORDER (weak GMAIL_ACKNOWLEDGEMENT_ONLY) = 3"
  "reason_rank DIAGNOSTIC_REASON_ORDER (weak GMAIL_POLITE_DECLINE_ONLY) = 4"
  "reason_rank DIAGNOSTIC_REASON_ORDER (weak GMAIL_AUTOMATED_ONLY) = 5"
  "reason_rank DIAGNOSTIC_REASON_ORDER (weak GMAIL_OUTBOUND_ONLY) = 6"
  "reason_rank DIAGNOSTIC_REASON_ORDER (weak LINKEDIN_ACKNOWLEDGEMENT_ONLY) = 7"
  "reason_rank DIAGNOSTIC_REASON_ORDER (weak LINKEDIN_POLITE_DECLINE_ONLY) = 8"
  "reason_rank DIAGNOSTIC_REASON_ORDER (weak LINKEDIN_AUTOMATED_ONLY) = 9"
  "reason_rank DIAGNOSTIC_REASON_ORDER (weak LINKEDIN_CONNECTION_EVENT_ONLY) = 10"
  "reason_rank DIAGNOSTIC_REASON_ORDER (weak LINKEDIN_NOT_BIDIRECTIONAL) = 11"
  "reason_rank DIAGNOSTIC_REASON_ORDER (weak LINKEDIN_OUTBOUND_ONLY) = 12"
  by (simp_all add: reason_rank_def DIAGNOSTIC_REASON_ORDER_def)

lemma qualifying_known:
  "c \<in> set (qualifying_candidates f t) \<Longrightarrow> candidate_reason c \<in> set QUALIFYING_REASON_ORDER"
  unfolding qualifying_candidates_def Let_def
  by (simp, elim disjE; simp add: QUALIFYING_REASON_ORDER_def split: if_splits)

lemma qualifying_ascending:
  "ascending (reason_rank QUALIFYING_REASON_ORDER) 0 (qualifying_candidates f t)"
  unfolding qualifying_candidates_def Let_def
  by (intro ascending_when_true ascending_when_true_last; simp add: qualifying_ranks)

lemma ascending_distinct: "ascending f lo xs \<Longrightarrow> distinct (map f xs)"
  by (simp add: ascending_def strict_sorted_iff)

interpretation qualifying: ranked_candidates
  "\<lambda>(f, t). qualifying_candidates f t" QUALIFYING_REASON_ORDER
  by unfold_locales
    (auto intro: qualifying_known ascending_distinct [OF qualifying_ascending] split: prod.splits)

text \<open>The diagnostic list has at most one candidate per source, of ranks that do not overlap.\<close>

abbreviation diagnostic_rank :: "evidence_candidate \<Rightarrow> nat" where
  "diagnostic_rank \<equiv> reason_rank DIAGNOSTIC_REASON_ORDER"

lemma diagnostic_rank_known:
  "diagnostic_rank c < 14 \<longleftrightarrow> candidate_reason c \<in> set DIAGNOSTIC_REASON_ORDER"
proof -
  have "length (takeWhile (\<lambda>x. x \<noteq> r) xs) < length xs \<longleftrightarrow> r \<in> set xs"
    for r :: admission_reason_code and xs
    by (induction xs) auto
  from this [of "candidate_reason c" DIAGNOSTIC_REASON_ORDER] show ?thesis
    by (simp add: reason_rank_def) (simp add: DIAGNOSTIC_REASON_ORDER_def)
qed

definition one_of :: "nat set \<Rightarrow> evidence_candidate list \<Rightarrow> bool" where
  "one_of R cs \<longleftrightarrow> cs = [] \<or> (\<exists>c. cs = [c] \<and> diagnostic_rank c \<in> R)"

lemma one_of_intros:
  "one_of R []"
  "diagnostic_rank c \<in> R \<Longrightarrow> one_of R [c]"
  "diagnostic_rank c \<in> R \<Longrightarrow> one_of R (when_true b c)"
  by (cases b) (auto simp: one_of_def)

lemma meeting_diagnostic_one: "one_of {0} (meeting_diagnostic m t)"
  unfolding meeting_diagnostic_def by (intro one_of_intros) (simp add: diagnostic_ranks)

lemma gmail_diagnostic_one: "one_of {1, 3, 4, 5, 6} (gmail_diagnostic g t)"
  unfolding gmail_diagnostic_def by (auto intro!: one_of_intros simp: diagnostic_ranks)

lemma linkedin_diagnostic_one: "one_of {2, 7, 8, 9, 10, 11, 12} (linkedin_diagnostic l t)"
  unfolding linkedin_diagnostic_def by (auto intro!: one_of_intros simp: diagnostic_ranks)

lemma one_of_append:
  assumes "one_of R xs" and "distinct (map diagnostic_rank ys)"
    and "\<And>y. y \<in> set ys \<Longrightarrow> diagnostic_rank y \<notin> R"
  shows "distinct (map diagnostic_rank (xs @ ys))"
  using assms by (auto simp: one_of_def)

lemma one_of_rank: "one_of R xs \<Longrightarrow> x \<in> set xs \<Longrightarrow> diagnostic_rank x \<in> R"
  by (auto simp: one_of_def)

lemma one_of_distinct: "one_of R xs \<Longrightarrow> distinct (map diagnostic_rank xs)"
  by (auto simp: one_of_def)

lemma diagnostic_parts:
  "diagnostic_candidates f t = [candidate NO_QUALIFYING_EVIDENCE NO_TIER 0 None] \<or>
   diagnostic_candidates f t =
     meeting_diagnostic (latest_completed_external_meeting_on f) t @
     gmail_diagnostic (gmail f) t @ linkedin_diagnostic (linkedin f) t"
  by (simp add: diagnostic_candidates_def Let_def)

lemma diagnostic_distinct: "distinct (map diagnostic_rank (diagnostic_candidates f t))"
proof -
  note one = meeting_diagnostic_one gmail_diagnostic_one linkedin_diagnostic_one
  have "distinct (map diagnostic_rank
      (meeting_diagnostic m t @ gmail_diagnostic g t @ linkedin_diagnostic l t))" for m g l
    by (rule one_of_append [OF one(1) one_of_append [OF one(2) one_of_distinct [OF one(3)]]])
      (auto dest!: one_of_rank [OF one(2)] one_of_rank [OF one(3)])
  then show ?thesis
    using diagnostic_parts [of f t] by auto
qed

lemma diagnostic_known:
  assumes "c \<in> set (diagnostic_candidates f t)"
  shows "candidate_reason c \<in> set DIAGNOSTIC_REASON_ORDER"
proof -
  from assms diagnostic_parts [of f t]
  have "candidate_reason c = NO_QUALIFYING_EVIDENCE \<or> diagnostic_rank c < 14"
    by (auto dest!: one_of_rank [OF meeting_diagnostic_one] one_of_rank [OF gmail_diagnostic_one]
        one_of_rank [OF linkedin_diagnostic_one])
  then show ?thesis
    by (auto simp: diagnostic_rank_known) (simp add: DIAGNOSTIC_REASON_ORDER_def)
qed

interpretation diagnostic: ranked_candidates
  "\<lambda>(f, t). diagnostic_candidates f t" DIAGNOSTIC_REASON_ORDER
  by unfold_locales (auto intro: diagnostic_known diagnostic_distinct split: prod.splits)

lemma diagnostic_nonempty: "diagnostic_candidates f t \<noteq> []"
  by (simp add: diagnostic_candidates_def Let_def)

section \<open>What an evaluation computes\<close>

lemma qualifying_sorted:
  "sort_key (reason_rank QUALIFYING_REASON_ORDER) (qualifying_candidates f t) = qualifying_candidates f t"
  using ascending_sorted [OF qualifying_ascending]
  by (intro sort_key_id_if_sorted) (rule strict_sorted_imp_sorted)

definition sorted_diagnostics :: "account_policy_facts \<Rightarrow> date \<Rightarrow> evidence_candidate list" where
  "sorted_diagnostics f t = sort_key diagnostic_rank (diagnostic_candidates f t)"

definition ranked_evidence :: "account_policy_facts \<Rightarrow> date \<Rightarrow> evidence_candidate list" where
  "ranked_evidence f t =
     (if qualifying_candidates f t \<noteq> [] then qualifying_candidates f t else sorted_diagnostics f t)"

lemma evaluate_account_ok:
  assumes "validate_temporal_facts f t = Inr ()"
  shows "evaluate_account f t =
    Inr (account_decision f t (qualifying_candidates f t \<noteq> []) (hd (ranked_evidence f t))
           (ranked_evidence f t))"
  using qualifying.decide_ranked [of "(f, t)" f t True]
    diagnostic.decide_ranked [of "(f, t)" f t False] diagnostic_nonempty [of f t]
  by (simp add: evaluate_account_def assms ranked_evidence_def sorted_diagnostics_def
      qualifying_sorted)

lemma evaluate_account_Inr:
  assumes "evaluate_account f t = Inr d"
  shows "d = account_decision f t (qualifying_candidates f t \<noteq> []) (hd (ranked_evidence f t))
           (ranked_evidence f t)"
proof -
  have "validate_temporal_facts f t = Inr ()"
    using assms by (cases "validate_temporal_facts f t") (auto simp: evaluate_account_def)
  from evaluate_account_ok [OF this] assms show ?thesis by simp
qed

lemma decision_fields [simp]:
  "decision_account_key (account_decision f t b p cs) = account_key f"
  "admission (account_decision f t b p cs) = (if b then ACTIVE_ACCOUNT else PEOPLE_ONLY)"
  "primary_reason_code (account_decision f t b p cs) = candidate_reason p"
  "reason_codes (account_decision f t b p cs) = map candidate_reason cs"
  "decision_tier (account_decision f t b p cs) = candidate_tier p"
  "confidence_score (account_decision f t b p cs) = max_confidence cs"
  "reminder (account_decision f t b p cs) = recommend_reminder f t b (candidate_tier p)"
  "automated_outreach_allowed (account_decision f t b p cs) \<longleftrightarrow> \<not> do_not_outreach f"
  by (simp_all add: account_decision_def Let_def)

lemma admitted_iff: "evaluate_account f t = Inr d \<Longrightarrow> admitted d \<longleftrightarrow> qualifying_candidates f t \<noteq> []"
  by (drule evaluate_account_Inr) (simp add: admitted_def)

subsection \<open>Errors\<close>

definition not_after :: "date_or_datetime option \<Rightarrow> date \<Rightarrow> bool" where
  "not_after v t \<longleftrightarrow> \<not> after_today v t"

definition consistent :: "account_policy_facts \<Rightarrow> date \<Rightarrow> bool" where
  "consistent f t \<longleftrightarrow>
     (\<forall>m. upcoming_external_meeting_on f = Some m \<longrightarrow> t \<le> m) \<and>
     (\<forall>m. latest_completed_external_meeting_on f = Some m \<longrightarrow> m \<le> t) \<and>
     (\<forall>e \<in> {gmail f, linkedin f}. not_after (latest_human_inbound_on e) t \<and>
        not_after (latest_substantive_inbound_on e) t \<and> not_after (latest_outbound_on e) t)"

lemma future_events_Nil:
  "future_events f t = [] \<longleftrightarrow>
     (\<forall>e \<in> {gmail f, linkedin f}. not_after (latest_human_inbound_on e) t \<and>
        not_after (latest_substantive_inbound_on e) t \<and> not_after (latest_outbound_on e) t)"
  by (simp add: future_events_def not_after_def)

lemma validate_temporal_facts_iff: "validate_temporal_facts f t = Inr () \<longleftrightarrow> consistent f t"
  unfolding consistent_def future_events_Nil [symmetric]
  by (auto simp: validate_temporal_facts_def split: option.splits list.splits)

lemma validate_temporal_facts_error:
  "validate_temporal_facts f t = Inl e \<Longrightarrow> \<exists>m. e = ValueError m"
  by (auto simp: validate_temporal_facts_def split: option.splits list.splits if_splits)

text \<open>
  C37: an evaluation raises only \<open>ValueError\<close>, and exactly when a recorded event or meeting lies
  on the wrong side of the evaluation date: the order dictionaries never miss a reason and the
  list of diagnostics is never empty.
\<close>

theorem evaluate_account_total:
  "case evaluate_account f t of
     Inl e \<Rightarrow> \<not> consistent f t \<and> (\<exists>m. e = ValueError m)
   | Inr d \<Rightarrow> consistent f t"
proof (cases "validate_temporal_facts f t")
  case (Inl e)
  then show ?thesis
    using validate_temporal_facts_error [OF Inl] validate_temporal_facts_iff [of f t]
    by (simp add: evaluate_account_def)
next
  case (Inr u)
  then have "validate_temporal_facts f t = Inr ()" by simp
  from evaluate_account_ok [OF this] validate_temporal_facts_iff [of f t] this show ?thesis by simp
qed

subsection \<open>Admission\<close>

definition human_managed :: "account_policy_facts \<Rightarrow> bool" where
  "human_managed f \<longleftrightarrow> manual_pin f \<or> sales_motion_active f \<or> human_managed_opportunity f \<or>
     human_current_action f"

definition met_recently :: "account_policy_facts \<Rightarrow> date \<Rightarrow> bool" where
  "met_recently f t \<longleftrightarrow> upcoming_external_meeting_on f \<noteq> None \<or>
     (\<exists>m. latest_completed_external_meeting_on f = Some m \<and> m \<le> t \<and> t \<le> m + 180)"

definition gmail_engaged :: "account_policy_facts \<Rightarrow> date \<Rightarrow> bool" where
  "gmail_engaged f t \<longleftrightarrow> 0 < real_human_inbound_count (gmail f) \<and>
     is_recent (latest_human_inbound_on (gmail f)) t 120"

definition linkedin_engaged :: "account_policy_facts \<Rightarrow> date \<Rightarrow> bool" where
  "linkedin_engaged f t \<longleftrightarrow> is_substantive_bidirectional (linkedin f) \<and>
     is_recent (latest_substantive_inbound_on (linkedin f)) t 90"

lemma qualifying_nonempty_iff:
  "qualifying_candidates f t \<noteq> [] \<longleftrightarrow>
     human_managed f \<or> met_recently f t \<or> gmail_engaged f t \<or> linkedin_engaged f t"
proof -
  have "is_recent (map_option Date m) t COMPLETED_MEETING_ADMISSION_MAX_AGE_DAYS \<longleftrightarrow>
      (\<exists>d. m = Some d \<and> d \<le> t \<and> t \<le> d + 180)" for m
    by (auto simp: is_recent_def COMPLETED_MEETING_ADMISSION_MAX_AGE_DAYS_def split: option.splits)
  then show ?thesis
    unfolding qualifying_candidates_def human_managed_def met_recently_def gmail_engaged_def
      linkedin_engaged_def Let_def
    by (simp add: GMAIL_ADMISSION_MAX_AGE_DAYS_def LINKEDIN_ADMISSION_MAX_AGE_DAYS_def) blast
qed

text \<open>
  An account is admitted to the active CRM exactly when a human manages it, it has an upcoming or recent
  external meeting, Gmail holds some reply that is more than an acknowledgement or a decline and the latest
  human reply of any kind is at most 120 days old, or LinkedIn holds a substantive two-way exchange whose latest
  substantive reply is at most 90 days old. The outreach flag plays no part.
\<close>

theorem evaluate_account_admits:
  assumes "evaluate_account f t = Inr d"
  shows "admitted d \<longleftrightarrow>
    human_managed f \<or> met_recently f t \<or> gmail_engaged f t \<or> linkedin_engaged f t"
  unfolding admitted_iff [OF assms] by (rule qualifying_nonempty_iff)

definition default_account :: "string \<Rightarrow> account_policy_facts" where
  "default_account k =
     \<lparr>account_key = k, manual_pin = False, sales_motion_active = False,
      human_managed_opportunity = False, human_current_action = False, do_not_outreach = False,
      upcoming_external_meeting_on = None, latest_completed_external_meeting_on = None,
      gmail = no_evidence, linkedin = no_evidence, next_action_due_on = None,
      waiting_until = None, post_meeting_followup_required = False\<rparr>"

definition linkedin_reply :: conversation_evidence where
  "linkedin_reply = no_evidence
     \<lparr>human_inbound_count := 1, substantive_inbound_count := 1, outbound_count := 1,
      latest_human_inbound_on := Some (Date 738000),
      latest_substantive_inbound_on := Some (Date 738000),
      latest_outbound_on := Some (Date 737990)\<rparr>"

definition gmail_reply :: conversation_evidence where
  "gmail_reply = linkedin_reply
     \<lparr>latest_outbound_on := Some (DateTime 738001 0)\<rparr>"

definition sample_account :: account_policy_facts where
  "sample_account = (default_account ''acme'')\<lparr>gmail := gmail_reply\<rparr>"

lemmas sample_defs = default_account_def linkedin_reply_def gmail_reply_def sample_account_def
  no_evidence_def

lemma sample_consistent: "738001 \<le> t \<Longrightarrow> consistent sample_account t"
  by (simp add: consistent_def not_after_def after_today_def sample_defs)

lemma sample_ok: "738001 \<le> t \<Longrightarrow> \<exists>d. evaluate_account sample_account t = Inr d"
  using evaluate_account_ok sample_consistent validate_temporal_facts_iff by blast

lemma sample_engaged: "gmail_engaged sample_account 738005"
  by (simp add: gmail_engaged_def is_recent_def real_human_inbound_count_def sample_defs)

theorem evaluate_account_admits_witness:
  "\<exists>d. evaluate_account sample_account 738005 = Inr d \<and> admitted d"
  using sample_ok [of 738005] evaluate_account_admits [of sample_account 738005] sample_engaged
  by auto

lemma is_recent_earlier:
  "is_recent v t' n \<Longrightarrow> not_after v t \<Longrightarrow> t \<le> t' \<Longrightarrow> is_recent v t n"
  by (auto simp: is_recent_def not_after_def after_today_def split: option.splits)

lemma not_recent_late: "not_after v t \<Longrightarrow> t + n < t' \<Longrightarrow> \<not> is_recent v t' n"
  by (auto simp: is_recent_def not_after_def after_today_def split: option.splits)

lemma evaluate_account_consistent: "evaluate_account f t = Inr d \<Longrightarrow> consistent f t"
  by (cases "validate_temporal_facts f t") (auto simp: evaluate_account_def validate_temporal_facts_iff)

text \<open>
  C36: admission only decays. Evaluated on a later day with the same evidence, an account that was not admitted is
  still not admitted, and after more than 180 days only a human or an upcoming meeting keeps it admitted.
\<close>

theorem admission_decays:
  assumes "evaluate_account f t = Inr d" and "evaluate_account f t' = Inr d'" and "t \<le> t'"
  shows "(admitted d' \<longrightarrow> admitted d) \<and>
    (t + 180 < t' \<and> \<not> human_managed f \<and> upcoming_external_meeting_on f = None \<longrightarrow> \<not> admitted d')"
proof -
  note c = evaluate_account_consistent [OF assms(1), unfolded consistent_def]
  have dates: "not_after (latest_human_inbound_on (gmail f)) t" "not_after (latest_substantive_inbound_on (linkedin f)) t"
    using c by simp_all
  have "gmail_engaged f t' \<Longrightarrow> gmail_engaged f t" "linkedin_engaged f t' \<Longrightarrow> linkedin_engaged f t"
    using is_recent_earlier [OF _ _ assms(3)] dates unfolding gmail_engaged_def linkedin_engaged_def by blast+
  moreover have "met_recently f t' \<Longrightarrow> met_recently f t" using c assms(3) by (auto simp: met_recently_def)
  moreover have "\<not> gmail_engaged f t'" "\<not> linkedin_engaged f t'" if "t + 180 < t'"
    using not_recent_late [OF dates(1), of 120 t'] not_recent_late [OF dates(2), of 90 t'] that
    unfolding gmail_engaged_def linkedin_engaged_def by simp_all
  moreover have "\<not> met_recently f t'" if "t + 180 < t'" "upcoming_external_meeting_on f = None"
    using c that by (auto simp: met_recently_def)
  ultimately show ?thesis
    unfolding evaluate_account_admits [OF assms(1)] evaluate_account_admits [OF assms(2)] by blast
qed

theorem admission_decays_witness:
  "\<exists>d d'. evaluate_account sample_account 738005 = Inr d \<and> evaluate_account sample_account 738200 = Inr d' \<and>
     admitted d \<and> \<not> admitted d'"
proof -
  obtain d d' where d: "evaluate_account sample_account 738005 = Inr d" "evaluate_account sample_account 738200 = Inr d'"
    using sample_ok [of 738005] sample_ok [of 738200] by auto
  have "admitted d" using evaluate_account_admits [OF d(1)] sample_engaged by simp
  moreover have "\<not> human_managed sample_account" "upcoming_external_meeting_on sample_account = None"
    by (simp_all add: human_managed_def sample_defs)
  ultimately show ?thesis using admission_decays [OF d] d by auto
qed

subsection \<open>Outreach is separate from admission\<close>

definition forget_outreach :: "account_policy_decision \<Rightarrow> account_policy_decision" where
  "forget_outreach d = d\<lparr>automated_outreach_allowed := False, flags := [],
     reminder := (reminder d)\<lparr>reminder_outreach_allowed := False\<rparr>\<rparr>"

definition forget_permission :: "reminder_recommendation \<Rightarrow> reminder_recommendation" where
  "forget_permission r = r\<lparr>reminder_outreach_allowed := False\<rparr>"

lemma forget_make_reminder [simp]:
  "forget_permission (make_reminder st rc p a due) = make_reminder st rc p False due"
  by (simp add: forget_permission_def make_reminder_def)

lemma forget_permission_fields [simp]:
  "reminder_state (forget_permission r) = reminder_state r"
  "reminder_due_on (forget_permission r) = reminder_due_on r"
  "reminder_priority (forget_permission r) = reminder_priority r"
  by (simp_all add: forget_permission_def)

lemma conversation_allowed:
  "latest_conversation_reminder g t False =
     map_option forget_permission (latest_conversation_reminder g t a)"
  by (simp add: latest_conversation_reminder_def conversation_reminder_def Let_def
      split: option.split)

lemma meeting_reminder_allowed:
  "meeting_reminder m t False = forget_permission (meeting_reminder m t a)"
  "post_meeting_reminder mo t False = forget_permission (post_meeting_reminder mo t a)"
  by (simp_all add: meeting_reminder_def post_meeting_reminder_def)

lemma earlier_wait_forget:
  "earlier_wait (map_option forget_permission c) (forget_permission m) = earlier_wait c m"
  by (simp add: earlier_wait_def split: option.split)

lemma make_reminder_fields [simp]:
  "reminder_state (make_reminder st rc p a due) = st"
  "reason_code (make_reminder st rc p a due) = rc"
  "reminder_due_on (make_reminder st rc p a due) = due"
  "reminder_priority (make_reminder st rc p a due) = p"
  "reminder_outreach_allowed (make_reminder st rc p a due) = a"
  "should_create_reminder (make_reminder st rc p a due) \<longleftrightarrow> st \<notin> {NO_REMINDER, WAITING, REVIEW}"
  by (simp_all add: make_reminder_def)

text \<open>The ladder above with the reminders that carry the permission bit as arguments.\<close>

definition reminder_ladder ::
  "account_policy_facts \<Rightarrow> date \<Rightarrow> bool \<Rightarrow> (reminder_state \<Rightarrow> reminder_reason_code \<Rightarrow> priority
     \<Rightarrow> date option \<Rightarrow> reminder_recommendation) \<Rightarrow> reminder_recommendation option
     \<Rightarrow> (date \<Rightarrow> reminder_recommendation) \<Rightarrow> reminder_recommendation \<Rightarrow> reminder_recommendation" where
  "reminder_ladder f t ok mk c mt post =
     (if \<not> ok then mk NO_REMINDER ACCOUNT_NOT_ACTIVE NO_PRIORITY None
      else if (case waiting_until f of None \<Rightarrow> False | Some w \<Rightarrow> t < w) then
        mk WAITING WAITING_UNTIL LOW (waiting_until f)
      else if (case next_action_due_on f of None \<Rightarrow> False | Some d \<Rightarrow> d < t) then
        mk OVERDUE_NEXT_ACTION NEXT_ACTION_OVERDUE URGENT (next_action_due_on f)
      else if next_action_due_on f = Some t then mk DUE_TODAY NEXT_ACTION_DUE_TODAY HIGH (Some t)
      else if (case c of None \<Rightarrow> False | Some r \<Rightarrow> reminder_state r \<in> {NEEDS_RESPONSE, FOLLOW_UP_DUE})
      then the c
      else case upcoming_external_meeting_on f of
        Some m \<Rightarrow> (if earlier_wait c (mt m) then the c else mt m)
      | None \<Rightarrow>
          (if post_meeting_followup_required f then post
           else case c of
             Some r \<Rightarrow> r
           | None \<Rightarrow>
               (if next_action_due_on f \<noteq> None then
                  mk SCHEDULED_NEXT_ACTION NEXT_ACTION_SCHEDULED LOW (next_action_due_on f)
                else mk NO_REMINDER ACTIVE_ACCOUNT_MISSING_NEXT_STEP NO_PRIORITY None)))"

lemma recommend_reminder_ladder:
  "recommend_reminder f t ok tier =
     reminder_ladder f t ok (\<lambda>st rc p due. make_reminder st rc p (\<not> do_not_outreach f) due)
       (latest_conversation_reminder (gmail f) t (\<not> do_not_outreach f))
       (\<lambda>m. meeting_reminder m t (\<not> do_not_outreach f))
       (post_meeting_reminder (latest_completed_external_meeting_on f) t (\<not> do_not_outreach f))"
  by (simp only: recommend_reminder_def reminder_ladder_def Let_def)

lemma earlier_wait_None [simp]: "earlier_wait None m = False"
  by (simp add: earlier_wait_def)

lemma reminder_ladder_forget:
  "forget_permission (reminder_ladder f t ok mk c mt post) =
     reminder_ladder f t ok (\<lambda>st rc p due. forget_permission (mk st rc p due))
       (map_option forget_permission c) (\<lambda>m. forget_permission (mt m)) (forget_permission post)"
  unfolding reminder_ladder_def earlier_wait_forget
  by (cases c; cases "upcoming_external_meeting_on f") simp_all

lemma reminder_ladder_outreach:
  "reminder_ladder (f\<lparr>do_not_outreach := b\<rparr>) t = reminder_ladder f t"
  by (simp add: reminder_ladder_def fun_eq_iff cong: option.case_cong)

lemma recommend_reminder_allowed:
  "recommend_reminder (f\<lparr>do_not_outreach := True\<rparr>) t ok tier =
     forget_permission (recommend_reminder f t ok tier)"
proof -
  let ?a = "\<not> do_not_outreach f"
  show ?thesis
    unfolding recommend_reminder_ladder [of f] reminder_ladder_forget
      conversation_allowed [of _ _ ?a, symmetric] meeting_reminder_allowed [of _ _ ?a, symmetric]
      forget_make_reminder
    by (simp add: recommend_reminder_ladder reminder_ladder_outreach)
qed

lemma ranked_evidence_outreach [simp]:
  "ranked_evidence (f\<lparr>do_not_outreach := b\<rparr>) t = ranked_evidence f t"
  "qualifying_candidates (f\<lparr>do_not_outreach := b\<rparr>) t = qualifying_candidates f t"
  by (simp_all add: ranked_evidence_def qualifying_candidates_def sorted_diagnostics_def
      diagnostic_candidates_def)

lemma forget_outreach_decision:
  "forget_outreach (account_decision f t b p cs) =
     (account_decision (f\<lparr>do_not_outreach := True\<rparr>) t b p cs)\<lparr>flags := []\<rparr>"
proof -
  have "forget_outreach (account_decision f t b p cs) =
      (account_decision f t b p cs)\<lparr>automated_outreach_allowed := False, flags := [],
        reminder := forget_permission (recommend_reminder f t b (candidate_tier p))\<rparr>"
    by (simp add: forget_outreach_def forget_permission_def)
  also have "\<dots> = (account_decision (f\<lparr>do_not_outreach := True\<rparr>) t b p cs)\<lparr>flags := []\<rparr>"
    by (simp add: account_decision_def Let_def recommend_reminder_allowed)
  finally show ?thesis .
qed

lemma validate_outreach: "validate_temporal_facts (f\<lparr>do_not_outreach := b\<rparr>) t = validate_temporal_facts f t"
  by (simp add: validate_temporal_facts_def future_events_def)

text \<open>
  Do-not-outreach is separate from CRM membership: two evaluations of the same account that
  differ only in this flag agree on everything but the permission bits and the flag itself, and
  the permission is exactly its negation.
\<close>

theorem evaluate_account_outreach:
  "map_sum id forget_outreach (evaluate_account (f\<lparr>do_not_outreach := b\<rparr>) t) =
     map_sum id forget_outreach (evaluate_account f t) \<and>
   map_sum id automated_outreach_allowed (evaluate_account (f\<lparr>do_not_outreach := b\<rparr>) t) =
     map_sum id (\<lambda>d. \<not> b) (evaluate_account f t)"
proof (cases "validate_temporal_facts f t")
  case (Inl e)
  then show ?thesis by (simp add: evaluate_account_def validate_outreach)
next
  case (Inr u)
  then have ok: "validate_temporal_facts f t = Inr ()"
    "validate_temporal_facts (f\<lparr>do_not_outreach := b\<rparr>) t = Inr ()"
    by (simp_all add: validate_outreach)
  show ?thesis
    by (simp add: evaluate_account_ok [OF ok(1)] evaluate_account_ok [OF ok(2)]
        forget_outreach_decision)
qed

subsection \<open>LinkedIn never creates a reminder\<close>

lemma reminder_ladder_linkedin: "reminder_ladder (f\<lparr>linkedin := l\<rparr>) t = reminder_ladder f t"
  by (simp add: reminder_ladder_def fun_eq_iff cong: option.case_cong)

lemma recommend_reminder_linkedin:
  "recommend_reminder (f\<lparr>linkedin := l\<rparr>) t ok tier' = recommend_reminder f t ok tier"
  by (simp add: recommend_reminder_ladder reminder_ladder_linkedin)

text \<open>
  LinkedIn is admission context only: as long as it does not change whether the account is
  admitted, replacing all of its evidence leaves the reminder as it is.
\<close>

theorem evaluate_account_linkedin:
  assumes "evaluate_account f t = Inr d" and "evaluate_account (f\<lparr>linkedin := l\<rparr>) t = Inr d'"
    and "admitted d = admitted d'"
  shows "reminder d' = reminder d"
proof -
  have "qualifying_candidates f t \<noteq> [] \<longleftrightarrow> qualifying_candidates (f\<lparr>linkedin := l\<rparr>) t \<noteq> []"
    using assms(3) by (simp add: admitted_iff [OF assms(1)] admitted_iff [OF assms(2)])
  then show ?thesis
    using evaluate_account_Inr [OF assms(1)] evaluate_account_Inr [OF assms(2)]
      recommend_reminder_linkedin by simp
qed

theorem evaluate_account_linkedin_witness:
  "\<exists>d d'. evaluate_account sample_account 738005 = Inr d \<and>
     evaluate_account (sample_account\<lparr>linkedin := linkedin_reply\<rparr>) 738005 = Inr d' \<and>
     reminder d' = reminder d \<and> should_create_reminder (reminder d)"
proof -
  let ?g = "sample_account\<lparr>linkedin := linkedin_reply\<rparr>"
  have "consistent ?g 738005"
    by (simp add: consistent_def not_after_def after_today_def sample_defs)
  then obtain d' where d': "evaluate_account ?g 738005 = Inr d'"
    using evaluate_account_ok validate_temporal_facts_iff by blast
  obtain d where d: "evaluate_account sample_account 738005 = Inr d"
    using sample_ok [of 738005] by auto
  have "qualifying_candidates sample_account 738005 \<noteq> []" "qualifying_candidates ?g 738005 \<noteq> []"
    using sample_engaged by (auto simp: qualifying_nonempty_iff gmail_engaged_def)
  then have q: "(qualifying_candidates sample_account 738005 \<noteq> []) = True"
    and a: "admitted d" "admitted d'" by (simp_all add: admitted_iff [OF d] admitted_iff [OF d'])
  have "reminder d' = reminder d"
    by (rule evaluate_account_linkedin [OF d d']) (simp add: a)
  moreover have "should_create_reminder (recommend_reminder sample_account 738005 True tier)" for tier
    by (simp add: recommend_reminder_def latest_conversation_reminder_def conversation_reminder_def
        is_later_def GMAIL_ACTION_MAX_AGE_DAYS_def sample_defs)
  ultimately show ?thesis
    using d d' evaluate_account_Inr [OF d] unfolding q by auto
qed

subsection \<open>The order of the reasons\<close>

lemma position_nth:
  "r \<in> set ord \<Longrightarrow> length (takeWhile (\<lambda>x. x \<noteq> r) ord) < length ord \<and>
     ord ! length (takeWhile (\<lambda>x. x \<noteq> r) ord) = r"
  by (induction ord) auto

lemma ranks_determine_order:
  assumes "sorted_wrt (<) (map (\<lambda>r. length (takeWhile (\<lambda>x. x \<noteq> r) ord)) rs)" and "set rs \<subseteq> set ord"
    and "distinct ord"
  shows "rs = filter (\<lambda>r. r \<in> set rs) ord"
proof -
  let ?pos = "\<lambda>r. length (takeWhile (\<lambda>x. x \<noteq> r) ord)"
  have nth: "ord ! ?pos r = r" if "r \<in> set ord" for r
    using position_nth [OF that] by simp
  have pos_nth: "?pos (ord ! i) = i" if "i < length ord" for i
    using that assms(3) position_nth [of "ord ! i" ord]
    by (metis (no_types, lifting) nth_eq_iff_index_eq nth_mem)
  have inj: "inj_on ?pos (set ord)" by (metis (no_types, lifting) inj_onI nth)
  have full: "map ?pos ord = [0..<length ord]"
    by (rule nth_equalityI) (simp_all add: pos_nth)
  have "sorted_wrt (<) (map ?pos ord)" by (simp add: full)
  then have "sorted_wrt (\<lambda>a b. ?pos a < ?pos b) ord" by (simp add: sorted_wrt_map)
  then have "sorted_wrt (\<lambda>a b. ?pos a < ?pos b) (filter (\<lambda>r. r \<in> set rs) ord)"
    by (rule sorted_wrt_filter)
  then have s: "sorted_wrt (<) (map ?pos (filter (\<lambda>r. r \<in> set rs) ord))"
    by (simp add: sorted_wrt_map)
  have "set (map ?pos rs) = set (map ?pos (filter (\<lambda>r. r \<in> set rs) ord))"
    using assms(2) by auto
  then have "map ?pos rs = map ?pos (filter (\<lambda>r. r \<in> set rs) ord)"
    using assms(1) s by (metis sorted_distinct_set_unique strict_sorted_iff)
  moreover have "inj_on ?pos (set rs \<union> set (filter (\<lambda>r. r \<in> set rs) ord))"
    using inj by (rule inj_on_subset) (use assms(2) in auto)
  ultimately show ?thesis by (metis (no_types, lifting) map_inj_on)
qed

definition reason_order :: "account_policy_decision \<Rightarrow> admission_reason_code list" where
  "reason_order d = (if admitted d then QUALIFYING_REASON_ORDER else DIAGNOSTIC_REASON_ORDER)"

lemma reason_orders_distinct: "distinct QUALIFYING_REASON_ORDER" "distinct DIAGNOSTIC_REASON_ORDER"
  by (simp_all add: QUALIFYING_REASON_ORDER_def DIAGNOSTIC_REASON_ORDER_def)

text \<open>
  The reasons of a decision are the ones found, each once, in the fixed precedence order of
  the policy, and the first of them is the primary reason.
\<close>

theorem evaluate_account_reasons:
  assumes "evaluate_account f t = Inr d"
  shows "reason_codes d = filter (\<lambda>r. r \<in> set (reason_codes d)) (reason_order d) \<and>
    reason_codes d \<noteq> [] \<and> primary_reason_code d = hd (reason_codes d)"
proof -
  let ?e = "ranked_evidence f t"
  have d: "reason_codes d = map candidate_reason ?e" "primary_reason_code d = candidate_reason (hd ?e)"
    using evaluate_account_Inr [OF assms] by simp_all
  have ne: "?e \<noteq> []"
    using diagnostic_nonempty by (simp add: ranked_evidence_def sorted_diagnostics_def)
  have "sorted_wrt (<) (map (reason_rank (reason_order d)) ?e) \<and>
      set (map candidate_reason ?e) \<subseteq> set (reason_order d)"
  proof (cases "admitted d")
    case True
    then show ?thesis
      using ascending_sorted [OF qualifying_ascending [of f t]] qualifying_known [of _ f t]
      by (auto simp: ranked_evidence_def admitted_iff [OF assms] reason_order_def)
  next
    case False
    then show ?thesis
      using diagnostic.sorted_ranks [of "(f, t)"] diagnostic_known [of _ f t]
      by (auto simp: ranked_evidence_def admitted_iff [OF assms] reason_order_def
          sorted_diagnostics_def)
  qed
  moreover have "map (reason_rank ord) ?e =
      map (\<lambda>r. length (takeWhile (\<lambda>x. x \<noteq> r) ord)) (map candidate_reason ?e)" for ord
    by (simp add: reason_rank_def)
  ultimately have "reason_codes d = filter (\<lambda>r. r \<in> set (reason_codes d)) (reason_order d)"
    unfolding d(1) using reason_orders_distinct
    by (intro ranks_determine_order) (simp_all add: reason_order_def)
  moreover have "reason_codes d \<noteq> []" unfolding d(1) using ne by simp
  moreover have "primary_reason_code d = hd (reason_codes d)"
    unfolding d using ne by (simp add: hd_map)
  ultimately show ?thesis by blast
qed

theorem evaluate_account_reasons_witness:
  "\<exists>d. evaluate_account sample_account 738005 = Inr d \<and> reason_codes d \<noteq> [] \<and>
     primary_reason_code d = hd (reason_codes d)"
  using sample_ok [of 738005] evaluate_account_reasons [of sample_account 738005] by auto

subsection \<open>Reminders are dated\<close>

lemma conversation_reminder_dated:
  assumes "latest_conversation_reminder g t a = Some r"
  shows "should_create_reminder r \<longleftrightarrow> reminder_state r \<in> {NEEDS_RESPONSE, FOLLOW_UP_DUE}"
    and "should_create_reminder r \<Longrightarrow> \<exists>due. reminder_due_on r = Some due \<and> due \<le> t"
  using assms
  by (auto simp: latest_conversation_reminder_def conversation_reminder_def Let_def
      split: if_splits option.splits)


definition well_dated :: "date \<Rightarrow> reminder_recommendation \<Rightarrow> bool" where
  "well_dated t r \<longleftrightarrow> (should_create_reminder r \<longrightarrow>
     (\<exists>due. reminder_due_on r = Some due \<and>
        (due \<le> t \<longleftrightarrow> reminder_state r \<noteq> SCHEDULED_NEXT_ACTION)))"

lemma well_dated_parts:
  "latest_conversation_reminder g t a = Some r \<Longrightarrow> well_dated t r"
  "well_dated t (meeting_reminder m t a)"
  "well_dated t (post_meeting_reminder mo t a)"
  using conversation_reminder_dated [of g t a r]
  by (auto simp: well_dated_def meeting_reminder_def post_meeting_reminder_def)

lemma recommend_reminder_dated: "well_dated t (recommend_reminder f t ok tier)"
proof -
  have mk: "well_dated t (make_reminder st rc p a due)"
    if "st \<in> {NO_REMINDER, WAITING, REVIEW} \<or>
      (\<exists>d. due = Some d \<and> (d \<le> t \<longleftrightarrow> st \<noteq> SCHEDULED_NEXT_ACTION))" for st rc p a due
    using that by (auto simp: well_dated_def)
  show ?thesis
    unfolding recommend_reminder_ladder reminder_ladder_def
    by (auto intro!: mk well_dated_parts(2,3) dest: well_dated_parts(1)
        split: option.split)
qed

text \<open>
  Every reminder that should be created carries a due date, on or before the evaluation date,
  except a next action scheduled by a human, whose date lies ahead.
\<close>

theorem evaluate_account_dated:
  assumes "evaluate_account f t = Inr d" and "should_create_reminder (reminder d)"
  shows "\<exists>due. reminder_due_on (reminder d) = Some due \<and>
    (due \<le> t \<longleftrightarrow> reminder_state (reminder d) \<noteq> SCHEDULED_NEXT_ACTION)"
  using evaluate_account_Inr [OF assms(1)] assms(2) recommend_reminder_dated
  by (auto simp: well_dated_def)

theorem evaluate_account_dated_witness:
  "\<exists>d due. evaluate_account sample_account 738005 = Inr d \<and> reminder_due_on (reminder d) = Some due \<and>
     due \<le> 738005"
proof -
  obtain d where d: "evaluate_account sample_account 738005 = Inr d"
    using sample_ok [of 738005] by auto
  have q: "(qualifying_candidates sample_account 738005 \<noteq> []) = True"
    using sample_engaged by (auto simp: qualifying_nonempty_iff)
  have r: "reminder_state (recommend_reminder sample_account 738005 True tier) = FOLLOW_UP_DUE \<and>
      should_create_reminder (recommend_reminder sample_account 738005 True tier)" for tier
    by (simp add: recommend_reminder_def latest_conversation_reminder_def conversation_reminder_def
        is_later_def GMAIL_ACTION_MAX_AGE_DAYS_def sample_defs)
  have "should_create_reminder (reminder d)" "reminder_state (reminder d) = FOLLOW_UP_DUE"
    using evaluate_account_Inr [OF d] r unfolding q by simp_all
  from evaluate_account_dated [OF d this(1)] this(2) d show ?thesis by auto
qed

end
