(* ===== verification/Browser_Recovery.thy ===== *)
theory Browser_Recovery
  imports Py_Lib Complex_Main
begin

text \<open>
  The bounded browser recovery of the daemon, \<open>linkedin/browser/recovery.py\<close>. The object
  \<open>BrowserRecovery\<close> is a state record, its methods take what the page answers as an argument and
  return the new state with the value or the propagated exception. The main loop of
  \<open>linkedin/daemon.py\<close> drives it with three kinds of events; an exception that leaves \<open>can_claim\<close>
  or \<open>task_failed\<close> ends the loop. The lemmas show that a hold is latched and notified once, that
  at most three recovery navigations happen without a completed task in between, and when the
  queue is released.
\<close>

section \<open>Errors and the page\<close>

datatype py_exn = PlaywrightError string | PlaywrightTimeoutError string | OtherError string

fun is_playwright_error :: "py_exn \<Rightarrow> bool" where
  "is_playwright_error (PlaywrightError m) = True"
| "is_playwright_error (PlaywrightTimeoutError m) = True"
| "is_playwright_error (OtherError m) = False"

fun is_timeout_error :: "py_exn \<Rightarrow> bool" where
  "is_timeout_error (PlaywrightTimeoutError m) = True"
| "is_timeout_error (PlaywrightError m) = False"
| "is_timeout_error (OtherError m) = False"

fun exn_str :: "py_exn \<Rightarrow> string" where
  "exn_str (PlaywrightError m) = m"
| "exn_str (PlaywrightTimeoutError m) = m"
| "exn_str (OtherError m) = m"

definition NETWORK_ERRORS :: "string list" where
  "NETWORK_ERRORS =
     [''net::ERR_INTERNET_DISCONNECTED'', ''net::ERR_NETWORK_CHANGED'',
      ''net::ERR_CONNECTION_CLOSED'', ''net::ERR_CONNECTION_RESET'',
      ''net::ERR_CONNECTION_REFUSED'', ''net::ERR_CONNECTION_TIMED_OUT'',
      ''net::ERR_NAME_NOT_RESOLVED'', ''Page.evaluate: TypeError: Failed to fetch'']"

definition is_browser_network_error :: "py_exn \<Rightarrow> bool" where
  "is_browser_network_error err \<longleftrightarrow>
     is_playwright_error err \<and> list_ex (\<lambda>marker. is_infix marker (exn_str err)) NETWORK_ERRORS"

definition is_response_code_failure :: "py_exn \<Rightarrow> bool" where
  "is_response_code_failure err \<longleftrightarrow> is_infix ''net::ERR_HTTP_RESPONSE_CODE_FAILURE'' (exn_str err)"

text \<open>
  What the browser answers to the two probes: the three facts that \<open>_page_is_offline\<close> evaluates in
  the document, and the texts of the error surface that \<open>_page_is_rate_limited\<close> reads. Each probe
  may raise.
\<close>

record document_probe =
  navigator_online :: bool
  document_uri :: string
  has_error_code :: bool

definition page_is_offline :: "py_exn + document_probe \<Rightarrow> py_exn + bool" where
  "page_is_offline doc =
     map_sum id (\<lambda>d. \<not> navigator_online d \<or>
        take (length ''chrome-error://'') (document_uri d) = ''chrome-error://'' \<or>
        has_error_code d) doc"

fun split_words :: "string \<Rightarrow> string \<Rightarrow> string list" where
  "split_words w [] = (if w = '''' then [] else [rev w])"
| "split_words w (c # s) =
     (if py_space c then (if w = '''' then split_words '''' s else rev w # split_words '''' s)
      else split_words (c # w) s)"

fun join_words :: "string list \<Rightarrow> string" where
  "join_words [] = ''''"
| "join_words [w] = w"
| "join_words (w # ws) = w @ '' '' @ join_words ws"

definition ascii_upper :: "char \<Rightarrow> char" where
  "ascii_upper c = (let n = of_char c :: nat in if 97 \<le> n \<and> n \<le> 122 then char_of (n - 32) else c)"

definition page_is_rate_limited :: "py_exn + string list \<Rightarrow> py_exn + bool" where
  "page_is_rate_limited texts =
     map_sum id (list_ex (\<lambda>t. map ascii_upper (join_words (split_words '''' t)) = ''HTTP ERROR 429'')) texts"

text \<open>The result of \<open>page.goto\<close>, and the parts of \<open>urlparse(page.url)\<close>.\<close>

record response =
  resp_status :: int
  resp_ok :: bool

record url_parts =
  url_scheme :: string
  url_hostname :: "string option"
  url_path :: string

definition is_linkedin_feed_url :: "url_parts \<Rightarrow> bool" where
  "is_linkedin_feed_url u \<longleftrightarrow>
     url_scheme u = ''https'' \<and>
     url_hostname u \<in> {Some ''linkedin.com'', Some ''www.linkedin.com''} \<and>
     (url_path u = ''/feed'' \<or> take 6 (url_path u) = ''/feed/'')"

text \<open>
  One answer of the page to a call of \<open>can_claim\<close>: the probes before any navigation, the outcome
  of the navigation, the probes after it, and the two readings of the monotonic clock (for the
  comparison with \<open>retry_at\<close>, and in \<open>_schedule\<close>).
\<close>

record page =
  doc_before :: "py_exn + document_probe"
  texts_before :: "py_exn + string list"
  goto :: "py_exn + response option"
  doc_after :: "py_exn + document_probe"
  texts_after :: "py_exn + string list"
  page_url :: url_parts
  clock_check :: real
  clock_schedule :: real

section \<open>The recovery object\<close>

definition RETRY_DELAYS :: "real list" where "RETRY_DELAYS = [15, 30, 60]"

record recovery =
  sender :: string
  notified :: "(string \<times> string) list"
  pending :: bool
  blocked :: bool
  attempts :: nat
  retry_at :: real

definition new_recovery :: "string \<Rightarrow> recovery" where
  "new_recovery who =
     \<lparr>sender = who, notified = [], pending = False, blocked = False, attempts = 0, retry_at = 0\<rparr>"

definition apostrophe :: char where "apostrophe = char_of (39::nat)"

definition hold :: "string \<Rightarrow> recovery \<Rightarrow> recovery" where
  "hold detail s =
     (if blocked s then s
      else s\<lparr>blocked := True,
             notified := notified s @
               [(sender s @ apostrophe # ''s LinkedIn task processing paused'', detail)]\<rparr>)"

definition exhausted_detail :: string where
  "exhausted_detail = ''Browser recovery failed after three attempts. No further daemon tasks will be claimed. Check connectivity and the LinkedIn session, then explicitly restart the worker.''"

definition rate_limit_detail :: string where
  "rate_limit_detail = ''LinkedIn returned HTTP 429 (rate limiting). Daemon task claims and automatic browser recovery are paused; no reload or task retry will be attempted. Allow the restriction to clear and review any failed task'' @ [apostrophe] @ ''s send evidence before restarting the worker. LinkedIn'' @ [apostrophe] @ ''s reset time is unknown.''"

definition not_feed_detail :: string where
  "not_feed_detail = ''Browser recovery did not reach the HTTPS LinkedIn feed. Check login/checkpoint state before explicitly restarting the worker. No further daemon tasks will be claimed.''"

definition transport_detail :: "int \<Rightarrow> string" where
  "transport_detail task_id = ''Browser transport failed during Task '' @ str_int task_id @ ''. Its send outcome has not been established; the failed task was not requeued. Review its delivery evidence and reconcile any uncertain send before explicitly restarting the worker.''"

definition schedule :: "real \<Rightarrow> recovery \<Rightarrow> recovery" where
  "schedule now s =
     (let s = s\<lparr>pending := True\<rparr>
      in if length RETRY_DELAYS \<le> attempts s then hold exhausted_detail s
         else s\<lparr>retry_at := now + RETRY_DELAYS ! attempts s\<rparr>)"

definition hold_rate_limit :: "recovery \<Rightarrow> recovery" where
  "hold_rate_limit s = hold rate_limit_detail s"

text \<open>\<open>raise_unless_network exc k\<close>: the \<open>except PlaywrightError\<close> clause that re-raises others.\<close>

definition unexpected :: "py_exn \<Rightarrow> bool" where
  "unexpected exc \<longleftrightarrow> \<not> is_timeout_error exc \<and> \<not> is_browser_network_error exc"

definition task_failed ::
  "py_exn \<Rightarrow> py_exn + string list \<Rightarrow> bool \<Rightarrow> int \<Rightarrow> real \<Rightarrow> recovery \<Rightarrow> recovery \<times> (py_exn + bool)" where
  "task_failed err texts read_only task_id now s =
     (case (if is_playwright_error err \<and> is_response_code_failure err
            then page_is_rate_limited texts else Inr False) of
        Inl exc \<Rightarrow> (s, Inl exc)
      | Inr True \<Rightarrow> (hold_rate_limit s, Inr True)
      | Inr False \<Rightarrow>
          (if \<not> is_browser_network_error err then (s, Inr False)
           else if read_only then (schedule now s, Inr True)
           else (hold (transport_detail task_id) s, Inr True)))"

definition task_succeeded :: "recovery \<Rightarrow> recovery" where
  "task_succeeded s = s\<lparr>attempts := 0\<rparr>"

text \<open>The first half of \<open>can_claim\<close>: no recovery is pending and the page is only probed.\<close>

definition probe_page :: "page \<Rightarrow> recovery \<Rightarrow> recovery \<times> (py_exn + bool)" where
  "probe_page p s =
     (let failed = (\<lambda>exc.
            if \<not> is_playwright_error exc \<or> unexpected exc then (s, Inl exc)
            else (schedule (clock_schedule p) s, Inr False))
      in case page_is_offline (doc_before p) of
           Inl exc \<Rightarrow> failed exc
         | Inr False \<Rightarrow> (s, Inr True)
         | Inr True \<Rightarrow>
             (case page_is_rate_limited (texts_before p) of
                Inl exc \<Rightarrow> failed exc
              | Inr True \<Rightarrow> (hold_rate_limit s, Inr False)
              | Inr False \<Rightarrow> (schedule (clock_schedule p) s, Inr False)))"

text \<open>
  The second half: one recovery navigation. The exception handler of the navigation covers both
  \<open>page.goto\<close> and the offline probe that follows it.
\<close>

definition navigation_failed :: "py_exn \<Rightarrow> page \<Rightarrow> recovery \<Rightarrow> recovery \<times> (py_exn + bool)" where
  "navigation_failed exc p s =
     (if \<not> is_playwright_error exc then (s, Inl exc)
      else case (if is_response_code_failure exc then page_is_rate_limited (texts_after p)
                 else Inr False) of
        Inl exc' \<Rightarrow> (s, Inl exc')
      | Inr True \<Rightarrow> (hold_rate_limit s, Inr False)
      | Inr False \<Rightarrow>
          (if unexpected exc then (s, Inl exc)
           else (schedule (clock_schedule p) s, Inr False)))"

definition navigated ::
  "response option \<Rightarrow> bool \<Rightarrow> page \<Rightarrow> recovery \<Rightarrow> recovery \<times> (py_exn + bool)" where
  "navigated resp offline p s =
     (case (if (case resp of None \<Rightarrow> False | Some r \<Rightarrow> resp_status r = 429) then Inr True
            else if offline then page_is_rate_limited (texts_after p) else Inr False) of
        Inl exc \<Rightarrow> (s, Inl exc)
      | Inr True \<Rightarrow> (hold_rate_limit s, Inr False)
      | Inr False \<Rightarrow>
          (if offline \<or> (case resp of None \<Rightarrow> True | Some r \<Rightarrow> \<not> resp_ok r)
           then (schedule (clock_schedule p) s, Inr False)
           else if \<not> is_linkedin_feed_url (page_url p) then (hold not_feed_detail s, Inr False)
           else (s\<lparr>pending := False\<rparr>, Inr True)))"

definition navigate :: "page \<Rightarrow> recovery \<Rightarrow> recovery \<times> (py_exn + bool)" where
  "navigate p s =
     (case goto p of
        Inl exc \<Rightarrow> navigation_failed exc p s
      | Inr resp \<Rightarrow>
          (case page_is_offline (doc_after p) of
             Inl exc \<Rightarrow> navigation_failed exc p s
           | Inr offline \<Rightarrow> navigated resp offline p s))"

definition can_claim :: "page \<Rightarrow> recovery \<Rightarrow> recovery \<times> (py_exn + bool)" where
  "can_claim p s =
     (if blocked s then (s, Inr False)
      else if \<not> pending s then probe_page p s
      else if clock_check p < retry_at s then (s, Inr False)
      else navigate p (s\<lparr>attempts := attempts s + 1\<rparr>))"

section \<open>The daemon loop\<close>

text \<open>
  The events of the loop of \<open>run_daemon\<close>: a pass that asks \<open>can_claim\<close>, a task whose handler
  raised, a completed task. The state is that of a live process, or of one that an exception ended.
\<close>

datatype loop_event =
    Pass page
  | Task_Failed py_exn "py_exn + string list" bool int real
  | Task_Completed bool

datatype process = Alive recovery | Crashed recovery

fun finish :: "recovery \<times> (py_exn + bool) \<Rightarrow> process" where
  "finish (s, Inl exc) = Crashed s"
| "finish (s, Inr b) = Alive s"

fun loop_step :: "loop_event \<Rightarrow> process \<Rightarrow> process" where
  "loop_step e (Crashed s) = Crashed s"
| "loop_step (Pass p) (Alive s) = finish (can_claim p s)"
| "loop_step (Task_Failed err texts read_only task_id now) (Alive s) =
     finish (task_failed err texts read_only task_id now s)"
| "loop_step (Task_Completed is_status_summary) (Alive s) =
     Alive (if is_status_summary then s else task_succeeded s)"

section \<open>Lemmas on single operations\<close>

lemma hold_fields [simp]:
  "sender (hold d s) = sender s" "pending (hold d s) = pending s"
  "attempts (hold d s) = attempts s" "retry_at (hold d s) = retry_at s" "blocked (hold d s)"
  by (simp_all add: hold_def)

lemma schedule_fields [simp]:
  "pending (schedule now s)" "attempts (schedule now s) = attempts s"
  "sender (schedule now s) = sender s"
  by (simp_all add: schedule_def Let_def)

lemma schedule_blocked [simp]: "blocked (schedule now s) \<longleftrightarrow> blocked s \<or> 3 \<le> attempts s"
  by (simp add: schedule_def Let_def RETRY_DELAYS_def)

lemma hold_rate_limit_fields [simp]:
  "pending (hold_rate_limit s) = pending s" "attempts (hold_rate_limit s) = attempts s"
  "blocked (hold_rate_limit s)"
  by (simp_all add: hold_rate_limit_def)

text \<open>One notification per hold, at most three attempts, and room for one while one is pending.\<close>

definition told_once :: "recovery \<Rightarrow> bool" where
  "told_once s \<longleftrightarrow> length (notified s) = (if blocked s then 1 else 0)"

lemma told_once_ops [simp]:
  "told_once s \<Longrightarrow> told_once (hold d s)"
  "told_once s \<Longrightarrow> told_once (hold_rate_limit s)"
  "told_once s \<Longrightarrow> told_once (schedule now s)"
  by (auto simp: told_once_def hold_def hold_rate_limit_def schedule_def Let_def)

definition room :: "recovery \<Rightarrow> bool" where
  "room s \<longleftrightarrow> attempts s \<le> 3 \<and> (pending s \<and> \<not> blocked s \<longrightarrow> attempts s < 3)"

text \<open>
  What a state-changing call may do, told as a relation between the states before and after: every
  operation below reduces to one of these four.
\<close>

definition soft_step :: "recovery \<Rightarrow> recovery \<Rightarrow> bool" where
  "soft_step s t \<longleftrightarrow> t = s \<or> (\<exists>d. t = hold d s) \<or> (\<exists>now. t = schedule now s) \<or> t = s\<lparr>pending := False\<rparr>"

lemma soft_step_intros [intro]:
  "soft_step s s" "soft_step s (hold d s)" "soft_step s (hold_rate_limit s)"
  "soft_step s (schedule now s)" "soft_step s (s\<lparr>pending := False\<rparr>)"
  by (auto simp: soft_step_def hold_rate_limit_def)

lemma soft_step_keeps:
  assumes "soft_step s t"
  shows "attempts t = attempts s" and "blocked s \<Longrightarrow> blocked t" and "told_once s \<Longrightarrow> told_once t"
    and "room s \<Longrightarrow> room t"
    and "attempts s \<le> 3 \<Longrightarrow> t \<noteq> s \<Longrightarrow> room t"
  using assms unfolding soft_step_def
  by (auto simp: room_def) (simp add: told_once_def)

lemma probe_page_soft: "soft_step s (fst (probe_page p s))"
  by (auto simp: probe_page_def Let_def split: sum.split bool.split)

lemma task_failed_soft: "soft_step s (fst (task_failed err texts ro tid now s))"
  unfolding task_failed_def by (auto split: sum.split bool.split)

lemma navigation_failed_soft: "soft_step s (fst (navigation_failed exc p s))"
  unfolding navigation_failed_def by (auto split: sum.split bool.split)

lemma navigated_soft: "soft_step s (fst (navigated resp offline p s))"
  unfolding navigated_def by (auto split: sum.split bool.split option.split)

lemma navigate_soft: "soft_step s (fst (navigate p s))"
  unfolding navigate_def
  by (auto simp: navigation_failed_soft navigated_soft split: sum.split)

text \<open>A navigation that returns leaves the object blocked, released, or scheduled again.\<close>

lemma navigation_failed_room:
  "attempts s \<le> 3 \<Longrightarrow> navigation_failed exc p s = (t, Inr b) \<Longrightarrow> room t"
  unfolding navigation_failed_def
  by (auto simp: room_def split: sum.splits bool.splits if_splits)

lemma navigated_room: "attempts s \<le> 3 \<Longrightarrow> navigated resp offline p s = (t, Inr b) \<Longrightarrow> room t"
  unfolding navigated_def
  by (auto simp: room_def split: sum.splits bool.splits if_splits option.splits)

lemma navigate_room: "attempts s \<le> 3 \<Longrightarrow> navigate p s = (t, Inr b) \<Longrightarrow> room t"
  unfolding navigate_def
  by (auto split: sum.splits dest: navigation_failed_room navigated_room)

section \<open>The daemon loop keeps its invariant\<close>

fun recovery_of :: "process \<Rightarrow> recovery" where
  "recovery_of (Alive s) = s"
| "recovery_of (Crashed s) = s"

definition loop_inv :: "process \<Rightarrow> bool" where
  "loop_inv P \<longleftrightarrow> told_once (recovery_of P) \<and> attempts (recovery_of P) \<le> 3 \<and>
     (case P of Alive s \<Rightarrow> room s | Crashed s \<Rightarrow> True)"

definition held :: "process \<Rightarrow> bool" where
  "held P \<longleftrightarrow> blocked (recovery_of P)"

definition navigates :: "loop_event \<Rightarrow> process \<Rightarrow> bool" where
  "navigates e P =
     (case (e, P) of
        (Pass p, Alive s) \<Rightarrow> \<not> blocked s \<and> pending s \<and> \<not> clock_check p < retry_at s
      | _ \<Rightarrow> False)"

lemma finish_fst [simp]: "recovery_of (finish r) = fst r"
  by (cases r; cases "snd r") auto

lemma loop_inv_soft:
  assumes "room s" and "told_once s" and "soft_step s (fst r)"
  shows "loop_inv (finish r)"
  using soft_step_keeps [OF assms(3)] assms(1,2)
  by (cases r; cases "snd r") (auto simp: loop_inv_def room_def)

lemma can_claim_inv:
  assumes "room s" and "told_once s"
  shows "loop_inv (finish (can_claim p s))"
proof (cases "blocked s \<or> \<not> pending s \<or> clock_check p < retry_at s")
  case True
  then have "soft_step s (fst (can_claim p s))"
    using probe_page_soft [of s p] by (auto simp: can_claim_def)
  then show ?thesis by (rule loop_inv_soft [OF assms])
next
  case False
  let ?s = "s\<lparr>attempts := attempts s + 1\<rparr>"
  from False assms(1) have a: "attempts ?s \<le> 3" by (simp add: room_def)
  have e: "can_claim p s = navigate p ?s" using False by (simp add: can_claim_def)
  have k: "told_once (fst (navigate p ?s))" "attempts (fst (navigate p ?s)) \<le> 3"
    using soft_step_keeps [OF navigate_soft [of ?s p]] assms(2) a by (simp_all add: told_once_def)
  show ?thesis
  proof (cases "navigate p ?s")
    case (Pair t r)
    then show ?thesis
      using k navigate_room [OF a] by (cases r) (auto simp: e loop_inv_def)
  qed
qed

lemma loop_step_inv: "loop_inv P \<Longrightarrow> loop_inv (loop_step e P)"
proof (induction e P rule: loop_step.induct)
  case (2 p s)
  then show ?case using can_claim_inv by (auto simp: loop_inv_def)
next
  case (3 err texts ro tid now s)
  then show ?case using loop_inv_soft [OF _ _ task_failed_soft] by (auto simp: loop_inv_def)
next
  case (4 b s)
  then show ?case by (auto simp: loop_inv_def task_succeeded_def room_def told_once_def)
qed simp

lemma can_claim_blocked [simp]: "blocked s \<Longrightarrow> can_claim p s = (s, Inr False)"
  by (simp add: can_claim_def)

lemma loop_step_held: "held P \<Longrightarrow> held (loop_step e P)"
proof (induction e P rule: loop_step.induct)
  case (3 err texts ro tid now s)
  then show ?case using soft_step_keeps(2) [OF task_failed_soft] by (simp add: held_def)
qed (simp_all add: held_def task_succeeded_def)

interpretation daemon: latched_machine loop_step loop_inv held
  by unfold_locales (auto intro: loop_step_inv loop_step_held)

lemma loop_inv_start: "loop_inv (Alive (new_recovery who))"
  by (simp add: loop_inv_def new_recovery_def told_once_def room_def)

section \<open>Properties\<close>

definition run_loop :: "string \<Rightarrow> loop_event list \<Rightarrow> process" where
  "run_loop who es = fold loop_step es (Alive (new_recovery who))"

lemma run_loop_inv: "loop_inv (run_loop who es)"
  unfolding run_loop_def by (rule daemon.inv_run [OF loop_inv_start])

text \<open>
  A hold is announced exactly once: after any sequence of passes, failures and completions the
  number of notifications is one if processing is paused and zero if it is not.
\<close>

theorem recovery_notified_once:
  "length (notified (recovery_of (run_loop who es))) =
     (if blocked (recovery_of (run_loop who es)) then 1 else 0)"
  using run_loop_inv [of who es] by (simp add: loop_inv_def told_once_def)

text \<open>
  A hold is latched: once processing is paused, no later sequence of events resumes it, and
  every later pass refuses to claim a task without touching the page.
\<close>

theorem recovery_hold_latched:
  assumes "blocked (recovery_of (run_loop who es))"
  shows "blocked (recovery_of (run_loop who (es @ es'))) \<and>
    can_claim p (recovery_of (run_loop who (es @ es'))) =
      (recovery_of (run_loop who (es @ es')), Inr False)"
proof -
  have "held (run_loop who (es @ es'))"
    using daemon.latched_run_append [OF loop_inv_start, of es who es'] assms
    unfolding held_def run_loop_def by blast
  then show ?thesis by (simp add: held_def)
qed

definition offline_page :: page where
  "offline_page =
     \<lparr>doc_before = Inr \<lparr>navigator_online = False, document_uri = '''', has_error_code = False\<rparr>,
      texts_before = Inr [''HTTP ERROR  429''], goto = Inr None,
      doc_after = Inr \<lparr>navigator_online = False, document_uri = '''', has_error_code = False\<rparr>,
      texts_after = Inr [], page_url = \<lparr>url_scheme = '''', url_hostname = None, url_path = ''''\<rparr>,
      clock_check = 1000, clock_schedule = 0\<rparr>"

lemma run_loop_rate_limited: "blocked (recovery_of (run_loop ''a'' [Pass offline_page]))"
  by (simp add: run_loop_def new_recovery_def can_claim_def probe_page_def offline_page_def
      page_is_offline_def page_is_rate_limited_def py_space_def ascii_upper_def Let_def)

theorem recovery_hold_latched_witness:
  "blocked (recovery_of (run_loop ''a'' ([Pass offline_page] @ [Task_Completed False])))"
  using recovery_hold_latched [OF run_loop_rate_limited, of "[Task_Completed False]"] by blast

text \<open>Recovery navigations and completed tasks along a run.\<close>

fun navigations :: "loop_event list \<Rightarrow> process \<Rightarrow> nat" where
  "navigations [] P = 0"
| "navigations (e # es) P = (if navigates e P then 1 else 0) + navigations es (loop_step e P)"

fun completions :: "loop_event list \<Rightarrow> nat" where
  "completions [] = 0"
| "completions (Task_Completed False # es) = Suc (completions es)"
| "completions (e # es) = completions es"

lemma attempts_step:
  assumes "loop_inv P"
  shows "(if navigates e P then 1 else 0) + attempts (recovery_of P) \<le>
    attempts (recovery_of (loop_step e P)) + 3 * completions [e]"
  using assms
proof (induction e P rule: loop_step.induct)
  case (2 p s)
  then show ?case
    using soft_step_keeps(1) [OF probe_page_soft [of s p]] soft_step_keeps(1) [OF navigate_soft]
    by (auto simp: navigates_def can_claim_def)
next
  case (3 err texts ro tid now s)
  then show ?case
    using soft_step_keeps(1) [OF task_failed_soft] by (simp add: navigates_def)
next
  case (4 b s)
  then show ?case by (cases b) (simp_all add: navigates_def loop_inv_def)
qed (simp add: navigates_def split: loop_event.split)

lemma completions_Cons: "completions (e # es) = completions [e] + completions es"
  by (cases e; cases "\<exists>b. e = Task_Completed b \<and> \<not> b") auto

lemma navigations_bound:
  "loop_inv P \<Longrightarrow> navigations es P + attempts (recovery_of P) \<le> 3 * (1 + completions es)"
proof (induction es arbitrary: P)
  case Nil
  then show ?case by (simp add: loop_inv_def)
next
  case (Cons e es)
  from Cons.IH [OF loop_step_inv [OF Cons.prems, of e]] attempts_step [OF Cons.prems, of e]
  show ?case
    unfolding navigations.simps completions_Cons [of e es]
    by (simp only: add_mult_distrib2 split: if_split_asm)
qed

text \<open>
  C35: the budget of recovery navigations is three per completed browser task: over any run the
  daemon navigates the page at most three times more than three times the number of tasks that
  completed, so an outage never turns into a reload loop.
\<close>

theorem recovery_navigation_budget:
  "navigations es (Alive (new_recovery who)) \<le> 3 * (1 + completions es)"
  using navigations_bound [OF loop_inv_start, of es who] by linarith

text \<open>
  The queue is released only by evidence: a pass answers true exactly when processing is not
  paused and either no recovery is pending and the document is online, or a due recovery navigation
  got a successful response other than 429, the document is online and the address is the feed.
\<close>

theorem can_claim_released:
  "snd (can_claim p s) = Inr True \<longleftrightarrow>
     \<not> blocked s \<and>
     (if \<not> pending s then page_is_offline (doc_before p) = Inr False
      else retry_at s \<le> clock_check p \<and>
        (\<exists>r. goto p = Inr (Some r) \<and> resp_ok r \<and> resp_status r \<noteq> 429 \<and>
           page_is_offline (doc_after p) = Inr False \<and> is_linkedin_feed_url (page_url p)))"
proof (cases "blocked s \<or> \<not> pending s \<or> clock_check p < retry_at s")
  case True
  then show ?thesis
    by (auto simp: can_claim_def probe_page_def Let_def split: sum.splits bool.splits)
next
  case False
  have f: "snd (navigation_failed exc p t) \<noteq> Inr True" for exc t
    unfolding navigation_failed_def by (auto split: sum.splits bool.splits)
  have n: "snd (navigated resp off p t) = Inr True \<longleftrightarrow>
      (\<exists>r. resp = Some r \<and> resp_ok r \<and> resp_status r \<noteq> 429 \<and> \<not> off \<and>
        is_linkedin_feed_url (page_url p))" for resp off t
    unfolding navigated_def by (auto split: sum.splits bool.splits option.splits)
  have "can_claim p s = navigate p (s\<lparr>attempts := attempts s + 1\<rparr>)"
    using False by (simp add: can_claim_def)
  then show ?thesis
    using False f n by (auto simp: navigate_def split: sum.splits)
qed

text \<open>
  A transport error during a task that may have mutated LinkedIn is never retried: unless the
  process ends, processing is paused, and no recovery attempt is scheduled.
\<close>

theorem task_failed_mutating:
  assumes "is_browser_network_error err" and "task_failed err texts False task_id now s = (t, Inr b)"
  shows "b \<and> blocked t \<and> pending t = pending s \<and> retry_at t = retry_at s"
  using assms unfolding task_failed_def
  by (auto simp: hold_rate_limit_def split: sum.splits bool.splits if_splits)

theorem task_failed_mutating_witness:
  "\<exists>t. task_failed (PlaywrightError ''net::ERR_CONNECTION_RESET'') (Inr []) False 7 0
     (new_recovery ''a'') = (t, Inr True) \<and> blocked t"
proof -
  let ?e = "PlaywrightError ''net::ERR_CONNECTION_RESET''"
  have n: "is_browser_network_error ?e"
    by (simp add: is_browser_network_error_def NETWORK_ERRORS_def)
  obtain t where t: "task_failed ?e (Inr []) False 7 0 (new_recovery ''a'') = (t, Inr True)"
    using n by (auto simp: task_failed_def is_response_code_failure_def)
  with task_failed_mutating [OF n t] show ?thesis by blast
qed

end
