(* ===== verification/Copy_Text.thy ===== *)
theory Copy_Text
  imports Py_Lib
begin

text \<open>
  The helpers that put a lead's and an operator's data into outbound copy:
  \<open>linkedin/operators.py\<close> (operator aliases), \<open>linkedin/message_roles.py\<close> (wording of a role tag),
  \<open>linkedin/name_utils.py\<close> (the first name of a greeting) and \<open>safe_company_name\<close> of
  \<open>linkedin/icp_outbound.py\<close>. Characters are the first 256 code points: the typographic quotes of
  the nickname pattern lie outside of them.
\<close>

section \<open>Operators\<close>

definition OPERATOR_ALIASES :: "(string \<times> string) list" where
  "OPERATOR_ALIASES =
     [(''chuka'', ''Chuka''),
      (''chuka agu'', ''Chuka''),
      (''chukwuka'', ''Chuka''),
      (''chukwuka agu'', ''Chuka''),
      (''chuka eddy jack'', ''Chuka''),
      (''chuky eddy jack'', ''Chuka''),
      (''chukyjack'', ''Chuka''),
      (''chukyjack@gmail.com'', ''Chuka''),
      (''eddy'', ''Chuka''),
      (''eddy agu'', ''Chuka''),
      (''eddy@tryfedrampgpt.com'', ''Chuka''),
      (''eddy@boundera.io'', ''Chuka''),
      (''arian'', ''Arian''),
      (''arian taj'', ''Arian''),
      (''arian tajbakhsh'', ''Arian''),
      (''ariantajbakh'', ''Arian''),
      (''ariantajbakh@gmail.com'', ''Arian''),
      (''ariantajbaka@gmail.com'', ''Arian''),
      (''ariant2013@gmail.com'', ''Arian''),
      (''ariant@tryfedrampgpt.com'', ''Arian''),
      (''ariant@boundera.io'', ''Arian''),
      (''arian@boundera.io'', ''Arian''),
      (''leili'', ''Leili''),
      (''leili amirshahi'', ''Leili''),
      (''leiliash2011'', ''Leili''),
      (''leili.ash2011@yahoo.com'', ''Leili''),
      (''athena'', ''Athena''),
      (''athenaaghdami'', ''Athena''),
      (''athena aghdami'', ''Athena''),
      (''athenaaghdami@gmail.com'', ''Athena''),
      (''athena@getboundera.com'', ''Athena'')]"

definition CANONICAL_OPERATOR_HANDLES :: "string list" where
  "CANONICAL_OPERATOR_HANDLES = [''Arian'', ''Athena'', ''Chuka'', ''Leili'']"

definition resolve_operator :: "string option \<Rightarrow> string" where
  "resolve_operator v =
     (case v of
        None \<Rightarrow> ''''
      | Some s \<Rightarrow>
          let k = casefold (strip s) in
          if k = '''' then ''''
          else (case map_of OPERATOR_ALIASES k of Some h \<Rightarrow> h | None \<Rightarrow> strip s))"

definition resolve_sales_owner_handle :: "string option \<Rightarrow> string" where
  "resolve_sales_owner_handle v =
     (let r = resolve_operator v in if r \<in> set CANONICAL_OPERATOR_HANDLES then r else '''')"

text \<open>The display name of \<open>gmail/auth.py GMAIL_OPERATOR_MAPPING\<close>, where the mapping has one.\<close>

definition gmail_display_name :: "string \<Rightarrow> string option" where
  "gmail_display_name operator = (if operator = ''Chuka'' then Some ''Eddy'' else None)"

section \<open>Role wording\<close>

definition ROLE_WORDING :: "(string \<times> string) list" where
  "ROLE_WORDING =
     [(''Founder/CEO'', ''founders''),
      (''CFO/Finance'', ''finance leaders''),
      (''COO/Operations'', ''operations leaders''),
      (''CRO/Revenue'', ''revenue leaders''),
      (''Product Executive'', ''product leaders''),
      (''Technology/Engineering Executive'', ''engineering leaders''),
      (''CIO/Internal IT Executive'', ''IT leaders''),
      (''Security/Trust Executive'', ''security leaders''),
      (''Product/Engineering N-1'', ''product and engineering teams''),
      (''Security/Compliance N-1'', ''security and compliance teams''),
      (''Compliance/Risk/Privacy Executive'', ''compliance leaders''),
      (''FedRAMP Owner/Operator'', ''FedRAMP teams''),
      (''GRC Manager/Lead'', ''GRC teams''),
      (''GRC Engineer'', ''GRC teams''),
      (''GRC Analyst/Practitioner'', ''GRC teams''),
      (''Federal/Public Sector Executive'', ''public sector leaders''),
      (''Federal Sales/BD IC'', ''federal sales teams''),
      (''Federal Solutions Engineer/Architect'', ''federal solutions teams''),
      (''Public Sector Partnerships/Alliances/CS'', ''public sector partner and customer teams''),
      (''Field CTO/CISO/Technical Evangelist'', ''field technical teams'')]"

datatype message_role_error = No_Wording string

definition role_wording :: "string option \<Rightarrow> (message_role_error, string) result" where
  "role_wording tag =
     (case tag of
        None \<Rightarrow> Inr ''companies''
      | Some s \<Rightarrow>
          if strip s = '''' then Inr ''companies''
          else (case map_of ROLE_WORDING s of Some w \<Rightarrow> Inr w | None \<Rightarrow> Inl (No_Wording s)))"

section \<open>First names\<close>

definition LEADING_TITLES :: "string list" where
  "LEADING_TITLES = [''dr'', ''mr'', ''mrs'', ''ms'', ''miss'', ''prof'', ''sir'', ''dame'']"

text \<open>One alternative of the title pattern: the title, an optional full stop and some white space.\<close>

definition title_rest :: "string \<Rightarrow> string \<Rightarrow> string option" where
  "title_rest s title =
     (if casefold (take (length title) s) \<noteq> title then None
      else
        let r = drop (length title) s;
            q = (case r of [] \<Rightarrow> [] | c # t \<Rightarrow> if c = CHR ''.'' then t else r)
        in (case q of [] \<Rightarrow> None | c # t \<Rightarrow> if py_space c then Some (lstrip q) else None))"

definition drop_title :: "string \<Rightarrow> string" where
  "drop_title s = (case first_some (title_rest s) LEADING_TITLES of None \<Rightarrow> s | Some r \<Rightarrow> r)"

text \<open>
  The nickname pattern at white space: the text up to the first closing character, which a lazy
  match finds unless a line break comes first.
\<close>

fun lazy_until :: "(char \<Rightarrow> bool) \<Rightarrow> string \<Rightarrow> string option" where
  "lazy_until close [] = None"
| "lazy_until close (c # s) =
     (if close c then Some s else if of_char c = (10 :: nat) then None else lazy_until close s)"

definition quote_char :: "char \<Rightarrow> bool" where
  "quote_char c \<longleftrightarrow> of_char c \<in> {34, 39 :: nat}"

definition nickname_rest :: "string \<Rightarrow> string option" where
  "nickname_rest s =
     (case s of
        [] \<Rightarrow> None
      | c # _ \<Rightarrow>
          if \<not> py_space c then None
          else (case lstrip s of
                  [] \<Rightarrow> None
                | q # t \<Rightarrow>
                    if quote_char q then lazy_until quote_char t
                    else if q = CHR ''('' then lazy_until (\<lambda>c. c = CHR '')'') t
                    else None))"

lemma lazy_until_shorter: "lazy_until p s = Some r \<Longrightarrow> length r < length s"
  by (induction p s rule: lazy_until.induct) (auto split: if_splits)

lemma lstrip_shorter: "length (lstrip s) \<le> length s"
  by (simp add: lstrip_def length_dropWhile_le)

lemma nickname_rest_shorter: "nickname_rest s = Some r \<Longrightarrow> length r < length s"
  using lstrip_shorter [of s]
  by (auto simp: nickname_rest_def split: list.splits if_splits dest!: lazy_until_shorter)

function drop_nicknames :: "string \<Rightarrow> string" where
  "drop_nicknames s =
     (case nickname_rest s of
        Some r \<Rightarrow> drop_nicknames r
      | None \<Rightarrow> (case s of [] \<Rightarrow> [] | c # t \<Rightarrow> c # drop_nicknames t))"
  by pat_completeness auto
termination
  by (relation "measure length") (auto dest: nickname_rest_shorter)

declare drop_nicknames.simps [simp del]

definition first_word :: "string \<Rightarrow> string" where
  "first_word s = takeWhile (\<lambda>c. \<not> py_space c) (lstrip s)"

definition greeting_punctuation :: "char \<Rightarrow> bool" where
  "greeting_punctuation c \<longleftrightarrow> c \<in> set '' .,:;()[]{}'' \<or> quote_char c"

definition strip_punctuation :: "string \<Rightarrow> string" where
  "strip_punctuation s = rev (dropWhile greeting_punctuation (rev (dropWhile greeting_punctuation s)))"

text \<open>
  \<open>" ".join(name.split())\<close> is nonempty when some character is no white space, and its first word is
  the first word of \<open>name\<close>.
\<close>

definition greeting_first_name :: "string \<Rightarrow> string" where
  "greeting_first_name v =
     (let name = strip v in
      if name = '''' then ''''
      else strip_punctuation
             (first_word (takeWhile (\<lambda>c. c \<noteq> CHR '','') (drop_nicknames (drop_title name)))))"

section \<open>Company names\<close>

definition UNKNOWN_COMPANY_NAMES :: "string list" where
  "UNKNOWN_COMPANY_NAMES = [''unknown company'', ''unknown'', ''n/a'', ''none'']"

text \<open>Every run of white space becomes one space.\<close>

fun squeeze_spaces :: "bool \<Rightarrow> string \<Rightarrow> string" where
  "squeeze_spaces seen [] = []"
| "squeeze_spaces seen (c # s) =
     (if py_space c then (if seen then squeeze_spaces True s else CHR '' '' # squeeze_spaces True s)
      else c # squeeze_spaces False s)"

definition is_unknown_company_name :: "string \<Rightarrow> bool" where
  "is_unknown_company_name s \<longleftrightarrow> squeeze_spaces False (casefold (strip s)) \<in> set UNKNOWN_COMPANY_NAMES"

definition safe_company_name :: "string \<Rightarrow> string" where
  "safe_company_name s =
     (let cleaned = strip s in if is_unknown_company_name cleaned then ''your team'' else cleaned)"

section \<open>What the helpers return\<close>

lemma greeting_examples:
  "greeting_first_name ''Dr. Allen (Al) Mayfield'' = ''Allen''"
  "greeting_first_name ''Mrs Jane, PhD'' = ''Jane''"
  "greeting_first_name ''Drew'' = ''Drew''"
  "greeting_first_name ''(X) Ann'' = ''X''"
  by code_simp+

lemma set_strip_punctuation: "set (strip_punctuation s) \<subseteq> set s"
  unfolding strip_punctuation_def by (auto dest!: set_dropWhileD)

lemma greeting_first_name_word: "\<forall>c \<in> set (greeting_first_name v). \<not> py_space c"
proof -
  have "\<forall>c \<in> set (first_word s). \<not> py_space c" for s
    by (auto simp: first_word_def dest: set_takeWhileD)
  with set_strip_punctuation
  have "\<forall>c \<in> set (strip_punctuation (first_word s)). \<not> py_space c" for s by blast
  then show ?thesis by (simp add: greeting_first_name_def Let_def)
qed

lemma safe_company_name_known: "\<not> is_unknown_company_name (safe_company_name s)"
proof -
  have "\<not> is_unknown_company_name ''your team''" by code_simp
  then show ?thesis by (simp add: safe_company_name_def Let_def)
qed

lemma resolve_operator_canonical:
  "map_of OPERATOR_ALIASES k = Some h \<Longrightarrow> h \<in> set CANONICAL_OPERATOR_HANDLES"
proof -
  assume "map_of OPERATOR_ALIASES k = Some h"
  then have "h \<in> snd ` set OPERATOR_ALIASES" by (force dest: map_of_SomeD)
  moreover have "list_all (\<lambda>p. snd p \<in> set CANONICAL_OPERATOR_HANDLES) OPERATOR_ALIASES" by code_simp
  ultimately show ?thesis by (auto simp: list_all_iff)
qed

text \<open>A canonical handle resolves to itself, so resolving twice changes nothing.\<close>

lemma resolve_operator_fixed:
  "h \<in> set CANONICAL_OPERATOR_HANDLES \<Longrightarrow> resolve_operator (Some h) = h"
proof -
  have "list_all (\<lambda>h. resolve_operator (Some h) = h) CANONICAL_OPERATOR_HANDLES" by code_simp
  then show "h \<in> set CANONICAL_OPERATOR_HANDLES \<Longrightarrow> ?thesis" by (simp add: list_all_iff)
qed

lemma resolve_operator_idem: "resolve_operator (Some (resolve_operator v)) = resolve_operator v"
proof (cases v)
  case None
  then show ?thesis by (simp add: resolve_operator_def casefold_def strip_def lstrip_def)
next
  case (Some s)
  show ?thesis
  proof (cases "map_of OPERATOR_ALIASES (casefold (strip s))")
    case None
    show ?thesis
    proof (cases "casefold (strip s) = []")
      case True
      then show ?thesis
        using Some by (simp add: resolve_operator_def casefold_def strip_def lstrip_def)
    next
      case False
      with None Some have "resolve_operator v = strip s" by (simp add: resolve_operator_def)
      then show ?thesis using None False by (simp add: resolve_operator_def)
    qed
  next
    case h: (Some h)
    from resolve_operator_canonical [OF this] have "resolve_operator (Some h) = h"
      by (rule resolve_operator_fixed)
    moreover have "resolve_operator v = h \<or> resolve_operator v = []"
      using Some h by (simp add: resolve_operator_def Let_def)
    moreover have "resolve_operator (Some []) = []"
      by (simp add: resolve_operator_def casefold_def strip_def lstrip_def)
    ultimately show ?thesis by auto
  qed
qed

end
