(* ===== verification/Py_Format.thy ===== *)
theory Py_Format
  imports Py_Lib
begin

text \<open>
  Python's replacement-field syntax as the message templates use it: \<open>string.Formatter().parse\<close>,
  which splits a template into literal text and fields, and the substitution of plain fields by
  \<open>str.format_map\<close>. The scanner follows the interpreter's: doubled braces are literal, a field name
  ends at a brace, a colon or an exclamation mark, text in square brackets is not examined, and a
  format specification runs to the brace that balances the opening one.
\<close>

section \<open>Parts of a template\<close>

text \<open>
  A part is its literal text and, when a field follows, the field's name, format specification and
  conversion character.
\<close>

type_synonym field = "string \<times> string \<times> char option"
type_synonym format_part = "string \<times> field option"

datatype format_error = FormatValueError string

datatype literal =
    Lit_End string
  | Lit_Escape string string
  | Lit_Field string string
  | Lit_Error string

fun scan_literal :: "string \<Rightarrow> string \<Rightarrow> literal" where
  "scan_literal acc [] = Lit_End (rev acc)"
| "scan_literal acc (c # s) =
     (if c = CHR ''{'' then
        (case s of
           [] \<Rightarrow> Lit_Error ''Single open brace encountered in format string''
         | d # t \<Rightarrow> if d = CHR ''{'' then Lit_Escape (rev (CHR ''{'' # acc)) t
                    else Lit_Field (rev acc) s)
      else if c = CHR ''}'' then
        (case s of
           [] \<Rightarrow> Lit_Error ''Single close brace encountered in format string''
         | d # t \<Rightarrow> if d = CHR ''}'' then Lit_Escape (rev (CHR ''}'' # acc)) t
                    else Lit_Error ''Single close brace encountered in format string'')
      else scan_literal (c # acc) s)"

text \<open>The name of a field, the character that ended it and the rest of the template.\<close>

fun scan_name :: "bool \<Rightarrow> string \<Rightarrow> string \<Rightarrow> (format_error, string \<times> char \<times> string) result" where
  "scan_name bracket acc [] = Inl (FormatValueError ''expected close brace before end of string'')"
| "scan_name bracket acc (c # s) =
     (if bracket \<and> c \<noteq> CHR '']'' then scan_name True (c # acc) s
      else if c = CHR ''{'' then Inl (FormatValueError ''unexpected open brace in field name'')
      else if c = CHR ''['' then scan_name True (c # acc) s
      else if c = CHR ''}'' \<or> c = CHR '':'' \<or> c = CHR ''!'' then Inr (rev acc, c, s)
      else scan_name False (c # acc) s)"

fun scan_spec :: "nat \<Rightarrow> string \<Rightarrow> string \<Rightarrow> (format_error, string \<times> string) result" where
  "scan_spec depth acc [] = Inl (FormatValueError ''unmatched open brace in format spec'')"
| "scan_spec depth acc (c # s) =
     (if c = CHR ''{'' then scan_spec (Suc depth) (c # acc) s
      else if c = CHR ''}'' then
        (if depth \<le> 1 then Inr (rev acc, s) else scan_spec (depth - 1) (c # acc) s)
      else scan_spec depth (c # acc) s)"

definition scan_conversion :: "string \<Rightarrow> (format_error, char \<times> string option \<times> string) result" where
  "scan_conversion s =
     (case s of
        [] \<Rightarrow> Inl (FormatValueError ''end of string while looking for conversion specifier'')
      | conv # t \<Rightarrow>
          (case t of
             [] \<Rightarrow> Inl (FormatValueError ''unmatched open brace in format spec'')
           | c # u \<Rightarrow>
               if c = CHR ''}'' then Inr (conv, Some '''', u)
               else if c \<noteq> CHR '':'' then
                 Inl (FormatValueError ''expected colon after conversion specifier'')
               else Inr (conv, None, u)))"

definition scan_field :: "string \<Rightarrow> (format_error, field \<times> string) result" where
  "scan_field s =
     bind_result (scan_name False '''' s) (\<lambda>(name, c, t).
       if c = CHR ''}'' then Inr ((name, '''', None), t)
       else if c = CHR '':'' then
         bind_result (scan_spec 1 '''' t) (\<lambda>(spec, u). Inr ((name, spec, None), u))
       else
         bind_result (scan_conversion t) (\<lambda>(conv, fin, u).
           case fin of
             Some spec \<Rightarrow> Inr ((name, spec, Some conv), u)
           | None \<Rightarrow> bind_result (scan_spec 1 '''' u) (\<lambda>(spec, v). Inr ((name, spec, Some conv), v))))"

lemma scan_name_shorter: "scan_name b acc s = Inr (n, c, t) \<Longrightarrow> length t < length s"
  by (induction b acc s rule: scan_name.induct) (auto split: if_splits)

lemma scan_spec_shorter: "scan_spec d acc s = Inr (sp, t) \<Longrightarrow> length t < length s"
  by (induction d acc s rule: scan_spec.induct) (auto split: if_splits)

lemma scan_conversion_shorter: "scan_conversion s = Inr (c, f, t) \<Longrightarrow> length t < length s"
  by (auto simp: scan_conversion_def split: list.splits if_splits)

lemma scan_field_shorter: "scan_field s = Inr (f, t) \<Longrightarrow> length t < length s"
  unfolding scan_field_def
  by (fastforce split: if_splits option.splits prod.splits
      dest: scan_name_shorter scan_spec_shorter scan_conversion_shorter)

lemma scan_literal_shorter:
  "scan_literal acc s = Lit_Escape l t \<Longrightarrow> length t < length s"
  "scan_literal acc s = Lit_Field l t \<Longrightarrow> length t < length s"
  by (induction acc s rule: scan_literal.induct) (auto split: if_splits list.splits)

function parse_format :: "string \<Rightarrow> (format_error, format_part list) result" where
  "parse_format s =
     (case scan_literal '''' s of
        Lit_Error m \<Rightarrow> Inl (FormatValueError m)
      | Lit_End l \<Rightarrow> (if l = '''' then Inr [] else Inr [(l, None)])
      | Lit_Escape l t \<Rightarrow> bind_result (parse_format t) (\<lambda>ps. Inr ((l, None) # ps))
      | Lit_Field l t \<Rightarrow>
          (case scan_field t of
             Inl e \<Rightarrow> Inl e
           | Inr (f, u) \<Rightarrow> bind_result (parse_format u) (\<lambda>ps. Inr ((l, Some f) # ps))))"
  by pat_completeness auto
termination
  by (relation "measure length")
    (auto dest!: scan_literal_shorter scan_field_shorter)

declare parse_format.simps [simp del]

section \<open>Substitution\<close>

text \<open>
  \<open>template.format_map(values)\<close> on a template whose fields are plain names: every field is looked
  up in the dictionary, a missing key raises \<open>KeyError\<close>. The code only reaches the substitution
  after its own check that no field has a specification or a conversion.
\<close>

datatype render_error = RenderKeyError string | RenderValueError string

fun substitute :: "(string \<rightharpoonup> string) \<Rightarrow> format_part list \<Rightarrow> (render_error, string) result" where
  "substitute vals [] = Inr ''''"
| "substitute vals ((l, None) # ps) = bind_result (substitute vals ps) (\<lambda>r. Inr (l @ r))"
| "substitute vals ((l, Some (name, spec, conv)) # ps) =
     (case vals name of
        None \<Rightarrow> Inl (RenderKeyError name)
      | Some v \<Rightarrow>
          if spec \<noteq> '''' \<or> conv \<noteq> None then Inl (RenderValueError ''formatted field'')
          else bind_result (substitute vals ps) (\<lambda>r. Inr (l @ v @ r)))"

definition format_map :: "string \<Rightarrow> (string \<rightharpoonup> string) \<Rightarrow> (render_error, string) result" where
  "format_map template vals =
     (case parse_format template of
        Inl (FormatValueError m) \<Rightarrow> Inl (RenderValueError m)
      | Inr ps \<Rightarrow> substitute vals ps)"

definition part_fields :: "format_part list \<Rightarrow> field list" where
  "part_fields ps = concat (map (\<lambda>(l, f). case f of None \<Rightarrow> [] | Some x \<Rightarrow> [x]) ps)"

lemma part_fields_simps [simp]:
  "part_fields [] = []"
  "part_fields ((l, None) # ps) = part_fields ps"
  "part_fields ((l, Some f) # ps) = f # part_fields ps"
  by (simp_all add: part_fields_def)

text \<open>Substitution succeeds exactly when every field is plain and has a value.\<close>

lemma substitute_ok:
  "(\<exists>r. substitute vals ps = Inr r) \<longleftrightarrow>
     (\<forall>(n, sp, cv) \<in> set (part_fields ps). sp = '''' \<and> cv = None \<and> vals n \<noteq> None)"
  by (induction vals ps rule: substitute.induct) (auto split: option.splits)

definition part_text :: "(string \<rightharpoonup> string) \<Rightarrow> format_part \<Rightarrow> string" where
  "part_text vals p =
     (case p of (l, None) \<Rightarrow> l | (l, Some (n, sp, cv)) \<Rightarrow> l @ the (vals n))"

lemma substitute_text: "substitute vals ps = Inr r \<Longrightarrow> r = concat (map (part_text vals) ps)"
  by (induction vals ps arbitrary: r rule: substitute.induct)
    (auto simp: part_text_def split: option.splits if_splits)

text \<open>A template without braces is its own only part.\<close>

lemma scan_literal_plain:
  "CHR ''{'' \<notin> set s \<Longrightarrow> CHR ''}'' \<notin> set s \<Longrightarrow> scan_literal acc s = Lit_End (rev acc @ s)"
  by (induction s arbitrary: acc) auto

lemma parse_format_plain:
  "CHR ''{'' \<notin> set s \<Longrightarrow> CHR ''}'' \<notin> set s \<Longrightarrow>
     parse_format s = Inr (if s = '''' then [] else [(s, None)])"
  by (simp add: parse_format.simps scan_literal_plain)

end
