(* ===== verification/Py_Json.thy ===== *)
theory Py_Json
  imports Py_Lib Complex_Main
begin

text \<open>
  JSON values as Python's decoder gives them and as \<open>JSONField\<close> stores them: the data of message
  payloads and of task payloads. Integers are unbounded, floats are finite rationals or one of the
  three special values; a dict is an association list with distinct keys.
\<close>

datatype pyfloat = Finite rat | PosInf | NegInf | NaN

datatype json =
    JNull | JBool bool | JInt int | JFloat pyfloat | JStr string
  | JList "json list" | JObject "(string \<times> json) list"

type_synonym json_object = "(string \<times> json) list"

text \<open>\<open>d.get(k)\<close>: a missing key gives \<open>None\<close>. \<open>bool(v)\<close>: the empty values and zero are false.\<close>

definition json_get :: "json_object \<Rightarrow> string \<Rightarrow> json" where
  "json_get d k = (case map_of d k of None \<Rightarrow> JNull | Some v \<Rightarrow> v)"

fun truthy :: "json \<Rightarrow> bool" where
  "truthy JNull = False"
| "truthy (JBool b) = b"
| "truthy (JInt i) = (i \<noteq> 0)"
| "truthy (JFloat (Finite q)) = (q \<noteq> 0)"
| "truthy (JFloat _) = True"
| "truthy (JStr s) = (s \<noteq> '''')"
| "truthy (JList xs) = (xs \<noteq> [])"
| "truthy (JObject kvs) = (kvs \<noteq> [])"

text \<open>
  Python's \<open>v == i\<close> for an integer \<open>i\<close>, where \<open>True\<close> is 1, and the comparison of a JSON column with
  an integer in a database lookup, where a boolean is no number.
\<close>

fun py_eq_int :: "json \<Rightarrow> int \<Rightarrow> bool" where
  "py_eq_int (JInt j) i = (j = i)"
| "py_eq_int (JBool b) i = ((if b then 1 else 0) = i)"
| "py_eq_int (JFloat (Finite q)) i = (q = of_int i)"
| "py_eq_int _ i = False"

fun db_eq_int :: "json \<Rightarrow> int \<Rightarrow> bool" where
  "db_eq_int (JInt j) i = (j = i)"
| "db_eq_int (JFloat (Finite q)) i = (q = of_int i)"
| "db_eq_int _ i = False"

text \<open>\<open>{**a, **b}\<close>: the keys of \<open>a\<close> in their places, with the values of \<open>b\<close>, then the new keys of \<open>b\<close>.\<close>

definition dict_put :: "json_object \<Rightarrow> string \<times> json \<Rightarrow> json_object" where
  "dict_put d kv =
     (if fst kv \<in> fst ` set d then map (\<lambda>p. if fst p = fst kv then kv else p) d else d @ [kv])"

definition dict_merge :: "json_object \<Rightarrow> json_object \<Rightarrow> json_object" where
  "dict_merge a b = foldl dict_put a b"

end
