(* ===== verification/Message_Program.thy ===== *)
theory Message_Program
  imports Copy_Text Py_Format Py_Json Complex_Main "HOL-Library.Char_ord" "HOL-Library.List_Lexorder"
    "HOL-Library.Product_Lexorder"
begin

text \<open>
  Published message programs, the first half of \<open>linkedin/message_delivery.py\<close>: the validation of
  an immutable payload into an index, the resolution of an audience, the routes that are effective
  for an operator, and the selection of one stable variant. The content hash
  (\<open>hashlib.sha256\<close> of the canonical JSON) is a parameter \<open>H\<close> of the definitions that use it: no
  law of it is needed but the one the validation itself checks. Error values carry the fixed text
  of the message; interpolated values are left out of it.
\<close>

section \<open>Errors\<close>

datatype delivery_error =
    MessageDeliveryError string
  | OverflowError
  | ValidationError string
  | DoesNotExist string
  | IntegrityError string
  | MessageRoleError string

abbreviation fail :: "string \<Rightarrow> (delivery_error, 'a) result" where
  "fail m \<equiv> Inl (MessageDeliveryError m)"

definition ensure :: "bool \<Rightarrow> string \<Rightarrow> (delivery_error, unit) result" where
  "ensure b m = (if b then Inr () else fail m)"

lemma ensure_Inr [simp]: "ensure b m = Inr u \<longleftrightarrow> b"
  by (simp add: ensure_def)

section \<open>Field validators\<close>

definition text_value :: "json \<Rightarrow> string \<Rightarrow> nat option \<Rightarrow> (delivery_error, string) result" where
  "text_value v ctx max_length =
     (case v of
        JStr s \<Rightarrow>
          if s \<noteq> strip s then fail (ctx @ '' must not have outer whitespace'')
          else if (case max_length of None \<Rightarrow> False | Some n \<Rightarrow> n < length s)
            then fail (ctx @ '' is too long'')
          else Inr s
      | _ \<Rightarrow> fail (ctx @ '' must be a string''))"

definition nonblank_text :: "json \<Rightarrow> string \<Rightarrow> nat option \<Rightarrow> (delivery_error, string) result" where
  "nonblank_text v ctx max_length =
     bind_result (text_value v ctx max_length)
       (\<lambda>s. if s = '''' then fail (ctx @ '' must be nonblank'') else Inr s)"

definition key_head :: "char \<Rightarrow> bool" where
  "key_head c \<longleftrightarrow> (let n = of_char c :: nat in (97 \<le> n \<and> n \<le> 122) \<or> (48 \<le> n \<and> n \<le> 57))"

definition key_char :: "char \<Rightarrow> bool" where
  "key_char c \<longleftrightarrow> key_head c \<or> c = CHR ''_'' \<or> c = CHR ''-''"

definition key_re :: "string \<Rightarrow> bool" where
  "key_re s = (case s of [] \<Rightarrow> False | c # t \<Rightarrow> key_head c \<and> list_all key_char t \<and> length t \<le> 159)"

definition key_value :: "json \<Rightarrow> string \<Rightarrow> (delivery_error, string) result" where
  "key_value v ctx =
     bind_result (nonblank_text v ctx (Some 160))
       (\<lambda>k. if \<not> key_re k then fail (ctx @ '' is not a valid lowercase key'') else Inr k)"

definition hash_re :: "string \<Rightarrow> bool" where
  "hash_re s \<longleftrightarrow> length s = 64 \<and>
     list_all (\<lambda>c. let n = of_char c :: nat in (48 \<le> n \<and> n \<le> 57) \<or> (97 \<le> n \<and> n \<le> 102)) s"

definition nonnegative_integer :: "json \<Rightarrow> string \<Rightarrow> (delivery_error, int) result" where
  "nonnegative_integer v ctx =
     (case v of
        JInt i \<Rightarrow> if i < 0 then fail (ctx @ '' must be a nonnegative integer'') else Inr i
      | _ \<Rightarrow> fail (ctx @ '' must be a nonnegative integer''))"

text \<open>
  A number that passed the check keeps its JSON form; \<open>number_value\<close> is what \<open>==\<close> compares.
  \<open>math.isfinite\<close> converts an integer to a float first, which raises \<open>OverflowError\<close> when the
  integer rounds beyond the largest float.
\<close>

definition float_overflows :: "int \<Rightarrow> bool" where
  "float_overflows i \<longleftrightarrow> 2 ^ 1024 - 2 ^ 970 \<le> \<bar>i\<bar>"

definition nonnegative_number :: "json \<Rightarrow> string \<Rightarrow> (delivery_error, json) result" where
  "nonnegative_number v ctx =
     (case v of
        JInt i \<Rightarrow>
          if float_overflows i then Inl OverflowError
          else if i < 0 then fail (ctx @ '' must be a finite nonnegative number'') else Inr v
      | JFloat (Finite q) \<Rightarrow>
          if q < 0 then fail (ctx @ '' must be a finite nonnegative number'') else Inr v
      | JFloat _ \<Rightarrow> fail (ctx @ '' must be a finite nonnegative number'')
      | _ \<Rightarrow> fail (ctx @ '' must be a nonnegative number''))"

fun number_value :: "json \<Rightarrow> rat" where
  "number_value (JInt i) = of_int i"
| "number_value (JFloat (Finite q)) = q"
| "number_value _ = 0"

definition object_fields ::
  "json \<Rightarrow> string list \<Rightarrow> string \<Rightarrow> (delivery_error, string \<rightharpoonup> json) result" where
  "object_fields v expected ctx =
     (case v of
        JObject kvs \<Rightarrow>
          if set (map fst kvs) \<noteq> set expected then fail (ctx @ '' has invalid fields'')
          else Inr (map_of kvs)
      | _ \<Rightarrow> fail (ctx @ '' must be an object''))"

definition SUPPORTED_PLACEHOLDERS :: "string list" where
  "SUPPORTED_PLACEHOLDERS =
     [''role'', ''first_name'', ''last_name'', ''company_name'', ''my_name'', ''our_company_name'',
      ''our_website_url'']"

definition check_field :: "string \<Rightarrow> field \<Rightarrow> unit \<Rightarrow> (delivery_error, unit) result" where
  "check_field ctx f u =
     (case f of (name, spec, conv) \<Rightarrow>
        if name = '''' then fail (ctx @ '' uses a positional placeholder'')
        else if CHR ''.'' \<in> set name \<or> CHR ''['' \<in> set name then
          fail (ctx @ '' uses a nested placeholder'')
        else if spec \<noteq> '''' \<or> conv \<noteq> None then fail (ctx @ '' uses placeholder formatting'')
        else if name \<notin> set SUPPORTED_PLACEHOLDERS then fail (ctx @ '' has an unsupported placeholder'')
        else Inr ())"

definition validate_placeholders :: "string \<Rightarrow> string \<Rightarrow> (delivery_error, unit) result" where
  "validate_placeholders template ctx =
     (case parse_format template of
        Inl e \<Rightarrow> fail (ctx @ '' has invalid braces'')
      | Inr ps \<Rightarrow> fold_result (check_field ctx) (part_fields ps) ())"

definition media_entry :: "string \<Rightarrow> json \<Rightarrow> string list \<Rightarrow> (delivery_error, string list) result" where
  "media_entry ctx item normalized =
     bind_result (nonblank_text item (ctx @ '' entry'') None) (\<lambda>filename.
     bind_result (ensure (filename \<notin> set normalized) (ctx @ '' contains a duplicate'')) (\<lambda>_.
       case parse_format filename of
         Inl e \<Rightarrow> fail (ctx @ '' entry has invalid braces'')
       | Inr ps \<Rightarrow>
           if part_fields ps \<noteq> [] then fail (ctx @ '' entries cannot contain placeholders'')
           else Inr (normalized @ [filename])))"

definition media_value :: "json \<Rightarrow> string \<Rightarrow> (delivery_error, string list) result" where
  "media_value v ctx =
     (case v of
        JList items \<Rightarrow> fold_result (media_entry ctx) items []
      | _ \<Rightarrow> fail (ctx @ '' must be a list''))"

section \<open>Channels and messages\<close>

datatype channel = LINKEDIN_CONNECT | LINKEDIN_FOLLOWUP | GMAIL

definition channel_name :: "channel \<Rightarrow> string" where
  "channel_name c = (case c of LINKEDIN_CONNECT \<Rightarrow> ''linkedin_connect''
     | LINKEDIN_FOLLOWUP \<Rightarrow> ''linkedin_followup'' | GMAIL \<Rightarrow> ''gmail'')"

definition channel_order :: "channel \<Rightarrow> nat" where
  "channel_order c = (case c of LINKEDIN_CONNECT \<Rightarrow> 0 | LINKEDIN_FOLLOWUP \<Rightarrow> 1 | GMAIL \<Rightarrow> 2)"

definition validate_channel :: "string \<Rightarrow> (delivery_error, channel) result" where
  "validate_channel s =
     (if s = ''linkedin_connect'' then Inr LINKEDIN_CONNECT
      else if s = ''linkedin_followup'' then Inr LINKEDIN_FOLLOWUP
      else if s = ''gmail'' then Inr GMAIL
      else fail ''channel must be one of the supported channels'')"

record published_message =
  audience_key :: string
  role_persona :: string
  fedramp_segment :: string
  msg_channel :: channel
  step_key :: string
  step_index :: int
  delay_hours :: json
  variant_key :: string
  subject :: string
  body :: string
  media :: "string list"
  sender_override :: string
  msg_notes :: string

record message_program_index =
  version_id :: int
  program_key :: string
  program_name :: string
  content_hash :: string
  messages :: "published_message list"

record message_program_version =
  version_pk :: "int option"
  schema_version :: int
  version_program_key :: string
  payload :: json
  version_content_hash :: string

definition TOP_LEVEL_FIELDS :: "string list" where
  "TOP_LEVEL_FIELDS = [''program_key'', ''program_name'', ''messages'']"

definition MESSAGE_FIELDS :: "string list" where
  "MESSAGE_FIELDS =
     [''audience_key'', ''role_persona'', ''fedramp_segment'', ''channel'', ''step_key'',
      ''step_index'', ''delay_hours'', ''variant_key'', ''subject'', ''body'', ''media'',
      ''sender_override'', ''notes'']"

section \<open>Validation of one row\<close>

text \<open>The fields of a row, each checked in the order of the source.\<close>

definition parse_row :: "string \<Rightarrow> json \<Rightarrow> (delivery_error, published_message) result" where
  "parse_row ctx raw =
     bind_result (object_fields raw MESSAGE_FIELDS ctx) (\<lambda>m.
     let val = (\<lambda>k. case m k of None \<Rightarrow> JNull | Some v \<Rightarrow> v) in
     bind_result (key_value (val ''audience_key'') (ctx @ '' audience_key'')) (\<lambda>audience.
     bind_result (text_value (val ''role_persona'') (ctx @ '' role_persona'') None) (\<lambda>persona.
     bind_result (text_value (val ''fedramp_segment'') (ctx @ '' fedramp_segment'') None) (\<lambda>segment.
     bind_result (text_value (val ''channel'') (ctx @ '' channel'') None) (\<lambda>chan_text.
     bind_result (validate_channel chan_text) (\<lambda>chan.
     bind_result (key_value (val ''step_key'') (ctx @ '' step_key'')) (\<lambda>skey.
     bind_result (nonnegative_integer (val ''step_index'') (ctx @ '' step_index'')) (\<lambda>sindex.
     bind_result (nonnegative_number (val ''delay_hours'') (ctx @ '' delay_hours'')) (\<lambda>delay.
     bind_result (key_value (val ''variant_key'') (ctx @ '' variant_key'')) (\<lambda>variant.
     bind_result (text_value (val ''subject'') (ctx @ '' subject'') (Some 998)) (\<lambda>subj.
     bind_result (nonblank_text (val ''body'') (ctx @ '' body'') None) (\<lambda>bod.
     bind_result (media_value (val ''media'') (ctx @ '' media'')) (\<lambda>med.
     bind_result (text_value (val ''sender_override'') (ctx @ '' sender_override'') (Some 64)) (\<lambda>sender.
     bind_result (ensure (sender = '''' \<or> sender \<in> set CANONICAL_OPERATOR_HANDLES)
       (ctx @ '' sender_override must be blank or a canonical operator'')) (\<lambda>_.
     bind_result (text_value (val ''notes'') (ctx @ '' notes'') None) (\<lambda>nts.
     bind_result (ensure (chan = GMAIL \<longrightarrow> subj \<noteq> '''') (ctx @ '' Gmail subject is required'')) (\<lambda>_.
     bind_result (ensure (chan \<noteq> GMAIL \<longrightarrow> subj = '''') (ctx @ '' LinkedIn subject must be blank'')) (\<lambda>_.
     bind_result (validate_placeholders subj (ctx @ '' subject'')) (\<lambda>_.
     bind_result (validate_placeholders bod (ctx @ '' body'')) (\<lambda>_.
     Inr \<lparr>audience_key = audience, role_persona = persona, fedramp_segment = segment,
          msg_channel = chan, step_key = skey, step_index = sindex, delay_hours = delay,
          variant_key = variant, subject = subj, body = bod, media = med,
          sender_override = sender, msg_notes = nts\<rparr>))))))))))))))))))))"

section \<open>Consistency across rows\<close>

record index_state =
  collected :: "published_message list"
  unique_routes :: "(string \<times> channel \<times> string \<times> string \<times> string) set"
  audience_metadata :: "string \<rightharpoonup> string \<times> string"
  step_key_by_index :: "string \<times> channel \<times> string \<times> int \<rightharpoonup> string"
  step_index_by_key :: "string \<times> channel \<times> string \<times> string \<rightharpoonup> int"
  step_delay_by_key :: "string \<times> channel \<times> string \<times> string \<rightharpoonup> json"

definition empty_index_state :: index_state where
  "empty_index_state =
     \<lparr>collected = [], unique_routes = {}, audience_metadata = Map.empty,
      step_key_by_index = Map.empty, step_index_by_key = Map.empty, step_delay_by_key = Map.empty\<rparr>"

text \<open>\<open>d.setdefault(k, v)\<close>: the stored value, and the dict with the default filled in.\<close>

definition setdefault :: "('k \<rightharpoonup> 'v) \<Rightarrow> 'k \<Rightarrow> 'v \<Rightarrow> 'v \<times> ('k \<rightharpoonup> 'v)" where
  "setdefault d k v = (case d k of Some old \<Rightarrow> (old, d) | None \<Rightarrow> (v, d(k \<mapsto> v)))"

definition route_of :: "published_message \<Rightarrow> string \<times> channel \<times> string \<times> string \<times> string" where
  "route_of m = (audience_key m, msg_channel m, step_key m, variant_key m, casefold (sender_override m))"

definition index_identity :: "published_message \<Rightarrow> string \<times> channel \<times> string \<times> int" where
  "index_identity m = (audience_key m, msg_channel m, casefold (sender_override m), step_index m)"

definition key_identity :: "published_message \<Rightarrow> string \<times> channel \<times> string \<times> string" where
  "key_identity m = (audience_key m, msg_channel m, casefold (sender_override m), step_key m)"

definition register_row ::
  "string \<Rightarrow> published_message \<Rightarrow> index_state \<Rightarrow> (delivery_error, index_state) result" where
  "register_row ctx m st =
     (let (prev_meta, metadata') =
            setdefault (audience_metadata st) (audience_key m) (role_persona m, fedramp_segment m) in
      if prev_meta \<noteq> (role_persona m, fedramp_segment m) then
        fail (ctx @ '' changes role_persona or fedramp_segment for the audience'')
      else if route_of m \<in> unique_routes st then fail (ctx @ '' duplicates a message route'')
      else
        let (prior_key, by_index') =
              setdefault (step_key_by_index st) (index_identity m) (step_key m) in
        if prior_key \<noteq> step_key m then fail (ctx @ '' maps a step index to two step keys'')
        else
          let (prior_index, by_key') =
                setdefault (step_index_by_key st) (key_identity m) (step_index m) in
          if prior_index \<noteq> step_index m then fail (ctx @ '' maps a step key to two indexes'')
          else
            let (prior_delay, delays') =
                  setdefault (step_delay_by_key st) (key_identity m) (delay_hours m) in
            if number_value prior_delay \<noteq> number_value (delay_hours m) then
              fail (ctx @ '' changes delay_hours for the step'')
            else Inr \<lparr>collected = collected st @ [m],
                      unique_routes = insert (route_of m) (unique_routes st),
                      audience_metadata = metadata', step_key_by_index = by_index',
                      step_index_by_key = by_key', step_delay_by_key = delays'\<rparr>)"

definition index_row :: "nat \<times> json \<Rightarrow> index_state \<Rightarrow> (delivery_error, index_state) result" where
  "index_row row st =
     (let ctx = ''message payload row '' @ str_nat (fst row)
      in bind_result (parse_row ctx (snd row)) (\<lambda>m. register_row ctx m st))"

definition message_sort_key ::
  "published_message \<Rightarrow> string \<times> nat \<times> int \<times> string \<times> string \<times> string" where
  "message_sort_key m =
     (audience_key m, channel_order (msg_channel m), step_index m, step_key m, variant_key m,
      sender_override m)"

definition index_message_version ::
  "(json \<Rightarrow> string) \<Rightarrow> message_program_version \<Rightarrow> (delivery_error, message_program_index) result" where
  "index_message_version H v =
     bind_result (ensure (version_pk v \<noteq> None \<and> version_pk v \<noteq> Some 0)
       ''message version must be saved before delivery'') (\<lambda>_.
     bind_result (ensure (schema_version v = 1) ''unsupported message schema version'') (\<lambda>_.
     bind_result (object_fields (payload v) TOP_LEVEL_FIELDS ''message payload'') (\<lambda>m.
     let val = (\<lambda>k. case m k of None \<Rightarrow> JNull | Some x \<Rightarrow> x) in
     bind_result (key_value (val ''program_key'') ''message payload program_key'') (\<lambda>pkey.
     bind_result (ensure (pkey = version_program_key v) ''payload program_key does not match'') (\<lambda>_.
     bind_result (nonblank_text (val ''program_name'') ''message payload program_name'' (Some 200)) (\<lambda>pname.
     case val ''messages'' of
       JList raws \<Rightarrow>
         if raws = [] then fail ''message payload messages must be a nonempty list''
         else if \<not> hash_re (version_content_hash v) then
           fail ''message version content_hash must be lowercase SHA-256''
         else if version_content_hash v \<noteq> H (payload v) then
           fail ''message version content_hash does not match its payload''
         else
           bind_result (fold_result index_row (enumerate 1 raws) empty_index_state) (\<lambda>st.
             Inr \<lparr>version_id = the (version_pk v), program_key = pkey, program_name = pname,
                  content_hash = version_content_hash v,
                  messages = sort_key message_sort_key (collected st)\<rparr>)
     | _ \<Rightarrow> fail ''message payload messages must be a nonempty list''))))))"

section \<open>Audiences and effective routes\<close>

definition audience_keys :: "message_program_index \<Rightarrow> string list" where
  "audience_keys idx = sorted_list_of_set (set (map audience_key (messages idx)))"

definition resolve_audience :: "message_program_index \<Rightarrow> json \<Rightarrow> (delivery_error, string) result" where
  "resolve_audience idx audience_input =
     bind_result (nonblank_text audience_input ''audience input'' (Some 160)) (\<lambda>requested.
       if requested \<in> set (audience_keys idx) then Inr requested
       else case sorted_list_of_set
              (set (map audience_key (filter (\<lambda>m. role_persona m = requested) (messages idx)))) of
         [k] \<Rightarrow> Inr k
       | [] \<Rightarrow> fail ''message version has no audience key or exact role persona''
       | _ \<Rightarrow> fail ''role persona maps to multiple audience keys'')"

type_synonym route = "channel \<times> string \<times> int"
type_synonym route_group = "route \<times> published_message list"

definition message_route :: "published_message \<Rightarrow> route" where
  "message_route m = (msg_channel m, step_key m, step_index m)"

text \<open>\<open>target.setdefault(route, []).append(message)\<close> on a dict in insertion order.\<close>

fun add_to_group :: "published_message \<Rightarrow> route_group list \<Rightarrow> route_group list" where
  "add_to_group m [] = [(message_route m, [m])]"
| "add_to_group m ((r, ms) # gs) =
     (if r = message_route m then (r, ms @ [m]) # gs else (r, ms) # add_to_group m gs)"

definition group_routes :: "published_message list \<Rightarrow> route_group list" where
  "group_routes ms = fold add_to_group ms []"

definition relevant :: "string \<Rightarrow> string \<Rightarrow> channel option \<Rightarrow> published_message \<Rightarrow> bool" where
  "relevant audience operator chan m \<longleftrightarrow>
     audience_key m = audience \<and> (chan = None \<or> Some (msg_channel m) = chan) \<and>
     (sender_override m = '''' \<or> sender_override m = operator)"

definition shadowed :: "route_group list \<Rightarrow> route_group \<Rightarrow> bool" where
  "shadowed exact g \<longleftrightarrow>
     (\<exists>e \<in> set exact. (fst (fst e), fst (snd (fst e))) = (fst (fst g), fst (snd (fst g))) \<or>
        (fst (fst e), snd (snd (fst e))) = (fst (fst g), snd (snd (fst g))))"

definition chosen_groups ::
  "message_program_index \<Rightarrow> string \<Rightarrow> string \<Rightarrow> channel option \<Rightarrow> route_group list" where
  "chosen_groups idx audience operator chan =
     (let rel = filter (relevant audience operator chan) (messages idx);
          exact = group_routes (filter (\<lambda>m. sender_override m = operator) rel);
          shared = group_routes (filter (\<lambda>m. sender_override m \<noteq> operator) rel)
      in exact @ filter (\<lambda>g. \<not> shadowed exact g) shared)"

definition route_sort_key :: "route_group \<Rightarrow> nat \<times> int \<times> string" where
  "route_sort_key g = (channel_order (fst (fst g)), snd (snd (fst g)), fst (snd (fst g)))"

definition effective_routes ::
  "message_program_index \<Rightarrow> string \<Rightarrow> string \<Rightarrow> channel option
     \<Rightarrow> (delivery_error, published_message list list) result" where
  "effective_routes idx audience operator chan =
     (if audience \<notin> set (audience_keys idx) then fail ''message version has no such audience''
      else Inr (map (\<lambda>g. sort_key variant_key (snd g))
                  (sort_key route_sort_key (chosen_groups idx audience operator chan))))"

section \<open>Selection\<close>

record selected_message =
  sel_audience_key :: string
  sel_channel :: channel
  sel_step_key :: string
  sel_step_index :: int
  sel_delay_hours :: json
  sel_variant_key :: string
  sel_subject :: string
  sel_body :: string
  sel_media :: "string list"
  sel_sender_override :: string

definition selected_of :: "published_message \<Rightarrow> selected_message" where
  "selected_of m =
     \<lparr>sel_audience_key = audience_key m, sel_channel = msg_channel m, sel_step_key = step_key m,
      sel_step_index = step_index m, sel_delay_hours = delay_hours m,
      sel_variant_key = variant_key m, sel_subject = subject m, sel_body = body m,
      sel_media = media m, sel_sender_override = sender_override m\<rparr>"

text \<open>A saved \<open>CampaignMessageEnrollment\<close> row, with the version it is frozen to.\<close>

record message_enrollment =
  enrollment_pk :: int
  enrollment_deal :: int
  enrollment_version :: message_program_version
  enrollment_audience :: string
  enrollment_operator :: string
  enrollment_created_at :: int

definition hex_digit :: "char \<Rightarrow> nat" where
  "hex_digit c = (let n = of_char c :: nat in if n \<le> 57 then n - 48 else n - 87)"

definition hex_value :: "string \<Rightarrow> nat" where
  "hex_value s = foldl (\<lambda>acc c. 16 * acc + hex_digit c) 0 s"

definition selection_digest ::
  "(json \<Rightarrow> string) \<Rightarrow> message_enrollment \<Rightarrow> channel \<Rightarrow> published_message \<Rightarrow> string" where
  "selection_digest H e chan m =
     H (JObject [(''enrollment_id'', JInt (enrollment_pk e)), (''deal_id'', JInt (enrollment_deal e)),
                 (''channel'', JStr (channel_name chan)), (''step_key'', JStr (step_key m)),
                 (''step_index'', JInt (step_index m))])"

text \<open>\<open>xs[i]\<close> and \<open>int(d, 16) % len(variants)\<close> on a group, which the grouping never leaves empty.\<close>

definition pick_variant ::
  "(json \<Rightarrow> string) \<Rightarrow> message_enrollment \<Rightarrow> channel \<Rightarrow> published_message list
     \<Rightarrow> (delivery_error, selected_message) result" where
  "pick_variant H e chan variants =
     (case variants of
        [] \<Rightarrow> fail ''IndexError''
      | v # _ \<Rightarrow>
          Inr (selected_of (variants ! (hex_value (selection_digest H e chan v) mod length variants))))"

definition group_matches :: "string option \<Rightarrow> int option \<Rightarrow> published_message list \<Rightarrow> bool" where
  "group_matches skey sindex variants \<longleftrightarrow>
     (skey = None \<or> skey = Some (step_key (hd variants))) \<and>
     (sindex = None \<or> sindex = Some (step_index (hd variants)))"

definition ambiguous :: delivery_error where
  "ambiguous = MessageDeliveryError ''message route is ambiguous after sender selection''"

definition select_in_groups ::
  "(json \<Rightarrow> string) \<Rightarrow> message_enrollment \<Rightarrow> channel \<Rightarrow> string option \<Rightarrow> int option
     \<Rightarrow> published_message list list \<Rightarrow> (delivery_error, selected_message) result" where
  "select_in_groups H e chan skey sindex groups =
     (case filter (group_matches skey sindex) groups of
        [] \<Rightarrow> fail ''audience has no such step for the operator''
      | [variants] \<Rightarrow> pick_variant H e chan variants
      | _ \<Rightarrow> Inl ambiguous)"

definition check_step_key :: "string option \<Rightarrow> (delivery_error, unit) result" where
  "check_step_key skey =
     (case skey of None \<Rightarrow> Inr () | Some k \<Rightarrow> bind_result (key_value (JStr k) ''step_key'') (\<lambda>_. Inr ()))"

definition check_step_index :: "int option \<Rightarrow> (delivery_error, unit) result" where
  "check_step_index sindex =
     (case sindex of None \<Rightarrow> Inr ()
      | Some i \<Rightarrow> bind_result (nonnegative_integer (JInt i) ''step_index'') (\<lambda>_. Inr ()))"

definition select_message ::
  "(json \<Rightarrow> string) \<Rightarrow> message_enrollment \<Rightarrow> string \<Rightarrow> string option \<Rightarrow> int option
     \<Rightarrow> (delivery_error, selected_message) result" where
  "select_message H e chan_text skey sindex =
     bind_result (validate_channel chan_text) (\<lambda>chan.
     bind_result (ensure (skey \<noteq> None \<or> sindex \<noteq> None) ''step_key or step_index is required'') (\<lambda>_.
     bind_result (check_step_key skey) (\<lambda>_.
     bind_result (check_step_index sindex) (\<lambda>_.
     bind_result (index_message_version H (enrollment_version e)) (\<lambda>idx.
     bind_result (effective_routes idx (enrollment_audience e) (enrollment_operator e) (Some chan))
       (select_in_groups H e chan skey sindex))))))"

section \<open>The index is consistent\<close>

lemma setdefault_spec: "setdefault d k v = (p, d') \<Longrightarrow> d \<subseteq>\<^sub>m d' \<and> d' k = Some p"
  by (auto simp: setdefault_def map_le_def split: option.splits)

definition same_sequence :: "published_message \<Rightarrow> published_message \<Rightarrow> bool" where
  "same_sequence m m' \<longleftrightarrow> audience_key m = audience_key m' \<and> msg_channel m = msg_channel m' \<and>
     casefold (sender_override m) = casefold (sender_override m')"

definition coherent :: "published_message list \<Rightarrow> bool" where
  "coherent ms \<longleftrightarrow> distinct (map route_of ms) \<and>
     (\<forall>m \<in> set ms. \<forall>m' \<in> set ms.
        (audience_key m = audience_key m' \<longrightarrow>
           role_persona m = role_persona m' \<and> fedramp_segment m = fedramp_segment m') \<and>
        (same_sequence m m' \<longrightarrow>
           (step_key m = step_key m' \<longleftrightarrow> step_index m = step_index m') \<and>
           (step_key m = step_key m' \<longrightarrow>
              number_value (delay_hours m) = number_value (delay_hours m'))))"

text \<open>What the dictionaries of the loop know about the rows collected so far.\<close>

definition knows :: "index_state \<Rightarrow> published_message \<Rightarrow> bool" where
  "knows st m \<longleftrightarrow>
     audience_metadata st (audience_key m) = Some (role_persona m, fedramp_segment m) \<and>
     step_key_by_index st (index_identity m) = Some (step_key m) \<and>
     step_index_by_key st (key_identity m) = Some (step_index m) \<and>
     (\<exists>d. step_delay_by_key st (key_identity m) = Some d \<and>
        number_value d = number_value (delay_hours m))"

definition index_inv :: "index_state \<Rightarrow> bool" where
  "index_inv st \<longleftrightarrow> distinct (map route_of (collected st)) \<and>
     unique_routes st = set (map route_of (collected st)) \<and>
     (\<forall>m \<in> set (collected st). knows st m)"

definition extends :: "index_state \<Rightarrow> index_state \<Rightarrow> bool" where
  "extends st t \<longleftrightarrow> audience_metadata st \<subseteq>\<^sub>m audience_metadata t \<and>
     step_key_by_index st \<subseteq>\<^sub>m step_key_by_index t \<and>
     step_index_by_key st \<subseteq>\<^sub>m step_index_by_key t \<and> step_delay_by_key st \<subseteq>\<^sub>m step_delay_by_key t"

lemma map_le_Some: "d \<subseteq>\<^sub>m d' \<Longrightarrow> d k = Some v \<Longrightarrow> d' k = Some v"
  by (metis domI map_le_def)

lemma knows_extends: "knows st m \<Longrightarrow> extends st t \<Longrightarrow> knows t m"
  unfolding knows_def extends_def by (metis map_le_Some)

lemma register_row_spec:
  assumes "register_row ctx m st = Inr t"
  shows "extends st t \<and> knows t m \<and> collected t = collected st @ [m] \<and>
    route_of m \<notin> unique_routes st \<and> unique_routes t = insert (route_of m) (unique_routes st)"
proof -
  obtain p1 d1 where s1: "setdefault (audience_metadata st) (audience_key m)
      (role_persona m, fedramp_segment m) = (p1, d1)" by fastforce
  obtain p2 d2 where s2: "setdefault (step_key_by_index st) (index_identity m) (step_key m) = (p2, d2)"
    by fastforce
  obtain p3 d3 where s3: "setdefault (step_index_by_key st) (key_identity m) (step_index m) = (p3, d3)"
    by fastforce
  obtain p4 d4 where s4: "setdefault (step_delay_by_key st) (key_identity m) (delay_hours m) = (p4, d4)"
    by fastforce
  show ?thesis
    using assms setdefault_spec [OF s1] setdefault_spec [OF s2] setdefault_spec [OF s3]
      setdefault_spec [OF s4]
    by (auto simp: register_row_def s1 s2 s3 s4 extends_def knows_def split: if_splits)
qed

lemma index_row_inv:
  assumes "index_inv st" and "index_row r st = Inr t"
  shows "index_inv t"
proof -
  from assms(2) obtain ctx m where "register_row ctx m st = Inr t"
    by (auto simp: index_row_def Let_def)
  from register_row_spec [OF this] assms(1) knows_extends [of st _ t] show ?thesis
    by (auto simp: index_inv_def)
qed

lemma index_inv_coherent:
  assumes "index_inv st" shows "coherent (collected st)"
proof -
  have "(audience_key m = audience_key m' \<longrightarrow>
           role_persona m = role_persona m' \<and> fedramp_segment m = fedramp_segment m') \<and>
        (same_sequence m m' \<longrightarrow>
           (step_key m = step_key m' \<longleftrightarrow> step_index m = step_index m') \<and>
           (step_key m = step_key m' \<longrightarrow> number_value (delay_hours m) = number_value (delay_hours m')))"
    if "knows st m" "knows st m'" for m m'
    using that unfolding knows_def same_sequence_def index_identity_def key_identity_def by auto
  with assms show ?thesis by (simp add: index_inv_def coherent_def)
qed

section \<open>Rows are well formed\<close>

definition plain_field :: "field \<Rightarrow> bool" where
  "plain_field f \<longleftrightarrow> (case f of (n, sp, cv) \<Rightarrow> n \<in> set SUPPORTED_PLACEHOLDERS \<and> sp = '''' \<and> cv = None)"

definition valid_template :: "string \<Rightarrow> bool" where
  "valid_template t \<longleftrightarrow> (\<exists>ps. parse_format t = Inr ps \<and> (\<forall>f \<in> set (part_fields ps). plain_field f))"

lemma supported_plain_name:
  "n \<in> set SUPPORTED_PLACEHOLDERS \<Longrightarrow> n \<noteq> '''' \<and> CHR ''.'' \<notin> set n \<and> CHR ''['' \<notin> set n"
  by (auto simp: SUPPORTED_PLACEHOLDERS_def)

lemma check_field_ok: "check_field ctx f u = Inr v \<longleftrightarrow> plain_field f"
  using supported_plain_name
  by (cases f) (auto simp: check_field_def plain_field_def)

lemma fold_check_fields:
  "fold_result (check_field ctx) fs u = Inr v \<longleftrightarrow> (\<forall>f \<in> set fs. plain_field f)"
proof (induction fs arbitrary: u)
  case (Cons f fs)
  then show ?case by (simp add: check_field_ok)
qed simp

lemma validate_placeholders_ok: "validate_placeholders t ctx = Inr u \<longleftrightarrow> valid_template t"
  by (auto simp: validate_placeholders_def valid_template_def fold_check_fields split: sum.splits)

lemma text_value_ok: "text_value v ctx n = Inr s \<Longrightarrow> s = strip s \<and> (\<forall>k. n = Some k \<longrightarrow> length s \<le> k)"
  by (auto simp: text_value_def split: json.splits if_splits option.splits)

lemma nonblank_text_ok: "nonblank_text v ctx n = Inr s \<Longrightarrow> s \<noteq> '''' \<and> s = strip s"
  by (auto simp: nonblank_text_def dest: text_value_ok split: if_splits)

lemma key_value_ok: "key_value v ctx = Inr k \<Longrightarrow> key_re k"
  by (auto simp: key_value_def split: if_splits)

lemma nonnegative_integer_ok: "nonnegative_integer v ctx = Inr i \<Longrightarrow> 0 \<le> i"
  by (auto simp: nonnegative_integer_def split: json.splits if_splits)

lemma nonnegative_number_ok: "nonnegative_number v ctx = Inr d \<Longrightarrow> 0 \<le> number_value d"
  by (auto simp: nonnegative_number_def split: json.splits if_splits pyfloat.splits)

definition media_name :: "string \<Rightarrow> bool" where
  "media_name a \<longleftrightarrow> a \<noteq> '''' \<and> a = strip a \<and> (\<exists>ps. parse_format a = Inr ps \<and> part_fields ps = [])"

lemma nonblank_text_Inr:
  "nonblank_text v ctx None = Inr s \<longleftrightarrow> v = JStr s \<and> strip s = s \<and> s \<noteq> ''''"
  by (cases v) (auto simp: nonblank_text_def text_value_def)

lemma media_entry_Inr:
  "media_entry ctx x s = Inr t \<longleftrightarrow> (\<exists>a. x = JStr a \<and> media_name a \<and> a \<notin> set s \<and> t = s @ [a])"
proof -
  have "(case parse_format a of
      Inl e \<Rightarrow> fail (ctx @ '' entry has invalid braces'')
    | Inr ps \<Rightarrow> if part_fields ps \<noteq> [] then fail (ctx @ '' entries cannot contain placeholders'')
        else Inr (s @ [a])) = Inr t \<longleftrightarrow> (\<exists>ps. parse_format a = Inr ps \<and> part_fields ps = []) \<and> t = s @ [a]"
    for a by (cases "parse_format a") auto
  then show ?thesis
    unfolding media_entry_def bind_result_Inr ensure_Inr nonblank_text_Inr media_name_def by auto
qed

definition media_ok :: "string list \<Rightarrow> bool" where
  "media_ok xs \<longleftrightarrow> distinct xs \<and> (\<forall>x \<in> set xs. media_name x)"

lemma fold_media_entry:
  "fold_result (media_entry ctx) items acc = Inr xs \<longleftrightarrow>
     (\<exists>ys. items = map JStr ys \<and> xs = acc @ ys \<and> media_ok ys \<and> set ys \<inter> set acc = {})"
proof (induction items arbitrary: acc)
  case Nil
  then show ?case by (auto simp: media_ok_def)
next
  case (Cons x items)
  have "fold_result (media_entry ctx) (x # items) acc = Inr xs \<longleftrightarrow>
      (\<exists>a ys. x = JStr a \<and> media_name a \<and> a \<notin> set acc \<and> items = map JStr ys \<and>
        xs = (acc @ [a]) @ ys \<and> media_ok ys \<and> set ys \<inter> set (acc @ [a]) = {})"
    by (simp only: fold_result.simps bind_result_Inr media_entry_Inr Cons.IH) blast
  also have "\<dots> \<longleftrightarrow> (\<exists>ys. x # items = map JStr ys \<and> xs = acc @ ys \<and> media_ok ys \<and> set ys \<inter> set acc = {})"
    (is "?L \<longleftrightarrow> ?R")
  proof
    assume ?L
    then obtain a ys where h: "x = JStr a" "media_name a" "a \<notin> set acc" "items = map JStr ys"
      "xs = (acc @ [a]) @ ys" "media_ok ys" "set ys \<inter> set (acc @ [a]) = {}"
      by (elim exE conjE) (rule that)
    show ?R by (rule exI [of _ "a # ys"]) (use h in \<open>auto simp: media_ok_def\<close>)
  next
    assume ?R
    then obtain zs where h: "x # items = map JStr zs" "xs = acc @ zs" "media_ok zs" "set zs \<inter> set acc = {}"
      by (elim exE conjE) (rule that)
    from h(1) obtain a ys where zs: "zs = a # ys" "x = JStr a" "items = map JStr ys"
      unfolding Cons_eq_map_conv by blast
    show ?L by (rule exI [of _ a], rule exI [of _ ys]) (use h zs in \<open>auto simp: media_ok_def\<close>)
  qed
  finally show ?case .
qed

lemma media_value_Inr: "media_value v ctx = Inr xs \<longleftrightarrow> v = JList (map JStr xs) \<and> media_ok xs"
  by (cases v) (auto simp: media_value_def fold_media_entry)

definition message_ok :: "published_message \<Rightarrow> bool" where
  "message_ok m \<longleftrightarrow>
     key_re (audience_key m) \<and> key_re (step_key m) \<and> key_re (variant_key m) \<and>
     0 \<le> step_index m \<and> 0 \<le> number_value (delay_hours m) \<and>
     (sender_override m = '''' \<or> sender_override m \<in> set CANONICAL_OPERATOR_HANDLES) \<and>
     (msg_channel m = GMAIL \<longleftrightarrow> subject m \<noteq> '''') \<and> body m \<noteq> '''' \<and>
     valid_template (subject m) \<and> valid_template (body m) \<and> media_ok (media m)"

lemma parse_row_ok:
  assumes "parse_row ctx raw = Inr m" shows "message_ok m"
proof -
  note d = key_value_ok nonnegative_integer_ok nonnegative_number_ok nonblank_text_ok
  show ?thesis
    using assms
    unfolding parse_row_def Let_def bind_result_Inr ensure_Inr validate_placeholders_ok media_value_Inr
    by (elim exE conjE) (auto simp: message_ok_def dest: d)
qed

lemma index_message_version_rows:
  assumes "index_message_version H v = Inr idx"
  obtains raws st where "raws \<noteq> []" and "fold_result index_row (enumerate 1 raws) empty_index_state = Inr st"
    and "messages idx = sort_key message_sort_key (collected st)"
    and "content_hash idx = H (payload v)" and "version_content_hash v = H (payload v)"
  using assms unfolding index_message_version_def Let_def bind_result_Inr ensure_Inr
  by (elim exE conjE) (auto split: json.splits if_splits)

lemma index_row_collects:
  assumes "index_row r st = Inr t"
  shows "\<exists>m. message_ok m \<and> collected t = collected st @ [m]"
proof -
  from assms obtain ctx m where "parse_row ctx (snd r) = Inr m" "register_row ctx m st = Inr t"
    by (auto simp: index_row_def Let_def)
  with parse_row_ok register_row_spec show ?thesis by blast
qed

lemma index_fold_length:
  "fold_result index_row rs st = Inr t \<Longrightarrow> length (collected t) = length (collected st) + length rs"
  by (induction rs arbitrary: st) (force dest: index_row_collects)+

definition consistent_index :: "message_program_index \<Rightarrow> bool" where
  "consistent_index idx \<longleftrightarrow> messages idx \<noteq> [] \<and> coherent (messages idx) \<and>
     (\<forall>m \<in> set (messages idx). message_ok m)"

lemma coherent_mset: "mset ms = mset ms' \<Longrightarrow> coherent ms = coherent ms'"
proof -
  assume a: "mset ms = mset ms'"
  then have "mset (map route_of ms) = mset (map route_of ms')" by simp
  then have "distinct (map route_of ms) = distinct (map route_of ms')"
    by (rule mset_eq_imp_distinct_iff)
  moreover have "set ms = set ms'" using a by (rule mset_eq_setD)
  ultimately show ?thesis by (simp add: coherent_def)
qed

lemma index_inv_start: "index_inv empty_index_state"
  by (simp add: index_inv_def empty_index_state_def)

lemma index_consistent:
  assumes "index_message_version H v = Inr idx"
  shows "consistent_index idx"
proof -
  obtain raws st where r: "raws \<noteq> []"
    and f: "fold_result index_row (enumerate 1 raws) empty_index_state = Inr st"
    and m: "messages idx = sort_key message_sort_key (collected st)"
    using index_message_version_rows [OF assms] .
  have "index_inv st"
    using f by (rule fold_result_invariant [where P = index_inv])
      (auto intro: index_row_inv index_inv_start)
  then have c: "coherent (collected st)" by (rule index_inv_coherent)
  have ok: "\<forall>m \<in> set (collected st). message_ok m"
    using f by (rule fold_result_invariant [where P = "\<lambda>s. \<forall>m \<in> set (collected s). message_ok m"])
      (auto simp: empty_index_state_def dest!: index_row_collects)
  have "collected st \<noteq> []" using index_fold_length [OF f] r by auto
  with c ok coherent_mset [of "collected st" "messages idx"] show ?thesis
    by (simp add: consistent_index_def m)
qed

section \<open>Routes are unique\<close>

lemma add_to_group_mset:
  "mset (concat (map snd (add_to_group m gs))) = add_mset m (mset (concat (map snd gs)))"
  by (induction m gs rule: add_to_group.induct) auto

lemma add_to_group_keys:
  "fst ` set (add_to_group m gs) = insert (message_route m) (fst ` set gs)"
  by (induction m gs rule: add_to_group.induct) auto

lemma add_to_group_distinct:
  "distinct (map fst gs) \<Longrightarrow> distinct (map fst (add_to_group m gs))"
  by (induction m gs rule: add_to_group.induct) (force simp: add_to_group_keys image_iff)+

definition proper_groups :: "route_group list \<Rightarrow> bool" where
  "proper_groups gs \<longleftrightarrow> distinct (map fst gs) \<and>
     (\<forall>(r, ms) \<in> set gs. ms \<noteq> [] \<and> (\<forall>m \<in> set ms. message_route m = r))"

lemma add_to_group_proper: "proper_groups gs \<Longrightarrow> proper_groups (add_to_group m gs)"
proof -
  assume p: "proper_groups gs"
  have "\<forall>(r, ms) \<in> set gs. ms \<noteq> [] \<and> (\<forall>m \<in> set ms. message_route m = r) \<Longrightarrow>
      \<forall>(r, ms) \<in> set (add_to_group m gs). ms \<noteq> [] \<and> (\<forall>m \<in> set ms. message_route m = r)"
    by (induction m gs rule: add_to_group.induct) auto
  with p add_to_group_distinct show ?thesis by (auto simp: proper_groups_def)
qed

lemma group_routes_append: "group_routes (ms @ [m]) = add_to_group m (group_routes ms)"
  by (simp add: group_routes_def)

lemma group_routes_proper: "proper_groups (group_routes ms)"
  by (induction ms rule: rev_induct)
    (simp_all add: group_routes_append add_to_group_proper, simp add: proper_groups_def group_routes_def)

lemma group_routes_members: "set (concat (map snd (group_routes ms))) = set ms"
proof -
  have "mset (concat (map snd (group_routes ms))) = mset ms"
    by (induction ms rule: rev_induct)
      (simp_all add: group_routes_append add_to_group_mset, simp add: group_routes_def)
  then show ?thesis by (rule mset_eq_setD)
qed

text \<open>The two projections of a route that a delivery's unique constraints are about.\<close>

definition by_key :: "route \<Rightarrow> channel \<times> string" where "by_key r = (fst r, fst (snd r))"
definition by_index :: "route \<Rightarrow> channel \<times> int" where "by_index r = (fst r, snd (snd r))"

definition separate :: "route set \<Rightarrow> bool" where
  "separate R \<longleftrightarrow> inj_on by_key R \<and> inj_on by_index R"

lemma group_member:
  assumes "(r, vs) \<in> set (group_routes ms)"
  shows "vs \<noteq> [] \<and> (\<forall>m \<in> set vs. message_route m = r \<and> m \<in> set ms)"
proof -
  have "vs \<noteq> [] \<and> (\<forall>m \<in> set vs. message_route m = r)"
    using group_routes_proper assms by (fastforce simp: proper_groups_def)
  moreover have "set vs \<subseteq> set ms"
    using assms group_routes_members [of ms] by fastforce
  ultimately show ?thesis by blast
qed

lemma group_witness:
  assumes "r \<in> fst ` set (group_routes ms)"
  obtains m where "m \<in> set ms" and "message_route m = r"
proof -
  from assms obtain vs where "(r, vs) \<in> set (group_routes ms)" by auto
  from group_member [OF this] that [of "hd vs"] show ?thesis by simp
qed

lemma separate_routes:
  assumes "coherent all" and "set ms \<subseteq> set all"
    and "\<And>m m'. m \<in> set ms \<Longrightarrow> m' \<in> set ms \<Longrightarrow>
      audience_key m = audience_key m' \<and> sender_override m = sender_override m'"
  shows "separate (fst ` set (group_routes ms))"
proof -
  have pair: "by_key r = by_key r' \<or> by_index r = by_index r' \<Longrightarrow> r = r'"
    if r: "r \<in> fst ` set (group_routes ms)" and r': "r' \<in> fst ` set (group_routes ms)" for r r'
  proof -
    assume e: "by_key r = by_key r' \<or> by_index r = by_index r'"
    obtain m where m0: "m \<in> set ms" "message_route m = r"
      using r by (rule group_witness)
    obtain m' where m1: "m' \<in> set ms" "message_route m' = r'"
      using r' by (rule group_witness)
    note m = m0 m1
    have "same_sequence m m'"
      using assms(3) [OF m(1,3)] e m(2,4)
      by (auto simp: same_sequence_def by_key_def by_index_def message_route_def)
    moreover have "m \<in> set all" "m' \<in> set all" using assms(2) m by auto
    ultimately have "step_key m = step_key m' \<longleftrightarrow> step_index m = step_index m'"
      using assms(1) unfolding coherent_def by simp
    with e m show "r = r'" by (auto simp: by_key_def by_index_def message_route_def)
  qed
  then show ?thesis by (auto simp: separate_def inj_on_def)
qed

lemma separate_union:
  assumes "separate A" and "separate B"
    and "\<And>a b. a \<in> A \<Longrightarrow> b \<in> B \<Longrightarrow> by_key a \<noteq> by_key b \<and> by_index a \<noteq> by_index b"
  shows "separate (A \<union> B)"
  using assms unfolding separate_def by (fastforce simp: inj_on_Un)

lemma separate_subset: "separate A \<Longrightarrow> B \<subseteq> A \<Longrightarrow> separate B"
  unfolding separate_def by (blast intro: inj_on_subset)

lemma not_shadowed:
  "\<not> shadowed exact g \<longleftrightarrow>
     (\<forall>e \<in> set exact. by_key (fst e) \<noteq> by_key (fst g) \<and> by_index (fst e) \<noteq> by_index (fst g))"
  by (auto simp: shadowed_def by_key_def by_index_def)

lemma chosen_groups_separate:
  assumes "coherent (messages idx)"
  shows "proper_groups (chosen_groups idx a p c) \<and> separate (fst ` set (chosen_groups idx a p c))"
proof -
  let ?rel = "filter (relevant a p c) (messages idx)"
  let ?ex = "group_routes (filter (\<lambda>m. sender_override m = p) ?rel)"
  let ?sh = "group_routes (filter (\<lambda>m. sender_override m \<noteq> p) ?rel)"
  let ?keep = "filter (\<lambda>g. \<not> shadowed ?ex g) ?sh"
  have ch: "chosen_groups idx a p c = ?ex @ ?keep" by (simp add: chosen_groups_def Let_def)
  have sx: "separate (fst ` set ?ex)" and ss: "separate (fst ` set ?sh)"
    by (rule separate_routes [OF assms]; auto simp: relevant_def)+
  have apart: "by_key r \<noteq> by_key r' \<and> by_index r \<noteq> by_index r'"
    if "r \<in> fst ` set ?ex" "r' \<in> fst ` set ?keep" for r r'
  proof -
    from that obtain e g where "e \<in> set ?ex" "r = fst e" "g \<in> set ?keep" "r' = fst g" by blast
    then show ?thesis using not_shadowed [of ?ex g] by simp
  qed
  have "separate (fst ` set ?ex \<union> fst ` set ?keep)"
    by (rule separate_union [OF sx separate_subset [OF ss] apart]) auto
  moreover have "distinct (map fst (?ex @ ?keep))"
  proof -
    have "fst ` set ?ex \<inter> fst ` set ?keep = {}"
      using apart by blast
    moreover have "distinct (map fst ?ex)" "distinct (map fst ?keep)"
      using group_routes_proper by (auto simp: proper_groups_def distinct_map_filter)
    ultimately show ?thesis by (simp only: map_append distinct_append set_map simp_thms)
  qed
  ultimately show ?thesis
    unfolding ch proper_groups_def
    by (auto simp: image_Un dest: group_member)
qed

section \<open>Properties of the index\<close>

text \<open>
  C31: a published version that validates is internally consistent: within one audience, channel and
  sender the step keys and step indexes correspond one to one and share a delay, an audience has one
  persona and segment, no route is duplicated, and every message has well-formed keys, a known
  sender, a subject exactly when it is an email, and templates that use supported plain
  placeholders only, with distinct media names.
\<close>

theorem index_message_version_consistent:
  assumes "index_message_version H v = Inr idx"
  shows "messages idx \<noteq> [] \<and> coherent (messages idx) \<and> (\<forall>m \<in> set (messages idx). message_ok m)"
  using index_consistent [OF assms] by (simp add: consistent_index_def)

definition sample_row :: "string \<Rightarrow> int \<Rightarrow> string \<Rightarrow> json" where
  "sample_row skey sindex sender = JObject
     [(''audience_key'', JStr ''cto''), (''role_persona'', JStr ''CTO''),
      (''fedramp_segment'', JStr ''''), (''channel'', JStr ''linkedin_followup''),
      (''step_key'', JStr skey), (''step_index'', JInt sindex), (''delay_hours'', JInt 24),
      (''variant_key'', JStr ''a''), (''subject'', JStr ''''), (''body'', JStr ''Hi {first_name}''),
      (''media'', JList []), (''sender_override'', JStr sender), (''notes'', JStr '''')]"

definition sample_hash :: "json \<Rightarrow> string" where
  "sample_hash j = replicate 64 (CHR ''0'')"

definition sample_version :: message_program_version where
  "sample_version =
     \<lparr>version_pk = Some 1, schema_version = 1, version_program_key = ''p'',
      payload = JObject [(''program_key'', JStr ''p''), (''program_name'', JStr ''P''),
        (''messages'', JList [sample_row ''first'' 0 '''', sample_row ''second'' 1 '''',
           sample_row ''own'' 0 ''Arian''])],
      version_content_hash = replicate 64 (CHR ''0'')\<rparr>"

lemma sample_indexed:
  "case index_message_version sample_hash sample_version of
     Inl _ \<Rightarrow> False
   | Inr idx \<Rightarrow> map step_key (messages idx) = [''first'', ''own'', ''second''] \<and>
       (case effective_routes idx ''cto'' ''Arian'' None of
          Inl _ \<Rightarrow> False
        | Inr gs \<Rightarrow> map (map step_key) gs = [[''own''], [''second'']])"
  by code_simp

lemma sample_index:
  obtains idx gs where "index_message_version sample_hash sample_version = Inr idx"
    and "effective_routes idx ''cto'' ''Arian'' None = Inr gs"
    and "map step_key (messages idx) = [''first'', ''own'', ''second'']"
    and "map (map step_key) gs = [[''own''], [''second'']]"
  using sample_indexed by (auto split: sum.split_asm)

theorem index_message_version_consistent_witness:
  "\<exists>idx. index_message_version sample_hash sample_version = Inr idx \<and> coherent (messages idx) \<and>
     length (messages idx) = 3"
proof -
  obtain idx gs where i: "index_message_version sample_hash sample_version = Inr idx"
    "effective_routes idx ''cto'' ''Arian'' None = Inr gs"
    "map step_key (messages idx) = [''first'', ''own'', ''second'']"
    by (rule sample_index)
  then have "length (map step_key (messages idx)) = 3" by simp
  with index_message_version_consistent [OF i(1)] i(1) show ?thesis by auto
qed

section \<open>Properties of the effective routes\<close>

lemma chosen_group_members:
  assumes "g \<in> set (chosen_groups idx a p c)"
  shows "snd g \<noteq> [] \<and> (\<forall>m \<in> set (snd g). message_route m = fst g \<and> relevant a p c m \<and>
    m \<in> set (messages idx))"
proof -
  obtain ms where g: "(fst g, snd g) \<in> set (group_routes ms)"
    and ms: "\<forall>m \<in> set ms. relevant a p c m \<and> m \<in> set (messages idx)"
    using assms by (auto simp: chosen_groups_def Let_def)
  from group_member [OF g] ms show ?thesis by blast
qed

lemma hd_sorted_group:
  assumes "g \<in> set (chosen_groups idx a p c)"
  shows "hd (sort_key variant_key (snd g)) \<in> set (snd g)"
  using chosen_group_members [OF assms] hd_sort_key_in by blast

lemma group_hd_route:
  assumes "g \<in> set (chosen_groups idx a p c)"
  shows "message_route (hd (sort_key variant_key (snd g))) = fst g"
  using chosen_group_members [OF assms] hd_sorted_group [OF assms] by blast

lemma effective_routes_Inr:
  "effective_routes idx a p c = Inr gs \<Longrightarrow>
     gs = map (\<lambda>g. sort_key variant_key (snd g)) (sort_key route_sort_key (chosen_groups idx a p c))"
  by (auto simp: effective_routes_def split: if_splits)

definition head_route :: "published_message list \<Rightarrow> route" where
  "head_route g = message_route (hd g)"

lemma effective_routes_heads:
  assumes "effective_routes idx a p c = Inr gs"
  shows "map head_route gs = map fst (sort_key route_sort_key (chosen_groups idx a p c))"
  unfolding effective_routes_Inr [OF assms] map_map
  by (rule map_cong [OF refl]) (simp add: head_route_def group_hd_route)

lemma effective_routes_separate:
  assumes "consistent_index idx" and "effective_routes idx a p c = Inr gs"
  shows "distinct (map head_route gs) \<and> separate (set (map head_route gs))"
proof -
  have "coherent (messages idx)" using assms(1) by (simp add: consistent_index_def)
  from chosen_groups_separate [OF this, of a p c]
  have s: "separate (fst ` set (chosen_groups idx a p c))"
    and d: "distinct (map fst (chosen_groups idx a p c))"
    by (simp_all add: proper_groups_def)
  have "mset (map fst (sort_key route_sort_key (chosen_groups idx a p c))) =
      mset (map fst (chosen_groups idx a p c))" by simp
  with d have "distinct (map fst (sort_key route_sort_key (chosen_groups idx a p c)))"
    by (metis mset_eq_imp_distinct_iff)
  with s show ?thesis by (simp add: effective_routes_heads [OF assms(2)])
qed

lemma effective_routes_group:
  assumes "effective_routes idx a p c = Inr gs" and "g \<in> set gs"
  shows "g \<noteq> [] \<and> (\<forall>m \<in> set g. message_route m = head_route g \<and> relevant a p c m \<and>
    m \<in> set (messages idx))"
proof -
  from assms obtain h where h: "h \<in> set (chosen_groups idx a p c)"
    and g: "g = sort_key variant_key (snd h)"
    unfolding effective_routes_Inr [OF assms(1)] by fastforce
  show ?thesis
    using chosen_group_members [OF h] group_hd_route [OF h] by (simp add: g head_route_def)
qed

text \<open>
  C9: the routes that are effective for an operator can all be materialised: in one channel no two
  of them share a step key or a step index, so the unique constraints of the delivery table hold,
  and every group is nonempty and holds the variants of a single route.
\<close>

theorem effective_routes_unique:
  assumes "index_message_version H v = Inr idx" and "effective_routes idx a p c = Inr gs"
  shows "distinct (map (\<lambda>g. (msg_channel (hd g), step_key (hd g))) gs) \<and>
    distinct (map (\<lambda>g. (msg_channel (hd g), step_index (hd g))) gs) \<and>
    (\<forall>g \<in> set gs. g \<noteq> [] \<and> (\<forall>m \<in> set g. message_route m = message_route (hd g)))"
proof -
  from effective_routes_separate [OF index_consistent [OF assms(1)] assms(2)]
  have d: "distinct (map head_route gs)" and s: "inj_on by_key (set (map head_route gs))"
    "inj_on by_index (set (map head_route gs))"
    by (simp_all add: separate_def)
  have k: "map by_key (map head_route gs) = map (\<lambda>g. (msg_channel (hd g), step_key (hd g))) gs"
    "map by_index (map head_route gs) = map (\<lambda>g. (msg_channel (hd g), step_index (hd g))) gs"
    by (simp_all add: by_key_def by_index_def head_route_def message_route_def)
  have "distinct (map by_key (map head_route gs))" "distinct (map by_index (map head_route gs))"
    using d s by (simp_all only: distinct_map simp_thms)
  then have "distinct (map (\<lambda>g. (msg_channel (hd g), step_key (hd g))) gs)"
    "distinct (map (\<lambda>g. (msg_channel (hd g), step_index (hd g))) gs)"
    by (simp_all only: k)
  moreover have "\<forall>g \<in> set gs. g \<noteq> [] \<and> (\<forall>m \<in> set g. message_route m = message_route (hd g))"
    using effective_routes_group [OF assms(2)] unfolding head_route_def by blast
  ultimately show ?thesis by blast
qed

theorem effective_routes_unique_witness:
  "\<exists>idx gs. index_message_version sample_hash sample_version = Inr idx \<and>
     effective_routes idx ''cto'' ''Arian'' None = Inr gs \<and> length gs = 2 \<and>
     distinct (map (\<lambda>g. (msg_channel (hd g), step_index (hd g))) gs)"
proof -
  obtain idx gs where i: "index_message_version sample_hash sample_version = Inr idx"
    "effective_routes idx ''cto'' ''Arian'' None = Inr gs"
    "map (map step_key) gs = [[''own''], [''second'']]"
    by (rule sample_index)
  have "length (map (map step_key) gs) = 2" using i(3) by simp
  with effective_routes_unique [OF i(1,2)] i show ?thesis by auto
qed

section \<open>Which messages are effective\<close>

lemma group_of:
  assumes "m \<in> set ms"
  obtains vs where "(message_route m, vs) \<in> set (group_routes ms)" and "m \<in> set vs"
proof -
  from assms have "m \<in> set (concat (map snd (group_routes ms)))" by (simp only: group_routes_members)
  then obtain r vs where g: "(r, vs) \<in> set (group_routes ms)" and m: "m \<in> set vs" by auto
  from group_member [OF g] m have "message_route m = r" by simp
  with g m that show thesis by blast
qed

text \<open>An exact message for the operator that takes the step of \<open>m\<close>, by key or by index.\<close>

definition overrides :: "string \<Rightarrow> published_message \<Rightarrow> published_message \<Rightarrow> bool" where
  "overrides operator e m \<longleftrightarrow> sender_override e = operator \<and> msg_channel e = msg_channel m \<and>
     (step_key e = step_key m \<or> step_index e = step_index m)"

lemma shadowed_by_message:
  "shadowed (group_routes (filter (\<lambda>m. sender_override m = p) ms)) (message_route m, vs) \<longleftrightarrow>
     (\<exists>e \<in> set ms. overrides p e m)" (is "?L \<longleftrightarrow> ?R")
proof
  assume ?L
  then obtain r ws where g: "(r, ws) \<in> set (group_routes (filter (\<lambda>m. sender_override m = p) ms))"
    and s: "by_key r = by_key (message_route m) \<or> by_index r = by_index (message_route m)"
    by (auto simp: shadowed_def by_key_def by_index_def)
  from group_member [OF g] have "hd ws \<in> set ws" by simp
  with group_member [OF g] have "message_route (hd ws) = r" "hd ws \<in> set ms"
    "sender_override (hd ws) = p" by auto
  with s have "overrides p (hd ws) m"
    by (auto simp: overrides_def by_key_def by_index_def message_route_def)
  with \<open>hd ws \<in> set ms\<close> show ?R by blast
next
  assume ?R
  then obtain e where e: "e \<in> set (filter (\<lambda>m. sender_override m = p) ms)" and o: "overrides p e m"
    by (auto simp: overrides_def)
  from e obtain ws where "(message_route e, ws) \<in> set (group_routes (filter (\<lambda>m. sender_override m = p) ms))"
    by (rule group_of)
  with o show ?L unfolding shadowed_def overrides_def message_route_def by force
qed

lemma chosen_groups_members:
  "m \<in> set (concat (map snd (chosen_groups idx a p c))) \<longleftrightarrow>
     m \<in> set (messages idx) \<and> relevant a p c m \<and>
     (sender_override m = p \<or>
       \<not> (\<exists>e \<in> set (messages idx). relevant a p c e \<and> overrides p e m))"
    (is "?L \<longleftrightarrow> ?R")
proof -
  let ?rel = "filter (relevant a p c) (messages idx)"
  let ?ex = "group_routes (filter (\<lambda>m. sender_override m = p) ?rel)"
  let ?sh = "group_routes (filter (\<lambda>m. sender_override m \<noteq> p) ?rel)"
  have "set (concat (map snd (chosen_groups idx a p c))) =
      set (concat (map snd ?ex)) \<union> set (concat (map snd (filter (\<lambda>g. \<not> shadowed ?ex g) ?sh)))"
    by (simp add: chosen_groups_def Let_def)
  moreover have "set (concat (map snd ?ex)) = set (filter (\<lambda>m. sender_override m = p) ?rel)"
    by (rule group_routes_members)
  moreover have "m \<in> set (concat (map snd (filter (\<lambda>g. \<not> shadowed ?ex g) ?sh))) \<longleftrightarrow>
      m \<in> set (filter (\<lambda>m. sender_override m \<noteq> p) ?rel) \<and> \<not> (\<exists>e \<in> set ?rel. overrides p e m)"
    (is "?M \<longleftrightarrow> ?N")
  proof
    assume ?M
    then obtain r vs where g: "(r, vs) \<in> set ?sh" "\<not> shadowed ?ex (r, vs)" and m: "m \<in> set vs"
      by auto
    have "message_route m = r \<and> m \<in> set (filter (\<lambda>m. sender_override m \<noteq> p) ?rel)"
      using group_member [OF g(1)] m by blast
    then have "r = message_route m" "m \<in> set (filter (\<lambda>m. sender_override m \<noteq> p) ?rel)" by simp_all
    with g(2) show ?N by (simp only: shadowed_by_message) blast
  next
    assume n: ?N
    then obtain vs where "(message_route m, vs) \<in> set ?sh" "m \<in> set vs" by (blast elim: group_of)
    moreover from n have "\<not> shadowed ?ex (message_route m, vs)" by (simp only: shadowed_by_message) blast
    ultimately have "(message_route m, vs) \<in> set (filter (\<lambda>g. \<not> shadowed ?ex g) ?sh)"
      by (simp only: set_filter) simp
    with \<open>m \<in> set vs\<close> show ?M by (force simp only: set_concat set_map snd_conv)
  qed
  ultimately show ?thesis by auto
qed

text \<open>
  An exact override comes before the shared message: a published message is effective for an
  operator exactly when it belongs to the audience and channel, is shared or addressed to this
  operator, and, when shared, no message addressed to the operator takes its step key or its step
  index in the same channel.
\<close>

theorem effective_routes_override:
  assumes "effective_routes idx a p c = Inr gs"
  shows "m \<in> set (concat gs) \<longleftrightarrow>
     m \<in> set (messages idx) \<and> relevant a p c m \<and>
     (sender_override m = p \<or>
       (\<forall>e \<in> set (messages idx). relevant a p c e \<longrightarrow> \<not> overrides p e m))"
proof -
  have "set (concat gs) = set (concat (map snd (chosen_groups idx a p c)))"
    by (simp add: effective_routes_Inr [OF assms])
  then show ?thesis by (simp only: chosen_groups_members) blast
qed

theorem effective_routes_override_witness:
  "\<exists>idx gs. effective_routes idx ''cto'' ''Arian'' None = Inr gs \<and> length gs = 2 \<and>
     (\<forall>m \<in> set (concat gs). sender_override m = ''Arian'' \<or>
       (\<forall>e \<in> set (messages idx). relevant ''cto'' ''Arian'' None e \<longrightarrow> \<not> overrides ''Arian'' e m))"
proof -
  obtain idx gs where i: "effective_routes idx ''cto'' ''Arian'' None = Inr gs"
    "map (map step_key) gs = [[''own''], [''second'']]"
    by (rule sample_index)
  have "length (map (map step_key) gs) = 2" by (simp only: i(2)) simp
  then have "length gs = 2" by (simp only: length_map)
  with effective_routes_override [OF i(1)] i(1) show ?thesis by blast
qed

section \<open>Properties of the selection\<close>

lemma key_char_not_space: "key_char c \<Longrightarrow> \<not> py_space c"
  by (auto simp: key_char_def key_head_def py_space_def Let_def)

lemma strip_unspaced: "\<forall>c \<in> set s. \<not> py_space c \<Longrightarrow> strip s = s"
proof -
  assume a: "\<forall>c \<in> set s. \<not> py_space c"
  have "lstrip s = s"
    by (rule lstrip_fixed) (use a in \<open>cases s; simp\<close>)
  moreover have "lstrip (rev s) = rev s"
  proof (rule lstrip_fixed, cases "rev s")
    case (Cons c t)
    then have "c \<in> set s" by (metis list.set_intros(1) set_rev)
    with a Cons show "rev s = [] \<or> \<not> py_space (hd (rev s))" by simp
  qed simp
  ultimately show ?thesis by (simp add: strip_def)
qed

lemma strip_key:
  assumes "key_re k" shows "strip k = k \<and> k \<noteq> '''' \<and> length k \<le> 160"
proof -
  from assms obtain c t where k: "k = c # t" "key_head c" "list_all key_char t" "length t \<le> 159"
    by (auto simp: key_re_def split: list.splits)
  have "\<forall>x \<in> set k. key_char x" using k by (auto simp: key_char_def list_all_iff)
  then have "strip k = k" using strip_unspaced key_char_not_space by blast
  with k show ?thesis by simp
qed

lemma key_value_accepts: "key_re k \<Longrightarrow> key_value (JStr k) ctx = Inr k"
  using strip_key [of k] by (simp add: key_value_def nonblank_text_def text_value_def)

lemma filter_unique:
  assumes "distinct (map f xs)" and "x \<in> set xs" and "\<And>y. y \<in> set xs \<Longrightarrow> P y \<longleftrightarrow> f y = f x"
  shows "filter P xs = [x]"
  using assms
proof (induction xs)
  case Nil
  then show ?case by simp
next
  case (Cons y ys)
  show ?case
  proof (cases "y = x")
    case True
    then have "\<forall>z \<in> set ys. \<not> P z" using Cons.prems by (auto simp: image_iff)
    then have "filter P ys = []" by (simp add: filter_empty_conv)
    with True Cons.prems(3) show ?thesis by simp
  next
    case False
    then have "x \<in> set ys" using Cons.prems(2) by simp
    with Cons.prems have "\<not> P y" by auto
    with Cons False show ?thesis by simp
  qed
qed

lemma pick_variant_Inr:
  assumes "vs \<noteq> []"
  shows "\<exists>m \<in> set vs. pick_variant H e c vs = Inr (selected_of m)"
proof -
  have "vs ! (hex_value (selection_digest H e c (hd vs)) mod length vs) \<in> set vs"
    using assms by simp
  with assms show ?thesis by (cases vs) (auto simp: pick_variant_def)
qed

lemma select_in_groups_sound:
  assumes "select_in_groups H e c skey sindex gs = Inr s"
    and "\<forall>g \<in> set gs. g \<noteq> [] \<and> (\<forall>m \<in> set g. message_route m = head_route g)"
  shows "\<exists>m \<in> set (concat gs). s = selected_of m \<and> (skey = None \<or> skey = Some (step_key m)) \<and>
    (sindex = None \<or> sindex = Some (step_index m))"
proof -
  from assms(1) obtain vs where f: "filter (group_matches skey sindex) gs = [vs]"
    and p: "pick_variant H e c vs = Inr s"
    by (auto simp: select_in_groups_def ambiguous_def split: list.splits)
  from f have "vs \<in> set (filter (group_matches skey sindex) gs)" by simp
  then have v: "vs \<in> set gs" "group_matches skey sindex vs" by simp_all
  with assms(2) have n: "vs \<noteq> []" "\<forall>m \<in> set vs. message_route m = head_route vs" by blast+
  from pick_variant_Inr [OF n(1), of H e c] p obtain m where "m \<in> set vs" "s = selected_of m" by auto
  moreover from this(1) n(2) have "step_key m = step_key (hd vs)" "step_index m = step_index (hd vs)"
    by (auto simp: head_route_def message_route_def)
  moreover have "m \<in> set (concat gs)" using \<open>m \<in> set vs\<close> v(1) by auto
  ultimately show ?thesis using v(2) unfolding group_matches_def by metis
qed

lemma selected_is_effective:
  assumes "select_message H e chan_text skey sindex = Inr s"
  shows "\<exists>idx c m. index_message_version H (enrollment_version e) = Inr idx \<and>
    chan_text = channel_name c \<and> m \<in> set (messages idx) \<and> s = selected_of m \<and>
    relevant (enrollment_audience e) (enrollment_operator e) (Some c) m \<and>
    (sender_override m = enrollment_operator e \<or>
       (\<forall>x \<in> set (messages idx). relevant (enrollment_audience e) (enrollment_operator e) (Some c) x \<longrightarrow>
          \<not> overrides (enrollment_operator e) x m)) \<and>
    (skey = None \<or> skey = Some (step_key m)) \<and> (sindex = None \<or> sindex = Some (step_index m))"
proof -
  let ?a = "enrollment_audience e" and ?p = "enrollment_operator e"
  from assms obtain c idx gs where c: "validate_channel chan_text = Inr c"
    and i: "index_message_version H (enrollment_version e) = Inr idx"
    and g: "effective_routes idx ?a ?p (Some c) = Inr gs"
    and s: "select_in_groups H e c skey sindex gs = Inr s"
    unfolding select_message_def bind_result_Inr by blast
  have "\<forall>g \<in> set gs. g \<noteq> [] \<and> (\<forall>m \<in> set g. message_route m = head_route g)"
    using effective_routes_group [OF g] by blast
  from select_in_groups_sound [OF s this] obtain m where m: "m \<in> set (concat gs)" "s = selected_of m"
    "skey = None \<or> skey = Some (step_key m)" "sindex = None \<or> sindex = Some (step_index m)" by blast
  have "set (concat gs) = set (concat (map snd (chosen_groups idx ?a ?p (Some c))))"
    by (simp add: effective_routes_Inr [OF g])
  with m(1) have "m \<in> set (concat (map snd (chosen_groups idx ?a ?p (Some c))))" by (simp only:)
  then have mm: "m \<in> set (messages idx)" "relevant ?a ?p (Some c) m"
    "sender_override m = ?p \<or> \<not> (\<exists>x \<in> set (messages idx). relevant ?a ?p (Some c) x \<and> overrides ?p x m)"
    unfolding chosen_groups_members by blast+
  have "chan_text = channel_name c"
    using c by (auto simp: validate_channel_def channel_name_def split: if_splits)
  with i m mm show ?thesis by blast
qed

text \<open>
  C23: whatever is selected for an enrollment is a published message of the version the enrollment
  is frozen to, in its audience and the requested channel, at the requested step, shared or
  addressed to its operator, and not overridden by a message addressed to its operator.
\<close>

theorem select_message_sound:
  assumes "select_message H e chan_text skey sindex = Inr s"
  shows "\<exists>idx c m. index_message_version H (enrollment_version e) = Inr idx \<and>
    chan_text = channel_name c \<and> m \<in> set (messages idx) \<and> s = selected_of m \<and>
    relevant (enrollment_audience e) (enrollment_operator e) (Some c) m \<and>
    (sender_override m = enrollment_operator e \<or>
       (\<forall>x \<in> set (messages idx). relevant (enrollment_audience e) (enrollment_operator e) (Some c) x \<longrightarrow>
          \<not> overrides (enrollment_operator e) x m)) \<and>
    (skey = None \<or> skey = Some (step_key m)) \<and> (sindex = None \<or> sindex = Some (step_index m))"
  using assms by (rule selected_is_effective)

definition sample_enrollment :: message_enrollment where
  "sample_enrollment =
     \<lparr>enrollment_pk = 5, enrollment_deal = 7, enrollment_version = sample_version,
      enrollment_audience = ''cto'', enrollment_operator = ''Arian'', enrollment_created_at = 0\<rparr>"

lemma sample_selected:
  "case select_message sample_hash sample_enrollment ''linkedin_followup'' None (Some 1) of
     Inl _ \<Rightarrow> False
   | Inr s \<Rightarrow> sel_step_key s = ''second''"
  by code_simp

theorem select_message_sound_witness:
  "\<exists>s idx m. select_message sample_hash sample_enrollment ''linkedin_followup'' None (Some 1) = Inr s \<and>
     index_message_version sample_hash sample_version = Inr idx \<and> m \<in> set (messages idx) \<and>
     s = selected_of m \<and> step_index m = 1"
proof -
  from sample_selected obtain s where s:
    "select_message sample_hash sample_enrollment ''linkedin_followup'' None (Some 1) = Inr s"
    by (auto split: sum.split_asm)
  from select_message_sound [OF s] obtain idx m where
    "index_message_version sample_hash (enrollment_version sample_enrollment) = Inr idx"
    "m \<in> set (messages idx)" "s = selected_of m" "step_index m = 1" by auto
  with s show ?thesis by (auto simp: sample_enrollment_def)
qed

lemma select_in_groups_complete:
  assumes "distinct (map head_route gs) \<and> separate (set (map head_route gs))"
    and "\<forall>g \<in> set gs. g \<noteq> [] \<and> (\<forall>m \<in> set g. message_route m = head_route g \<and> msg_channel m = c)"
    and "m \<in> set (concat gs)"
    and "skey = Some (step_key m) \<and> (sindex = None \<or> sindex = Some (step_index m)) \<or>
      skey = None \<and> sindex = Some (step_index m)"
  shows "\<exists>m' \<in> set (concat gs). message_route m' = message_route m \<and>
    select_in_groups H e c skey sindex gs = Inr (selected_of m')"
proof -
  from assms(3) obtain g where g: "g \<in> set gs" "m \<in> set g" by auto
  have hr: "head_route h = (c, step_key (hd h), step_index (hd h))" if "h \<in> set gs" for h
  proof -
    have "hd h \<in> set h" using assms(2) that hd_in_set by blast
    with assms(2) that have "msg_channel (hd h) = c" by blast
    then show ?thesis by (simp add: head_route_def message_route_def)
  qed
  have mr: "message_route m = head_route g" using assms(2) g by blast
  have "group_matches skey sindex h \<longleftrightarrow> head_route h = head_route g" if h: "h \<in> set gs" for h
  proof -
    have "by_key (head_route h) = by_key (head_route g) \<longleftrightarrow> head_route h = head_route g"
      "by_index (head_route h) = by_index (head_route g) \<longleftrightarrow> head_route h = head_route g"
      using assms(1) h g(1) by (auto simp: separate_def inj_on_def)
    moreover have "by_key (head_route h) = (c, step_key (hd h))" "by_key (head_route g) = (c, step_key m)"
      "by_index (head_route h) = (c, step_index (hd h))" "by_index (head_route g) = (c, step_index m)"
      using hr [OF h] hr [OF g(1)] mr by (auto simp: by_key_def by_index_def message_route_def)
    ultimately show ?thesis using assms(4) unfolding group_matches_def by auto
  qed
  from filter_unique [OF conjunct1 [OF assms(1)] g(1) this]
  have f: "filter (group_matches skey sindex) gs = [g]" .
  from assms(2) g(1) have "g \<noteq> []" by blast
  from pick_variant_Inr [OF this, of H e c] obtain m' where m': "m' \<in> set g"
    "pick_variant H e c g = Inr (selected_of m')" by blast
  have "select_in_groups H e c skey sindex gs = Inr (selected_of m')"
    by (simp add: select_in_groups_def f m'(2))
  moreover have "message_route m' = message_route m" using assms(2) g(1) m'(1) mr by simp
  moreover have "m' \<in> set (concat gs)" using g(1) m'(1) by auto
  ultimately show ?thesis by blast
qed

lemma effective_is_selected:
  assumes "index_message_version H (enrollment_version e) = Inr idx"
    and "effective_routes idx (enrollment_audience e) (enrollment_operator e) (Some c) = Inr gs"
    and "m \<in> set (concat gs)"
    and "skey = Some (step_key m) \<and> (sindex = None \<or> sindex = Some (step_index m)) \<or>
      skey = None \<and> sindex = Some (step_index m)"
  shows "\<exists>m' \<in> set (concat gs). message_route m' = message_route m \<and>
    select_message H e (channel_name c) skey sindex = Inr (selected_of m')"
proof -
  have con: "consistent_index idx" by (rule index_consistent [OF assms(1)])
  have mem: "\<forall>g \<in> set gs. g \<noteq> [] \<and> (\<forall>m \<in> set g. message_route m = head_route g \<and>
      msg_channel m = c \<and> m \<in> set (messages idx))"
    using effective_routes_group [OF assms(2)] by (auto simp: relevant_def)
  with assms(3) have "m \<in> set (messages idx)" by auto
  with con have ok: "key_re (step_key m)" "0 \<le> step_index m"
    by (auto simp: consistent_index_def message_ok_def)
  have "validate_channel (channel_name c) = Inr c"
    by (cases c) (simp_all add: validate_channel_def channel_name_def)
  moreover have "check_step_key skey = Inr ()" "check_step_index sindex = Inr ()"
    using assms(4) ok
    by (auto simp: check_step_key_def check_step_index_def key_value_accepts nonnegative_integer_def)
  moreover have "skey \<noteq> None \<or> sindex \<noteq> None" using assms(4) by auto
  ultimately have "select_message H e (channel_name c) skey sindex = select_in_groups H e c skey sindex gs"
    by (simp add: select_message_def assms(1,2) ensure_def)
  moreover obtain m' where "m' \<in> set (concat gs)" "message_route m' = message_route m"
    "select_in_groups H e c skey sindex gs = Inr (selected_of m')"
    using select_in_groups_complete [OF effective_routes_separate [OF con assms(2)] _ assms(3,4), of c H e]
      mem by blast
  ultimately show ?thesis by auto
qed

text \<open>
  C22: no effective route is ambiguous or lost: for every message that is effective for the
  enrollment, its step can be selected by key, by index or by both, and the selection succeeds with
  a variant of exactly that route.
\<close>

theorem select_message_complete:
  assumes "index_message_version H (enrollment_version e) = Inr idx"
    and "effective_routes idx (enrollment_audience e) (enrollment_operator e) (Some c) = Inr gs"
    and "m \<in> set (concat gs)"
    and "skey = Some (step_key m) \<and> (sindex = None \<or> sindex = Some (step_index m)) \<or>
      skey = None \<and> sindex = Some (step_index m)"
  shows "\<exists>m' \<in> set (concat gs). message_route m' = message_route m \<and>
    select_message H e (channel_name c) skey sindex = Inr (selected_of m')"
  using assms by (rule effective_is_selected)

lemma sample_routes:
  "case index_message_version sample_hash sample_version of
     Inl _ \<Rightarrow> False
   | Inr idx \<Rightarrow>
       (case effective_routes idx ''cto'' ''Arian'' (Some LINKEDIN_FOLLOWUP) of
          Inl _ \<Rightarrow> False
        | Inr gs \<Rightarrow> \<exists>m \<in> set (concat gs). step_key m = ''own'')"
  by code_simp

theorem select_message_complete_witness:
  "\<exists>m. step_key m = ''own'' \<and>
     select_message sample_hash sample_enrollment ''linkedin_followup'' (Some ''own'') None = Inr (selected_of m)"
proof -
  from sample_routes obtain idx gs m where i:
    "index_message_version sample_hash (enrollment_version sample_enrollment) = Inr idx"
    "effective_routes idx (enrollment_audience sample_enrollment) (enrollment_operator sample_enrollment)
       (Some LINKEDIN_FOLLOWUP) = Inr gs" "m \<in> set (concat gs)" and k: "step_key m = ''own''"
    by (auto simp: sample_enrollment_def split: sum.split_asm)
  from select_message_complete [OF i, of "Some ''own''" None] k
  obtain m' where "message_route m' = message_route m"
    "select_message sample_hash sample_enrollment (channel_name LINKEDIN_FOLLOWUP) (Some ''own'') None =
       Inr (selected_of m')" by auto
  with k show ?thesis by (auto simp: channel_name_def message_route_def)
qed

end
