(* ===== verification/Message_Delivery.thy ===== *)
theory Message_Delivery
  imports Message_Program
begin

text \<open>
  Enrollment, rendering and delivery, the second half of \<open>linkedin/message_delivery.py\<close>, with the
  checks of the two tables it writes (\<open>CampaignMessageEnrollment\<close> and \<open>OutboundDelivery\<close> of
  \<open>linkedin/models.py\<close>). The database is an explicit store; every operation runs in one transaction
  under the lock of the Lead, so it is one step on the store, and an operation that raises leaves
  the store alone. A published version cannot change (its \<open>save\<close> refuses), so a row that refers to
  one carries it. Instants are microseconds since the start of year 1, in UTC.
\<close>

section \<open>The store\<close>

record lead_row =
  lead_first_name :: string
  lead_last_name :: string
  lead_company_name :: string
  lead_role_tag :: "string option"

record deal_row =
  deal_lead :: int
  deal_campaign :: int

datatype delivery_status =
    DELIVERY_PLANNED | DELIVERY_QUEUED | DELIVERY_SENDING | DELIVERY_SENT | DELIVERY_FAILED
  | DELIVERY_UNCLEAR | DELIVERY_STOPPED

record delivery =
  delivery_pk :: int
  delivery_enrollment :: int
  delivery_channel :: channel
  delivery_step_key :: string
  delivery_step_index :: int
  delivery_variant_key :: string
  delivery_operator :: string
  scheduled_at :: int
  frozen_subject :: string
  frozen_body :: string
  frozen_media :: json
  render_hash :: string
  delivery_status :: delivery_status

record message_db =
  db_leads :: "int \<rightharpoonup> lead_row"
  db_deals :: "int \<rightharpoonup> deal_row"
  db_campaigns :: "int \<rightharpoonup> message_program_version option"
  db_enrollments :: "message_enrollment list"
  db_deliveries :: "delivery list"
  enrollment_seq :: int
  delivery_seq :: int

section \<open>Enrollment\<close>

definition require_effective_routes ::
  "message_program_index \<Rightarrow> message_enrollment \<Rightarrow> (delivery_error, unit) result" where
  "require_effective_routes idx e =
     bind_result (effective_routes idx (enrollment_audience e) (enrollment_operator e) None)
       (\<lambda>routes. ensure (routes \<noteq> []) ''audience has no shared or exact routes for the operator'')"

text \<open>
  \<open>full_clean\<close> of a new enrollment: field lengths, the model's own \<open>clean\<close> against the active
  version of the campaign, and the one-to-one constraint on the Deal.
\<close>

definition enrollment_full_clean ::
  "message_db \<Rightarrow> message_program_version option \<Rightarrow> message_enrollment \<Rightarrow> (delivery_error, unit) result" where
  "enrollment_full_clean db active e =
     (if enrollment_audience e = '''' \<or> 160 < length (enrollment_audience e) \<or>
         enrollment_operator e = '''' \<or> 64 < length (enrollment_operator e) \<or>
         strip (enrollment_audience e) = '''' \<or> strip (enrollment_operator e) = '''' \<or>
         (case active of None \<Rightarrow> True | Some v \<Rightarrow> version_pk v \<noteq> version_pk (enrollment_version e)) \<or>
         (\<exists>r \<in> set (db_enrollments db). enrollment_deal r = enrollment_deal e)
      then Inl (ValidationError ''message enrollment'') else Inr ())"

definition insert_enrollment ::
  "int \<Rightarrow> message_enrollment \<Rightarrow> message_db \<Rightarrow> message_enrollment \<times> message_db" where
  "insert_enrollment now e db =
     (let row = e\<lparr>enrollment_pk := enrollment_seq db + 1, enrollment_created_at := now,
                  enrollment_audience := strip (enrollment_audience e),
                  enrollment_operator := strip (enrollment_operator e)\<rparr>
      in (row, db\<lparr>db_enrollments := db_enrollments db @ [row],
                  enrollment_seq := enrollment_seq db + 1\<rparr>))"

definition existing_enrollment ::
  "(json \<Rightarrow> string) \<Rightarrow> string \<Rightarrow> string \<Rightarrow> message_enrollment \<Rightarrow> (delivery_error, message_enrollment) result" where
  "existing_enrollment H audience operator existing =
     bind_result (index_message_version H (enrollment_version existing)) (\<lambda>idx.
     bind_result (resolve_audience idx (JStr audience)) (\<lambda>canonical.
     bind_result (ensure (enrollment_audience existing = canonical) ''already frozen to an audience'') (\<lambda>_.
     bind_result (ensure (enrollment_operator existing = operator) ''already frozen to an operator'') (\<lambda>_.
     bind_result (require_effective_routes idx existing) (\<lambda>_.
     Inr existing)))))"

definition new_enrollment ::
  "(json \<Rightarrow> string) \<Rightarrow> int \<Rightarrow> int \<Rightarrow> string \<Rightarrow> string \<Rightarrow> message_program_version option \<Rightarrow> message_db
     \<Rightarrow> (delivery_error, message_enrollment \<times> message_db) result" where
  "new_enrollment H now deal audience operator active db =
     (case active of
        None \<Rightarrow> fail ''Deal campaign has no active message version''
      | Some v \<Rightarrow>
          bind_result (index_message_version H v) (\<lambda>idx.
          bind_result (resolve_audience idx (JStr audience)) (\<lambda>canonical.
          let e = \<lparr>enrollment_pk = 0, enrollment_deal = deal, enrollment_version = v,
                   enrollment_audience = canonical, enrollment_operator = operator,
                   enrollment_created_at = 0\<rparr> in
          bind_result (require_effective_routes idx e) (\<lambda>_.
          bind_result (enrollment_full_clean db active e) (\<lambda>_.
          Inr (insert_enrollment now e db))))))"

definition ensure_message_enrollment ::
  "(json \<Rightarrow> string) \<Rightarrow> int \<Rightarrow> int \<Rightarrow> string \<Rightarrow> string option \<Rightarrow> message_db
     \<Rightarrow> (delivery_error, message_enrollment \<times> message_db) result" where
  "ensure_message_enrollment H now deal audience operator db =
     bind_result (ensure (deal \<noteq> 0) ''Deal must be saved before message enrollment'') (\<lambda>_.
     bind_result (nonblank_text (JStr (resolve_operator operator)) ''enrollment operator'' (Some 64)) (\<lambda>op.
     case db_deals db deal of
       None \<Rightarrow> Inl (DoesNotExist ''Deal'')
     | Some d \<Rightarrow>
         if db_leads db (deal_lead d) = None then Inl (DoesNotExist ''Lead'')
         else case db_campaigns db (deal_campaign d) of
           None \<Rightarrow> Inl (DoesNotExist ''Campaign'')
         | Some active \<Rightarrow>
             (case List.find (\<lambda>r. enrollment_deal r = deal) (db_enrollments db) of
                Some existing \<Rightarrow>
                  bind_result (existing_enrollment H audience op existing) (\<lambda>e. Inr (e, db))
              | None \<Rightarrow> new_enrollment H now deal audience op active db)))"

definition get_message_enrollment ::
  "(json \<Rightarrow> string) \<Rightarrow> int \<Rightarrow> message_db \<Rightarrow> (delivery_error, message_enrollment) result" where
  "get_message_enrollment H deal db =
     bind_result (ensure (deal \<noteq> 0) ''Deal must be saved before loading enrollment'') (\<lambda>_.
     case List.find (\<lambda>r. enrollment_deal r = deal) (db_enrollments db) of
       None \<Rightarrow> fail ''Deal has no message enrollment''
     | Some e \<Rightarrow>
         bind_result (index_message_version H (enrollment_version e)) (\<lambda>idx.
         bind_result (resolve_audience idx (JStr (enrollment_audience e))) (\<lambda>canonical.
         bind_result (ensure (canonical = enrollment_audience e)
           ''stored enrollment audience is not canonical'') (\<lambda>_.
         bind_result (require_effective_routes idx e) (\<lambda>_. Inr e)))))"

definition require_saved_enrollment ::
  "message_db \<Rightarrow> message_enrollment \<Rightarrow> (delivery_error, message_enrollment) result" where
  "require_saved_enrollment db e =
     bind_result (ensure (enrollment_pk e \<noteq> 0) ''message enrollment must be saved'') (\<lambda>_.
     bind_result (ensure (enrollment_audience e \<noteq> '''' \<and> enrollment_operator e \<noteq> '''')
       ''message enrollment has blank routing identity'') (\<lambda>_.
     case List.find (\<lambda>r. enrollment_pk r = enrollment_pk e) (db_enrollments db) of
       None \<Rightarrow> Inl (DoesNotExist ''CampaignMessageEnrollment'')
     | Some p \<Rightarrow>
         bind_result (ensure (enrollment_audience p \<noteq> '''' \<and> enrollment_operator p \<noteq> '''')
           ''message enrollment has blank routing identity'') (\<lambda>_. Inr p)))"

section \<open>Rendering\<close>

text \<open>The two deployment settings that copy may mention (\<open>linkedin/conf.py\<close>).\<close>

record copy_conf =
  OUR_COMPANY_NAME :: string
  OUR_WEBSITE_URL :: string

record rendered_message =
  rendered_subject :: string
  rendered_body :: string
  rendered_media :: "string list"
  rendered_hash :: string

definition render_template ::
  "string \<Rightarrow> (string \<rightharpoonup> string) \<Rightarrow> string \<Rightarrow> (delivery_error, string) result" where
  "render_template template vals ctx =
     bind_result (validate_placeholders template ctx) (\<lambda>_.
       case format_map template vals of
         Inl e \<Rightarrow> fail (''could not render '' @ ctx)
       | Inr s \<Rightarrow> Inr s)"

definition sender_name :: "channel \<Rightarrow> string \<Rightarrow> string" where
  "sender_name c operator =
     (if c = GMAIL
      then (case gmail_display_name operator of None \<Rightarrow> operator | Some n \<Rightarrow> if n = '''' then operator else n)
      else operator)"

definition render_values ::
  "copy_conf \<Rightarrow> lead_row \<Rightarrow> channel \<Rightarrow> string \<Rightarrow> (string \<rightharpoonup> string)" where
  "render_values conf lead c operator =
     [''first_name'' \<mapsto> greeting_first_name (lead_first_name lead),
      ''last_name'' \<mapsto> strip (lead_last_name lead),
      ''company_name'' \<mapsto> safe_company_name (lead_company_name lead),
      ''my_name'' \<mapsto> sender_name c operator,
      ''our_company_name'' \<mapsto> OUR_COMPANY_NAME conf,
      ''our_website_url'' \<mapsto> OUR_WEBSITE_URL conf]"

definition mentions_role :: "selected_message \<Rightarrow> bool" where
  "mentions_role m \<longleftrightarrow> is_infix ''{role}'' (sel_subject m) \<or> is_infix ''{role}'' (sel_body m)"

definition with_role ::
  "lead_row \<Rightarrow> selected_message \<Rightarrow> (string \<rightharpoonup> string) \<Rightarrow> (delivery_error, string \<rightharpoonup> string) result" where
  "with_role lead m vals =
     (if mentions_role m then
        (case role_wording (lead_role_tag lead) of
           Inl (No_Wording t) \<Rightarrow> Inl (MessageRoleError t)
         | Inr w \<Rightarrow> Inr (vals(''role'' \<mapsto> w)))
      else Inr vals)"

definition delivery_render_hash ::
  "(json \<Rightarrow> string) \<Rightarrow> message_enrollment \<Rightarrow> channel \<Rightarrow> string \<Rightarrow> int \<Rightarrow> string \<Rightarrow> string \<Rightarrow> string
     \<Rightarrow> string list \<Rightarrow> string" where
  "delivery_render_hash H e c skey sindex variant subj bod med =
     H (JObject
       [(''message_version_id'', case version_pk (enrollment_version e) of None \<Rightarrow> JNull | Some i \<Rightarrow> JInt i),
        (''message_content_hash'', JStr (version_content_hash (enrollment_version e))),
        (''enrollment_id'', JInt (enrollment_pk e)), (''deal_id'', JInt (enrollment_deal e)),
        (''audience_key'', JStr (enrollment_audience e)), (''operator'', JStr (enrollment_operator e)),
        (''channel'', JStr (channel_name c)), (''step_key'', JStr skey), (''step_index'', JInt sindex),
        (''variant_key'', JStr variant), (''subject'', JStr subj), (''body'', JStr bod),
        (''media'', JList (map JStr med))])"

definition enrollment_lead :: "message_db \<Rightarrow> message_enrollment \<Rightarrow> (delivery_error, lead_row) result" where
  "enrollment_lead db e =
     (case db_deals db (enrollment_deal e) of
        None \<Rightarrow> Inl (DoesNotExist ''Deal'')
      | Some d \<Rightarrow> (case db_leads db (deal_lead d) of None \<Rightarrow> Inl (DoesNotExist ''Lead'') | Some l \<Rightarrow> Inr l))"

definition render_copy ::
  "(json \<Rightarrow> string) \<Rightarrow> copy_conf \<Rightarrow> message_enrollment \<Rightarrow> lead_row \<Rightarrow> selected_message
     \<Rightarrow> (delivery_error, rendered_message) result" where
  "render_copy H conf e lead m =
     bind_result (with_role lead m (render_values conf lead (sel_channel m) (enrollment_operator e))) (\<lambda>vals.
     bind_result (render_template (sel_subject m) vals ''message subject'') (\<lambda>subj.
     bind_result (render_template (sel_body m) vals ''message body'') (\<lambda>bod.
     bind_result (ensure (strip bod \<noteq> '''') ''rendered message body is blank'') (\<lambda>_.
     bind_result (ensure (\<not> (sel_channel m = GMAIL \<and> strip subj = '''')) ''rendered Gmail subject is blank'') (\<lambda>_.
     Inr \<lparr>rendered_subject = subj, rendered_body = bod, rendered_media = sel_media m,
          rendered_hash = delivery_render_hash H e (sel_channel m) (sel_step_key m) (sel_step_index m)
            (sel_variant_key m) subj bod (sel_media m)\<rparr>)))))"

definition render_message ::
  "(json \<Rightarrow> string) \<Rightarrow> copy_conf \<Rightarrow> message_db \<Rightarrow> message_enrollment \<Rightarrow> selected_message
     \<Rightarrow> (delivery_error, rendered_message) result" where
  "render_message H conf db e0 m =
     bind_result (require_saved_enrollment db e0) (\<lambda>e.
     bind_result (ensure (sel_audience_key m = enrollment_audience e)
       ''selected message audience does not match enrollment'') (\<lambda>_.
     bind_result (enrollment_lead db e) (\<lambda>lead. render_copy H conf e lead m)))"

section \<open>Deliveries\<close>

datatype reference = Aware int | Naive int

text \<open>
  \<open>reference + timedelta(hours=float(delay))\<close>: to the microsecond, ties to the even one; a delta of
  more than 999999999 days or an instant after year 9999 raises. The product is exact here, where
  the interpreter rounds the fraction of an hour to a double first.
\<close>

definition round_half_even :: "rat \<Rightarrow> int" where
  "round_half_even x =
     (let f = \<lfloor>x\<rfloor>; r = x - of_int f
      in if r < 1 / 2 then f else if 1 / 2 < r then f + 1 else if even f then f else f + 1)"

definition HOUR :: int where "HOUR = 3600000000"
definition MAX_DELTA :: int where "MAX_DELTA = 1000000000 * 24 * HOUR"
definition MAX_INSTANT :: int where "MAX_INSTANT = 3652059 * 24 * HOUR"

definition add_hours :: "int \<Rightarrow> json \<Rightarrow> (delivery_error, int) result" where
  "add_hours t delay =
     (let delta = round_half_even (number_value delay * of_int HOUR) in
      if MAX_DELTA \<le> \<bar>delta\<bar> \<or> t + delta < 0 \<or> MAX_INSTANT \<le> t + delta then Inl OverflowError
      else Inr (t + delta))"

definition validate_existing_delivery ::
  "(json \<Rightarrow> string) \<Rightarrow> message_enrollment \<Rightarrow> delivery \<Rightarrow> (delivery_error, unit) result" where
  "validate_existing_delivery H e d =
     bind_result (text_value (JStr (frozen_subject d)) ''frozen delivery subject'' (Some 998)) (\<lambda>subj.
     bind_result (nonblank_text (JStr (frozen_body d)) ''frozen delivery body'' None) (\<lambda>bod.
     bind_result (media_value (frozen_media d) ''frozen delivery media'') (\<lambda>med.
     bind_result (ensure (delivery_channel d = GMAIL \<longrightarrow> subj \<noteq> '''') ''frozen Gmail delivery subject is blank'') (\<lambda>_.
     bind_result (ensure (delivery_channel d \<noteq> GMAIL \<longrightarrow> subj = '''')
       ''frozen LinkedIn delivery subject is not blank'') (\<lambda>_.
     ensure (render_hash d =
         delivery_render_hash H e (delivery_channel d) (delivery_step_key d) (delivery_step_index d)
           (delivery_variant_key d) subj bod med)
       ''frozen delivery render_hash does not match its content'')))))"

text \<open>The two unique constraints of the table, and \<open>full_clean\<close> of a new row.\<close>

definition same_step :: "delivery \<Rightarrow> delivery \<Rightarrow> bool" where
  "same_step d d' \<longleftrightarrow> delivery_enrollment d = delivery_enrollment d' \<and>
     delivery_channel d = delivery_channel d' \<and>
     (delivery_step_key d = delivery_step_key d' \<or> delivery_step_index d = delivery_step_index d')"

definition delivery_full_clean ::
  "message_db \<Rightarrow> message_enrollment \<Rightarrow> delivery \<Rightarrow> (delivery_error, unit) result" where
  "delivery_full_clean db e d =
     (if delivery_step_key d = '''' \<or> 160 < length (delivery_step_key d) \<or>
         delivery_step_index d < 0 \<or> 2147483647 < delivery_step_index d \<or>
         delivery_variant_key d = '''' \<or> 160 < length (delivery_variant_key d) \<or>
         delivery_operator d = '''' \<or> 64 < length (delivery_operator d) \<or>
         998 < length (frozen_subject d) \<or> frozen_body d = '''' \<or>
         render_hash d = '''' \<or> 64 < length (render_hash d) \<or>
         strip (delivery_operator d) \<noteq> enrollment_operator e \<or>
         (delivery_channel d \<noteq> GMAIL \<and> frozen_subject d \<noteq> '''') \<or>
         (\<exists>r \<in> set (db_deliveries db). same_step r d)
      then Inl (ValidationError ''outbound delivery'') else Inr ())"

text \<open>\<open>save\<close> of a new row: the text fields are stripped and the table's constraints hold.\<close>

definition insert_delivery :: "delivery \<Rightarrow> message_db \<Rightarrow> (delivery_error, delivery \<times> message_db) result" where
  "insert_delivery d db =
     (let row = d\<lparr>delivery_pk := delivery_seq db + 1,
                  delivery_step_key := strip (delivery_step_key d),
                  delivery_variant_key := strip (delivery_variant_key d),
                  delivery_operator := strip (delivery_operator d)\<rparr>
      in if \<exists>r \<in> set (db_deliveries db). same_step r row then Inl (IntegrityError ''outbound delivery'')
         else Inr (row, db\<lparr>db_deliveries := db_deliveries db @ [row],
                           delivery_seq := delivery_seq db + 1\<rparr>))"

definition frozen_fields :: "delivery \<Rightarrow>
    int \<times> channel \<times> string \<times> int \<times> string \<times> string \<times> string \<times> string \<times> json \<times> string" where
  "frozen_fields d =
     (delivery_enrollment d, delivery_channel d, delivery_step_key d, delivery_step_index d,
      delivery_variant_key d, delivery_operator d, frozen_subject d, frozen_body d, frozen_media d,
      render_hash d)"

text \<open>\<open>save\<close> of a row that has a key: the frozen content must be the stored one.\<close>

definition update_delivery :: "delivery \<Rightarrow> message_db \<Rightarrow> (delivery_error, message_db) result" where
  "update_delivery d db =
     (let row = d\<lparr>delivery_step_key := strip (delivery_step_key d),
                  delivery_variant_key := strip (delivery_variant_key d),
                  delivery_operator := strip (delivery_operator d)\<rparr>
      in case List.find (\<lambda>r. delivery_pk r = delivery_pk d) (db_deliveries db) of
           None \<Rightarrow> Inl (DoesNotExist ''OutboundDelivery'')
         | Some original \<Rightarrow>
             if frozen_fields original \<noteq> frozen_fields row then
               Inl (ValidationError ''Frozen outbound delivery content is immutable.'')
             else Inr (db\<lparr>db_deliveries :=
               map (\<lambda>r. if delivery_pk r = delivery_pk d then row else r) (db_deliveries db)\<rparr>))"

definition select_saved_message ::
  "(json \<Rightarrow> string) \<Rightarrow> message_db \<Rightarrow> message_enrollment \<Rightarrow> string \<Rightarrow> string option \<Rightarrow> int option
     \<Rightarrow> (delivery_error, selected_message) result" where
  "select_saved_message H db e0 chan_text skey sindex =
     bind_result (require_saved_enrollment db e0) (\<lambda>e. select_message H e chan_text skey sindex)"

definition reference_instant :: "reference option \<Rightarrow> message_enrollment \<Rightarrow> (delivery_error, int) result" where
  "reference_instant ref e =
     (case ref of
        None \<Rightarrow> Inr (enrollment_created_at e)
      | Some (Aware t) \<Rightarrow> Inr t
      | Some (Naive t) \<Rightarrow> fail ''reference_at must be a timezone-aware datetime'')"

definition delivery_of ::
  "message_enrollment \<Rightarrow> selected_message \<Rightarrow> rendered_message \<Rightarrow> int \<Rightarrow> delivery" where
  "delivery_of e m r due =
     \<lparr>delivery_pk = 0, delivery_enrollment = enrollment_pk e, delivery_channel = sel_channel m,
      delivery_step_key = sel_step_key m, delivery_step_index = sel_step_index m,
      delivery_variant_key = sel_variant_key m, delivery_operator = enrollment_operator e,
      scheduled_at = due, frozen_subject = rendered_subject r, frozen_body = rendered_body r,
      frozen_media = JList (map JStr (rendered_media r)), render_hash = rendered_hash r,
      delivery_status = DELIVERY_PLANNED\<rparr>"

definition create_delivery ::
  "(json \<Rightarrow> string) \<Rightarrow> copy_conf \<Rightarrow> message_enrollment \<Rightarrow> selected_message \<Rightarrow> reference option \<Rightarrow> message_db
     \<Rightarrow> (delivery_error, delivery \<times> message_db) result" where
  "create_delivery H conf e m ref db =
     bind_result (reference_instant ref e) (\<lambda>t.
     bind_result (render_message H conf db e m) (\<lambda>r.
     bind_result (add_hours t (sel_delay_hours m)) (\<lambda>due.
     bind_result (delivery_full_clean db e (delivery_of e m r due)) (\<lambda>_.
     insert_delivery (delivery_of e m r due) db))))"

definition matches_route :: "message_enrollment \<Rightarrow> selected_message \<Rightarrow> delivery \<Rightarrow> bool" where
  "matches_route e m d \<longleftrightarrow> delivery_enrollment d = enrollment_pk e \<and>
     delivery_channel d = sel_channel m \<and>
     (delivery_step_key d = sel_step_key m \<or> delivery_step_index d = sel_step_index m)"

definition return_existing ::
  "(json \<Rightarrow> string) \<Rightarrow> message_enrollment \<Rightarrow> selected_message \<Rightarrow> delivery \<Rightarrow> (delivery_error, delivery) result" where
  "return_existing H e m d =
     (if delivery_step_key d \<noteq> sel_step_key m \<or> delivery_step_index d \<noteq> sel_step_index m \<or>
         delivery_variant_key d \<noteq> sel_variant_key m \<or> delivery_operator d \<noteq> enrollment_operator e
      then fail ''existing frozen delivery identity does not match selected message route''
      else bind_result (validate_existing_delivery H e d) (\<lambda>_. Inr d))"

definition get_or_create_delivery ::
  "(json \<Rightarrow> string) \<Rightarrow> copy_conf \<Rightarrow> message_enrollment \<Rightarrow> string \<Rightarrow> string option \<Rightarrow> int option
     \<Rightarrow> reference option \<Rightarrow> message_db \<Rightarrow> (delivery_error, (delivery \<times> bool) \<times> message_db) result" where
  "get_or_create_delivery H conf e0 chan_text skey sindex ref db =
     bind_result (require_saved_enrollment db e0) (\<lambda>e.
     bind_result (enrollment_lead db e) (\<lambda>_.
     bind_result (select_saved_message H db e chan_text skey sindex) (\<lambda>m.
     case filter (matches_route e m) (db_deliveries db) of
       [] \<Rightarrow> bind_result (create_delivery H conf e m ref db) (\<lambda>(d, db'). Inr ((d, True), db'))
     | [d] \<Rightarrow> bind_result (return_existing H e m d) (\<lambda>d. Inr ((d, False), db))
     | _ \<Rightarrow> fail ''conflicting frozen deliveries exist for route'')))"

section \<open>Steps\<close>

definition check_channel :: "string option \<Rightarrow> (delivery_error, channel option) result" where
  "check_channel chan_text =
     (case chan_text of
        None \<Rightarrow> Inr None
      | Some s \<Rightarrow> bind_result (validate_channel s) (\<lambda>c. Inr (Some c)))"

definition list_message_steps ::
  "(json \<Rightarrow> string) \<Rightarrow> message_db \<Rightarrow> message_enrollment \<Rightarrow> string option
     \<Rightarrow> (delivery_error, selected_message list) result" where
  "list_message_steps H db e0 chan_text =
     bind_result (require_saved_enrollment db e0) (\<lambda>e.
     bind_result (check_channel chan_text) (\<lambda>c.
     bind_result (index_message_version H (enrollment_version e)) (\<lambda>idx.
     bind_result (effective_routes idx (enrollment_audience e) (enrollment_operator e) c) (\<lambda>groups.
     bind_result (ensure (groups \<noteq> []) ''audience has no effective routes for the operator'') (\<lambda>_.
     map_result (\<lambda>g. select_saved_message H db e (channel_name (msg_channel (hd g)))
         (Some (step_key (hd g))) (Some (step_index (hd g)))) groups)))))"

definition step_identity :: "selected_message \<Rightarrow> route" where
  "step_identity m = (sel_channel m, sel_step_key m, sel_step_index m)"

definition delivery_identity :: "delivery \<Rightarrow> route" where
  "delivery_identity d = (delivery_channel d, delivery_step_key d, delivery_step_index d)"

definition delivered_steps :: "message_db \<Rightarrow> int \<Rightarrow> channel option \<Rightarrow> route set" where
  "delivered_steps db pk c =
     delivery_identity ` {d \<in> set (db_deliveries db). delivery_enrollment d = pk \<and>
       (c = None \<or> Some (delivery_channel d) = c)}"

definition next_message_step ::
  "(json \<Rightarrow> string) \<Rightarrow> message_db \<Rightarrow> message_enrollment \<Rightarrow> string option
     \<Rightarrow> (delivery_error, selected_message option) result" where
  "next_message_step H db e0 chan_text =
     bind_result (list_message_steps H db e0 chan_text) (\<lambda>steps.
     bind_result (check_channel chan_text) (\<lambda>c.
     Inr (List.find (\<lambda>m. step_identity m \<notin> delivered_steps db (enrollment_pk e0) c) steps)))"

section \<open>What rendering can refuse\<close>

definition template_fields :: "string \<Rightarrow> string set" where
  "template_fields t = (case parse_format t of Inl _ \<Rightarrow> {} | Inr ps \<Rightarrow> fst ` set (part_fields ps))"

lemma render_template_ok:
  assumes "valid_template t" and "template_fields t \<subseteq> dom vals"
  shows "\<exists>r. render_template t vals ctx = Inr r"
proof -
  obtain ps where p: "parse_format t = Inr ps" "\<forall>f \<in> set (part_fields ps). plain_field f"
    using assms(1) by (auto simp: valid_template_def)
  have "\<forall>(n, sp, cv) \<in> set (part_fields ps). sp = '''' \<and> cv = None \<and> vals n \<noteq> None"
    using p assms(2) by (force simp: plain_field_def template_fields_def)
  then obtain r where "substitute vals ps = Inr r" using substitute_ok by blast
  moreover have "validate_placeholders t ctx = Inr ()" using assms(1) by (simp add: validate_placeholders_ok)
  ultimately show ?thesis by (simp add: render_template_def format_map_def p(1))
qed

lemma template_fields_supported:
  "valid_template t \<Longrightarrow> template_fields t \<subseteq> set SUPPORTED_PLACEHOLDERS"
  by (fastforce simp: valid_template_def template_fields_def plain_field_def)

lemma render_values_dom:
  "set SUPPORTED_PLACEHOLDERS = insert ''role'' (dom (render_values conf lead c operator))"
  by (auto simp: SUPPORTED_PLACEHOLDERS_def render_values_def)

text \<open>The field \<open>role\<close> occurs although neither text contains the literal field \<open>{role}\<close>.\<close>

definition hidden_role :: "selected_message \<Rightarrow> bool" where
  "hidden_role m \<longleftrightarrow> \<not> mentions_role m \<and>
     ''role'' \<in> template_fields (sel_subject m) \<union> template_fields (sel_body m)"

definition blank_copy :: "delivery_error set" where
  "blank_copy = {MessageDeliveryError ''rendered message body is blank'',
     MessageDeliveryError ''rendered Gmail subject is blank''}"

lemma with_role_dom:
  assumes "with_role lead m vals = Inr w" and "\<not> hidden_role m"
    and "set SUPPORTED_PLACEHOLDERS = insert ''role'' (dom vals)"
    and "valid_template (sel_subject m)" and "valid_template (sel_body m)"
  shows "template_fields (sel_subject m) \<subseteq> dom w \<and> template_fields (sel_body m) \<subseteq> dom w"
proof (cases "mentions_role m")
  case True
  then obtain x where "w = vals(''role'' \<mapsto> x)"
    using assms(1) by (auto simp: with_role_def split: sum.splits message_role_error.splits)
  then have "dom w = set SUPPORTED_PLACEHOLDERS" using assms(3) by simp
  with assms(4,5) template_fields_supported show ?thesis by simp
next
  case False
  then have "w = vals" using assms(1) by (simp add: with_role_def)
  moreover have "''role'' \<notin> template_fields (sel_subject m) \<union> template_fields (sel_body m)"
    using assms(2) False by (simp add: hidden_role_def)
  ultimately show ?thesis
    using template_fields_supported [OF assms(4)] template_fields_supported [OF assms(5)] assms(3) by auto
qed

lemma render_copy_total:
  assumes "valid_template (sel_subject m)" and "valid_template (sel_body m)" and "\<not> hidden_role m"
    and "with_role lead m (render_values conf lead (sel_channel m) (enrollment_operator e)) = Inr w"
  shows "(\<exists>r. render_copy H conf e lead m = Inr r) \<or> (\<exists>x \<in> blank_copy. render_copy H conf e lead m = Inl x)"
proof -
  from with_role_dom [OF assms(4,3) render_values_dom assms(1,2)]
  obtain s b where s: "render_template (sel_subject m) w ''message subject'' = Inr s"
    and b: "render_template (sel_body m) w ''message body'' = Inr b"
    using render_template_ok assms(1,2) by meson
  show ?thesis by (simp add: render_copy_def assms(4) s b ensure_def blank_copy_def)
qed

lemma selected_message_published:
  assumes "select_message H e chan_text skey sindex = Inr m"
  obtains x where "m = selected_of x" and "message_ok x" and "audience_key x = enrollment_audience e"
    and "chan_text = channel_name (msg_channel x)"
    and "skey = None \<or> skey = Some (step_key x)" and "sindex = None \<or> sindex = Some (step_index x)"
proof -
  from selected_is_effective [OF assms] obtain idx c x where
    i: "index_message_version H (enrollment_version e) = Inr idx" and x: "x \<in> set (messages idx)"
      "m = selected_of x" "relevant (enrollment_audience e) (enrollment_operator e) (Some c) x"
      "chan_text = channel_name c"
    and k: "skey = None \<or> skey = Some (step_key x)" "sindex = None \<or> sindex = Some (step_index x)"
    by blast
  have "message_ok x" using index_consistent [OF i] x(1) by (simp add: consistent_index_def)
  moreover have "audience_key x = enrollment_audience e" "msg_channel x = c"
    using x(3) by (simp_all add: relevant_def)
  ultimately show thesis using that x k by blast
qed

text \<open>
  C34: rendering a selected message fails for known reasons only. Once the enrollment and its lead
  are found, a message that was selected for the enrollment renders, unless the lead's role tag has
  no wording, the rendered copy is blank, or a field \<open>role\<close> is hidden in the templates: spelled
  with an empty format specification, so that the validation accepts it while the renderer, which
  looks for the literal text \<open>{role}\<close>, does not provide the value. No other placeholder can be
  missing.
\<close>

theorem render_selected_message:
  assumes "select_message H e chan_text skey sindex = Inr m"
    and "require_saved_enrollment db e0 = Inr e" and "enrollment_lead db e = Inr lead"
    and "\<not> hidden_role m"
  shows "(\<exists>r. render_message H conf db e0 m = Inr r) \<or>
    (\<exists>x \<in> blank_copy. render_message H conf db e0 m = Inl x) \<or>
    (\<exists>t. lead_role_tag lead = Some t \<and> mentions_role m \<and> strip t \<noteq> '''' \<and>
       map_of ROLE_WORDING t = None \<and> render_message H conf db e0 m = Inl (MessageRoleError t))"
proof -
  from assms(1) obtain x where x: "m = selected_of x" "message_ok x" "audience_key x = enrollment_audience e"
    by (rule selected_message_published)
  then have v: "valid_template (sel_subject m)" "valid_template (sel_body m)"
    "sel_audience_key m = enrollment_audience e"
    by (simp_all add: selected_of_def message_ok_def)
  have r: "render_message H conf db e0 m = render_copy H conf e lead m"
    by (simp add: render_message_def assms(2,3) v(3) ensure_def)
  show ?thesis
  proof (cases "with_role lead m (render_values conf lead (sel_channel m) (enrollment_operator e))")
    case (Inr w)
    from render_copy_total [OF v(1,2) assms(4) Inr, of H] show ?thesis by (auto simp: r)
  next
    case (Inl y)
    then obtain t where t: "mentions_role m" "role_wording (lead_role_tag lead) = Inl (No_Wording t)"
      "y = MessageRoleError t"
      by (auto simp: with_role_def split: if_splits sum.splits message_role_error.splits)
    then have "lead_role_tag lead = Some t" "strip t \<noteq> ''''" "map_of ROLE_WORDING t = None"
      by (auto simp: role_wording_def split: option.splits if_splits)
    then show ?thesis using t by (simp add: r render_copy_def Inl)
  qed
qed

definition sample_lead :: lead_row where
  "sample_lead = \<lparr>lead_first_name = ''Ann'', lead_last_name = '''', lead_company_name = ''n/a'',
     lead_role_tag = Some ''GRC Engineer''\<rparr>"

definition sample_db :: message_db where
  "sample_db = \<lparr>db_leads = [3 \<mapsto> sample_lead], db_deals = [7 \<mapsto> \<lparr>deal_lead = 3, deal_campaign = 2\<rparr>],
     db_campaigns = [2 \<mapsto> Some sample_version], db_enrollments = [sample_enrollment],
     db_deliveries = [], enrollment_seq = 5, delivery_seq = 0\<rparr>"

definition sample_conf :: copy_conf where
  "sample_conf = \<lparr>OUR_COMPANY_NAME = ''Boundera'', OUR_WEBSITE_URL = ''https://boundera.io''\<rparr>"

lemma sample_renders:
  "case select_message sample_hash sample_enrollment ''linkedin_followup'' None (Some 1) of
     Inl _ \<Rightarrow> False
   | Inr m \<Rightarrow> \<not> hidden_role m \<and> \<not> mentions_role m \<and> sel_body m = ''Hi {first_name}'' \<and>
      (case render_message sample_hash sample_conf sample_db sample_enrollment m of
         Inl _ \<Rightarrow> False | Inr r \<Rightarrow> rendered_body r = ''Hi Ann'')"
  by code_simp

lemma sample_saved: "require_saved_enrollment sample_db sample_enrollment = Inr sample_enrollment"
  by code_simp

lemma sample_enrollment_lead: "enrollment_lead sample_db sample_enrollment = Inr sample_lead"
  by code_simp

theorem render_selected_message_witness:
  "\<exists>m r. select_message sample_hash sample_enrollment ''linkedin_followup'' None (Some 1) = Inr m \<and>
     render_message sample_hash sample_conf sample_db sample_enrollment m = Inr r"
proof -
  from sample_renders obtain m where m:
    "select_message sample_hash sample_enrollment ''linkedin_followup'' None (Some 1) = Inr m"
    "\<not> hidden_role m" "\<not> mentions_role m"
    "\<forall>x. render_message sample_hash sample_conf sample_db sample_enrollment m \<noteq> Inl x"
    by (fastforce split: sum.split_asm)
  from render_selected_message [OF m(1) sample_saved sample_enrollment_lead m(2), of sample_conf] m
  show ?thesis by blast
qed

section \<open>A placeholder that validates and cannot render\<close>

definition role_spec_version :: message_program_version where
  "role_spec_version = sample_version\<lparr>payload :=
     JObject [(''program_key'', JStr ''p''), (''program_name'', JStr ''P''),
       (''messages'', JList [JObject
         [(''audience_key'', JStr ''cto''), (''role_persona'', JStr ''CTO''),
          (''fedramp_segment'', JStr ''''), (''channel'', JStr ''linkedin_followup''),
          (''step_key'', JStr ''first''), (''step_index'', JInt 0), (''delay_hours'', JInt 0),
          (''variant_key'', JStr ''a''), (''subject'', JStr ''''), (''body'', JStr ''For {role:}''),
          (''media'', JList []), (''sender_override'', JStr ''''), (''notes'', JStr '''')]])]\<rparr>"

text \<open>
  C40: the validation and the renderer disagree on the field \<open>{role:}\<close>: a version whose body uses it
  is accepted and the message is selected, but it renders for no lead at all, whatever the role
  tag.
\<close>

theorem role_spec_never_renders:
  "\<exists>m. select_message sample_hash (sample_enrollment\<lparr>enrollment_version := role_spec_version\<rparr>)
       ''linkedin_followup'' (Some ''first'') None = Inr m \<and>
     (\<forall>lead conf. \<exists>x. render_copy sample_hash conf
       (sample_enrollment\<lparr>enrollment_version := role_spec_version\<rparr>) lead m = Inl x)"
proof -
  let ?e = "sample_enrollment\<lparr>enrollment_version := role_spec_version\<rparr>"
  have "case select_message sample_hash ?e ''linkedin_followup'' (Some ''first'') None of
     Inl _ \<Rightarrow> False
   | Inr m \<Rightarrow> sel_body m = ''For {role:}'' \<and> sel_subject m = '''' \<and> \<not> mentions_role m"
    by code_simp
  then obtain m where m: "select_message sample_hash ?e ''linkedin_followup'' (Some ''first'') None = Inr m"
    "sel_body m = ''For {role:}''" "sel_subject m = ''''" "\<not> mentions_role m"
    by (auto split: sum.split_asm)
  have p: "parse_format ''For {role:}'' = Inr [(''For '', Some (''role'', '''', None))]" by code_simp
  have b: "\<exists>x. render_template (sel_body m) (render_values conf lead c p) ctx = Inl x" for conf lead c p ctx
    by (cases "validate_placeholders (sel_body m) ctx")
      (simp_all add: m(2) render_template_def format_map_def p render_values_def)
  have "\<exists>x. render_copy sample_hash conf ?e lead m = Inl x" for conf lead
  proof -
    have w: "with_role lead m v = Inr v" for v using m(4) by (simp add: with_role_def)
    obtain x where "render_template (sel_body m)
        (render_values conf lead (sel_channel m) (enrollment_operator ?e)) ''message body'' = Inl x"
      using b by blast
    then show ?thesis
      by (cases "render_template (sel_subject m)
          (render_values conf lead (sel_channel m) (enrollment_operator ?e)) ''message subject''")
        (simp_all add: render_copy_def w)
  qed
  with m(1) show ?thesis by blast
qed

section \<open>The store invariant\<close>

text \<open>
  Every enrollment has a key below the sequence, is the only one of its Deal and can be used; every
  delivery belongs to an enrollment and is the only one for its step, by key and by index.
\<close>

definition usable :: "(json \<Rightarrow> string) \<Rightarrow> message_enrollment \<Rightarrow> bool" where
  "usable H e \<longleftrightarrow> enrollment_pk e \<noteq> 0 \<and> enrollment_audience e \<noteq> '''' \<and> enrollment_operator e \<noteq> '''' \<and>
     (\<exists>idx. index_message_version H (enrollment_version e) = Inr idx \<and>
        require_effective_routes idx e = Inr ())"

definition enrollments_ok :: "(json \<Rightarrow> string) \<Rightarrow> message_db \<Rightarrow> bool" where
  "enrollments_ok H db \<longleftrightarrow> 0 \<le> enrollment_seq db \<and>
     distinct (map enrollment_pk (db_enrollments db)) \<and>
     distinct (map enrollment_deal (db_enrollments db)) \<and>
     (\<forall>e \<in> set (db_enrollments db). enrollment_pk e \<le> enrollment_seq db \<and> usable H e)"

definition deliveries_ok :: "message_db \<Rightarrow> bool" where
  "deliveries_ok db \<longleftrightarrow>
     distinct (map delivery_pk (db_deliveries db)) \<and>
     (\<forall>d \<in> set (db_deliveries db). delivery_pk d \<le> delivery_seq db \<and>
        (\<exists>e \<in> set (db_enrollments db). enrollment_pk e = delivery_enrollment d \<and>
           delivery_operator d = enrollment_operator e) \<and>
        (\<forall>d' \<in> set (db_deliveries db). same_step d d' \<longrightarrow> d = d'))"

definition store_ok :: "(json \<Rightarrow> string) \<Rightarrow> message_db \<Rightarrow> bool" where
  "store_ok H db \<longleftrightarrow> enrollments_ok H db \<and> deliveries_ok db"

text \<open>What no operation takes back: enrollments, deals, leads, campaigns and frozen content.\<close>

definition db_extends :: "message_db \<Rightarrow> message_db \<Rightarrow> bool" where
  "db_extends s t \<longleftrightarrow> set (db_enrollments s) \<subseteq> set (db_enrollments t) \<and>
     frozen_fields ` set (db_deliveries s) \<subseteq> frozen_fields ` set (db_deliveries t) \<and>
     db_deals s \<subseteq>\<^sub>m db_deals t \<and> dom (db_leads s) \<subseteq> dom (db_leads t) \<and>
     dom (db_campaigns s) \<subseteq> dom (db_campaigns t)"

lemma db_extends_refl [simp, intro]: "db_extends s s"
  by (simp add: db_extends_def)

lemma db_extends_trans: "db_extends s t \<Longrightarrow> db_extends t u \<Longrightarrow> db_extends s u"
  unfolding db_extends_def
  by (elim conjE, intro conjI) ((rule map_le_trans subset_trans; assumption)+)

lemma find_distinct:
  assumes "distinct (map f xs)" and "x \<in> set xs"
  shows "List.find (\<lambda>y. f y = f x) xs = Some x"
  using assms
proof (induction xs)
  case (Cons a xs)
  show ?case
  proof (cases "a = x")
    case False
    with Cons.prems have "f a \<noteq> f x" by (auto simp: image_iff)
    with Cons False show ?thesis by simp
  qed simp
qed simp

lemma find_enrollment:
  "enrollments_ok H db \<Longrightarrow> e \<in> set (db_enrollments db) \<Longrightarrow>
     List.find (\<lambda>r. enrollment_pk r = enrollment_pk e) (db_enrollments db) = Some e \<and>
     List.find (\<lambda>r. enrollment_deal r = enrollment_deal e) (db_enrollments db) = Some e"
  by (simp add: enrollments_ok_def find_distinct)

lemma require_saved_found:
  assumes "require_saved_enrollment db e0 = Inr e"
  shows "e \<in> set (db_enrollments db) \<and> enrollment_pk e = enrollment_pk e0 \<and> enrollment_pk e0 \<noteq> 0 \<and>
    enrollment_audience e0 \<noteq> '''' \<and> enrollment_operator e0 \<noteq> '''' \<and>
    enrollment_audience e \<noteq> '''' \<and> enrollment_operator e \<noteq> ''''"
proof -
  let ?f = "List.find (\<lambda>r. enrollment_pk r = enrollment_pk e0) (db_enrollments db)"
  from assms have a: "enrollment_pk e0 \<noteq> 0" "enrollment_audience e0 \<noteq> ''''" "enrollment_operator e0 \<noteq> ''''"
    and f: "?f = Some e" "enrollment_audience e \<noteq> ''''" "enrollment_operator e \<noteq> ''''"
    by (simp_all add: require_saved_enrollment_def split: option.splits)
  from find_Some_iff_mem [OF f(1)] a f(2,3) show ?thesis by simp
qed

lemma require_saved_again:
  assumes "require_saved_enrollment db e0 = Inr e" and "enrollments_ok H u" and "e \<in> set (db_enrollments u)"
  shows "require_saved_enrollment u e0 = Inr e \<and> require_saved_enrollment u e = Inr e"
proof -
  note f = require_saved_found [OF assms(1)]
  have "List.find (\<lambda>r. enrollment_pk r = enrollment_pk e) (db_enrollments u) = Some e"
    using find_enrollment assms(2,3) by blast
  with f show ?thesis by (simp add: require_saved_enrollment_def ensure_def)
qed

section \<open>Enrollment keeps the store\<close>

lemma resolve_audience_Inr:
  assumes "resolve_audience idx a = Inr k" shows "k \<in> audience_key ` set (messages idx)"
proof -
  from assms obtain r where r: "(if r \<in> set (audience_keys idx) then Inr r
       else case sorted_list_of_set
              (set (map audience_key (filter (\<lambda>m. role_persona m = r) (messages idx)))) of
         [k] \<Rightarrow> Inr k
       | [] \<Rightarrow> fail ''message version has no audience key or exact role persona''
       | _ \<Rightarrow> fail ''role persona maps to multiple audience keys'') = Inr k"
    unfolding resolve_audience_def bind_result_Inr by blast
  show ?thesis
  proof (cases "r \<in> set (audience_keys idx)")
    case True
    with r show ?thesis by (simp add: audience_keys_def)
  next
    case False
    let ?S = "set (map audience_key (filter (\<lambda>m. role_persona m = r) (messages idx)))"
    from r False have "sorted_list_of_set ?S = [k]" by (simp split: list.splits)
    then have "set (sorted_list_of_set ?S) = {k}" by simp
    then have "?S = {k}" by simp
    then show ?thesis by auto
  qed
qed

lemma resolve_audience_key:
  assumes "index_message_version H v = Inr idx" and "resolve_audience idx a = Inr k"
  shows "key_re k"
  using resolve_audience_Inr [OF assms(2)] index_consistent [OF assms(1)]
  by (auto simp: consistent_index_def message_ok_def)

text \<open>What the operation needs besides the row: the three rows that the lock and the join read.\<close>

definition deal_graph :: "message_db \<Rightarrow> int \<Rightarrow> bool" where
  "deal_graph db deal \<longleftrightarrow> (\<exists>d. db_deals db deal = Some d \<and> db_leads db (deal_lead d) \<noteq> None \<and>
     db_campaigns db (deal_campaign d) \<noteq> None)"

lemma deal_graph_extends:
  assumes "db_extends s t" and "deal_graph s deal" shows "deal_graph t deal"
proof -
  from assms(2) obtain d where d: "db_deals s deal = Some d" "deal_lead d \<in> dom (db_leads s)"
    "deal_campaign d \<in> dom (db_campaigns s)" by (auto simp: deal_graph_def)
  have x: "db_deals s \<subseteq>\<^sub>m db_deals t" "dom (db_leads s) \<subseteq> dom (db_leads t)"
    "dom (db_campaigns s) \<subseteq> dom (db_campaigns t)"
    using assms(1) by (simp_all add: db_extends_def)
  have "db_deals t deal = Some d" using map_le_Some [OF x(1) d(1)] .
  moreover have "deal_lead d \<in> dom (db_leads t)" using d(2) x(2) by (rule subsetD [rotated])
  moreover have "deal_campaign d \<in> dom (db_campaigns t)" using d(3) x(3) by (rule subsetD [rotated])
  ultimately show ?thesis by (auto simp: deal_graph_def)
qed

lemma ensure_found:
  assumes "deal \<noteq> 0" and "nonblank_text (JStr (resolve_operator operator)) ''enrollment operator'' (Some 64) = Inr op"
    and "deal_graph db deal" and "enrollments_ok H db" and "e \<in> set (db_enrollments db)"
    and "enrollment_deal e = deal" and "existing_enrollment H audience op e = Inr e"
  shows "ensure_message_enrollment H now deal audience operator db = Inr (e, db)"
proof -
  have "List.find (\<lambda>r. enrollment_deal r = deal) (db_enrollments db) = Some e"
    using find_enrollment [OF assms(4,5)] assms(6) by simp
  with assms show ?thesis by (auto simp: ensure_message_enrollment_def ensure_def deal_graph_def)
qed

lemma ensure_enrollment_cases:
  assumes "ensure_message_enrollment H now deal audience operator db = Inr (e, db')"
  obtains op where "deal \<noteq> 0"
    and "nonblank_text (JStr (resolve_operator operator)) ''enrollment operator'' (Some 64) = Inr op"
    and "deal_graph db deal"
    and "(e \<in> set (db_enrollments db) \<and> enrollment_deal e = deal \<and> db' = db \<and>
        existing_enrollment H audience op e = Inr e) \<or>
      (\<exists>active. (\<forall>r \<in> set (db_enrollments db). enrollment_deal r \<noteq> deal) \<and>
        new_enrollment H now deal audience op active db = Inr (e, db'))"
proof -
  from assms obtain op where op: "deal \<noteq> 0"
    "nonblank_text (JStr (resolve_operator operator)) ''enrollment operator'' (Some 64) = Inr op"
    and r: "(case db_deals db deal of
       None \<Rightarrow> Inl (DoesNotExist ''Deal'')
     | Some d \<Rightarrow>
         if db_leads db (deal_lead d) = None then Inl (DoesNotExist ''Lead'')
         else case db_campaigns db (deal_campaign d) of
           None \<Rightarrow> Inl (DoesNotExist ''Campaign'')
         | Some active \<Rightarrow>
             (case List.find (\<lambda>r. enrollment_deal r = deal) (db_enrollments db) of
                Some existing \<Rightarrow>
                  bind_result (existing_enrollment H audience op existing) (\<lambda>e. Inr (e, db))
              | None \<Rightarrow> new_enrollment H now deal audience op active db)) = Inr (e, db')"
    unfolding ensure_message_enrollment_def bind_result_Inr ensure_Inr
    by (elim exE conjE) (rule that)
  from r obtain d active where d: "db_deals db deal = Some d" "db_leads db (deal_lead d) \<noteq> None"
    "db_campaigns db (deal_campaign d) = Some active"
    and f: "(case List.find (\<lambda>r. enrollment_deal r = deal) (db_enrollments db) of
                Some existing \<Rightarrow>
                  bind_result (existing_enrollment H audience op existing) (\<lambda>e. Inr (e, db))
              | None \<Rightarrow> new_enrollment H now deal audience op active db) = Inr (e, db')"
    by (simp split: option.splits if_splits)
  have g: "deal_graph db deal" using d by (simp add: deal_graph_def)
  show thesis
  proof (cases "List.find (\<lambda>r. enrollment_deal r = deal) (db_enrollments db)")
    case None
    then have "\<forall>r \<in> set (db_enrollments db). enrollment_deal r \<noteq> deal" by (simp add: find_None_iff)
    with f None show thesis by (intro that [OF op g]) auto
  next
    case (Some x)
    with f obtain y where y: "existing_enrollment H audience op x = Inr y" "e = y" "db' = db" by auto
    then have "y = x" unfolding existing_enrollment_def bind_result_Inr by blast
    with y find_Some_iff_mem [OF Some] show thesis by (intro that [OF op g]) auto
  qed
qed

lemma new_enrollment_spec:
  assumes "new_enrollment H now deal audience op active db = Inr (e, db')"
    and "nonblank_text (JStr x) ctx n = Inr op"
  obtains v where "active = Some v" and "enrollment_version e = v" and "enrollment_deal e = deal"
    and "enrollment_operator e = op" and "enrollment_pk e = enrollment_seq db + 1"
    and "db' = db\<lparr>db_enrollments := db_enrollments db @ [e], enrollment_seq := enrollment_seq db + 1\<rparr>"
    and "existing_enrollment H audience op e = Inr e"
    and "enrollment_audience e \<noteq> ''''" and "enrollment_operator e \<noteq> ''''"
proof -
  from assms(1) obtain v where v: "active = Some v"
    and n: "bind_result (index_message_version H v) (\<lambda>idx.
          bind_result (resolve_audience idx (JStr audience)) (\<lambda>canonical.
          let e = \<lparr>enrollment_pk = 0, enrollment_deal = deal, enrollment_version = v,
                   enrollment_audience = canonical, enrollment_operator = op,
                   enrollment_created_at = 0\<rparr> in
          bind_result (require_effective_routes idx e) (\<lambda>_.
          bind_result (enrollment_full_clean db active e) (\<lambda>_.
          Inr (insert_enrollment now e db))))) = Inr (e, db')"
    by (auto simp: new_enrollment_def split: option.splits)
  define mk where "mk a = \<lparr>enrollment_pk = 0, enrollment_deal = deal, enrollment_version = v,
    enrollment_audience = a, enrollment_operator = op, enrollment_created_at = 0\<rparr>" for a
  from n obtain idx a where i: "index_message_version H v = Inr idx"
    and a: "resolve_audience idx (JStr audience) = Inr a"
    and r: "require_effective_routes idx (mk a) = Inr ()"
    and e: "insert_enrollment now (mk a) db = (e, db')"
    unfolding Let_def bind_result_Inr by (auto simp: mk_def)
  have sa: "strip a = a" "a \<noteq> ''''" using strip_key [OF resolve_audience_key [OF i a]] by simp_all
  have so: "strip op = op" "op \<noteq> ''''" using nonblank_text_ok [OF assms(2)] by simp_all
  have ee: "e = (mk a)\<lparr>enrollment_pk := enrollment_seq db + 1, enrollment_created_at := now\<rparr>"
    and db': "db' = db\<lparr>db_enrollments := db_enrollments db @ [e], enrollment_seq := enrollment_seq db + 1\<rparr>"
    using e sa so by (auto simp: insert_enrollment_def Let_def mk_def)
  have "require_effective_routes idx e = Inr ()"
    using r by (simp add: require_effective_routes_def ee mk_def)
  then have "existing_enrollment H audience op e = Inr e"
    using i a by (simp add: existing_enrollment_def ee mk_def ensure_def)
  then show thesis using v db' sa(2) so(2) by (intro that [of v]) (simp_all add: ee mk_def)
qed

lemma existing_usable:
  assumes "existing_enrollment H audience op e = Inr e" and "enrollment_pk e \<noteq> 0"
    and "enrollment_audience e \<noteq> ''''" and "enrollment_operator e \<noteq> ''''"
  shows "usable H e"
  using assms unfolding existing_enrollment_def usable_def bind_result_Inr by auto

text \<open>One enrollment operation: the store stays well formed and nothing is taken back.\<close>

lemma ensure_keeps:
  assumes "store_ok H db" and "ensure_message_enrollment H now deal audience operator db = Inr (e, db')"
  shows "store_ok H db' \<and> db_extends db db' \<and> e \<in> set (db_enrollments db')"
  using assms(2)
proof (rule ensure_enrollment_cases)
  fix op
  assume op: "nonblank_text (JStr (resolve_operator operator)) ''enrollment operator'' (Some 64) = Inr op"
    and c: "(e \<in> set (db_enrollments db) \<and> enrollment_deal e = deal \<and> db' = db \<and>
        existing_enrollment H audience op e = Inr e) \<or>
      (\<exists>active. (\<forall>r \<in> set (db_enrollments db). enrollment_deal r \<noteq> deal) \<and>
        new_enrollment H now deal audience op active db = Inr (e, db'))"
  from c show ?thesis
  proof (elim disjE exE conjE)
    assume "e \<in> set (db_enrollments db)" "db' = db"
    with assms(1) show ?thesis by simp
  next
    fix active
    assume fresh: "\<forall>r \<in> set (db_enrollments db). enrollment_deal r \<noteq> deal"
      and n: "new_enrollment H now deal audience op active db = Inr (e, db')"
    from new_enrollment_spec [OF n op] obtain v where
      e: "enrollment_deal e = deal" "enrollment_pk e = enrollment_seq db + 1"
      and db': "db' = db\<lparr>db_enrollments := db_enrollments db @ [e], enrollment_seq := enrollment_seq db + 1\<rparr>"
      and x: "existing_enrollment H audience op e = Inr e" "enrollment_audience e \<noteq> ''''"
        "enrollment_operator e \<noteq> ''''" by metis
    have en: "enrollments_ok H db" and de: "deliveries_ok db" using assms(1) by (simp_all add: store_ok_def)
    have seq: "0 \<le> enrollment_seq db" "\<forall>r \<in> set (db_enrollments db). enrollment_pk r \<le> enrollment_seq db"
      using en by (simp_all add: enrollments_ok_def)
    have "usable H e" using existing_usable x e(2) seq(1) by simp
    then have "enrollments_ok H db'"
      using en fresh e seq by (force simp: enrollments_ok_def db')
    moreover have "deliveries_ok db'" using de unfolding deliveries_ok_def db' by auto
    moreover have "db_extends db db'" by (auto simp: db_extends_def db')
    ultimately show ?thesis by (simp add: store_ok_def db')
  qed
qed

lemma ensure_again:
  assumes "store_ok H db" and "ensure_message_enrollment H now deal audience operator db = Inr (e, db')"
    and "store_ok H u" and "db_extends db' u"
  shows "ensure_message_enrollment H now' deal audience operator u = Inr (e, u)"
proof -
  obtain op where op: "deal \<noteq> 0"
    "nonblank_text (JStr (resolve_operator operator)) ''enrollment operator'' (Some 64) = Inr op"
    and g: "deal_graph db deal"
    and c: "(e \<in> set (db_enrollments db) \<and> enrollment_deal e = deal \<and> db' = db \<and>
        existing_enrollment H audience op e = Inr e) \<or>
      (\<exists>active. (\<forall>r \<in> set (db_enrollments db). enrollment_deal r \<noteq> deal) \<and>
        new_enrollment H now deal audience op active db = Inr (e, db'))"
    using assms(2) by (rule ensure_enrollment_cases)
  have e: "enrollment_deal e = deal" "existing_enrollment H audience op e = Inr e"
    using c by (auto elim: new_enrollment_spec [OF _ op(2)])
  from ensure_keeps [OF assms(1,2)] have k: "db_extends db db'" "e \<in> set (db_enrollments db')" by simp_all
  have "deal_graph u deal" using deal_graph_extends g db_extends_trans [OF k(1) assms(4)] by blast
  moreover have "e \<in> set (db_enrollments u)" using k(2) assms(4) unfolding db_extends_def by blast
  moreover have "enrollments_ok H u" using assms(3) by (simp add: store_ok_def)
  ultimately show ?thesis using ensure_found op e by blast
qed

section \<open>Delivery keeps the store\<close>

lemma get_or_create_cases:
  assumes "enrollments_ok H db"
    and "get_or_create_delivery H conf e0 chan_text skey sindex ref db = Inr ((d, created), db')"
  obtains e m lead where "require_saved_enrollment db e0 = Inr e" and "enrollment_lead db e = Inr lead"
    and "select_message H e chan_text skey sindex = Inr m"
    and "(created \<and> filter (matches_route e m) (db_deliveries db) = [] \<and>
        create_delivery H conf e m ref db = Inr (d, db')) \<or>
      (\<not> created \<and> db' = db \<and> filter (matches_route e m) (db_deliveries db) = [d] \<and>
        return_existing H e m d = Inr d)"
proof -
  from assms(2) obtain e lead m where e: "require_saved_enrollment db e0 = Inr e"
    "enrollment_lead db e = Inr lead" and s: "select_saved_message H db e chan_text skey sindex = Inr m"
    and r: "(case filter (matches_route e m) (db_deliveries db) of
       [] \<Rightarrow> bind_result (create_delivery H conf e m ref db) (\<lambda>(d, db'). Inr ((d, True), db'))
     | [d] \<Rightarrow> bind_result (return_existing H e m d) (\<lambda>d. Inr ((d, False), db))
     | _ \<Rightarrow> fail ''conflicting frozen deliveries exist for route'') = Inr ((d, created), db')"
    unfolding get_or_create_delivery_def bind_result_Inr by (elim exE conjE) (rule that)
  have "require_saved_enrollment db e = Inr e"
    using require_saved_again [OF e(1) assms(1)] require_saved_found [OF e(1)] by blast
  with s have m: "select_message H e chan_text skey sindex = Inr m" by (simp add: select_saved_message_def)
  show thesis
  proof (cases "filter (matches_route e m) (db_deliveries db)")
    case Nil
    with r show thesis by (intro that [OF e m]) auto
  next
    case (Cons x xs)
    show thesis
    proof (cases xs)
      case Nil
      with r Cons obtain y where y: "return_existing H e m x = Inr y" "d = y" "\<not> created" "db' = db" by auto
      then have "y = x" by (auto simp: return_existing_def split: if_splits)
      with y Cons Nil show thesis by (intro that [OF e m]) auto
    next
      case Cons': (Cons z zs)
      with r Cons show thesis by simp
    qed
  qed
qed

lemma matching_step:
  assumes "matches_route e m d" and "delivery_enrollment d' = enrollment_pk e"
    and "delivery_channel d' = sel_channel m" and "delivery_step_key d' = sel_step_key m"
    and "delivery_step_index d' = sel_step_index m"
  shows "same_step d' d"
  using assms by (auto simp: matches_route_def same_step_def)

lemma create_delivery_spec:
  assumes "create_delivery H conf e m ref db = Inr (d, db')" and "require_saved_enrollment db e = Inr e"
    and "select_message H e chan_text skey sindex = Inr m"
  obtains r due where "d = (delivery_of e m r due)\<lparr>delivery_pk := delivery_seq db + 1\<rparr>"
    and "render_message H conf db e m = Inr r"
    and "delivery_full_clean db e (delivery_of e m r due) = Inr ()"
    and "db' = db\<lparr>db_deliveries := db_deliveries db @ [d], delivery_seq := delivery_seq db + 1\<rparr>"
    and "\<forall>x \<in> set (db_deliveries db). \<not> same_step x d"
proof -
  from assms(1) obtain t r due where r: "render_message H conf db e m = Inr r"
    and c: "delivery_full_clean db e (delivery_of e m r due) = Inr ()"
    and i: "insert_delivery (delivery_of e m r due) db = Inr (d, db')"
    unfolding create_delivery_def bind_result_Inr by (elim exE conjE) (rule that, simp_all)
  from assms(3) obtain x where x: "m = selected_of x" "message_ok x" by (rule selected_message_published)
  then have "strip (sel_step_key m) = sel_step_key m" "strip (sel_variant_key m) = sel_variant_key m"
    using strip_key by (simp_all add: selected_of_def message_ok_def)
  moreover have "strip (enrollment_operator e) = enrollment_operator e"
    using c by (auto simp: delivery_full_clean_def delivery_of_def split: if_splits)
  ultimately have s: "(delivery_of e m r due)\<lparr>delivery_pk := delivery_seq db + 1,
      delivery_step_key := strip (delivery_step_key (delivery_of e m r due)),
      delivery_variant_key := strip (delivery_variant_key (delivery_of e m r due)),
      delivery_operator := strip (delivery_operator (delivery_of e m r due))\<rparr> =
    (delivery_of e m r due)\<lparr>delivery_pk := delivery_seq db + 1\<rparr>"
    by (simp add: delivery_of_def)
  from i have "d = (delivery_of e m r due)\<lparr>delivery_pk := delivery_seq db + 1\<rparr>"
    "db' = db\<lparr>db_deliveries := db_deliveries db @ [d], delivery_seq := delivery_seq db + 1\<rparr>"
    "\<forall>x \<in> set (db_deliveries db). \<not> same_step x d"
    unfolding insert_delivery_def Let_def s by (auto split: if_splits)
  with r c show thesis by (intro that)
qed

text \<open>Copy that can be read back: the check of an existing row wants no outer white space.\<close>

definition trimmed :: "string \<Rightarrow> string \<Rightarrow> bool" where
  "trimmed subj bod \<longleftrightarrow> strip subj = subj \<and> strip bod = bod"

lemma created_is_valid:
  assumes "render_message H conf db e m = Inr r" and "require_saved_enrollment db e = Inr e"
    and "select_message H e chan_text skey sindex = Inr m"
    and "delivery_full_clean db e (delivery_of e m r due) = Inr ()"
    and "trimmed (rendered_subject r) (rendered_body r)"
  shows "validate_existing_delivery H e (delivery_of e m r due) = Inr ()"
proof -
  from assms(3) obtain x where x: "m = selected_of x" "message_ok x" by (rule selected_message_published)
  then have med: "media_ok (sel_media m)" by (simp add: selected_of_def message_ok_def)
  from assms(1,2) obtain lead where "render_copy H conf e lead m = Inr r"
    unfolding render_message_def bind_result_Inr by auto
  then have r: "strip (rendered_body r) \<noteq> ''''" "sel_channel m = GMAIL \<Longrightarrow> strip (rendered_subject r) \<noteq> ''''"
    "rendered_media r = sel_media m"
    "rendered_hash r = delivery_render_hash H e (sel_channel m) (sel_step_key m) (sel_step_index m)
       (sel_variant_key m) (rendered_subject r) (rendered_body r) (sel_media m)"
    by (auto simp: render_copy_def)
  have t: "strip (rendered_subject r) = rendered_subject r" "strip (rendered_body r) = rendered_body r"
    using assms(5) by (simp_all add: trimmed_def)
  from assms(4) have c: "length (rendered_subject r) \<le> 998" "sel_channel m \<noteq> GMAIL \<longrightarrow> rendered_subject r = ''''"
    by (auto simp: delivery_full_clean_def delivery_of_def split: if_splits)
  have "media_value (JList (map JStr (sel_media m))) ''frozen delivery media'' = Inr (sel_media m)"
    using med by (simp add: media_value_Inr)
  moreover have "text_value (JStr (rendered_subject r)) ''frozen delivery subject'' (Some 998) = Inr (rendered_subject r)"
    using t(1) c(1) by (simp add: text_value_def)
  moreover have "nonblank_text (JStr (rendered_body r)) ''frozen delivery body'' None = Inr (rendered_body r)"
    using t(2) r(1) by (simp add: nonblank_text_Inr)
  moreover have "sel_channel m = GMAIL \<longrightarrow> rendered_subject r \<noteq> ''''" using r(2) t(1) by auto
  ultimately show ?thesis
    using c(2) by (simp add: validate_existing_delivery_def delivery_of_def ensure_def r(3,4))
qed

lemma frozen_fields_simps:
  assumes "frozen_fields d = frozen_fields d'"
  shows "delivery_enrollment d' = delivery_enrollment d" "delivery_channel d' = delivery_channel d"
    "delivery_step_key d' = delivery_step_key d" "delivery_step_index d' = delivery_step_index d"
    "delivery_variant_key d' = delivery_variant_key d" "delivery_operator d' = delivery_operator d"
    "frozen_subject d' = frozen_subject d" "frozen_body d' = frozen_body d"
    "frozen_media d' = frozen_media d" "render_hash d' = render_hash d"
  using assms by (simp_all add: frozen_fields_def)

lemma return_existing_frozen:
  assumes "frozen_fields d = frozen_fields d'" and "return_existing H e m d = Inr d"
  shows "return_existing H e m d' = Inr d'"
proof -
  note f = frozen_fields_simps [OF assms(1)]
  have "validate_existing_delivery H e d' = validate_existing_delivery H e d"
    by (simp add: validate_existing_delivery_def f)
  then show ?thesis using assms(2) by (auto simp: return_existing_def f split: if_splits)
qed

lemma created_returns:
  assumes "render_message H conf db e m = Inr r" and "require_saved_enrollment db e = Inr e"
    and "select_message H e chan_text skey sindex = Inr m"
    and "delivery_full_clean db e (delivery_of e m r due) = Inr ()"
    and "trimmed (rendered_subject r) (rendered_body r)"
  shows "return_existing H e m (delivery_of e m r due) = Inr (delivery_of e m r due)"
  using created_is_valid [OF assms] by (simp add: return_existing_def delivery_of_def)

lemma get_or_create_keeps:
  assumes "store_ok H db"
    and "get_or_create_delivery H conf e0 chan_text skey sindex ref db = Inr ((d, created), db')"
  shows "store_ok H db' \<and> db_extends db db' \<and> d \<in> set (db_deliveries db')"
proof -
  have en: "enrollments_ok H db" and de: "deliveries_ok db" using assms(1) by (simp_all add: store_ok_def)
  obtain e m lead where e: "require_saved_enrollment db e0 = Inr e"
    and s: "select_message H e chan_text skey sindex = Inr m"
    and c: "(created \<and> filter (matches_route e m) (db_deliveries db) = [] \<and>
        create_delivery H conf e m ref db = Inr (d, db')) \<or>
      (\<not> created \<and> db' = db \<and> filter (matches_route e m) (db_deliveries db) = [d] \<and>
        return_existing H e m d = Inr d)"
    using en assms(2) by (rule get_or_create_cases)
  have se: "require_saved_enrollment db e = Inr e" and ein: "e \<in> set (db_enrollments db)"
    using require_saved_again [OF e en] require_saved_found [OF e] by blast+
  from c show ?thesis
  proof (elim disjE conjE)
    assume cr: "create_delivery H conf e m ref db = Inr (d, db')"
    then obtain r due where d: "d = (delivery_of e m r due)\<lparr>delivery_pk := delivery_seq db + 1\<rparr>"
      and db': "db' = db\<lparr>db_deliveries := db_deliveries db @ [d], delivery_seq := delivery_seq db + 1\<rparr>"
      and new: "\<forall>x \<in> set (db_deliveries db). \<not> same_step x d"
      using se s by (rule create_delivery_spec)
    have dd: "delivery_pk d = delivery_seq db + 1" "delivery_enrollment d = enrollment_pk e"
      "delivery_operator d = enrollment_operator e" by (simp_all add: d delivery_of_def)
    have le: "\<forall>x \<in> set (db_deliveries db). delivery_pk x \<le> delivery_seq db"
      using de by (simp add: deliveries_ok_def)
    have "distinct (map delivery_pk (db_deliveries db'))"
      using de le dd(1) by (fastforce simp: deliveries_ok_def db')
    moreover have "\<forall>x \<in> set (db_deliveries db'). delivery_pk x \<le> delivery_seq db'"
      using le dd(1) by (fastforce simp: db')
    moreover have "\<forall>x \<in> set (db_deliveries db'). \<exists>e \<in> set (db_enrollments db').
        enrollment_pk e = delivery_enrollment x \<and> delivery_operator x = enrollment_operator e"
      using de ein dd by (auto simp: deliveries_ok_def db')
    moreover have "\<not> same_step d x" if "x \<in> set (db_deliveries db)" for x
      using new that by (auto simp: same_step_def)
    then have "\<forall>x \<in> set (db_deliveries db'). \<forall>y \<in> set (db_deliveries db'). same_step x y \<longrightarrow> x = y"
      using de new by (auto simp: deliveries_ok_def db')
    ultimately have "deliveries_ok db'" by (simp add: deliveries_ok_def)
    moreover have "enrollments_ok H db'" using en by (simp add: enrollments_ok_def db')
    moreover have "db_extends db db'" by (auto simp: db_extends_def db')
    ultimately show ?thesis by (simp add: store_ok_def db')
  next
    assume o: "db' = db" "filter (matches_route e m) (db_deliveries db) = [d]"
    from o(2) have "d \<in> set (filter (matches_route e m) (db_deliveries db))" by simp
    with o(1) assms(1) show ?thesis by simp
  qed
qed

lemma get_or_create_returns:
  assumes "store_ok H db"
    and "get_or_create_delivery H conf e0 chan_text skey sindex ref db = Inr ((d, created), db')"
    and "trimmed (frozen_subject d) (frozen_body d)"
  obtains e m where "require_saved_enrollment db e0 = Inr e"
    and "\<exists>l. enrollment_lead db e = Inr l" and "select_message H e chan_text skey sindex = Inr m"
    and "return_existing H e m d = Inr d" and "matches_route e m d"
proof -
  have en: "enrollments_ok H db" using assms(1) by (simp add: store_ok_def)
  obtain e m lead where e: "require_saved_enrollment db e0 = Inr e" "enrollment_lead db e = Inr lead"
    and s: "select_message H e chan_text skey sindex = Inr m"
    and c: "(created \<and> filter (matches_route e m) (db_deliveries db) = [] \<and>
        create_delivery H conf e m ref db = Inr (d, db')) \<or>
      (\<not> created \<and> db' = db \<and> filter (matches_route e m) (db_deliveries db) = [d] \<and>
        return_existing H e m d = Inr d)"
    using en assms(2) by (rule get_or_create_cases)
  have se: "require_saved_enrollment db e = Inr e"
    using require_saved_again [OF e(1) en] require_saved_found [OF e(1)] by blast
  from c have "return_existing H e m d = Inr d \<and> matches_route e m d"
  proof (elim disjE conjE)
    assume cr: "create_delivery H conf e m ref db = Inr (d, db')"
    then obtain r due where d: "d = (delivery_of e m r due)\<lparr>delivery_pk := delivery_seq db + 1\<rparr>"
      and r: "render_message H conf db e m = Inr r"
      and fc: "delivery_full_clean db e (delivery_of e m r due) = Inr ()"
      using se s by (rule create_delivery_spec)
    have t: "trimmed (rendered_subject r) (rendered_body r)" using assms(3) by (simp add: d delivery_of_def)
    have "frozen_fields (delivery_of e m r due) = frozen_fields d" by (simp add: d frozen_fields_def)
    from return_existing_frozen [OF this created_returns [OF r se s fc t]]
    show ?thesis by (simp add: d matches_route_def delivery_of_def)
  next
    assume f: "filter (matches_route e m) (db_deliveries db) = [d]" and r: "return_existing H e m d = Inr d"
    from f have "d \<in> set (filter (matches_route e m) (db_deliveries db))" by simp
    with r show ?thesis by simp
  qed
  with e s show thesis by (intro that) auto
qed

lemma enrollment_lead_extends:
  assumes "db_extends s t" and "\<exists>l. enrollment_lead s e = Inr l"
  shows "\<exists>l. enrollment_lead t e = Inr l"
proof -
  from assms(2) obtain d where d: "db_deals s (enrollment_deal e) = Some d" "deal_lead d \<in> dom (db_leads s)"
    by (auto simp: enrollment_lead_def split: option.splits)
  have x: "db_deals s \<subseteq>\<^sub>m db_deals t" "dom (db_leads s) \<subseteq> dom (db_leads t)"
    using assms(1) by (simp_all add: db_extends_def)
  have "db_deals t (enrollment_deal e) = Some d" by (rule map_le_Some [OF x(1) d(1)])
  moreover have "deal_lead d \<in> dom (db_leads t)" using d(2) x(2) by (rule subsetD [rotated])
  ultimately show ?thesis by (auto simp: enrollment_lead_def)
qed

lemma get_or_create_again:
  assumes "store_ok H db"
    and "get_or_create_delivery H conf e0 chan_text skey sindex ref db = Inr ((d, created), db')"
    and "trimmed (frozen_subject d) (frozen_body d)" and "store_ok H u" and "db_extends db' u"
  shows "\<exists>d'. get_or_create_delivery H conf' e0 chan_text skey sindex ref' u = Inr ((d', False), u) \<and>
    frozen_fields d' = frozen_fields d"
proof -
  obtain e m where e: "require_saved_enrollment db e0 = Inr e" "\<exists>l. enrollment_lead db e = Inr l"
    and s: "select_message H e chan_text skey sindex = Inr m"
    and r: "return_existing H e m d = Inr d" "matches_route e m d"
    using assms(1,2,3) by (rule get_or_create_returns)
  have k: "db_extends db db'" "d \<in> set (db_deliveries db')"
    using get_or_create_keeps [OF assms(1,2)] by simp_all
  have x: "db_extends db u" using k(1) assms(5) by (rule db_extends_trans)
  have en: "enrollments_ok H u" and de: "deliveries_ok u" using assms(4) by (simp_all add: store_ok_def)
  have "e \<in> set (db_enrollments u)"
    using require_saved_found [OF e(1)] x unfolding db_extends_def by auto
  from require_saved_again [OF e(1) en this]
  have se: "require_saved_enrollment u e0 = Inr e" "require_saved_enrollment u e = Inr e" by simp_all
  obtain l where l: "enrollment_lead u e = Inr l" using enrollment_lead_extends [OF x e(2)] by blast
  have "frozen_fields d \<in> frozen_fields ` set (db_deliveries u)"
    using k(2) assms(5) by (auto simp: db_extends_def)
  then obtain d' where d': "d' \<in> set (db_deliveries u)" and f: "frozen_fields d = frozen_fields d'" by auto
  have re: "return_existing H e m d' = Inr d'" by (rule return_existing_frozen [OF f r(1)])
  then have id: "delivery_step_key d' = sel_step_key m" "delivery_step_index d' = sel_step_index m"
    by (simp_all add: return_existing_def split: if_splits)
  have md: "matches_route e m d'" using r(2) by (simp add: matches_route_def frozen_fields_simps [OF f])
  have u1: "\<forall>y \<in> set (db_deliveries u). same_step d' y \<longrightarrow> d' = y" and dp: "distinct (map delivery_pk (db_deliveries u))"
    using de d' by (simp_all add: deliveries_ok_def)
  have "matches_route e m y \<longleftrightarrow> delivery_pk y = delivery_pk d'" if y: "y \<in> set (db_deliveries u)" for y
  proof
    assume "matches_route e m y"
    then have "same_step d' y"
      using md id by (intro matching_step) (simp_all add: matches_route_def)
    with u1 y have "d' = y" by blast
    then show "delivery_pk y = delivery_pk d'" by simp
  next
    assume "delivery_pk y = delivery_pk d'"
    with dp y d' have "y = d'" by (auto simp: distinct_map inj_on_def)
    with md show "matches_route e m y" by simp
  qed
  from filter_unique [OF dp d' this]
  have "filter (matches_route e m) (db_deliveries u) = [d']" .
  then have "get_or_create_delivery H conf' e0 chan_text skey sindex ref' u = Inr ((d', False), u)"
    by (simp add: get_or_create_delivery_def se l select_saved_message_def s re)
  with f show ?thesis by auto
qed

end
