(* ===== verification/Message_World.thy ===== *)
theory Message_World
  imports Message_Delivery
begin

text \<open>
  Enrollments and deliveries in a world where everything else keeps changing: campaigns get another
  active version, leads are edited, deals are added, other enrollments and deliveries are made, and
  rows of the delivery table are saved again with another status. Both get-or-create operations of
  \<open>linkedin/message_delivery.py\<close> are shown to return what they froze the first time.
\<close>

section \<open>Events\<close>

datatype message_event =
    Enroll int int string "string option"
  | Deliver message_enrollment string "string option" "int option" "reference option"
  | Save_delivery delivery
  | Activate_version int "message_program_version option"
  | Save_lead int lead_row
  | Add_deal int deal_row

definition committed :: "('x, 'r \<times> 's) result \<Rightarrow> 's \<Rightarrow> 's" where
  "committed r s = (case r of Inl _ \<Rightarrow> s | Inr (_, t) \<Rightarrow> t)"

text \<open>A transaction that raises is rolled back.\<close>

fun message_step :: "(json \<Rightarrow> string) \<Rightarrow> copy_conf \<Rightarrow> message_event \<Rightarrow> message_db \<Rightarrow> message_db" where
  "message_step H conf (Enroll now deal audience operator) db =
     committed (ensure_message_enrollment H now deal audience operator db) db"
| "message_step H conf (Deliver e chan skey sindex ref) db =
     committed (get_or_create_delivery H conf e chan skey sindex ref db) db"
| "message_step H conf (Save_delivery d) db =
     (case update_delivery d db of Inl _ \<Rightarrow> db | Inr t \<Rightarrow> t)"
| "message_step H conf (Activate_version campaign v) db =
     (if db_campaigns db campaign = None then db
      else db\<lparr>db_campaigns := (db_campaigns db)(campaign \<mapsto> v)\<rparr>)"
| "message_step H conf (Save_lead pk lead) db = db\<lparr>db_leads := (db_leads db)(pk \<mapsto> lead)\<rparr>"
| "message_step H conf (Add_deal pk deal) db =
     (if db_deals db pk \<noteq> None then db else db\<lparr>db_deals := (db_deals db)(pk \<mapsto> deal)\<rparr>)"

section \<open>Saving a delivery again\<close>

definition resaved :: "delivery \<Rightarrow> delivery \<Rightarrow> delivery" where
  "resaved row r = (if delivery_pk r = delivery_pk row then row else r)"

lemma update_delivery_spec:
  assumes "distinct (map delivery_pk (db_deliveries db))" and "update_delivery d db = Inr t"
  obtains row where "t = db\<lparr>db_deliveries := map (resaved row) (db_deliveries db)\<rparr>"
    and "\<forall>r \<in> set (db_deliveries db). frozen_fields (resaved row r) = frozen_fields r \<and>
      delivery_pk (resaved row r) = delivery_pk r"
proof -
  define row where "row = d\<lparr>delivery_step_key := strip (delivery_step_key d),
    delivery_variant_key := strip (delivery_variant_key d), delivery_operator := strip (delivery_operator d)\<rparr>"
  have pk: "delivery_pk row = delivery_pk d" by (simp add: row_def)
  from assms(2) obtain o1 where f: "List.find (\<lambda>r. delivery_pk r = delivery_pk d) (db_deliveries db) = Some o1"
    and z: "frozen_fields o1 = frozen_fields row"
    and t: "t = db\<lparr>db_deliveries := map (\<lambda>r. if delivery_pk r = delivery_pk d then row else r) (db_deliveries db)\<rparr>"
    by (auto simp: update_delivery_def Let_def row_def split: option.splits if_splits)
  have o1: "o1 \<in> set (db_deliveries db)" "delivery_pk o1 = delivery_pk d" using find_Some_iff_mem [OF f] by simp_all
  have "frozen_fields (resaved row r) = frozen_fields r \<and> delivery_pk (resaved row r) = delivery_pk r"
    if r: "r \<in> set (db_deliveries db)" for r
  proof (cases "delivery_pk r = delivery_pk d")
    case True
    with assms(1) o1 r have "r = o1" by (auto simp: distinct_map inj_on_def)
    with z pk True show ?thesis by (simp add: resaved_def)
  next
    case False
    with pk show ?thesis by (simp add: resaved_def)
  qed
  moreover have "t = db\<lparr>db_deliveries := map (resaved row) (db_deliveries db)\<rparr>"
    by (simp add: t resaved_def [abs_def] pk)
  ultimately show thesis using that by blast
qed

lemma same_step_frozen:
  "frozen_fields x = frozen_fields x' \<Longrightarrow> frozen_fields y = frozen_fields y' \<Longrightarrow> same_step x y = same_step x' y'"
  by (simp add: same_step_def frozen_fields_def)

lemma update_delivery_keeps:
  assumes "store_ok H db" and "update_delivery d db = Inr t"
  shows "store_ok H t \<and> db_extends db t"
proof -
  have en: "enrollments_ok H db" and de: "deliveries_ok db" using assms(1) by (simp_all add: store_ok_def)
  have "distinct (map delivery_pk (db_deliveries db))" using de by (simp add: deliveries_ok_def)
  from this assms(2) obtain row where t: "t = db\<lparr>db_deliveries := map (resaved row) (db_deliveries db)\<rparr>"
    and r: "\<forall>r \<in> set (db_deliveries db). frozen_fields (resaved row r) = frozen_fields r \<and>
      delivery_pk (resaved row r) = delivery_pk r" by (rule update_delivery_spec)
  let ?n = "map (resaved row) (db_deliveries db)"
  have "map delivery_pk ?n = map delivery_pk (db_deliveries db)" using r by simp
  then have "distinct (map delivery_pk ?n)" using de by (simp only: deliveries_ok_def)
  moreover have "delivery_pk x \<le> delivery_seq db \<and> (\<exists>e \<in> set (db_enrollments db).
      enrollment_pk e = delivery_enrollment x \<and> delivery_operator x = enrollment_operator e)"
    if x: "x \<in> set ?n" for x
  proof -
    from x obtain x0 where x0: "x0 \<in> set (db_deliveries db)" "x = resaved row x0" by auto
    with r have f: "frozen_fields x0 = frozen_fields x" "delivery_pk x = delivery_pk x0" by simp_all
    from de x0(1) show ?thesis unfolding deliveries_ok_def f(2) frozen_fields_simps [OF f(1)] by blast
  qed
  moreover have "x = y" if xy: "x \<in> set ?n" "y \<in> set ?n" "same_step x y" for x y
  proof -
    from xy obtain x0 y0 where z: "x0 \<in> set (db_deliveries db)" "x = resaved row x0"
      "y0 \<in> set (db_deliveries db)" "y = resaved row y0" by auto
    with r xy(3) have "same_step x0 y0" using same_step_frozen [of x x0 y y0] by simp
    with de z have "x0 = y0" by (simp add: deliveries_ok_def)
    with z show ?thesis by simp
  qed
  ultimately have "deliveries_ok t" unfolding deliveries_ok_def t by simp
  moreover have "enrollments_ok H t" using en by (simp add: enrollments_ok_def t)
  moreover have "frozen_fields ` set ?n = frozen_fields ` set (db_deliveries db)"
    unfolding set_map image_image using r by (intro image_cong) simp_all
  then have "db_extends db t" by (simp add: db_extends_def t)
  ultimately show ?thesis by (simp add: store_ok_def)
qed

section \<open>Every event keeps the store\<close>

lemma message_step_keeps:
  assumes "store_ok H db"
  shows "store_ok H (message_step H conf ev db) \<and> db_extends db (message_step H conf ev db)"
proof (cases ev)
  case (Enroll now deal audience operator)
  then show ?thesis
    using assms ensure_keeps [OF assms, of now deal audience operator]
    by (cases "ensure_message_enrollment H now deal audience operator db") (auto simp: committed_def)
next
  case (Deliver e chan skey sindex ref)
  then show ?thesis
    using assms get_or_create_keeps [OF assms, of conf e chan skey sindex ref]
    by (cases "get_or_create_delivery H conf e chan skey sindex ref db") (auto simp: committed_def)
next
  case (Save_delivery d)
  then show ?thesis
    using assms update_delivery_keeps [OF assms, of d] by (cases "update_delivery d db") auto
next
  case (Activate_version c v)
  then show ?thesis
    using assms by (auto simp: store_ok_def enrollments_ok_def deliveries_ok_def db_extends_def)
next
  case (Save_lead pk lead)
  then show ?thesis
    using assms by (auto simp: store_ok_def enrollments_ok_def deliveries_ok_def db_extends_def)
next
  case (Add_deal pk deal)
  then show ?thesis
    using assms
    by (auto simp: store_ok_def enrollments_ok_def deliveries_ok_def db_extends_def map_le_def)
qed

section \<open>Interpretations\<close>

definition enroll_op ::
  "(json \<Rightarrow> string) \<Rightarrow> int \<times> int \<times> string \<times> string option \<Rightarrow> message_db
     \<Rightarrow> (delivery_error, message_enrollment \<times> message_db) result" where
  "enroll_op H a db = (case a of (now, deal, audience, operator) \<Rightarrow>
     ensure_message_enrollment H now deal audience operator db)"

text \<open>What a delivery froze, which is all of the row that a caller may rely on.\<close>

type_synonym frozen = "int \<times> channel \<times> string \<times> int \<times> string \<times> string \<times> string \<times> string \<times> json \<times> string"

definition deliver_op ::
  "(json \<Rightarrow> string) \<Rightarrow> copy_conf
     \<Rightarrow> message_enrollment \<times> string \<times> string option \<times> int option \<times> reference option \<Rightarrow> message_db
     \<Rightarrow> (delivery_error, frozen \<times> message_db) result" where
  "deliver_op H conf a db = (case a of (e, chan, skey, sindex, ref) \<Rightarrow>
     bind_result (get_or_create_delivery H conf e chan skey sindex ref db)
       (\<lambda>((d, created), t). Inr (frozen_fields d, t)))"

fun readable_copy :: "frozen \<Rightarrow> bool" where
  "readable_copy (e, c, skey, sindex, variant, operator, subj, bod, med, hash) = trimmed subj bod"

lemma deliver_op_Inr:
  "deliver_op H conf (e, chan, skey, sindex, ref) db = Inr (f, t) \<longleftrightarrow>
     (\<exists>d created. get_or_create_delivery H conf e chan skey sindex ref db = Inr ((d, created), t) \<and>
        f = frozen_fields d)"
  by (auto simp: deliver_op_def)

interpretation enroll: frozen_world "message_step H conf" "store_ok H" "enroll_op H" db_extends "\<lambda>_. True"
  for H conf
proof (unfold_locales, goal_cases)
  case (1 s e)
  then show ?case using message_step_keeps by blast
next
  case (2 s)
  show ?case by simp
next
  case (3 s t u)
  then show ?case by (rule db_extends_trans)
next
  case (4 s e)
  then show ?case using message_step_keeps by blast
next
  case (5 s a r t)
  obtain now deal audience operator where "a = (now, deal, audience, operator)" by (cases a)
  with 5 show ?case using ensure_keeps [of H s now deal audience operator r t] by (simp add: enroll_op_def)
next
  case (6 s a r t u)
  obtain now deal audience operator where "a = (now, deal, audience, operator)" by (cases a)
  with 6 show ?case using ensure_again [of H s now deal audience operator r t u now] by (simp add: enroll_op_def)
qed

interpretation deliver: frozen_world "message_step H conf" "store_ok H" "deliver_op H conf" db_extends readable_copy
  for H conf
proof (unfold_locales, goal_cases)
  case (1 s)
  show ?case by simp
next
  case (2 s t u)
  then show ?case by (rule db_extends_trans)
next
  case (3 s e)
  then show ?case using message_step_keeps by blast
next
  case (4 s a r t)
  obtain e chan skey sindex ref where a: "a = (e, chan, skey, sindex, ref)" by (cases a)
  with 4 obtain d created where "get_or_create_delivery H conf e chan skey sindex ref s = Inr ((d, created), t)"
    by (auto simp: deliver_op_Inr)
  with 4(1) show ?case using get_or_create_keeps by blast
next
  case (5 s a r t u)
  obtain e chan skey sindex ref where a: "a = (e, chan, skey, sindex, ref)" by (cases a)
  with 5 obtain d created where
    g: "get_or_create_delivery H conf e chan skey sindex ref s = Inr ((d, created), t)" and r: "r = frozen_fields d"
    by (auto simp: deliver_op_Inr)
  have "trimmed (frozen_subject d) (frozen_body d)" using 5(3) by (simp add: r frozen_fields_def)
  from get_or_create_again [OF 5(1) g this 5(4,5), of conf ref] show ?case
    unfolding a deliver_op_Inr r by metis
qed

section \<open>Properties\<close>

text \<open>
  C7: the store stays well formed under every sequence of events: one enrollment for each Deal,
  each of them usable, and at most one delivery for a step of an enrollment, by step key and by
  step index, with the operator of its enrollment.
\<close>

theorem store_invariant:
  assumes "store_ok H db"
  shows "store_ok H (fold (message_step H conf) es db)"
  using assms by (rule enroll.inv_run)

lemma sample_usable:
  "case index_message_version sample_hash sample_version of
     Inl _ \<Rightarrow> False
   | Inr idx \<Rightarrow> require_effective_routes idx sample_enrollment = Inr ()"
  by code_simp

lemma sample_store_ok: "store_ok sample_hash sample_db"
proof -
  obtain idx where "index_message_version sample_hash sample_version = Inr idx"
    "require_effective_routes idx sample_enrollment = Inr ()"
    using sample_usable by (auto split: sum.split_asm)
  then have "usable sample_hash sample_enrollment"
    by (auto simp: usable_def sample_enrollment_def)
  then have "enrollments_ok sample_hash sample_db"
    by (simp add: enrollments_ok_def sample_db_def) (simp add: sample_enrollment_def)
  moreover have "deliveries_ok sample_db" by (simp add: deliveries_ok_def sample_db_def)
  ultimately show ?thesis by (simp add: store_ok_def)
qed

theorem store_invariant_witness:
  "\<exists>db. db = fold (message_step sample_hash sample_conf)
       [Activate_version 2 None, Deliver sample_enrollment ''linkedin_followup'' None (Some 1) None] sample_db \<and>
     store_ok sample_hash db"
  using store_invariant [OF sample_store_ok] by blast

text \<open>
  C21: an enrollment is frozen: once a Deal is enrolled, enrolling it again returns the very same row
  and changes nothing, whatever happened in between; activating another version for the campaign
  does not move the Deal to it.
\<close>

theorem enrollment_frozen:
  assumes "store_ok H db" and "ensure_message_enrollment H now deal audience operator db = Inr (e, db')"
  shows "ensure_message_enrollment H now deal audience operator (fold (message_step H conf) es db') =
    Inr (e, fold (message_step H conf) es db')"
  using enroll.op_frozen [of H db "(now, deal, audience, operator)" e db' conf es] assms
  by (simp add: enroll_op_def)

lemma sample_enrolls:
  "case ensure_message_enrollment sample_hash 10 7 ''cto'' (Some ''arian'') (sample_db\<lparr>db_enrollments := []\<rparr>) of
     Inl _ \<Rightarrow> False
   | Inr (e, t) \<Rightarrow> enrollment_pk e = 6 \<and> enrollment_operator e = ''Arian''"
  by code_simp

theorem enrollment_frozen_witness:
  "\<exists>e t. ensure_message_enrollment sample_hash 10 7 ''cto'' (Some ''arian'') (sample_db\<lparr>db_enrollments := []\<rparr>) = Inr (e, t) \<and>
     (\<exists>u. ensure_message_enrollment sample_hash 10 7 ''cto'' (Some ''arian'')
        (fold (message_step sample_hash sample_conf) [Activate_version 2 None] t) = Inr (e, u))"
proof -
  obtain e t where e:
    "ensure_message_enrollment sample_hash 10 7 ''cto'' (Some ''arian'') (sample_db\<lparr>db_enrollments := []\<rparr>) = Inr (e, t)"
    using sample_enrolls by (auto split: sum.split_asm)
  have "store_ok sample_hash (sample_db\<lparr>db_enrollments := []\<rparr>)"
    by (simp add: store_ok_def enrollments_ok_def deliveries_ok_def sample_db_def)
  from enrollment_frozen [OF this e] e show ?thesis by blast
qed

text \<open>
  C3: a delivery is frozen: once it is materialised, asking for the same step again returns a row
  with the same frozen identity, copy and hash and creates nothing, whatever happened in between,
  new versions and edited leads included. The condition is that the rendered subject and body have
  no outer white space.
\<close>

theorem delivery_frozen:
  assumes "store_ok H db"
    and "get_or_create_delivery H conf e chan skey sindex ref db = Inr ((d, created), db')"
    and "trimmed (frozen_subject d) (frozen_body d)"
  shows "\<exists>d'. get_or_create_delivery H conf e chan skey sindex ref (fold (message_step H conf) es db') =
    Inr ((d', False), fold (message_step H conf) es db') \<and> frozen_fields d' = frozen_fields d"
proof -
  let ?u = "fold (message_step H conf) es db'"
  have k: "store_ok H db'" using get_or_create_keeps [OF assms(1,2)] by simp
  then have "store_ok H ?u" and "db_extends db' ?u" by (rule enroll.inv_run, rule enroll.ext_run)
  from get_or_create_again [OF assms this] show ?thesis .
qed

lemma sample_delivers:
  "case get_or_create_delivery sample_hash sample_conf sample_enrollment ''linkedin_followup'' None (Some 1) None
       sample_db of
     Inl _ \<Rightarrow> False
   | Inr ((d, created), t) \<Rightarrow> created \<and> frozen_body d = ''Hi Ann'' \<and> trimmed (frozen_subject d) (frozen_body d)"
  by code_simp

theorem delivery_frozen_witness:
  "\<exists>d t d' u. get_or_create_delivery sample_hash sample_conf sample_enrollment ''linkedin_followup'' None (Some 1) None
       sample_db = Inr ((d, True), t) \<and> frozen_body d = ''Hi Ann'' \<and>
     u = fold (message_step sample_hash sample_conf) [Save_lead 3 (sample_lead\<lparr>lead_first_name := ''Bob''\<rparr>)] t \<and>
     get_or_create_delivery sample_hash sample_conf sample_enrollment ''linkedin_followup'' None (Some 1) None u =
       Inr ((d', False), u) \<and> frozen_body d' = ''Hi Ann''"
proof -
  obtain d t where d: "get_or_create_delivery sample_hash sample_conf sample_enrollment ''linkedin_followup''
      None (Some 1) None sample_db = Inr ((d, True), t)"
    "frozen_body d = ''Hi Ann''" "trimmed (frozen_subject d) (frozen_body d)"
    using sample_delivers by (auto split: sum.split_asm)
  from delivery_frozen [OF sample_store_ok d(1,3)] d show ?thesis
    by (metis frozen_fields_simps(8))
qed

section \<open>Copy that cannot be read back\<close>

definition last_name_version :: message_program_version where
  "last_name_version = sample_version\<lparr>payload :=
     JObject [(''program_key'', JStr ''p''), (''program_name'', JStr ''P''),
       (''messages'', JList [JObject
         [(''audience_key'', JStr ''cto''), (''role_persona'', JStr ''CTO''),
          (''fedramp_segment'', JStr ''''), (''channel'', JStr ''linkedin_followup''),
          (''step_key'', JStr ''first''), (''step_index'', JInt 0), (''delay_hours'', JInt 0),
          (''variant_key'', JStr ''a''), (''subject'', JStr ''''), (''body'', JStr ''Hi {last_name}''),
          (''media'', JList []), (''sender_override'', JStr ''''), (''notes'', JStr '''')]])]\<rparr>"

definition last_name_enrollment :: message_enrollment where
  "last_name_enrollment = sample_enrollment\<lparr>enrollment_version := last_name_version\<rparr>"

definition again ::
  "message_enrollment \<Rightarrow> message_db \<Rightarrow> (delivery_error, (delivery \<times> bool) \<times> message_db) result" where
  "again e db = get_or_create_delivery sample_hash sample_conf e ''linkedin_followup'' None (Some 0) None db"

text \<open>
  C39: the condition on outer white space is needed, because creation does not check it: for a lead
  with a blank last name the body \<open>Hi {last_name}\<close> is rendered with a trailing space, the row is
  saved, and the same call on the resulting store raises instead of returning the row.
\<close>

theorem untrimmed_delivery_unreadable:
  "\<exists>d t x. again last_name_enrollment (sample_db\<lparr>db_enrollments := [last_name_enrollment]\<rparr>) = Inr ((d, True), t) \<and>
     frozen_body d = ''Hi '' \<and> again last_name_enrollment t = Inl x"
proof -
  have c: "case again last_name_enrollment (sample_db\<lparr>db_enrollments := [last_name_enrollment]\<rparr>) of
     Inl _ \<Rightarrow> False
   | Inr ((d, created), t) \<Rightarrow> created \<and> frozen_body d = ''Hi '' \<and> isl (again last_name_enrollment t)"
    by code_simp
  obtain d cr t where a: "again last_name_enrollment (sample_db\<lparr>db_enrollments := [last_name_enrollment]\<rparr>) =
      Inr ((d, cr), t)"
    using c by (cases "again last_name_enrollment (sample_db\<lparr>db_enrollments := [last_name_enrollment]\<rparr>)") auto
  then have "cr" "frozen_body d = ''Hi ''" "isl (again last_name_enrollment t)" using c by simp_all
  with a show ?thesis by (cases "again last_name_enrollment t") auto
qed

end
