(* ===== verification/Message_Steps.thy ===== *)
theory Message_Steps
  imports Message_World
begin

text \<open>
  The steps of an enrollment: \<open>list_message_steps\<close> and \<open>next_message_step\<close> of
  \<open>linkedin/message_delivery.py\<close> never fail for a usable enrollment, list each effective route once,
  and move on when a step is materialised.
\<close>

section \<open>Every effective route has a step\<close>

lemma effective_in_channel:
  assumes "effective_routes idx a p c = Inr gs" and "m \<in> set (concat gs)"
  obtains gs' where "effective_routes idx a p (Some (msg_channel m)) = Inr gs'" and "m \<in> set (concat gs')"
proof -
  have cm: "set (concat gs) = set (concat (map snd (chosen_groups idx a p c)))"
    by (simp add: effective_routes_Inr [OF assms(1)])
  with assms(2) have "m \<in> set (concat (map snd (chosen_groups idx a p c)))" by (simp only:)
  then have m: "m \<in> set (messages idx)" "relevant a p c m"
    "sender_override m = p \<or> \<not> (\<exists>e \<in> set (messages idx). relevant a p c e \<and> overrides p e m)"
    unfolding chosen_groups_members by blast+
  have "relevant a p c e" if "relevant a p (Some (msg_channel m)) e" "overrides p e m" for e
    using that m(2) by (auto simp: relevant_def)
  moreover have "relevant a p (Some (msg_channel m)) m" using m(2) by (simp add: relevant_def)
  ultimately have "m \<in> set (concat (map snd (chosen_groups idx a p (Some (msg_channel m)))))"
    using m(1,3) unfolding chosen_groups_members by blast
  moreover obtain gs' where gs': "effective_routes idx a p (Some (msg_channel m)) = Inr gs'"
    using assms(1) by (auto simp: effective_routes_def split: if_splits)
  ultimately have "m \<in> set (concat gs')"
    by (simp add: effective_routes_Inr [OF gs'])
  with gs' show thesis by (rule that)
qed


lemma select_group:
  assumes "index_message_version H (enrollment_version e) = Inr idx"
    and "effective_routes idx (enrollment_audience e) (enrollment_operator e) c = Inr gs" and "g \<in> set gs"
  shows "\<exists>m. select_message H e (channel_name (msg_channel (hd g))) (Some (step_key (hd g)))
      (Some (step_index (hd g))) = Inr m \<and> step_identity m = head_route g"
proof -
  from effective_routes_group [OF assms(2,3)] have "g \<noteq> []" by simp
  then have "hd g \<in> set (concat gs)" using assms(3) by (auto intro!: bexI [of _ g])
  with assms(2) obtain gs' where
    gs': "effective_routes idx (enrollment_audience e) (enrollment_operator e) (Some (msg_channel (hd g))) = Inr gs'"
      "hd g \<in> set (concat gs')" by (rule effective_in_channel)
  from effective_is_selected [OF assms(1) gs', of "Some (step_key (hd g))" "Some (step_index (hd g))"]
  obtain m' where m': "message_route m' = message_route (hd g)"
    "select_message H e (channel_name (msg_channel (hd g))) (Some (step_key (hd g)))
      (Some (step_index (hd g))) = Inr (selected_of m')" by auto
  have "step_identity (selected_of m') = head_route g"
    using m'(1) by (simp add: step_identity_def selected_of_def head_route_def message_route_def)
  with m'(2) show ?thesis by blast
qed

text \<open>What the operation lists for an enrollment that was found.\<close>

lemma list_message_steps_total:
  assumes "enrollments_ok H db" and "require_saved_enrollment db e0 = Inr e"
    and "check_channel chan_text = Inr c" and "index_message_version H (enrollment_version e) = Inr idx"
    and "effective_routes idx (enrollment_audience e) (enrollment_operator e) c = Inr gs" and "gs \<noteq> []"
  obtains steps where "list_message_steps H db e0 chan_text = Inr steps"
    and "map step_identity steps = map head_route gs"
proof -
  let ?f = "\<lambda>g. select_saved_message H db e (channel_name (msg_channel (hd g)))
         (Some (step_key (hd g))) (Some (step_index (hd g)))"
  have se: "require_saved_enrollment db e = Inr e"
    using require_saved_again [OF assms(2,1)] require_saved_found [OF assms(2)] by blast
  have f: "\<exists>m. ?f g = Inr m \<and> step_identity m = head_route g" if "g \<in> set gs" for g
    using select_group [OF assms(4,5) that] by (simp add: select_saved_message_def se)
  then have "\<exists>steps. map_result ?f gs = Inr steps" by (intro map_result_total) blast
  then obtain steps where s: "map_result ?f gs = Inr steps" ..
  then have "list_all2 (\<lambda>g m. ?f g = Inr m) gs steps" by (simp only: map_result_Inr)
  then have "list_all2 (\<lambda>g m. step_identity m = head_route g) gs steps"
    by (rule list.rel_mono_strong) (use f in \<open>metis sum.inject(2)\<close>)
  then have "map step_identity steps = map head_route gs"
    by (auto simp: list_all2_conv_all_nth intro: nth_equalityI)
  moreover have "list_message_steps H db e0 chan_text = Inr steps"
    using s by (simp add: list_message_steps_def assms ensure_def)
  ultimately show thesis by (intro that)
qed

section \<open>Properties\<close>

lemma saved_enrollment:
  assumes "store_ok H db" and "e \<in> set (db_enrollments db)"
  obtains idx gs where "require_saved_enrollment db e = Inr e"
    and "index_message_version H (enrollment_version e) = Inr idx"
    and "effective_routes idx (enrollment_audience e) (enrollment_operator e) None = Inr gs" and "gs \<noteq> []"
proof -
  have en: "enrollments_ok H db" using assms(1) by (simp add: store_ok_def)
  then have u: "usable H e" using assms(2) by (simp add: enrollments_ok_def)
  then obtain idx where i: "index_message_version H (enrollment_version e) = Inr idx"
    and r: "require_effective_routes idx e = Inr ()" by (auto simp: usable_def)
  from r obtain gs where g:
    "effective_routes idx (enrollment_audience e) (enrollment_operator e) None = Inr gs" "gs \<noteq> []"
    by (auto simp: require_effective_routes_def)
  have "require_saved_enrollment db e = Inr e"
    using u find_enrollment [OF en assms(2)] by (simp add: require_saved_enrollment_def usable_def ensure_def)
  with i g show thesis by (intro that)
qed

lemma saved_steps:
  assumes "store_ok H db" and "e \<in> set (db_enrollments db)"
  obtains idx gs steps where "index_message_version H (enrollment_version e) = Inr idx"
    and "effective_routes idx (enrollment_audience e) (enrollment_operator e) None = Inr gs"
    and "list_message_steps H db e None = Inr steps" and "steps \<noteq> []"
    and "map step_identity steps = map head_route gs" and "distinct (map step_identity steps)"
proof -
  obtain idx gs where r: "require_saved_enrollment db e = Inr e"
    and i: "index_message_version H (enrollment_version e) = Inr idx"
    and g: "effective_routes idx (enrollment_audience e) (enrollment_operator e) None = Inr gs" "gs \<noteq> []"
    using assms by (rule saved_enrollment)
  have en: "enrollments_ok H db" using assms(1) by (simp add: store_ok_def)
  have c: "check_channel None = Inr None" by (simp add: check_channel_def)
  obtain steps where s: "list_message_steps H db e None = Inr steps" "map step_identity steps = map head_route gs"
    using en r c i g by (rule list_message_steps_total)
  moreover have "steps \<noteq> []" using s(2) g(2) by auto
  moreover have "distinct (map step_identity steps)"
    using effective_routes_separate [OF index_consistent [OF i] g(1)] by (simp add: s(2))
  ultimately show thesis using i g(1) by (intro that)
qed

text \<open>
  Listing the steps of a stored enrollment never fails, and lists every effective route of its
  frozen version exactly once, in the order of channel, step index and step key.
\<close>

theorem message_steps_listed:
  assumes "store_ok H db" and "e \<in> set (db_enrollments db)"
  shows "\<exists>idx gs steps. index_message_version H (enrollment_version e) = Inr idx \<and>
    effective_routes idx (enrollment_audience e) (enrollment_operator e) None = Inr gs \<and>
    list_message_steps H db e None = Inr steps \<and> steps \<noteq> [] \<and>
    map step_identity steps = map head_route gs \<and> distinct (map step_identity steps)"
  using assms by (rule saved_steps) blast

lemma next_step_find:
  "list_message_steps H db e None = Inr steps \<Longrightarrow>
     next_message_step H db e None =
       Inr (List.find (\<lambda>m. step_identity m \<notin> delivered_steps db (enrollment_pk e) None) steps)"
  by (simp add: next_message_step_def check_channel_def)

text \<open>
  The next step of a stored enrollment is the first listed step that has no delivery yet, and
  there is none exactly when every step has one.
\<close>

theorem next_step_is_first_undelivered:
  assumes "store_ok H db" and "e \<in> set (db_enrollments db)"
  shows "\<exists>steps r. list_message_steps H db e None = Inr steps \<and> next_message_step H db e None = Inr r \<and>
    (r = None \<longleftrightarrow> step_identity ` set steps \<subseteq> delivered_steps db (enrollment_pk e) None) \<and>
    (\<forall>m. r = Some m \<longrightarrow> (\<exists>before after. steps = before @ m # after \<and>
       step_identity ` set before \<subseteq> delivered_steps db (enrollment_pk e) None \<and>
       step_identity m \<notin> delivered_steps db (enrollment_pk e) None))"
proof -
  obtain steps where s: "list_message_steps H db e None = Inr steps"
    using assms by (rule saved_steps)
  let ?P = "\<lambda>m. step_identity m \<notin> delivered_steps db (enrollment_pk e) None"
  have "List.find ?P steps = None \<longleftrightarrow> step_identity ` set steps \<subseteq> delivered_steps db (enrollment_pk e) None"
    by (auto simp: find_None_iff)
  moreover have "\<exists>before after. steps = before @ m # after \<and>
      step_identity ` set before \<subseteq> delivered_steps db (enrollment_pk e) None \<and> ?P m"
    if "List.find ?P steps = Some m" for m
  proof -
    from that obtain i where i: "i < length steps" "?P (steps ! i)" "m = steps ! i" "\<forall>j < i. \<not> ?P (steps ! j)"
      by (auto simp: find_Some_iff)
    have "steps = take i steps @ m # drop (Suc i) steps" using i(1,3) by (simp add: id_take_nth_drop)
    moreover have "step_identity ` set (take i steps) \<subseteq> delivered_steps db (enrollment_pk e) None"
      using i(1,4) by (auto simp: in_set_conv_nth)
    ultimately show ?thesis using i(2,3) by blast
  qed
  ultimately have "(List.find ?P steps = None \<longleftrightarrow>
        step_identity ` set steps \<subseteq> delivered_steps db (enrollment_pk e) None) \<and>
      (\<forall>m. List.find ?P steps = Some m \<longrightarrow> (\<exists>before after. steps = before @ m # after \<and>
        step_identity ` set before \<subseteq> delivered_steps db (enrollment_pk e) None \<and> ?P m))" by blast
  then show ?thesis by (intro exI conjI) (rule s, rule next_step_find [OF s], simp_all)
qed

text \<open>
  C24: materialising the next step makes progress: it creates a row, the list of steps is unchanged,
  and exactly that step joins the delivered ones.
\<close>

theorem delivering_next_step:
  assumes "store_ok H db" and "e \<in> set (db_enrollments db)"
    and "next_message_step H db e None = Inr (Some m)"
    and "get_or_create_delivery H conf e (channel_name (sel_channel m)) (Some (sel_step_key m))
      (Some (sel_step_index m)) ref db = Inr ((d, created), db')"
  shows "created \<and> list_message_steps H db' e None = list_message_steps H db e None \<and>
    delivered_steps db' (enrollment_pk e) None =
      insert (step_identity m) (delivered_steps db (enrollment_pk e) None) \<and>
    step_identity m \<notin> delivered_steps db (enrollment_pk e) None"
proof -
  have en: "enrollments_ok H db" using assms(1) by (simp add: store_ok_def)
  obtain steps where "list_message_steps H db e None = Inr steps"
    using assms(1,2) by (rule saved_steps)
  from next_step_find [OF this] assms(3)
  have "List.find (\<lambda>m. step_identity m \<notin> delivered_steps db (enrollment_pk e) None) steps = Some m"
    by simp
  from find_Some_iff_mem [OF this]
  have nd: "step_identity m \<notin> delivered_steps db (enrollment_pk e) None" by simp
  obtain e' n lead where e': "require_saved_enrollment db e = Inr e'"
    and s: "select_message H e' (channel_name (sel_channel m)) (Some (sel_step_key m))
      (Some (sel_step_index m)) = Inr n"
    and c: "(created \<and> filter (matches_route e' n) (db_deliveries db) = [] \<and>
        create_delivery H conf e' n ref db = Inr (d, db')) \<or>
      (\<not> created \<and> db' = db \<and> filter (matches_route e' n) (db_deliveries db) = [d] \<and>
        return_existing H e' n d = Inr d)"
    using en assms(4) by (rule get_or_create_cases)
  have "require_saved_enrollment db e = Inr e"
    using saved_enrollment [OF assms(1,2)] by blast
  with e' have ee: "e' = e" by simp
  obtain x where "n = selected_of x" "channel_name (sel_channel m) = channel_name (msg_channel x)"
    "sel_step_key m = step_key x" "sel_step_index m = step_index x"
    using s by (rule selected_message_published) auto
  moreover have "inj channel_name" by (rule injI) (auto simp: channel_name_def split: channel.splits)
  ultimately have n: "step_identity n = step_identity m"
    by (simp add: step_identity_def selected_of_def inj_eq)
  have se: "require_saved_enrollment db e = Inr e" using e' ee by simp
  from c show ?thesis
  proof (elim disjE conjE)
    assume "created" and cr: "create_delivery H conf e' n ref db = Inr (d, db')"
    from cr se s obtain r due where d: "d = (delivery_of e n r due)\<lparr>delivery_pk := delivery_seq db + 1\<rparr>"
      and db': "db' = db\<lparr>db_deliveries := db_deliveries db @ [d], delivery_seq := delivery_seq db + 1\<rparr>"
      unfolding ee by (rule create_delivery_spec)
    have "delivery_enrollment d = enrollment_pk e" "delivery_identity d = step_identity n"
      by (simp_all add: d delivery_of_def delivery_identity_def step_identity_def)
    with n have "delivered_steps db' (enrollment_pk e) None =
        insert (step_identity m) (delivered_steps db (enrollment_pk e) None)"
    proof -
      have "{x \<in> set (db_deliveries db'). delivery_enrollment x = enrollment_pk e} =
          insert d {x \<in> set (db_deliveries db). delivery_enrollment x = enrollment_pk e}"
        using \<open>delivery_enrollment d = enrollment_pk e\<close> by (auto simp: db')
      then show ?thesis using \<open>delivery_identity d = step_identity n\<close> n by (simp add: delivered_steps_def)
    qed
    moreover have "require_saved_enrollment db' = require_saved_enrollment db"
      by (rule ext) (simp add: require_saved_enrollment_def db')
    then have "list_message_steps H db' e None = list_message_steps H db e None"
      by (simp add: list_message_steps_def select_saved_message_def)
    ultimately show ?thesis using \<open>created\<close> nd by simp
  next
    assume f: "filter (matches_route e' n) (db_deliveries db) = [d]" and r: "return_existing H e' n d = Inr d"
    from f have "d \<in> set (filter (matches_route e' n) (db_deliveries db))" by simp
    then have d: "d \<in> set (db_deliveries db)" "delivery_enrollment d = enrollment_pk e" "delivery_channel d = sel_channel n"
      by (simp_all add: matches_route_def ee)
    moreover have "delivery_step_key d = sel_step_key n" "delivery_step_index d = sel_step_index n"
      using r by (simp_all add: return_existing_def split: if_splits)
    ultimately have "delivery_identity d = step_identity n" "d \<in> {d \<in> set (db_deliveries db).
        delivery_enrollment d = enrollment_pk e}"
      by (simp_all add: delivery_identity_def step_identity_def)
    then have "step_identity n \<in> delivered_steps db (enrollment_pk e) None"
      unfolding delivered_steps_def by (simp only: simp_thms) (metis (lifting) imageI)
    with nd n show ?thesis by simp
  qed
qed

theorem message_steps_listed_witness:
  "\<exists>steps. list_message_steps sample_hash sample_db sample_enrollment None = Inr steps \<and> steps \<noteq> []"
  using message_steps_listed [OF sample_store_ok, of sample_enrollment] by (auto simp: sample_db_def)

theorem next_step_is_first_undelivered_witness:
  "\<exists>r. next_message_step sample_hash sample_db sample_enrollment None = Inr r \<and>
     (r = None \<longleftrightarrow> (\<exists>steps. list_message_steps sample_hash sample_db sample_enrollment None = Inr steps \<and>
        step_identity ` set steps \<subseteq> delivered_steps sample_db 5 None))"
proof -
  have e: "sample_enrollment \<in> set (db_enrollments sample_db)" by (simp add: sample_db_def)
  have pk: "enrollment_pk sample_enrollment = 5" by (simp add: sample_enrollment_def)
  show ?thesis
    using next_step_is_first_undelivered [OF sample_store_ok e]
    by (elim exE conjE) (simp add: pk)
qed

theorem delivering_next_step_witness:
  "\<exists>m d t. next_message_step sample_hash sample_db sample_enrollment None = Inr (Some m) \<and>
     get_or_create_delivery sample_hash sample_conf sample_enrollment (channel_name (sel_channel m))
       (Some (sel_step_key m)) (Some (sel_step_index m)) None sample_db = Inr ((d, True), t) \<and>
     step_identity m \<in> delivered_steps t 5 None"
proof -
  have e: "sample_enrollment \<in> set (db_enrollments sample_db)" by (simp add: sample_db_def)
  have c: "case next_message_step sample_hash sample_db sample_enrollment None of
      Inr (Some m) \<Rightarrow> (case get_or_create_delivery sample_hash sample_conf sample_enrollment
        (channel_name (sel_channel m)) (Some (sel_step_key m)) (Some (sel_step_index m)) None sample_db of
          Inr ((d, created), t) \<Rightarrow> True | Inl _ \<Rightarrow> False)
    | _ \<Rightarrow> False" by code_simp
  obtain r where r: "next_message_step sample_hash sample_db sample_enrollment None = Inr r"
    using c by (cases "next_message_step sample_hash sample_db sample_enrollment None") simp_all
  obtain m where m: "next_message_step sample_hash sample_db sample_enrollment None = Inr (Some m)"
    using c r by (cases r) simp_all
  let ?g = "get_or_create_delivery sample_hash sample_conf sample_enrollment
      (channel_name (sel_channel m)) (Some (sel_step_key m)) (Some (sel_step_index m)) None sample_db"
  obtain x where "?g = Inr x" using c m by (cases ?g) simp_all
  then obtain d created t where d: "?g = Inr ((d, created), t)" by (cases x) auto
  from delivering_next_step [OF sample_store_ok e m d] m d show ?thesis
    by (auto simp: sample_enrollment_def)
qed

end
