(* ===== verification/Task_Queue.thy ===== *)
theory Task_Queue
  imports Py_Json "HOL-Library.Product_Lexorder"
begin

text \<open>
  The task queue of \<open>linkedin/models.py\<close>: the scope of the work that a daemon owns, the claim of the
  next due task with its priority lanes, the validation of a task's payload and the life cycle of a
  task, with the claims and recoveries of the enrichment worker. The table is a list in the order the
  database returns rows that compare equal; a query reads the clock once.
\<close>

section \<open>Tasks\<close>

datatype task_type =
    CONNECT | CHECK_PENDING | FOLLOW_UP | SWEEP_CONNECTIONS | ENRICH_PHONE | ENRICH_EMAIL
  | GMAIL_FOLLOW_UP | DRIP_LINKEDIN | DRIP_GMAIL | MANUAL_REPLY | FEED_COMMENT | FEED_LIKE
  | STATUS_SUMMARY | DISCOVERY | RB2B_CONNECT | RB2B_REPLIES

datatype task_status = PENDING | RUNNING | COMPLETED | FAILED

record task =
  task_pk :: int
  task_type :: task_type
  task_status :: task_status
  task_scheduled_at :: int
  task_payload :: json_object
  task_error :: string
  task_created_at :: int
  task_started_at :: "int option"
  task_completed_at :: "int option"

record campaign_row =
  campaign_pk :: int
  campaign_active :: bool
  connection_priority :: nat

definition linked_account_scoped_task_types :: "task_type list" where
  "linked_account_scoped_task_types =
     [FOLLOW_UP, DRIP_LINKEDIN, CONNECT, MANUAL_REPLY, FEED_COMMENT, FEED_LIKE, SWEEP_CONNECTIONS,
      DISCOVERY]"

definition non_linkedin_outbound_task_types :: "task_type list" where
  "non_linkedin_outbound_task_types =
     [ENRICH_PHONE, ENRICH_EMAIL, GMAIL_FOLLOW_UP, DRIP_GMAIL, RB2B_CONNECT, RB2B_REPLIES]"

section \<open>Scope\<close>

definition payload_operator_is :: "string \<Rightarrow> task \<Rightarrow> bool" where
  "payload_operator_is op t \<longleftrightarrow> json_get (task_payload t) ''operator'' = JStr op"

definition payload_campaign_in :: "int list \<Rightarrow> task \<Rightarrow> bool" where
  "payload_campaign_in owned t \<longleftrightarrow>
     list_ex (db_eq_int (json_get (task_payload t) ''campaign_id'')) owned"

definition linked_operator_scope :: "string \<Rightarrow> int list option \<Rightarrow> task \<Rightarrow> bool" where
  "linked_operator_scope op campaign_ids t \<longleftrightarrow>
     (let owned = (case campaign_ids of None \<Rightarrow> [] | Some ids \<Rightarrow> ids) in
        (task_type t = FOLLOW_UP \<and> payload_operator_is op t) \<or>
        (task_type t = DRIP_LINKEDIN \<and> payload_operator_is op t \<and> owned \<noteq> []) \<or>
        (task_type t = MANUAL_REPLY \<and> payload_operator_is op t) \<or>
        (task_type t = FEED_COMMENT \<and> payload_operator_is op t) \<or>
        (task_type t = FEED_LIKE \<and> payload_operator_is op t) \<or>
        (task_type t = SWEEP_CONNECTIONS \<and> payload_operator_is op t) \<or>
        (task_type t = DISCOVERY \<and> payload_operator_is op t) \<or>
        (task_type t = CONNECT \<and> payload_campaign_in owned t))"

definition operator_scope :: "string \<Rightarrow> int list option \<Rightarrow> task \<Rightarrow> bool" where
  "operator_scope op campaign_ids t \<longleftrightarrow>
     linked_operator_scope op campaign_ids t \<or> task_type t \<notin> set linked_account_scoped_task_types"

section \<open>Queries\<close>

definition pending :: "task list \<Rightarrow> task list" where
  "pending ts = sort_key task_scheduled_at (filter (\<lambda>t. task_status t = PENDING) ts)"

definition due :: "int \<Rightarrow> task list \<Rightarrow> task list" where
  "due now ts = filter (\<lambda>t. task_scheduled_at t \<le> now) (pending ts)"

definition daemon_filter ::
  "string option \<Rightarrow> int list option \<Rightarrow> task_type list option \<Rightarrow> task \<Rightarrow> bool" where
  "daemon_filter operator campaign_ids task_types t \<longleftrightarrow>
     task_type t \<notin> set non_linkedin_outbound_task_types \<and>
     (case task_types of None \<Rightarrow> True | Some ks \<Rightarrow> task_type t \<in> set ks) \<and>
     (case operator of None \<Rightarrow> True | Some op \<Rightarrow> op = '''' \<or> operator_scope op campaign_ids t)"

definition priority_queries :: "int \<Rightarrow> int \<Rightarrow> (task \<Rightarrow> bool) list" where
  "priority_queries max_sweep_delay now =
     [\<lambda>t. task_type t = MANUAL_REPLY,
      \<lambda>t. task_type t = FEED_COMMENT,
      \<lambda>t. task_type t = FEED_LIKE,
      \<lambda>t. task_type t = SWEEP_CONNECTIONS \<and> task_scheduled_at t \<le> now - max_sweep_delay,
      \<lambda>t. task_type t = STATUS_SUMMARY,
      \<lambda>t. task_type t \<in> {FOLLOW_UP, CONNECT},
      \<lambda>t. task_type t \<notin> {MANUAL_REPLY, FEED_COMMENT, FEED_LIKE, STATUS_SUMMARY, FOLLOW_UP, CONNECT,
            SWEEP_CONNECTIONS},
      \<lambda>t. task_type t = SWEEP_CONNECTIONS]"

section \<open>Campaign priority\<close>

text \<open>A reference to a campaign in a payload: the number, or its decimal text.\<close>

definition py_ref :: "json \<Rightarrow> int \<Rightarrow> bool" where
  "py_ref v pk \<longleftrightarrow> py_eq_int v pk \<or> v = JStr (str_int pk)"

definition db_ref :: "json \<Rightarrow> int \<Rightarrow> bool" where
  "db_ref v pk \<longleftrightarrow> db_eq_int v pk \<or> v = JStr (str_int pk)"

definition priorities_of :: "campaign_row list \<Rightarrow> (int \<times> nat) list" where
  "priorities_of campaigns =
     map (\<lambda>c. (campaign_pk c, connection_priority c))
       (filter (\<lambda>c. campaign_active c \<and> 0 < connection_priority c) campaigns)"

definition current_priority :: "(int \<times> nat) list \<Rightarrow> task \<Rightarrow> nat" where
  "current_priority priorities t =
     (case List.find (\<lambda>(pk, p). py_ref (json_get (task_payload t) ''campaign_id'') pk) priorities of
        None \<Rightarrow> 0 | Some (pk, p) \<Rightarrow> p)"

definition annotated_priority :: "(int \<times> nat) list \<Rightarrow> task \<Rightarrow> nat" where
  "annotated_priority higher t =
     (case List.find (\<lambda>(pk, p). db_ref (json_get (task_payload t) ''campaign_id'') pk) higher of
        None \<Rightarrow> 0 | Some (pk, p) \<Rightarrow> p)"

definition higher_connections :: "(int \<times> nat) list \<Rightarrow> task list \<Rightarrow> task list" where
  "higher_connections higher eligible =
     (let connections = filter (\<lambda>t. task_type t = CONNECT \<and>
            (\<exists>(pk, p) \<in> set higher. db_ref (json_get (task_payload t) ''campaign_id'') pk)) eligible
      in case List.find (\<lambda>t. task_type t = FOLLOW_UP) eligible of
           None \<Rightarrow> connections
         | Some f \<Rightarrow> filter (\<lambda>t. task_scheduled_at t < task_scheduled_at f) connections)"

definition prioritize_campaign_connect :: "campaign_row list \<Rightarrow> task \<Rightarrow> task list \<Rightarrow> task" where
  "prioritize_campaign_connect campaigns candidate eligible =
     (let priorities = priorities_of campaigns;
          higher = filter (\<lambda>(pk, p). current_priority priorities candidate < p) priorities
      in if priorities = [] \<or> higher = [] then candidate
         else case sort_key (\<lambda>t. (- int (annotated_priority higher t), task_scheduled_at t))
                     (higher_connections higher eligible) of
           [] \<Rightarrow> candidate
         | t # _ \<Rightarrow> t)"

section \<open>Claims\<close>

definition select_next ::
  "int \<Rightarrow> int \<Rightarrow> campaign_row list \<Rightarrow> string option \<Rightarrow> int list option \<Rightarrow> task_type list option
     \<Rightarrow> task list \<Rightarrow> task option" where
  "select_next max_sweep_delay now campaigns operator campaign_ids task_types ts =
     (let qs = filter (daemon_filter operator campaign_ids task_types) (due now ts) in
      case first_some (\<lambda>P. List.find P qs) (priority_queries max_sweep_delay now) of
        None \<Rightarrow> None
      | Some candidate \<Rightarrow>
          Some (if task_type candidate = CONNECT then prioritize_campaign_connect campaigns candidate qs
                else candidate))"

text \<open>
  The guarded update: it runs on the table as it is then, not as the selection saw it.
\<close>

definition start_task :: "int \<Rightarrow> task \<Rightarrow> task" where
  "start_task now t = t\<lparr>task_status := RUNNING, task_started_at := Some now\<rparr>"

definition claim_candidate :: "int \<Rightarrow> task option \<Rightarrow> task list \<Rightarrow> task option \<times> task list" where
  "claim_candidate now candidate ts =
     (case candidate of
        None \<Rightarrow> (None, ts)
      | Some c \<Rightarrow>
          if \<exists>t \<in> set ts. task_pk t = task_pk c \<and> task_status t = PENDING then
            (Some (start_task now c),
             map (\<lambda>t. if task_pk t = task_pk c \<and> task_status t = PENDING then start_task now t else t) ts)
          else (None, ts))"

definition claim_next ::
  "int \<Rightarrow> int \<Rightarrow> campaign_row list \<Rightarrow> string option \<Rightarrow> int list option \<Rightarrow> task_type list option
     \<Rightarrow> task list \<Rightarrow> task option \<times> task list" where
  "claim_next max_sweep_delay now campaigns operator campaign_ids task_types ts =
     claim_candidate now (select_next max_sweep_delay now campaigns operator campaign_ids task_types ts) ts"

definition seconds_to_next ::
  "int \<Rightarrow> string option \<Rightarrow> int list option \<Rightarrow> task_type list option \<Rightarrow> task list \<Rightarrow> int option" where
  "seconds_to_next now operator campaign_ids task_types ts =
     (case filter (daemon_filter operator campaign_ids task_types) (pending ts) of
        [] \<Rightarrow> None
      | t # _ \<Rightarrow> Some (max (task_scheduled_at t - now) 0))"

definition next_enrichment :: "int \<Rightarrow> task list \<Rightarrow> task option" where
  "next_enrichment now ts = List.find (\<lambda>t. task_type t \<in> {ENRICH_PHONE, ENRICH_EMAIL}) (due now ts)"

definition next_gmail :: "int \<Rightarrow> string option \<Rightarrow> task list \<Rightarrow> task option" where
  "next_gmail now operator ts =
     List.find (\<lambda>t. task_type t = GMAIL_FOLLOW_UP \<and>
       (case operator of None \<Rightarrow> True | Some op \<Rightarrow> op = '''' \<or> payload_operator_is op t)) (due now ts)"

section \<open>Validation\<close>

datatype task_failure =
    TaskValidationError "string list"
  | TaskAttributeError
  | TaskDatabaseError

definition require :: "bool \<Rightarrow> string \<Rightarrow> string list" where
  "require ok m = (if ok then [] else [m])"

definition active_task :: "task \<Rightarrow> bool" where
  "active_task t \<longleftrightarrow> task_status t \<in> {PENDING, RUNNING}"

text \<open>\<open>(v or "").strip()\<close> is empty; a true value that is no string has no \<open>strip\<close>.\<close>

definition blank_message :: "json \<Rightarrow> (task_failure, bool) result" where
  "blank_message v =
     (if \<not> truthy v then Inr True
      else case v of JStr s \<Rightarrow> Inr (strip s = '''') | _ \<Rightarrow> Inl TaskAttributeError)"

definition positive_integer :: "json \<Rightarrow> bool" where
  "positive_integer v = (case v of JInt i \<Rightarrow> 0 < i | _ \<Rightarrow> False)"

definition has_key :: "json_object \<Rightarrow> string \<Rightarrow> bool" where
  "has_key d k \<longleftrightarrow> k \<in> set (map fst d)"

definition payload_errors :: "task_type \<Rightarrow> json_object \<Rightarrow> (task_failure, string list) result" where
  "payload_errors k p =
     (let get = json_get p; given = (\<lambda>f. truthy (json_get p f)) in
      case k of
        CONNECT \<Rightarrow> Inr (require (has_key p ''campaign_id'') ''connect tasks require payload.campaign_id'')
      | FOLLOW_UP \<Rightarrow> Inr (
          require (has_key p ''campaign_id'') ''follow_up tasks require payload.campaign_id'' @
          require (given ''public_id'') ''follow_up tasks require payload.public_id'' @
          require (given ''operator'') ''follow_up tasks require non-empty payload.operator'')
      | MANUAL_REPLY \<Rightarrow> bind_result (blank_message (get ''message'')) (\<lambda>blank. Inr (
          require (given ''lead_id'') ''manual_reply tasks require payload.lead_id'' @
          require (given ''operator'') ''manual_reply tasks require non-empty payload.operator'' @
          require (\<not> blank) ''manual_reply tasks require non-empty payload.message''))
      | FEED_COMMENT \<Rightarrow> bind_result (blank_message (get ''message'')) (\<lambda>blank. Inr (
          require (given ''post_id'') ''feed_comment tasks require payload.post_id'' @
          require (given ''operator'') ''feed_comment tasks require non-empty payload.operator'' @
          require (\<not> blank) ''feed_comment tasks require non-empty payload.message''))
      | FEED_LIKE \<Rightarrow> Inr (
          require (given ''post_id'') ''feed_like tasks require payload.post_id'' @
          require (given ''operator'') ''feed_like tasks require non-empty payload.operator'')
      | SWEEP_CONNECTIONS \<Rightarrow> Inr (
          require (given ''operator'') ''sweep_connections tasks require non-empty payload.operator'')
      | DISCOVERY \<Rightarrow> Inr (
          require (given ''operator'') ''discovery tasks require non-empty payload.operator'' @
          require (get ''source'' = JStr ''mynetwork_recommendations'')
            ''discovery tasks require payload.source=mynetwork_recommendations'' @
          require (get ''section_cursor'' \<noteq> JNull) ''discovery tasks require payload.section_cursor'')
      | ENRICH_EMAIL \<Rightarrow> Inr (
          require (given ''lead_id'') ''enrich_email tasks require payload.lead_id'' @
          require (given ''operator'') ''enrich_email tasks require non-empty payload.operator'')
      | GMAIL_FOLLOW_UP \<Rightarrow> Inr (
          require (given ''lead_id'') ''gmail_follow_up tasks require payload.lead_id'' @
          require (given ''operator'') ''gmail_follow_up tasks require non-empty payload.operator'' @
          require (get ''step_index'' \<noteq> JNull) ''gmail_follow_up tasks require payload.step_index'')
      | DRIP_LINKEDIN \<Rightarrow> Inr (
          require (positive_integer (get ''delivery_id''))
            ''drip_linkedin tasks require a positive integer payload.delivery_id'' @
          require (given ''operator'') ''drip_linkedin tasks require non-empty payload.operator'')
      | DRIP_GMAIL \<Rightarrow> Inr (
          require (positive_integer (get ''delivery_id''))
            ''drip_gmail tasks require a positive integer payload.delivery_id'' @
          require (given ''operator'') ''drip_gmail tasks require non-empty payload.operator'')
      | _ \<Rightarrow> Inr [])"

definition task_clean :: "task \<Rightarrow> (task_failure, unit) result" where
  "task_clean t =
     (if \<not> active_task t then Inr ()
      else bind_result (payload_errors (task_type t) (task_payload t)) (\<lambda>errors.
        if errors \<noteq> [] then Inl (TaskValidationError errors) else Inr ()))"

section \<open>Life cycle\<close>

definition update_task :: "int \<Rightarrow> (task \<Rightarrow> task) \<Rightarrow> task list \<Rightarrow> task list" where
  "update_task pk f ts = map (\<lambda>t. if task_pk t = pk then f t else t) ts"

text \<open>
  \<open>save(update_fields=...)\<close> validates the object in memory, then writes the named columns of its
  row, which must exist. A new row gets the next key.
\<close>

definition save_task :: "task \<Rightarrow> (task \<Rightarrow> task) \<Rightarrow> task list \<Rightarrow> (task_failure, task list) result" where
  "save_task obj columns ts =
     bind_result (task_clean obj) (\<lambda>_.
       if \<exists>t \<in> set ts. task_pk t = task_pk obj then Inr (update_task (task_pk obj) columns ts)
       else Inl TaskDatabaseError)"

definition mark_running :: "int \<Rightarrow> task \<Rightarrow> task list \<Rightarrow> (task_failure, task list) result" where
  "mark_running now t ts = save_task (start_task now t) (start_task now) ts"

definition complete_task :: "int \<Rightarrow> task \<Rightarrow> task" where
  "complete_task now t = t\<lparr>task_status := COMPLETED, task_completed_at := Some now\<rparr>"

definition mark_completed :: "int \<Rightarrow> task \<Rightarrow> task list \<Rightarrow> (task_failure, task list) result" where
  "mark_completed now t ts = save_task (complete_task now t) (complete_task now) ts"

definition fail_task :: "string \<Rightarrow> task \<Rightarrow> task" where
  "fail_task e t = t\<lparr>task_status := FAILED, task_error := e\<rparr>"

definition mark_failed :: "string \<Rightarrow> task \<Rightarrow> task list \<Rightarrow> (task_failure, task list) result" where
  "mark_failed e t ts = save_task (fail_task e t) (fail_task e) ts"

section \<open>The enrichment worker\<close>

text \<open>\<open>linkedin/enrichment/worker.py\<close>: its scope, its claim and its recovery of stale tasks.\<close>

definition enrichment_owned :: "string \<Rightarrow> bool \<Rightarrow> task \<Rightarrow> bool" where
  "enrichment_owned op include_phone t \<longleftrightarrow>
     (task_type t = ENRICH_EMAIL \<and> payload_operator_is op t) \<or>
     (include_phone \<and> task_type t = ENRICH_PHONE)"

definition enrichment_claim ::
  "string \<Rightarrow> bool \<Rightarrow> int \<Rightarrow> task list \<Rightarrow> (task_failure, task option \<times> task list) result" where
  "enrichment_claim op include_phone now ts =
     (case sort_key (\<lambda>t. (task_scheduled_at t, task_pk t))
             (filter (\<lambda>t. enrichment_owned op include_phone t \<and> task_status t = PENDING \<and>
                task_scheduled_at t \<le> now) ts) of
        [] \<Rightarrow> Inr (None, ts)
      | t # _ \<Rightarrow> bind_result (mark_running now t ts) (\<lambda>ts'. Inr (Some (start_task now t), ts')))"

definition reset_task :: "task \<Rightarrow> task" where
  "reset_task t = t\<lparr>task_status := PENDING, task_started_at := None\<rparr>"

definition enrichment_stale :: "int \<Rightarrow> task \<Rightarrow> bool" where
  "enrichment_stale stale_before t \<longleftrightarrow> task_status t = RUNNING \<and>
     (case task_started_at t of Some s \<Rightarrow> s < stale_before | None \<Rightarrow> task_created_at t < stale_before)"

definition reclaim_stale :: "string \<Rightarrow> bool \<Rightarrow> int \<Rightarrow> task list \<Rightarrow> task list" where
  "reclaim_stale op include_phone stale_before ts =
     map (\<lambda>t. if enrichment_owned op include_phone t \<and> enrichment_stale stale_before t
              then reset_task t else t) ts"

section \<open>What a claim takes\<close>

lemma set_pending: "set (pending ts) = {t \<in> set ts. task_status t = PENDING}"
  by (simp add: pending_def)

lemma sorted_pending: "sorted (map task_scheduled_at (pending ts))"
  by (simp add: pending_def)

lemma set_due: "set (due now ts) = {t \<in> set ts. task_status t = PENDING \<and> task_scheduled_at t \<le> now}"
  by (auto simp: due_def set_pending)

lemma sorted_due: "sorted (map task_scheduled_at (filter P (due now ts)))"
  unfolding due_def filter_filter by (rule sorted_filter) (rule sorted_pending)

text \<open>The tasks that a daemon could claim, in the order of their times.\<close>

definition eligible ::
  "int \<Rightarrow> string option \<Rightarrow> int list option \<Rightarrow> task_type list option \<Rightarrow> task list \<Rightarrow> task list" where
  "eligible now operator campaign_ids task_types ts =
     filter (daemon_filter operator campaign_ids task_types) (due now ts)"

definition higher_priorities :: "campaign_row list \<Rightarrow> task \<Rightarrow> (int \<times> nat) list" where
  "higher_priorities campaigns candidate =
     filter (\<lambda>(pk, p). current_priority (priorities_of campaigns) candidate < p) (priorities_of campaigns)"

lemma sort_key_head:
  assumes "sort_key f xs = x # ys"
  shows "x \<in> set xs" and "y \<in> set xs \<Longrightarrow> f x \<le> f y"
proof -
  have s: "set (x # ys) = set xs" "sorted (map f (x # ys))" using set_sort [of f xs] sorted_sort_key [of f xs] unfolding assms by simp_all
  then show "x \<in> set xs" by auto
  assume "y \<in> set xs"
  then have "y = x \<or> y \<in> set ys" using s(1) by auto
  then show "f x \<le> f y" using s(2) by auto
qed

definition turn :: "(int \<times> nat) list \<Rightarrow> task \<Rightarrow> int \<times> int" where
  "turn higher t = (- int (annotated_priority higher t), task_scheduled_at t)"

lemma prioritize_cases:
  obtains (same) "prioritize_campaign_connect campaigns candidate qs = candidate"
      and "higher_connections (higher_priorities campaigns candidate) qs = []"
  | (higher) t where "prioritize_campaign_connect campaigns candidate qs = t"
      and "t \<in> set (higher_connections (higher_priorities campaigns candidate) qs)"
      and "\<And>u. u \<in> set (higher_connections (higher_priorities campaigns candidate) qs) \<Longrightarrow>
        turn (higher_priorities campaigns candidate) t \<le> turn (higher_priorities campaigns candidate) u"
proof -
  let ?h = "higher_priorities campaigns candidate"
  let ?s = "sort_key (turn ?h) (higher_connections ?h qs)"
  have none: "?h = [] \<Longrightarrow> higher_connections ?h qs = []"
    by (simp add: higher_connections_def split: option.splits)
  have empty: "priorities_of campaigns = [] \<Longrightarrow> ?h = []" by (simp add: higher_priorities_def)
  have r: "prioritize_campaign_connect campaigns candidate qs =
      (if priorities_of campaigns = [] \<or> ?h = [] then candidate
       else case ?s of [] \<Rightarrow> candidate | t # _ \<Rightarrow> t)"
    by (simp add: prioritize_campaign_connect_def Let_def higher_priorities_def turn_def [abs_def])
  show thesis
  proof (cases "?s")
    case Nil
    then have "set ?s = {}" by simp
    then have "higher_connections ?h qs = []" by simp
    moreover have "prioritize_campaign_connect campaigns candidate qs = candidate" using r Nil by simp
    ultimately show thesis using same by blast
  next
    case (Cons t xs)
    note head = sort_key_head [OF Cons]
    then have "?h \<noteq> []" using none by auto
    then have "prioritize_campaign_connect campaigns candidate qs = t" using r Cons empty by auto
    then show thesis using head by (rule higher)
  qed
qed

lemma higher_connections_in:
  "t \<in> set (higher_connections h qs) \<Longrightarrow> t \<in> set qs \<and> task_type t = CONNECT"
  by (auto simp: higher_connections_def Let_def split: option.splits)

lemma prioritize_in:
  "candidate \<in> set qs \<Longrightarrow> prioritize_campaign_connect campaigns candidate qs \<in> set qs"
  by (rule prioritize_cases [of campaigns candidate qs]) (auto dest: higher_connections_in)

text \<open>The lane of a task: the first priority query that it satisfies.\<close>

definition lane :: "int \<Rightarrow> int \<Rightarrow> task \<Rightarrow> nat" where
  "lane delay now t =
     (case task_type t of
        MANUAL_REPLY \<Rightarrow> 0 | FEED_COMMENT \<Rightarrow> 1 | FEED_LIKE \<Rightarrow> 2
      | SWEEP_CONNECTIONS \<Rightarrow> if task_scheduled_at t \<le> now - delay then 3 else 7
      | STATUS_SUMMARY \<Rightarrow> 4 | FOLLOW_UP \<Rightarrow> 5 | CONNECT \<Rightarrow> 5 | _ \<Rightarrow> 6)"

lemma nth_priority_queries:
  "i < length (priority_queries delay now) \<Longrightarrow>
     (priority_queries delay now ! i) t \<longleftrightarrow>
       i = lane delay now t \<or> (i = 7 \<and> lane delay now t = 3)"
proof -
  assume "i < length (priority_queries delay now)"
  then have "i \<in> {0, 1, 2, 3, 4, 5, 6, 7}" by (auto simp: priority_queries_def)
  then show ?thesis
    by (elim insertE) (auto simp: priority_queries_def lane_def split: task_type.splits)
qed

lemma lane_lt: "lane delay now t < length (priority_queries delay now)"
  by (auto simp: lane_def priority_queries_def split: task_type.splits)

lemma select_next_spec:
  assumes "select_next delay now campaigns operator campaign_ids task_types ts = Some t"
  obtains candidate where "candidate \<in> set (eligible now operator campaign_ids task_types ts)"
    and "t = (if task_type candidate = CONNECT
      then prioritize_campaign_connect campaigns candidate (eligible now operator campaign_ids task_types ts)
      else candidate)"
    and "\<forall>u \<in> set (eligible now operator campaign_ids task_types ts). lane delay now candidate \<le> lane delay now u \<and>
      (lane delay now u = lane delay now candidate \<longrightarrow> task_scheduled_at candidate \<le> task_scheduled_at u)"
proof -
  let ?qs = "eligible now operator campaign_ids task_types ts"
  from assms obtain c where f: "first_some (\<lambda>P. List.find P ?qs) (priority_queries delay now) = Some c"
    and t: "t = (if task_type c = CONNECT then prioritize_campaign_connect campaigns c ?qs else c)"
    by (auto simp: select_next_def Let_def eligible_def [symmetric] split: option.splits)
  from first_some_SomeD [OF f] obtain i where i: "i < length (priority_queries delay now)"
    "List.find (priority_queries delay now ! i) ?qs = Some c"
    "\<forall>j < i. List.find (priority_queries delay now ! j) ?qs = None" by blast
  from find_Some_iff_mem [OF i(2)] have c: "c \<in> set ?qs" "(priority_queries delay now ! i) c" by simp_all
  have none: "\<not> (priority_queries delay now ! j) u" if "j < i" "u \<in> set ?qs" for j u
    using i(3) that by (auto simp: find_None_iff)
  have own: "(priority_queries delay now ! lane delay now u) u" for u
    by (simp add: nth_priority_queries [OF lane_lt])
  have ge: "i \<le> lane delay now u" if "u \<in> set ?qs" for u
    using none [OF _ that, of "lane delay now u"] own [of u] by (meson not_le)
  have "lane delay now c = i"
    using c(2) ge [OF c(1)] by (auto simp: nth_priority_queries [OF i(1)])
  moreover have "task_scheduled_at c \<le> task_scheduled_at u" if "u \<in> set ?qs" "lane delay now u = i" for u
  proof (rule find_sorted_least [OF _ i(2) that(1)])
    show "sorted (map task_scheduled_at ?qs)" unfolding eligible_def by (rule sorted_due)
    show "(priority_queries delay now ! i) u" using own [of u] that(2) by simp
  qed
  ultimately show thesis using c(1) t ge by (intro that) auto
qed

lemma claim_next_spec:
  assumes "claim_next delay now campaigns operator campaign_ids task_types ts = (Some t, ts')"
  obtains r where "select_next delay now campaigns operator campaign_ids task_types ts = Some r"
    and "t = start_task now r" and "r \<in> set (eligible now operator campaign_ids task_types ts)"
    and "ts' = map (\<lambda>x. if task_pk x = task_pk r \<and> task_status x = PENDING then start_task now x else x) ts"
proof -
  from assms obtain r where s: "select_next delay now campaigns operator campaign_ids task_types ts = Some r"
    and c: "t = start_task now r"
      "ts' = map (\<lambda>x. if task_pk x = task_pk r \<and> task_status x = PENDING then start_task now x else x) ts"
    by (auto simp: claim_next_def claim_candidate_def split: option.splits if_splits)
  from s obtain candidate where
    "candidate \<in> set (eligible now operator campaign_ids task_types ts)"
    "r = (if task_type candidate = CONNECT
      then prioritize_campaign_connect campaigns candidate (eligible now operator campaign_ids task_types ts)
      else candidate)" by (rule select_next_spec)
  then have "r \<in> set (eligible now operator campaign_ids task_types ts)" using prioritize_in by simp
  with s c show thesis by (intro that)
qed

lemma set_eligible:
  "set (eligible now operator campaign_ids task_types ts) =
     {t \<in> set ts. task_status t = PENDING \<and> task_scheduled_at t \<le> now \<and>
        daemon_filter operator campaign_ids task_types t}"
  by (auto simp: eligible_def set_due)

section \<open>Properties of a claim\<close>

text \<open>
  C13: a daemon only claims work of its own account: the claimed task was pending and due, is never
  enrichment, Gmail or legacy work, is one of the requested types, and, when it goes out from a
  LinkedIn account, either names this operator in its payload or is a connection request of one of
  the daemon's own campaigns. Only that row of the table changes.
\<close>

theorem claim_next_owned:
  assumes "claim_next delay now campaigns (Some op) campaign_ids task_types ts = (Some t, ts')"
    and "op \<noteq> ''''" and "distinct (map task_pk ts)"
  shows "\<exists>r \<in> set ts. t = start_task now r \<and> task_status r = PENDING \<and> task_scheduled_at r \<le> now \<and>
    task_type r \<notin> set non_linkedin_outbound_task_types \<and>
    (\<forall>ks. task_types = Some ks \<longrightarrow> task_type r \<in> set ks) \<and>
    (task_type r \<in> set linked_account_scoped_task_types \<longrightarrow>
       (if task_type r = CONNECT then \<exists>ids. campaign_ids = Some ids \<and> payload_campaign_in ids r
        else payload_operator_is op r)) \<and>
    ts' = map (\<lambda>x. if x = r then t else x) ts"
proof -
  from assms(1) obtain r where r: "t = start_task now r"
    "r \<in> set (eligible now (Some op) campaign_ids task_types ts)"
    "ts' = map (\<lambda>x. if task_pk x = task_pk r \<and> task_status x = PENDING then start_task now x else x) ts"
    by (rule claim_next_spec)
  then have e: "r \<in> set ts" "task_status r = PENDING" "task_scheduled_at r \<le> now"
    and f: "daemon_filter (Some op) campaign_ids task_types r"
    by (simp_all add: set_eligible)
  have "task_pk x = task_pk r \<and> task_status x = PENDING \<longleftrightarrow> x = r" if "x \<in> set ts" for x
    using assms(3) that e by (auto simp: distinct_map inj_on_def)
  then have "ts' = map (\<lambda>x. if x = r then t else x) ts" by (simp add: r(1,3))
  moreover have "task_type r \<notin> set non_linkedin_outbound_task_types"
    "\<forall>ks. task_types = Some ks \<longrightarrow> task_type r \<in> set ks" "operator_scope op campaign_ids r"
    using f assms(2) by (auto simp: daemon_filter_def)
  moreover from this(3) have "task_type r \<in> set linked_account_scoped_task_types \<longrightarrow>
       (if task_type r = CONNECT then \<exists>ids. campaign_ids = Some ids \<and> payload_campaign_in ids r
        else payload_operator_is op r)"
    by (auto simp: operator_scope_def linked_operator_scope_def Let_def payload_campaign_in_def
        split: option.splits)
  ultimately show ?thesis using e r(1) by blast
qed

text \<open>
  A claim finds work exactly when there is some: it returns a task if and only if a pending, due
  task passes the daemon's filters; the eight lanes leave no task type out.
\<close>

theorem claim_next_total:
  "fst (claim_next delay now campaigns operator campaign_ids task_types ts) = None \<longleftrightarrow>
     filter (\<lambda>t. task_status t = PENDING \<and> task_scheduled_at t \<le> now \<and>
        daemon_filter operator campaign_ids task_types t) ts = []"
proof -
  let ?qs = "eligible now operator campaign_ids task_types ts"
  let ?s = "select_next delay now campaigns operator campaign_ids task_types ts"
  have q: "?qs = [] \<longleftrightarrow> filter (\<lambda>t. task_status t = PENDING \<and> task_scheduled_at t \<le> now \<and>
        daemon_filter operator campaign_ids task_types t) ts = []"
    unfolding set_empty [symmetric] set_eligible by (simp only: set_filter)
  have "?s = None \<longleftrightarrow> ?qs = []"
  proof
    assume "?s = None"
    then have "first_some (\<lambda>P. List.find P ?qs) (priority_queries delay now) = None"
      by (auto simp: select_next_def Let_def eligible_def [symmetric] split: option.splits)
    then have n: "\<forall>P \<in> set (priority_queries delay now). \<forall>t \<in> set ?qs. \<not> P t"
      unfolding first_some_None find_None_iff by blast
    have "t \<notin> set ?qs" for t
    proof -
      have "priority_queries delay now ! lane delay now t \<in> set (priority_queries delay now)"
        by (rule nth_mem [OF lane_lt])
      moreover have "(priority_queries delay now ! lane delay now t) t"
        by (simp add: nth_priority_queries [OF lane_lt])
      ultimately show ?thesis using n by blast
    qed
    then show "?qs = []" by (metis list.set_intros(1) neq_Nil_conv)
  next
    assume "?qs = []"
    then have "List.find P ?qs = None" for P by simp
    then show "?s = None"
      by (simp add: select_next_def Let_def eligible_def [symmetric] priority_queries_def)
  qed
  moreover have "fst (claim_next delay now campaigns operator campaign_ids task_types ts) = None \<longleftrightarrow> ?s = None"
  proof (cases ?s)
    case (Some r)
    then obtain candidate where "candidate \<in> set ?qs"
      "r = (if task_type candidate = CONNECT then prioritize_campaign_connect campaigns candidate ?qs else candidate)"
      by (rule select_next_spec)
    then have "r \<in> set ?qs" using prioritize_in by simp
    then have "\<exists>x \<in> set ts. task_pk x = task_pk r \<and> task_status x = PENDING" by (auto simp: set_eligible)
    with Some show ?thesis by (simp add: claim_next_def claim_candidate_def)
  qed (simp add: claim_next_def claim_candidate_def)
  ultimately show ?thesis using q by simp
qed

subsection \<open>The priority of a campaign\<close>

text \<open>What a connection request's payload names, and the priority that the active campaign gives it.\<close>

definition names_campaign :: "task \<Rightarrow> campaign_row \<Rightarrow> bool" where
  "names_campaign t c \<longleftrightarrow> db_ref (json_get (task_payload t) ''campaign_id'') (campaign_pk c)"

definition campaign_priority :: "campaign_row list \<Rightarrow> task \<Rightarrow> nat" where
  "campaign_priority campaigns t =
     (case List.find (\<lambda>c. campaign_active c \<and> names_campaign t c) campaigns of
        None \<Rightarrow> 0 | Some c \<Rightarrow> connection_priority c)"

lemma db_eq_int_unique: "db_eq_int v i \<Longrightarrow> db_eq_int v j \<Longrightarrow> i = j"
  by (cases "(v, i)" rule: db_eq_int.cases) auto

lemma db_ref_unique: "db_ref v i \<Longrightarrow> db_ref v j \<Longrightarrow> i = j"
  unfolding db_ref_def using db_eq_int_unique by (cases v) auto

lemma db_ref_py: "(\<And>b. v \<noteq> JBool b) \<Longrightarrow> py_ref v i = db_ref v i"
  by (cases "(v, i)" rule: db_eq_int.cases) (auto simp: db_ref_def py_ref_def)

lemma unnamed_annotation:
  assumes "\<forall>c \<in> set campaigns. \<not> names_campaign t c"
  shows "List.find (\<lambda>(pk, p). db_ref (json_get (task_payload t) ''campaign_id'') pk) (filter Q (priorities_of campaigns)) = None"
  using assms by (auto simp: find_None_iff priorities_of_def names_campaign_def)

lemma annotation:
  assumes "distinct (map campaign_pk campaigns)"
  shows "List.find (\<lambda>(pk, p). db_ref (json_get (task_payload t) ''campaign_id'') pk)
      (filter (\<lambda>(pk, p). k < p) (priorities_of campaigns)) =
    (case List.find (\<lambda>c. campaign_active c \<and> names_campaign t c) campaigns of
       None \<Rightarrow> None
     | Some c \<Rightarrow> if k < connection_priority c then Some (campaign_pk c, connection_priority c) else None)"
  using assms
proof (induction campaigns)
  case Nil
  then show ?case by (simp add: priorities_of_def)
next
  case (Cons c cs)
  let ?ref = "db_ref (json_get (task_payload t) ''campaign_id'')"
  have cons: "priorities_of (c # cs) = (if campaign_active c \<and> 0 < connection_priority c
      then (campaign_pk c, connection_priority c) # priorities_of cs else priorities_of cs)"
    by (simp add: priorities_of_def)
  show ?case
  proof (cases "campaign_active c \<and> names_campaign t c")
    case True
    then have "\<forall>x \<in> set cs. \<not> names_campaign t x"
      using Cons.prems db_ref_unique unfolding names_campaign_def by fastforce
    from unnamed_annotation [OF this] True show ?thesis by (auto simp: cons names_campaign_def)
  next
    case False
    then have "\<not> ?ref (campaign_pk c)" if "campaign_active c" using that by (simp add: names_campaign_def)
    with Cons False show ?thesis by (auto simp: cons)
  qed
qed

lemma annotated:
  assumes "distinct (map campaign_pk campaigns)"
  shows "annotated_priority (higher_priorities campaigns c) t =
      (if current_priority (priorities_of campaigns) c < campaign_priority campaigns t then campaign_priority campaigns t else 0)"
    and "(\<exists>(pk, p) \<in> set (higher_priorities campaigns c). db_ref (json_get (task_payload t) ''campaign_id'') pk) \<longleftrightarrow>
      current_priority (priorities_of campaigns) c < campaign_priority campaigns t"
proof -
  let ?P = "\<lambda>(pk, p :: nat). db_ref (json_get (task_payload t) ''campaign_id'') pk"
  note f = annotation [OF assms, of t "current_priority (priorities_of campaigns) c", folded higher_priorities_def]
  show "annotated_priority (higher_priorities campaigns c) t =
      (if current_priority (priorities_of campaigns) c < campaign_priority campaigns t then campaign_priority campaigns t else 0)"
    unfolding annotated_priority_def f campaign_priority_def by (simp split: option.splits)
  have "(\<exists>x \<in> set (higher_priorities campaigns c). ?P x) \<longleftrightarrow> List.find ?P (higher_priorities campaigns c) \<noteq> None"
    by (auto simp: find_None_iff)
  then show "(\<exists>(pk, p) \<in> set (higher_priorities campaigns c). db_ref (json_get (task_payload t) ''campaign_id'') pk) \<longleftrightarrow>
      current_priority (priorities_of campaigns) c < campaign_priority campaigns t"
    unfolding f campaign_priority_def by (simp split: option.splits)
qed

lemma current_is_campaign_priority:
  assumes "distinct (map campaign_pk campaigns)" and "\<And>b. json_get (task_payload t) ''campaign_id'' \<noteq> JBool b"
  shows "current_priority (priorities_of campaigns) t = campaign_priority campaigns t"
proof -
  have all: "filter (\<lambda>(pk, p). 0 < p) (priorities_of campaigns) = priorities_of campaigns"
    by (auto simp: priorities_of_def filter_id_conv)
  show ?thesis
    using annotation [OF assms(1), of t 0] unfolding all current_priority_def campaign_priority_def db_ref_py [OF assms(2)]
    by (auto split: option.splits if_splits)
qed

lemma set_higher_connections:
  assumes "distinct (map campaign_pk campaigns)" and sorted: "sorted (map task_scheduled_at qs)"
  shows "u \<in> set (higher_connections (higher_priorities campaigns c) qs) \<longleftrightarrow> u \<in> set qs \<and> task_type u = CONNECT \<and>
    current_priority (priorities_of campaigns) c < campaign_priority campaigns u \<and>
    (\<forall>v \<in> set qs. task_type v = FOLLOW_UP \<longrightarrow> task_scheduled_at u < task_scheduled_at v)"
proof -
  have first: "(\<forall>v \<in> set qs. task_type v = FOLLOW_UP \<longrightarrow> task_scheduled_at u < task_scheduled_at v) \<longleftrightarrow>
      task_scheduled_at u < task_scheduled_at f" if f: "List.find (\<lambda>t. task_type t = FOLLOW_UP) qs = Some f" for f
    using find_sorted_least [OF sorted f] find_Some_iff_mem [OF f] by (auto intro: less_le_trans)
  note def = higher_connections_def [of "higher_priorities campaigns c" qs, unfolded Let_def annotated(2) [OF assms(1)]]
  show ?thesis
  proof (cases "List.find (\<lambda>t. task_type t = FOLLOW_UP) qs")
    case None
    then have "\<forall>v \<in> set qs. task_type v \<noteq> FOLLOW_UP" by (auto simp: find_None_iff)
    then show ?thesis unfolding def None by auto
  next
    case (Some f)
    show ?thesis unfolding def Some using first [OF Some] by auto
  qed
qed

text \<open>The prioritised request among the tasks that the daemon could claim, when the first of the lane is a request.\<close>

lemma prioritize_turns:
  assumes pks: "distinct (map campaign_pk campaigns)" and sorted: "sorted (map task_scheduled_at qs)"
    and c: "task_type c = CONNECT" and first: "\<forall>v \<in> set qs. task_type v \<in> {FOLLOW_UP, CONNECT} \<longrightarrow> task_scheduled_at c \<le> task_scheduled_at v"
    and r: "r = prioritize_campaign_connect campaigns c qs" and u: "u \<in> set qs"
  shows "task_type r = CONNECT"
    and "task_type u \<in> {FOLLOW_UP, CONNECT} \<Longrightarrow> task_scheduled_at u < task_scheduled_at r \<Longrightarrow>
      task_type u = CONNECT \<and> campaign_priority campaigns u < campaign_priority campaigns r"
    and "task_type u = CONNECT \<Longrightarrow> campaign_priority campaigns r < campaign_priority campaigns u \<Longrightarrow>
      (\<And>b. json_get (task_payload r) ''campaign_id'' \<noteq> JBool b) \<Longrightarrow>
      \<exists>v \<in> set qs. task_type v = FOLLOW_UP \<and> task_scheduled_at v \<le> task_scheduled_at u"
proof -
  let ?prio = "campaign_priority campaigns" and ?floor = "current_priority (priorities_of campaigns) c"
  let ?conns = "higher_connections (higher_priorities campaigns c) qs"
  note conns = set_higher_connections [OF pks sorted, of _ c]
  show "task_type r = CONNECT"
    unfolding r by (cases rule: prioritize_cases [of campaigns c qs]) (simp_all add: c conns)
  have least: "?prio v < ?prio r \<or> ?prio v = ?prio r \<and> task_scheduled_at r \<le> task_scheduled_at v"
    if "r \<noteq> c" "v \<in> set ?conns" for v
    using that(1) unfolding r
  proof (cases rule: prioritize_cases [of campaigns c qs])
    case (higher x)
    then show "?prio v < ?prio (prioritize_campaign_connect campaigns c qs) \<or> ?prio v = ?prio (prioritize_campaign_connect campaigns c qs) \<and>
        task_scheduled_at (prioritize_campaign_connect campaigns c qs) \<le> task_scheduled_at v"
      using higher(3) [OF that(2)] conns [THEN iffD1, OF that(2)] conns [THEN iffD1, OF higher(2)]
      by (auto simp: turn_def annotated(1) [OF pks] less_eq_prod_def)
  qed simp
  have moved: "r \<in> set ?conns \<or> r = c"
    unfolding r by (cases rule: prioritize_cases [of campaigns c qs]) simp_all
  show "task_type u = CONNECT \<and> ?prio u < ?prio r"
    if t: "task_type u \<in> {FOLLOW_UP, CONNECT}" and early: "task_scheduled_at u < task_scheduled_at r"
  proof -
    have rc: "r \<noteq> c" "r \<in> set ?conns" using first u t early moved by auto
    note x = conns [THEN iffD1, OF rc(2)]
    have "task_type u = CONNECT" using x u t early by auto
    moreover have "?prio u < ?prio r"
    proof (cases "u \<in> set ?conns")
      case True
      then show ?thesis using least [OF rc(1)] early by fastforce
    next
      case False
      then have "?prio u \<le> ?floor" using conns [of u] u x early \<open>task_type u = CONNECT\<close> by (auto simp: not_less intro: less_trans)
      then show ?thesis using x by simp
    qed
    ultimately show ?thesis by simp
  qed
  show "\<exists>v \<in> set qs. task_type v = FOLLOW_UP \<and> task_scheduled_at v \<le> task_scheduled_at u"
    if t: "task_type u = CONNECT" and more: "?prio r < ?prio u" and nb: "\<And>b. json_get (task_payload r) ''campaign_id'' \<noteq> JBool b"
  proof -
    have "u \<notin> set ?conns \<and> ?floor < ?prio u"
    proof (cases "r = c")
      case True
      have empty: "?conns = [] \<or> c \<in> set ?conns"
        by (cases rule: prioritize_cases [of campaigns c qs]) (use r True in auto)
      have floor: "?floor = ?prio c" by (rule current_is_campaign_priority [OF pks nb [unfolded True]])
      then have "?conns = []" using empty conns [of c] by auto
      then show ?thesis using more True floor by simp
    next
      case False
      then show ?thesis using least [OF False, of u] more moved conns [of r] by auto
    qed
    then show ?thesis using conns [of u] u t by (auto simp: not_less)
  qed
qed

text \<open>
  C32: claims respect the lanes and the campaigns. The claimed task is in the best lane of all tasks that the daemon
  could claim. Another task of that lane that was scheduled earlier is passed over only when both are connection requests and
  the claimed one's campaign has strictly higher priority; and a request of a campaign with still higher
  priority is left waiting only behind a due follow-up.
\<close>

theorem claim_next_lanes:
  assumes claimed: "claim_next delay now campaigns operator campaign_ids task_types ts = (Some t, ts')"
    and pks: "distinct (map campaign_pk campaigns)" and u: "u \<in> set (eligible now operator campaign_ids task_types ts)"
  shows "lane delay now t \<le> lane delay now u \<and>
    (lane delay now u = lane delay now t \<and> task_scheduled_at u < task_scheduled_at t \<longrightarrow>
       task_type t = CONNECT \<and> task_type u = CONNECT \<and> campaign_priority campaigns u < campaign_priority campaigns t) \<and>
    (task_type t = CONNECT \<and> task_type u = CONNECT \<and> campaign_priority campaigns t < campaign_priority campaigns u \<and>
       (\<forall>b. json_get (task_payload t) ''campaign_id'' \<noteq> JBool b) \<longrightarrow>
       (\<exists>v \<in> set (eligible now operator campaign_ids task_types ts).
          task_type v = FOLLOW_UP \<and> task_scheduled_at v \<le> task_scheduled_at u))"
proof -
  let ?qs = "eligible now operator campaign_ids task_types ts"
  from claimed obtain r where s: "select_next delay now campaigns operator campaign_ids task_types ts = Some r"
    and t: "t = start_task now r" by (rule claim_next_spec)
  from s obtain c where c: "c \<in> set ?qs"
      "r = (if task_type c = CONNECT then prioritize_campaign_connect campaigns c ?qs else c)"
    and l: "\<forall>u \<in> set ?qs. lane delay now c \<le> lane delay now u \<and>
      (lane delay now u = lane delay now c \<longrightarrow> task_scheduled_at c \<le> task_scheduled_at u)"
    by (rule select_next_spec)
  have tr: "lane delay now t = lane delay now r" "task_type t = task_type r"
    "campaign_priority campaigns t = campaign_priority campaigns r"
    "task_scheduled_at t = task_scheduled_at r" "task_payload t = task_payload r"
    by (simp_all add: t start_task_def lane_def campaign_priority_def names_campaign_def)
  show ?thesis
  proof (cases "task_type c = CONNECT")
    case False
    then have "r = c" using c(2) by simp
    with l u False show ?thesis unfolding tr by auto
  next
    case True
    then have r: "r = prioritize_campaign_connect campaigns c ?qs" using c(2) by simp
    have five: "lane delay now v = 5 \<longleftrightarrow> task_type v \<in> {FOLLOW_UP, CONNECT}" for v
      by (auto simp: lane_def split: task_type.splits if_splits)
    have sorted: "sorted (map task_scheduled_at ?qs)" by (simp add: eligible_def sorted_due)
    have first: "\<forall>v \<in> set ?qs. task_type v \<in> {FOLLOW_UP, CONNECT} \<longrightarrow> task_scheduled_at c \<le> task_scheduled_at v"
      using l five True by (metis insertI1 insert_commute)
    note turns = prioritize_turns [OF pks sorted True first r u]
    have "lane delay now r = 5" "lane delay now c = 5" using five turns(1) True by simp_all
    then show ?thesis using turns l u five [of u] unfolding tr by auto
  qed
qed

definition sample_task :: "int \<Rightarrow> task_type \<Rightarrow> int \<Rightarrow> json_object \<Rightarrow> task" where
  "sample_task pk k at_time payload =
     \<lparr>task_pk = pk, task_type = k, task_status = PENDING, task_scheduled_at = at_time,
      task_payload = payload, task_error = '''', task_created_at = 0, task_started_at = None,
      task_completed_at = None\<rparr>"

definition sample_queue :: "task list" where
  "sample_queue =
     [sample_task 1 CONNECT 3 [(''campaign_id'', JInt 8)],
      sample_task 2 FOLLOW_UP 5 [(''operator'', JStr ''Arian'')],
      sample_task 3 FOLLOW_UP 1 [(''operator'', JStr ''Chuka'')],
      sample_task 4 CONNECT 4 [(''campaign_id'', JStr ''9'')]]"

lemma sample_claims:
  "case claim_next 30 10 [\<lparr>campaign_pk = 9, campaign_active = True, connection_priority = 2\<rparr>]
       (Some ''Arian'') (Some [8, 9]) None sample_queue of
     (None, _) \<Rightarrow> False | (Some t, _) \<Rightarrow> task_pk t = 1"
  by code_simp

theorem claim_next_owned_witness:
  "\<exists>t ts'. claim_next 30 10 [] (Some ''Arian'') (Some [8]) None sample_queue = (Some t, ts') \<and>
     (\<exists>r \<in> set sample_queue. t = start_task 10 r \<and> task_status r = PENDING)"
proof -
  have d: "distinct (map task_pk sample_queue)" by code_simp
  have "case claim_next 30 10 [] (Some ''Arian'') (Some [8]) None sample_queue of
     (None, _) \<Rightarrow> False | (Some t, _) \<Rightarrow> True" by code_simp
  then obtain t ts' where c: "claim_next 30 10 [] (Some ''Arian'') (Some [8]) None sample_queue = (Some t, ts')"
    by (auto split: prod.split_asm option.split_asm)
  from claim_next_owned [OF c _ d] c show ?thesis by auto
qed

definition sample_campaigns :: "campaign_row list" where
  "sample_campaigns = [\<lparr>campaign_pk = 9, campaign_active = True, connection_priority = 2\<rparr>,
     \<lparr>campaign_pk = 8, campaign_active = True, connection_priority = 1\<rparr>]"

definition sample_requests :: "task list" where
  "sample_requests =
     [sample_task 1 CONNECT 3 [(''campaign_id'', JInt 8)],
      sample_task 4 CONNECT 4 [(''campaign_id'', JInt 9)],
      sample_task 2 FOLLOW_UP 5 [(''operator'', JStr ''Arian'')]]"

text \<open>The request of campaign 9 at time 4 is taken before the earlier one of campaign 8.\<close>

theorem claim_next_lanes_witness:
  "\<exists>t ts'. claim_next 30 10 sample_campaigns (Some ''Arian'') (Some [8, 9]) None sample_requests = (Some t, ts') \<and> task_pk t = 4 \<and>
     (let u = sample_task 1 CONNECT 3 [(''campaign_id'', JInt 8)] in
        u \<in> set (eligible 10 (Some ''Arian'') (Some [8, 9]) None sample_requests) \<and> task_scheduled_at u < task_scheduled_at t \<and>
        campaign_priority sample_campaigns u < campaign_priority sample_campaigns t)"
proof -
  let ?claim = "claim_next 30 10 sample_campaigns (Some ''Arian'') (Some [8, 9]) None sample_requests"
  let ?u = "sample_task 1 CONNECT 3 [(''campaign_id'', JInt 8)]"
  have "case ?claim of (None, _) \<Rightarrow> False | (Some t, _) \<Rightarrow> task_pk t = 4 \<and> task_scheduled_at t = 4 \<and> lane 30 10 t = 5"
    by code_simp
  then obtain t ts' where c: "?claim = (Some t, ts')" and t: "task_pk t = 4" "task_scheduled_at t = 4" "lane 30 10 t = 5"
    by (auto split: prod.split_asm option.split_asm)
  have d: "distinct (map campaign_pk sample_campaigns)" by code_simp
  have u: "?u \<in> set (eligible 10 (Some ''Arian'') (Some [8, 9]) None sample_requests)"
    unfolding set_eligible by (simp add: sample_requests_def) code_simp
  have "lane 30 10 ?u = 5" "task_scheduled_at ?u = 3" by code_simp+
  with claim_next_lanes [OF c d u] c t u show ?thesis by auto
qed

end
