(* ===== verification/Task_Claims.thy ===== *)
theory Task_Claims
  imports Task_Queue
begin

text \<open>
  Several daemons on one task table. \<open>TaskQuerySet.claim_next\<close> reads a candidate and then updates
  it in a second statement, so between the two another daemon may claim it, Slack may cancel it, or a
  recovery may reset it. The step relation interleaves the two statements of every daemon with all
  of these and records them in a history. A task is shown to be claimed again only after its row was
  set back, and the history says from what.
\<close>

section \<open>Steps\<close>

datatype queue_event =
    Created int
  | Claimed nat int
  | Closed int task_status
  | Recovered int
  | Requeued int
  | Cancelled int

text \<open>The history lists the latest event first.\<close>

record queue_state =
  table :: "task list"
  next_pk :: int
  candidates :: "nat \<Rightarrow> task option"
  history :: "queue_event list"

definition initial_queue :: queue_state where
  "initial_queue = \<lparr>table = [], next_pk = 1, candidates = (\<lambda>_. None), history = []\<rparr>"

text \<open>The startup recovery of \<open>heal_tasks\<close>: the stale running browser tasks of one sender, without the marked ones.\<close>

definition stale_owned :: "int \<Rightarrow> string \<Rightarrow> int list \<Rightarrow> task \<Rightarrow> bool" where
  "stale_owned stale_before op campaign_ids t \<longleftrightarrow> task_status t = RUNNING \<and>
     (case task_started_at t of Some s \<Rightarrow> s < stale_before | None \<Rightarrow> True) \<and>
     linked_operator_scope op (Some campaign_ids) t"

definition heal_stale :: "int \<Rightarrow> string \<Rightarrow> int list \<Rightarrow> int list \<Rightarrow> task list \<Rightarrow> task list" where
  "heal_stale stale_before op campaign_ids stale_media ts =
     map (\<lambda>t. if stale_owned stale_before op campaign_ids t \<and> task_type t \<noteq> DRIP_LINKEDIN \<and> task_pk t \<notin> set stale_media
              then reset_task t else t) ts"

definition reset_rows :: "(task \<Rightarrow> bool) \<Rightarrow> task list \<Rightarrow> task list" where
  "reset_rows stale ts = map (\<lambda>t. if stale t then reset_task t else t) ts"

text \<open>What a statement that writes one row makes of it.\<close>

definition leaves :: "task_status \<Rightarrow> (task \<Rightarrow> task) \<Rightarrow> bool" where
  "leaves st f \<longleftrightarrow> (\<forall>t. task_pk (f t) = task_pk t \<and> task_status (f t) = st)"

definition row_in :: "int \<Rightarrow> task_status set \<Rightarrow> task list \<Rightarrow> bool" where
  "row_in pk sts ts \<longleftrightarrow> (\<exists>t \<in> set ts. task_pk t = pk \<and> task_status t \<in> sts)"

inductive queue_step :: "queue_state \<Rightarrow> queue_state \<Rightarrow> bool" where
  enqueue: "task_pk t = next_pk s \<Longrightarrow> task_status t = PENDING \<Longrightarrow>
    queue_step s (s\<lparr>table := table s @ [t], next_pk := next_pk s + 1, history := Created (next_pk s) # history s\<rparr>)"
| select: "queue_step s (s\<lparr>candidates :=
    (candidates s)(d := select_next delay now campaigns operator campaign_ids task_types (table s))\<rparr>)"
| claim: "claim_candidate now (candidates s d) (table s) = (Some t, ts') \<Longrightarrow>
    queue_step s (s\<lparr>table := ts', candidates := (candidates s)(d := None), history := Claimed d (task_pk t) # history s\<rparr>)"
| refused: "claim_candidate now (candidates s d) (table s) = (None, ts') \<Longrightarrow>
    queue_step s (s\<lparr>table := ts', candidates := (candidates s)(d := None)\<rparr>)"
| locked_claim: "enrichment_claim op include_phone now (table s) = Inr (Some t, ts') \<Longrightarrow>
    queue_step s (s\<lparr>table := ts', history := Claimed d (task_pk t) # history s\<rparr>)"
| cancel: "row_in pk {PENDING} (table s) \<Longrightarrow>
    queue_step s (s\<lparr>table := filter (\<lambda>t. \<not> (task_pk t = pk \<and> task_status t = PENDING)) (table s),
      history := Cancelled pk # history s\<rparr>)"
| edit: "(\<And>t. task_pk (f t) = task_pk t \<and> task_status (f t) = task_status t) \<Longrightarrow>
    queue_step s (s\<lparr>table := map f (table s)\<rparr>)"
| close: "leaves st f \<Longrightarrow> st \<in> {COMPLETED, FAILED} \<Longrightarrow> row_in pk UNIV (table s) \<Longrightarrow>
    queue_step s (s\<lparr>table := update_task pk f (table s), history := Closed pk st # history s\<rparr>)"
| requeue: "leaves PENDING f \<Longrightarrow> row_in pk {FAILED} (table s) \<Longrightarrow>
    queue_step s (s\<lparr>table := update_task pk f (table s), history := Requeued pk # history s\<rparr>)"
| recover: "(\<And>t. stale t \<Longrightarrow> task_status t = RUNNING) \<Longrightarrow>
    queue_step s (s\<lparr>table := reset_rows stale (table s),
      history := map (\<lambda>t. Recovered (task_pk t)) (filter stale (table s)) @ history s\<rparr>)"

inductive reachable :: "queue_state \<Rightarrow> bool" where
  start: "reachable initial_queue"
| step: "reachable s \<Longrightarrow> queue_step s s' \<Longrightarrow> reachable s'"

inductive_cases queue_stepE: "queue_step s s'"

section \<open>Histories\<close>

fun event_pk :: "queue_event \<Rightarrow> int" where
  "event_pk (Created pk) = pk"
| "event_pk (Claimed d pk) = pk"
| "event_pk (Closed pk st) = pk"
| "event_pk (Recovered pk) = pk"
| "event_pk (Requeued pk) = pk"
| "event_pk (Cancelled pk) = pk"

text \<open>The status that an event leaves; a cancelled row is gone.\<close>

fun leaves_status :: "queue_event \<Rightarrow> task_status option" where
  "leaves_status (Created pk) = Some PENDING"
| "leaves_status (Claimed d pk) = Some RUNNING"
| "leaves_status (Closed pk st) = Some st"
| "leaves_status (Recovered pk) = Some PENDING"
| "leaves_status (Requeued pk) = Some PENDING"
| "leaves_status (Cancelled pk) = None"

fun status_after :: "queue_event list \<Rightarrow> int \<Rightarrow> task_status option" where
  "status_after [] pk = None"
| "status_after (e # h) pk = (if event_pk e = pk then leaves_status e else status_after h pk)"

fun allowed_after :: "queue_event list \<Rightarrow> queue_event \<Rightarrow> bool" where
  "allowed_after h (Created pk) = (pk \<notin> event_pk ` set h)"
| "allowed_after h (Claimed d pk) = (status_after h pk = Some PENDING)"
| "allowed_after h (Closed pk st) = (status_after h pk \<noteq> None \<and> st \<in> {COMPLETED, FAILED})"
| "allowed_after h (Recovered pk) = (status_after h pk = Some RUNNING)"
| "allowed_after h (Requeued pk) = (status_after h pk = Some FAILED)"
| "allowed_after h (Cancelled pk) = (status_after h pk = Some PENDING)"

fun legal :: "queue_event list \<Rightarrow> bool" where
  "legal [] = True"
| "legal (e # h) = (allowed_after h e \<and> legal h)"

lemma legal_append: "legal (xs @ ys) \<Longrightarrow> legal ys"
  by (induction xs) auto

text \<open>The history and the table tell the same story.\<close>

definition queue_ok :: "queue_state \<Rightarrow> bool" where
  "queue_ok s \<longleftrightarrow> distinct (map task_pk (table s)) \<and> legal (history s) \<and>
     (\<forall>e \<in> set (history s). event_pk e < next_pk s) \<and>
     (\<forall>t \<in> set (table s). status_after (history s) (task_pk t) = Some (task_status t)) \<and>
     (\<forall>pk. pk \<notin> task_pk ` set (table s) \<longrightarrow> status_after (history s) pk = None)"

lemma queue_okD:
  assumes "queue_ok s"
  shows "distinct (map task_pk (table s))" and "legal (history s)"
    and "e \<in> set (history s) \<Longrightarrow> event_pk e < next_pk s"
    and "t \<in> set (table s) \<Longrightarrow> status_after (history s) (task_pk t) = Some (task_status t)"
    and "pk \<notin> task_pk ` set (table s) \<Longrightarrow> status_after (history s) pk = None"
  using assms unfolding queue_ok_def by blast+

lemma status_after_fresh: "pk \<notin> event_pk ` set h \<Longrightarrow> status_after h pk = None"
  by (induction h) auto

lemma status_after_known: "status_after h pk \<noteq> None \<Longrightarrow> pk \<in> event_pk ` set h"
  using status_after_fresh [of pk h] by (cases "pk \<in> event_pk ` set h") simp_all

section \<open>The invariant\<close>

lemma update_task_pks: "leaves st f \<Longrightarrow> map task_pk (update_task pk f ts) = map task_pk ts"
  by (simp add: update_task_def leaves_def)

lemma row_state:
  assumes "queue_ok s" and "row_in pk sts (table s)"
  obtains st where "st \<in> sts" and "status_after (history s) pk = Some st" and "pk \<in> task_pk ` set (table s)"
proof -
  from assms(2) obtain t where t: "t \<in> set (table s)" "task_pk t = pk" "task_status t \<in> sts" by (auto simp: row_in_def)
  then show thesis using queue_okD(4) [OF assms(1) t(1)] by (intro that [of "task_status t"]) auto
qed

text \<open>One statement writes one row.\<close>

lemma queue_ok_write:
  assumes ok: "queue_ok s" and f: "leaves st f" and e: "event_pk e = pk" "leaves_status e = Some st"
    and allowed: "allowed_after (history s) e" and pk: "pk \<in> task_pk ` set (table s)"
  shows "queue_ok (s\<lparr>table := update_task pk f (table s), candidates := cs, history := e # history s\<rparr>)"
proof -
  have "status_after (history s) pk \<noteq> None" using pk queue_okD(4) [OF ok] by auto
  then have "pk < next_pk s" using queue_okD(3) [OF ok] status_after_known [of "history s" pk] by auto
  moreover have "status_after (e # history s) (task_pk x) = Some (task_status x)"
    if x: "x \<in> set (update_task pk f (table s))" for x
  proof -
    obtain y where y: "y \<in> set (table s)" "x = (if task_pk y = pk then f y else y)" using x by (auto simp: update_task_def)
    then show ?thesis using queue_okD(4) [OF ok y(1)] f e by (cases "task_pk y = pk") (simp_all add: leaves_def)
  qed
  moreover have "task_pk ` set (update_task pk f (table s)) = task_pk ` set (table s)"
    using update_task_pks [OF f, of pk "table s"] by (metis list.set_map)
  ultimately show ?thesis
    using ok allowed e pk update_task_pks [OF f, of pk "table s"] by (auto simp: queue_ok_def)
qed

lemma claim_candidate_Some:
  assumes "claim_candidate now c ts = (Some t, ts')"
  shows "ts' = map (\<lambda>x. if task_pk x = task_pk t \<and> task_status x = PENDING then start_task now x else x) ts \<and>
    row_in (task_pk t) {PENDING} ts"
  using assms by (auto simp: claim_candidate_def start_task_def row_in_def split: option.splits if_splits)

lemma claim_candidate_None: "claim_candidate now c ts = (None, ts') \<Longrightarrow> ts' = ts"
  by (auto simp: claim_candidate_def split: option.splits if_splits)

text \<open>A guarded update of a pending row writes that row.\<close>

lemma guarded_update:
  assumes "distinct (map task_pk ts)" and "row_in pk {PENDING} ts"
  shows "map (\<lambda>x. if task_pk x = pk \<and> task_status x = PENDING then f x else x) ts = update_task pk f ts"
proof -
  have "task_status x = PENDING" if "x \<in> set ts" "task_pk x = pk" for x
    using assms that by (auto simp: row_in_def distinct_map inj_on_def)
  then show ?thesis by (auto simp: update_task_def)
qed

lemma leaves_start: "leaves RUNNING (start_task now)"
  by (simp add: leaves_def start_task_def)

lemma enrichment_claim_Some:
  assumes "enrichment_claim op include_phone now ts = Inr (Some t, ts')"
  shows "row_in (task_pk t) {PENDING} ts \<and> ts' = update_task (task_pk t) (start_task now) ts"
proof -
  let ?xs = "sort_key (\<lambda>t. (task_scheduled_at t, task_pk t))
    (filter (\<lambda>t. enrichment_owned op include_phone t \<and> task_status t = PENDING \<and> task_scheduled_at t \<le> now) ts)"
  from assms obtain c xs where c: "?xs = c # xs" and run: "mark_running now c ts = Inr ts'" and t: "t = start_task now c"
    by (auto simp: enrichment_claim_def bind_result_def split: list.splits sum.splits)
  have "c \<in> set ?xs" unfolding c by simp
  then have "c \<in> set ts" "task_status c = PENDING" by simp_all
  moreover have "ts' = update_task (task_pk c) (start_task now) ts"
    using run by (auto simp: mark_running_def save_task_def start_task_def bind_result_def split: sum.splits if_splits)
  ultimately show ?thesis by (auto simp: t row_in_def start_task_def)
qed

lemma queue_ok_claimed:
  assumes ok: "queue_ok s" and row: "row_in pk {PENDING} (table s)"
  shows "queue_ok (s\<lparr>table := update_task pk (start_task now) (table s), candidates := cs, history := Claimed d pk # history s\<rparr>)"
  using ok row by (rule row_state) (auto intro: queue_ok_write [OF ok leaves_start])

lemma queue_ok_claim:
  assumes ok: "queue_ok s" and c: "claim_candidate now c (table s) = (Some t, ts')"
  shows "queue_ok (s\<lparr>table := ts', candidates := cs, history := Claimed d (task_pk t) # history s\<rparr>)"
  using claim_candidate_Some [OF c] guarded_update [OF queue_okD(1) [OF ok]] queue_ok_claimed [OF ok] by simp

lemma queue_ok_locked_claim:
  assumes ok: "queue_ok s" and c: "enrichment_claim op include_phone now (table s) = Inr (Some t, ts')"
  shows "queue_ok (s\<lparr>table := ts', history := Claimed d (task_pk t) # history s\<rparr>)"
  using enrichment_claim_Some [OF c] queue_ok_claimed [OF ok, where cs = "candidates s" and pk = "task_pk t" and now = now and d = d] by simp

lemma queue_ok_enqueue:
  assumes ok: "queue_ok s" and t: "task_pk t = next_pk s" "task_status t = PENDING"
  shows "queue_ok (s\<lparr>table := table s @ [t], next_pk := next_pk s + 1, history := Created (next_pk s) # history s\<rparr>)"
proof -
  have fresh: "next_pk s \<notin> event_pk ` set (history s)" using queue_okD(3) [OF ok] by fastforce
  have row: "task_pk x \<noteq> next_pk s" if "x \<in> set (table s)" for x
    using queue_okD(4) [OF ok that] status_after_fresh [OF fresh] by auto
  have "event_pk e < next_pk s + 1" if "e \<in> set (history s)" for e using queue_okD(3) [OF ok that] by simp
  moreover have "status_after (history s) pk = None" if "pk \<notin> task_pk ` set (table s)" for pk
    using queue_okD(5) [OF ok that] .
  ultimately show ?thesis
    using queue_okD(1,2,4) [OF ok] t fresh row unfolding queue_ok_def by (simp add: image_iff) force
qed

lemma queue_ok_cancel:
  assumes ok: "queue_ok s" and row: "row_in pk {PENDING} (table s)"
  shows "queue_ok (s\<lparr>table := filter (\<lambda>t. \<not> (task_pk t = pk \<and> task_status t = PENDING)) (table s),
    history := Cancelled pk # history s\<rparr>)"
proof -
  obtain st where st: "st \<in> {PENDING}" "status_after (history s) pk = Some st" using ok row by (rule row_state)
  have gone: "filter (\<lambda>t. \<not> (task_pk t = pk \<and> task_status t = PENDING)) (table s) = filter (\<lambda>t. task_pk t \<noteq> pk) (table s)"
    using queue_okD(4) [OF ok] st by (intro filter_cong) auto
  have "pk < next_pk s" using queue_okD(3) [OF ok] status_after_known [of "history s" pk] st by auto
  moreover have "status_after (history s) i = None" if "i \<noteq> pk" "i \<notin> task_pk ` set (filter (\<lambda>t. task_pk t \<noteq> pk) (table s))" for i
    using queue_okD(5) [OF ok, of i] that by auto
  ultimately show ?thesis
    unfolding gone queue_ok_def using queue_okD(1-4) [OF ok] st by (simp add: distinct_map_filter)
qed

lemma status_after_recovered:
  "status_after (map (\<lambda>t. Recovered (task_pk t)) ts @ h) pk = (if pk \<in> task_pk ` set ts then Some PENDING else status_after h pk)"
  by (induction ts) auto

lemma legal_recovered:
  "legal h \<Longrightarrow> distinct (map task_pk ts) \<Longrightarrow> \<forall>t \<in> set ts. status_after h (task_pk t) = Some RUNNING \<Longrightarrow>
     legal (map (\<lambda>t. Recovered (task_pk t)) ts @ h)"
  by (induction ts) (auto simp: status_after_recovered)

lemma queue_ok_recover:
  assumes ok: "queue_ok s" and stale: "\<And>t. stale t \<Longrightarrow> task_status t = RUNNING"
  shows "queue_ok (s\<lparr>table := reset_rows stale (table s),
    history := map (\<lambda>t. Recovered (task_pk t)) (filter stale (table s)) @ history s\<rparr>)"
proof -
  let ?h = "map (\<lambda>t. Recovered (task_pk t)) (filter stale (table s)) @ history s"
  note d = queue_okD(1) [OF ok] and now = queue_okD(4) [OF ok]
  have pks: "map task_pk (reset_rows stale (table s)) = map task_pk (table s)" by (simp add: reset_rows_def reset_task_def)
  have same: "task_pk ` set (reset_rows stale (table s)) = task_pk ` set (table s)" using pks by (metis list.set_map)
  have "legal ?h"
    by (rule legal_recovered [OF queue_okD(2) [OF ok]]) (use d now stale in \<open>auto simp: distinct_map_filter\<close>)
  moreover have "event_pk e < next_pk s" if "e \<in> set ?h" for e
  proof -
    have "task_pk t < next_pk s" if "t \<in> set (table s)" for t
      using now [OF that] status_after_known [of "history s" "task_pk t"] queue_okD(3) [OF ok] by auto
    then show ?thesis using that queue_okD(3) [OF ok] by auto
  qed
  moreover have "status_after ?h (task_pk x) = Some (task_status x)" if x: "x \<in> set (reset_rows stale (table s))" for x
  proof -
    obtain y where y: "y \<in> set (table s)" "x = (if stale y then reset_task y else y)"
      using x by (auto simp: reset_rows_def)
    have "task_pk y \<in> task_pk ` set (filter stale (table s)) \<longleftrightarrow> stale y"
      using d y(1) by (auto simp: distinct_map inj_on_def)
    then show ?thesis using now [OF y(1)] y(2) by (simp add: status_after_recovered reset_task_def)
  qed
  moreover have "status_after ?h pk = None" if "pk \<notin> task_pk ` set (table s)" for pk
    using that queue_okD(5) [OF ok] by (auto simp: status_after_recovered)
  ultimately show ?thesis using d unfolding queue_ok_def by (simp add: pks same)
qed

lemma queue_ok_edit:
  assumes ok: "queue_ok s" and f: "\<And>t. task_pk (f t) = task_pk t \<and> task_status (f t) = task_status t"
  shows "queue_ok (s\<lparr>table := map f (table s)\<rparr>)"
proof -
  have "task_pk \<circ> f = task_pk" using f by (simp add: fun_eq_iff)
  then show ?thesis using ok f unfolding queue_ok_def by (simp add: image_image)
qed

lemma queue_ok_close:
  assumes "queue_ok s" and "leaves st f" and "st \<in> {COMPLETED, FAILED}" and "row_in pk UNIV (table s)"
  shows "queue_ok (s\<lparr>table := update_task pk f (table s), history := Closed pk st # history s\<rparr>)"
  using assms(1,4) by (rule row_state) (use queue_ok_write [OF assms(1,2), of "Closed pk st" pk "candidates s"] assms(3) in auto)

lemma queue_ok_requeue:
  assumes "queue_ok s" and "leaves PENDING f" and "row_in pk {FAILED} (table s)"
  shows "queue_ok (s\<lparr>table := update_task pk f (table s), history := Requeued pk # history s\<rparr>)"
  using assms(1,3) by (rule row_state) (use queue_ok_write [OF assms(1,2), of "Requeued pk" pk "candidates s"] in auto)

lemma queue_ok_step:
  assumes ok: "queue_ok s" and "queue_step s s'"
  shows "queue_ok s'"
  using assms(2)
proof cases
  case (select d delay now campaigns operator campaign_ids task_types)
  then show ?thesis using ok by (simp add: queue_ok_def)
next
  case (refused now d ts')
  then show ?thesis using claim_candidate_None [OF refused(2)] ok by (simp add: queue_ok_def)
qed (simp_all only: queue_ok_enqueue [OF ok] queue_ok_claim [OF ok] queue_ok_locked_claim [OF ok] queue_ok_cancel [OF ok]
    queue_ok_edit [OF ok] queue_ok_close [OF ok] queue_ok_requeue [OF ok] queue_ok_recover [OF ok])

lemma reachable_queue_ok: "reachable s \<Longrightarrow> queue_ok s"
proof (induction rule: reachable.induct)
  case start
  show ?case by (simp add: queue_ok_def initial_queue_def)
next
  case (step s s')
  then show ?case by (blast intro: queue_ok_step)
qed

section \<open>Properties\<close>

definition sets_back :: "int \<Rightarrow> queue_event \<Rightarrow> bool" where
  "sets_back pk e \<longleftrightarrow> e = Recovered pk \<or> e = Requeued pk"

lemma held_until_set_back:
  assumes "legal (vs @ Claimed d pk # ws)" and "\<forall>e \<in> set vs. \<not> sets_back pk e"
  shows "status_after (vs @ Claimed d pk # ws) pk \<noteq> Some PENDING \<and>
    (status_after (vs @ Claimed d pk # ws) pk = Some FAILED \<longrightarrow> Closed pk FAILED \<in> set vs)"
  using assms
proof (induction vs)
  case (Cons e vs)
  then have ih: "status_after (vs @ Claimed d pk # ws) pk \<noteq> Some PENDING \<and>
    (status_after (vs @ Claimed d pk # ws) pk = Some FAILED \<longrightarrow> Closed pk FAILED \<in> set vs)" by auto
  with Cons.prems show ?case by (cases e) (auto simp: sets_back_def)
qed simp

text \<open>
  C4: a task is not claimed twice in a row. Whatever the interleaving of the daemons' reads and guarded
  updates with new tasks, edits, cancellations, closings and recoveries, between two claims of the same task
  its row was set back to pending: either a recovery found it running, or it was requeued as failed after it
  had been closed as failed since the first of the two claims.
\<close>

theorem task_claimed_once:
  assumes "reachable s" and "history s = us @ Claimed d' pk # vs @ Claimed d pk # ws"
  shows "Recovered pk \<in> set vs \<or> (\<exists>xs ys. vs = xs @ Requeued pk # ys \<and> Closed pk FAILED \<in> set ys)"
proof -
  have l: "legal (Claimed d' pk # vs @ Claimed d pk # ws)"
    using queue_okD(2) [OF reachable_queue_ok [OF assms(1)]] unfolding assms(2) by (rule legal_append)
  then have "\<exists>e \<in> set vs. sets_back pk e" using held_until_set_back [of vs d pk ws] by auto
  then obtain xs e ys where vs: "vs = xs @ e # ys" and e: "sets_back pk e" and ys: "\<forall>e \<in> set ys. \<not> sets_back pk e"
    by (metis split_list_last_prop)
  have "legal ((Claimed d' pk # xs) @ e # ys @ Claimed d pk # ws)" using l by (simp add: vs)
  then have "legal (e # ys @ Claimed d pk # ws)" by (rule legal_append)
  then show ?thesis
    using held_until_set_back [of ys d pk ws] ys e vs by (auto simp: sets_back_def)
qed

definition sample_row :: task where
  "sample_row = sample_task 1 STATUS_SUMMARY 0 []"

text \<open>Two daemons select the same row; the first claims it, the second is refused until a recovery has reset the row.\<close>

theorem task_claimed_once_witness:
  "\<exists>s. reachable s \<and> history s = [] @ Claimed 1 1 # [Recovered 1] @ Claimed 0 1 # [Created 1] \<and> Recovered 1 \<in> set [Recovered 1] \<and>
     claim_candidate 5 (Some sample_row) [start_task 5 sample_row] = (None, [start_task 5 sample_row])"
proof -
  let ?q = "initial_queue\<lparr>table := table initial_queue @ [sample_row], next_pk := next_pk initial_queue + 1,
    history := Created (next_pk initial_queue) # history initial_queue\<rparr>"
  let ?sel = "\<lambda>d s. s\<lparr>candidates := (candidates s)(d := select_next 0 5 [] None None None (table s))\<rparr>"
  let ?run = "[start_task 5 sample_row]"
  have "queue_step initial_queue ?q"
    by (rule enqueue) (simp_all add: initial_queue_def sample_row_def sample_task_def)
  with start have "reachable ?q" by (rule step)
  then have "reachable (?sel 0 ?q)" by (rule step) (rule select)
  then have r: "reachable (?sel 1 (?sel 0 ?q))" (is "reachable ?s") by (rule step) (rule select)
  have c: "claim_candidate 5 (candidates ?s 0) (table ?s) = (Some (start_task 5 sample_row), ?run)"
    by code_simp
  let ?t = "?s\<lparr>table := ?run, candidates := (candidates ?s)(0 := None),
    history := Claimed 0 (task_pk (start_task 5 sample_row)) # history ?s\<rparr>"
  have t: "reachable ?t" using r claim [OF c] by (rule step)
  let ?stale = "\<lambda>t. task_status t = RUNNING"
  let ?u = "?t\<lparr>table := reset_rows ?stale (table ?t),
    history := map (\<lambda>t. Recovered (task_pk t)) (filter ?stale (table ?t)) @ history ?t\<rparr>"
  have u: "reachable ?u" by (rule step [OF t recover]) simp
  have c': "claim_candidate 9 (candidates ?u 1) (table ?u) = (Some (start_task 9 sample_row), [start_task 9 sample_row])"
    by code_simp
  let ?v = "?u\<lparr>table := [start_task 9 sample_row], candidates := (candidates ?u)(1 := None),
    history := Claimed 1 (task_pk (start_task 9 sample_row)) # history ?u\<rparr>"
  have v: "reachable ?v" using u claim [OF c'] by (rule step)
  have h: "history ?v = [] @ Claimed 1 1 # [Recovered 1] @ Claimed 0 1 # [Created 1]"
    by (simp add: initial_queue_def sample_row_def sample_task_def start_task_def)
  have "claim_candidate 5 (Some sample_row) ?run = (None, ?run)" by code_simp
  with v h task_claimed_once [OF v h] show ?thesis by auto
qed

section \<open>The model's operations are steps\<close>

lemma leaves_closed: "leaves COMPLETED (complete_task now)" "leaves FAILED (fail_task e)" "leaves PENDING reset_task"
  by (simp_all add: leaves_def complete_task_def fail_task_def reset_task_def)

lemma mark_completed_closes:
  "mark_completed now t ts = Inr ts' \<Longrightarrow> ts' = update_task (task_pk t) (complete_task now) ts \<and> row_in (task_pk t) UNIV ts"
  by (auto simp: mark_completed_def save_task_def complete_task_def row_in_def split: if_splits)

lemma mark_failed_closes:
  "mark_failed e t ts = Inr ts' \<Longrightarrow> ts' = update_task (task_pk t) (fail_task e) ts \<and> row_in (task_pk t) UNIV ts"
  by (auto simp: mark_failed_def save_task_def fail_task_def row_in_def split: if_splits)

lemma mark_completed_step:
  "mark_completed now t (table s) = Inr ts' \<Longrightarrow>
     queue_step s (s\<lparr>table := ts', history := Closed (task_pk t) COMPLETED # history s\<rparr>)"
  using mark_completed_closes close [OF leaves_closed(1)] by blast

lemma mark_failed_step:
  "mark_failed e t (table s) = Inr ts' \<Longrightarrow>
     queue_step s (s\<lparr>table := ts', history := Closed (task_pk t) FAILED # history s\<rparr>)"
  using mark_failed_closes close [OF leaves_closed(2)] by blast

lemma reclaim_stale_recovers:
  "reclaim_stale op phone stale_before ts =
     reset_rows (\<lambda>t. enrichment_owned op phone t \<and> enrichment_stale stale_before t) ts"
  "enrichment_stale stale_before t \<Longrightarrow> task_status t = RUNNING"
  by (simp_all add: reclaim_stale_def reset_rows_def enrichment_stale_def)

lemma reclaim_stale_step:
  "\<exists>h. queue_step s (s\<lparr>table := reclaim_stale op phone stale_before (table s), history := h\<rparr>)"
  unfolding reclaim_stale_recovers(1) by (rule exI, rule recover) (blast intro: reclaim_stale_recovers(2))

lemma heal_stale_step:
  "\<exists>h. queue_step s (s\<lparr>table := heal_stale stale_before op campaign_ids stale_media (table s), history := h\<rparr>)"
proof -
  have "heal_stale stale_before op campaign_ids stale_media ts = reset_rows (\<lambda>t. stale_owned stale_before op campaign_ids t \<and>
      task_type t \<noteq> DRIP_LINKEDIN \<and> task_pk t \<notin> set stale_media) ts" for ts
    by (simp add: heal_stale_def reset_rows_def)
  then show ?thesis by simp (rule exI, rule recover, auto simp: stale_owned_def)
qed

lemma cancelled_not_claimed:
  "\<not> (\<exists>x \<in> set ts. task_pk x = task_pk c \<and> task_status x = PENDING) \<Longrightarrow>
     claim_candidate now (Some c) ts = (None, ts)"
  by (simp add: claim_candidate_def)

end
