(* ===== verification/Rate_Limits.thy ===== *)
theory Rate_Limits
  imports Py_Lib
begin

text \<open>
  The rate limits of a sender, \<open>LinkedInProfile\<close> of \<open>linkedin/models.py\<close>: the reasons that block an
  action, the counters over the action log, and the two memories of a restriction by LinkedIn, one
  in the process and one in the database. The calendar of the active time zone is a parameter: a
  clock gives the date and the starts of the day and of the week.
\<close>

section \<open>State\<close>

datatype action_type = Connect | Follow_Up | Withdraw_Invite

datatype rate_limit_reason = EXTERNAL | TOTAL_DAILY | ACTION_DAILY | ACTION_WEEKLY

record active_clock =
  clock_now :: int
  active_local_date :: date
  active_day_start :: int
  active_week_start :: int

record limits_conf =
  MAX_TOTAL_DAILY_ACTIONS :: int
  CONNECT_DAILY_LIMIT :: "int option"
  CONNECT_WEEKLY_LIMIT :: "int option"
  FOLLOW_UP_DAILY_LIMIT :: "int option"

text \<open>
  \<open>exhausted\<close> lives in the process; the columns, the action log and the attempts of the legacy
  visitor programme (\<open>linkedin/legacy_rb2b.py\<close>) live in the database.
\<close>

record sender =
  exhausted :: "action_type \<rightharpoonup> date"
  connect_restricted_on :: "date option"
  connect_daily_limit :: int
  connect_weekly_limit :: int
  follow_up_daily_limit :: int
  action_log :: "(action_type \<times> int) list"
  rb2b_attempts :: "int option list"

section \<open>Counters\<close>

definition budget_count :: "sender \<Rightarrow> int \<Rightarrow> int" where
  "budget_count s since =
     int (length (filter (\<lambda>a. case a of None \<Rightarrow> False | Some t \<Rightarrow> since \<le> t) (rb2b_attempts s)))"

definition log_count :: "sender \<Rightarrow> action_type \<Rightarrow> int \<Rightarrow> int" where
  "log_count s k since = int (length (filter (\<lambda>(k', t). k' = k \<and> since \<le> t) (action_log s)))"

definition daily_count :: "active_clock \<Rightarrow> sender \<Rightarrow> action_type \<Rightarrow> int" where
  "daily_count c s k =
     (if k = Connect then budget_count s (active_day_start c) else 0) + log_count s k (active_day_start c)"

definition total_daily_count :: "active_clock \<Rightarrow> sender \<Rightarrow> int" where
  "total_daily_count c s =
     budget_count s (active_day_start c) +
     int (length (filter (\<lambda>(k, t). active_day_start c \<le> t) (action_log s)))"

definition weekly_count :: "active_clock \<Rightarrow> sender \<Rightarrow> action_type \<Rightarrow> int" where
  "weekly_count c s k =
     (if k = Connect then budget_count s (active_week_start c) else 0) + log_count s k (active_week_start c)"

section \<open>Limits\<close>

text \<open>\<open>override or column\<close>: an override of zero counts as absent.\<close>

definition effective_limit :: "int option \<Rightarrow> int \<Rightarrow> int" where
  "effective_limit override column =
     (case override of None \<Rightarrow> column | Some v \<Rightarrow> if v = 0 then column else v)"

definition daily_limit :: "limits_conf \<Rightarrow> sender \<Rightarrow> action_type \<Rightarrow> int option" where
  "daily_limit conf s k =
     (case k of
        Connect \<Rightarrow> Some (effective_limit (CONNECT_DAILY_LIMIT conf) (connect_daily_limit s))
      | Follow_Up \<Rightarrow> Some (effective_limit (FOLLOW_UP_DAILY_LIMIT conf) (follow_up_daily_limit s))
      | Withdraw_Invite \<Rightarrow> None)"

definition weekly_limit :: "limits_conf \<Rightarrow> sender \<Rightarrow> action_type \<Rightarrow> int option" where
  "weekly_limit conf s k =
     (case k of
        Connect \<Rightarrow> Some (effective_limit (CONNECT_WEEKLY_LIMIT conf) (connect_weekly_limit s))
      | _ \<Rightarrow> None)"

definition weekly_reached :: "limits_conf \<Rightarrow> active_clock \<Rightarrow> sender \<Rightarrow> action_type \<Rightarrow> bool" where
  "weekly_reached conf c s k \<longleftrightarrow>
     (case weekly_limit conf s k of None \<Rightarrow> False | Some weekly \<Rightarrow> weekly \<le> weekly_count c s k)"

section \<open>Operations\<close>

text \<open>The flag in the process is dropped on another day.\<close>

definition drop_expired :: "active_clock \<Rightarrow> action_type \<Rightarrow> sender \<Rightarrow> sender" where
  "drop_expired c k s =
     (case exhausted s k of
        None \<Rightarrow> s
      | Some d \<Rightarrow> if d \<noteq> active_local_date c then s\<lparr>exhausted := (exhausted s)(k := None)\<rparr> else s)"

datatype limit_error = RateLimitKeyError

definition rate_limit_reasons ::
  "limits_conf \<Rightarrow> active_clock \<Rightarrow> action_type \<Rightarrow> sender
     \<Rightarrow> (limit_error, rate_limit_reason set \<times> sender) result" where
  "rate_limit_reasons conf c k s0 =
     (let s = drop_expired c k s0 in
      case daily_limit conf s k of
        None \<Rightarrow> Inl RateLimitKeyError
      | Some daily \<Rightarrow> Inr (
          (if exhausted s k \<noteq> None \<or> (k = Connect \<and> connect_restricted_on s = Some (active_local_date c))
           then {EXTERNAL} else {}) \<union>
          (if MAX_TOTAL_DAILY_ACTIONS conf \<noteq> 0 \<and> MAX_TOTAL_DAILY_ACTIONS conf \<le> total_daily_count c s
           then {TOTAL_DAILY} else {}) \<union>
          (if daily \<le> daily_count c s k then {ACTION_DAILY} else {}) \<union>
          (if weekly_reached conf c s k then {ACTION_WEEKLY} else {}), s))"

definition can_execute ::
  "limits_conf \<Rightarrow> active_clock \<Rightarrow> action_type \<Rightarrow> sender \<Rightarrow> (limit_error, bool \<times> sender) result" where
  "can_execute conf c k s =
     bind_result (rate_limit_reasons conf c k s) (\<lambda>(reasons, s'). Inr (reasons = {}, s'))"

definition is_externally_exhausted :: "active_clock \<Rightarrow> action_type \<Rightarrow> sender \<Rightarrow> bool \<times> sender" where
  "is_externally_exhausted c k s0 =
     (let s = drop_expired c k s0 in
      ((k = Connect \<and> connect_restricted_on s = Some (active_local_date c)) \<or> exhausted s k \<noteq> None, s))"

definition record_action :: "active_clock \<Rightarrow> action_type \<Rightarrow> sender \<Rightarrow> sender" where
  "record_action c k s = s\<lparr>action_log := action_log s @ [(k, clock_now c)]\<rparr>"

definition mark_exhausted :: "active_clock \<Rightarrow> action_type \<Rightarrow> sender \<Rightarrow> sender" where
  "mark_exhausted c k s =
     (let s' = s\<lparr>exhausted := (exhausted s)(k \<mapsto> active_local_date c)\<rparr> in
      if k = Connect then s'\<lparr>connect_restricted_on := Some (active_local_date c)\<rparr> else s')"

section \<open>A sender at work\<close>

text \<open>
  Its events: an action that is executed when the limits allow it (the check and the record of
  \<open>linkedin/tasks/connect.py\<close> and \<open>follow_up.py\<close>), a restriction that LinkedIn reports, a restart of
  the process, and an attempt of the legacy programme.
\<close>

datatype sender_event = Act active_clock action_type | Restricted active_clock action_type | Restart

definition act :: "limits_conf \<Rightarrow> active_clock \<Rightarrow> action_type \<Rightarrow> sender \<Rightarrow> sender" where
  "act conf c k s =
     (case can_execute conf c k s of
        Inl _ \<Rightarrow> s
      | Inr (allowed, s') \<Rightarrow> if allowed then record_action c k s' else s')"

fun sender_step :: "limits_conf \<Rightarrow> sender_event \<Rightarrow> sender \<Rightarrow> sender" where
  "sender_step conf (Act c k) s = act conf c k s"
| "sender_step conf (Restricted c k) s = mark_exhausted c k s"
| "sender_step conf Restart s = s\<lparr>exhausted := Map.empty\<rparr>"

fun event_clock :: "sender_event \<Rightarrow> active_clock option" where
  "event_clock (Act c k) = Some c"
| "event_clock (Restricted c k) = Some c"
| "event_clock Restart = None"

lemma drop_expired_db [simp]:
  "action_log (drop_expired c k s) = action_log s"
  "rb2b_attempts (drop_expired c k s) = rb2b_attempts s"
  "connect_restricted_on (drop_expired c k s) = connect_restricted_on s"
  "connect_daily_limit (drop_expired c k s) = connect_daily_limit s"
  "connect_weekly_limit (drop_expired c k s) = connect_weekly_limit s"
  "follow_up_daily_limit (drop_expired c k s) = follow_up_daily_limit s"
  by (simp_all add: drop_expired_def split: option.split)

lemma counts_drop_expired [simp]:
  "daily_count c' (drop_expired c k s) k' = daily_count c' s k'"
  "weekly_count c' (drop_expired c k s) k' = weekly_count c' s k'"
  "total_daily_count c' (drop_expired c k s) = total_daily_count c' s"
  "daily_limit conf (drop_expired c k s) k' = daily_limit conf s k'"
  "weekly_limit conf (drop_expired c k s) k' = weekly_limit conf s k'"
  "weekly_reached conf c' (drop_expired c k s) k' = weekly_reached conf c' s k'"
  by (simp_all add: weekly_reached_def daily_count_def weekly_count_def total_daily_count_def log_count_def budget_count_def
      daily_limit_def weekly_limit_def split: action_type.split)

text \<open>When an action is allowed, each of its limits leaves room for one more.\<close>

lemma act_cases:
  obtains (blocked) "act conf c k s = drop_expired c k s \<or> act conf c k s = s"
  | (allowed) d where "act conf c k s = record_action c k (drop_expired c k s)"
      and "daily_limit conf s k = Some d" and "daily_count c s k < d"
      and "\<forall>w. weekly_limit conf s k = Some w \<longrightarrow> weekly_count c s k < w"
      and "MAX_TOTAL_DAILY_ACTIONS conf \<noteq> 0 \<longrightarrow> total_daily_count c s < MAX_TOTAL_DAILY_ACTIONS conf"
      and "exhausted (drop_expired c k s) k = None"
      and "\<not> (k = Connect \<and> connect_restricted_on s = Some (active_local_date c))"
proof (cases "daily_limit conf s k")
  case None
  then have "act conf c k s = s" by (simp add: act_def can_execute_def rate_limit_reasons_def Let_def)
  then show thesis by (intro blocked) simp
next
  case (Some d)
  let ?r = "(if exhausted (drop_expired c k s) k \<noteq> None \<or> (k = Connect \<and> connect_restricted_on s = Some (active_local_date c))
           then {EXTERNAL} else {}) \<union>
          (if MAX_TOTAL_DAILY_ACTIONS conf \<noteq> 0 \<and> MAX_TOTAL_DAILY_ACTIONS conf \<le> total_daily_count c s
           then {TOTAL_DAILY} else {}) \<union>
          (if d \<le> daily_count c s k then {ACTION_DAILY} else {}) \<union>
          (if weekly_reached conf c s k then {ACTION_WEEKLY} else {})"
  have a: "act conf c k s = (if ?r = {} then record_action c k (drop_expired c k s) else drop_expired c k s)"
    by (simp add: act_def can_execute_def rate_limit_reasons_def Let_def Some)
  show thesis
  proof (cases "?r = {}")
    case True
    with a have "act conf c k s = record_action c k (drop_expired c k s)" by (rule trans [OF _ if_P])
    moreover have "daily_count c s k < d" "\<forall>w. weekly_limit conf s k = Some w \<longrightarrow> weekly_count c s k < w"
      "MAX_TOTAL_DAILY_ACTIONS conf \<noteq> 0 \<longrightarrow> total_daily_count c s < MAX_TOTAL_DAILY_ACTIONS conf"
      "exhausted (drop_expired c k s) k = None"
      "\<not> (k = Connect \<and> connect_restricted_on s = Some (active_local_date c))"
      using True by (auto simp: weekly_reached_def split: if_splits option.splits)
    ultimately show thesis using Some by (intro allowed)
  next
    case False
    with a have "act conf c k s = drop_expired c k s" by (rule trans [OF _ if_not_P])
    then show thesis by (intro blocked) simp
  qed
qed

section \<open>Limits hold\<close>

text \<open>Counters only shrink when the day or the week moves on, and an action adds one to its own.\<close>

lemma filter_mono_length:
  "(\<And>x. x \<in> set xs \<Longrightarrow> P x \<Longrightarrow> Q x) \<Longrightarrow> length (filter P xs) \<le> length (filter Q xs)"
  by (induction xs) auto

lemma log_count_mono: "a \<le> b \<Longrightarrow> log_count s k b \<le> log_count s k a"
  unfolding log_count_def by (intro of_nat_mono filter_mono_length) auto

lemma budget_count_mono: "a \<le> b \<Longrightarrow> budget_count s b \<le> budget_count s a"
  unfolding budget_count_def by (intro of_nat_mono filter_mono_length) (auto split: option.splits)

lemma total_log_mono:
  "a \<le> b \<Longrightarrow> length (filter (\<lambda>(k, t). b \<le> t) xs) \<le> length (filter (\<lambda>(k, t). a \<le> t) (xs :: (action_type \<times> int) list))"
  by (rule filter_mono_length) auto

lemma counts_mono:
  assumes "active_day_start c \<le> active_day_start c'" and "active_week_start c \<le> active_week_start c'"
  shows "daily_count c' s k \<le> daily_count c s k" and "weekly_count c' s k \<le> weekly_count c s k"
    and "total_daily_count c' s \<le> total_daily_count c s"
  using log_count_mono [OF assms(1), of s k] log_count_mono [OF assms(2), of s k]
    budget_count_mono [OF assms(1), of s] budget_count_mono [OF assms(2), of s]
    total_log_mono [OF assms(1), of "action_log s"]
  by (auto simp: daily_count_def weekly_count_def total_daily_count_def intro: add_mono)

lemma counts_record:
  "daily_count c (record_action c k s) k' \<le> daily_count c s k' + (if k' = k then 1 else 0)"
  "weekly_count c (record_action c k s) k' \<le> weekly_count c s k' + (if k' = k then 1 else 0)"
  "total_daily_count c (record_action c k s) \<le> total_daily_count c s + 1"
  by (simp_all add: daily_count_def weekly_count_def total_daily_count_def log_count_def budget_count_def
      record_action_def)

text \<open>No counter of the sender exceeds its limit at a clock, once it did not before.\<close>

definition within_limits :: "limits_conf \<Rightarrow> active_clock \<Rightarrow> sender \<Rightarrow> bool" where
  "within_limits conf c s \<longleftrightarrow>
     (\<forall>k d. daily_limit conf s k = Some d \<longrightarrow> daily_count c s k \<le> d) \<and>
     (\<forall>k w. weekly_limit conf s k = Some w \<longrightarrow> weekly_count c s k \<le> w) \<and>
     (MAX_TOTAL_DAILY_ACTIONS conf \<noteq> 0 \<longrightarrow> total_daily_count c s \<le> MAX_TOTAL_DAILY_ACTIONS conf)"

definition later :: "active_clock \<Rightarrow> active_clock \<Rightarrow> bool" where
  "later c c' \<longleftrightarrow> active_day_start c \<le> active_day_start c' \<and> active_week_start c \<le> active_week_start c'"

lemma within_later: "within_limits conf c s \<Longrightarrow> later c c' \<Longrightarrow> within_limits conf c' s"
  unfolding within_limits_def later_def using counts_mono by (meson order_trans)

lemma limits_unchanged:
  "daily_limit conf (record_action c k s) = daily_limit conf s"
  "weekly_limit conf (record_action c k s) = weekly_limit conf s"
  by (auto simp: fun_eq_iff daily_limit_def weekly_limit_def record_action_def split: action_type.split)

lemma within_drop [simp]: "within_limits conf c (drop_expired c' k s) = within_limits conf c s"
  by (simp add: within_limits_def)

lemma act_within:
  assumes "within_limits conf c s" shows "within_limits conf c (act conf c k s)"
proof (cases rule: act_cases [of conf c k s])
  case blocked
  with assms show ?thesis by auto
next
  case (allowed d)
  let ?s = "drop_expired c k s"
  have "within_limits conf c ?s" using assms by simp
  then have w: "\<forall>k d. daily_limit conf ?s k = Some d \<longrightarrow> daily_count c ?s k \<le> d"
    "\<forall>k w. weekly_limit conf ?s k = Some w \<longrightarrow> weekly_count c ?s k \<le> w"
    by (simp_all add: within_limits_def)
  have "daily_count c (record_action c k ?s) k' \<le> x" if "daily_limit conf ?s k' = Some x" for k' x
    using counts_record(1) [of c k ?s k'] allowed(2,3) w(1) that by (cases "k' = k") fastforce+
  moreover have "weekly_count c (record_action c k ?s) k' \<le> x" if "weekly_limit conf ?s k' = Some x" for k' x
    using counts_record(2) [of c k ?s k'] allowed(4) w(2) that by (cases "k' = k") fastforce+
  moreover have "MAX_TOTAL_DAILY_ACTIONS conf \<noteq> 0 \<longrightarrow>
      total_daily_count c (record_action c k ?s) \<le> MAX_TOTAL_DAILY_ACTIONS conf"
    using counts_record(3) [of c k ?s] allowed(5) by auto
  ultimately show ?thesis by (simp only: within_limits_def allowed(1) limits_unchanged) blast
qed

lemma within_irrelevant:
  "within_limits conf c (mark_exhausted c' k s) = within_limits conf c s"
  "within_limits conf c (s\<lparr>exhausted := e\<rparr>) = within_limits conf c s"
  by (auto simp: within_limits_def mark_exhausted_def Let_def daily_limit_def weekly_limit_def daily_count_def
      weekly_count_def total_daily_count_def log_count_def budget_count_def split: action_type.splits)

text \<open>The clocks of a run never go back.\<close>

fun clocks_from :: "active_clock \<Rightarrow> sender_event list \<Rightarrow> bool" where
  "clocks_from c [] = True"
| "clocks_from c (e # es) =
     (case event_clock e of None \<Rightarrow> clocks_from c es | Some c' \<Rightarrow> later c c' \<and> clocks_from c' es)"

fun last_clock :: "active_clock \<Rightarrow> sender_event list \<Rightarrow> active_clock" where
  "last_clock c [] = c"
| "last_clock c (e # es) = last_clock (case event_clock e of None \<Rightarrow> c | Some c' \<Rightarrow> c') es"

lemma sender_step_within:
  "within_limits conf c s \<Longrightarrow> (\<forall>c'. event_clock e = Some c' \<longrightarrow> later c c') \<Longrightarrow>
     within_limits conf (case event_clock e of None \<Rightarrow> c | Some c' \<Rightarrow> c') (sender_step conf e s)"
  by (cases e) (auto simp: within_irrelevant intro: act_within within_later)

text \<open>
  C5: the rate limits hold: when a sender only acts after \<open>can_execute\<close> allowed it, and time does
  not run backwards, its counts of the current day and week never exceed the daily, weekly and total
  limits, through restarts of the process and restrictions by LinkedIn.
\<close>

theorem limits_never_exceeded:
  assumes "within_limits conf c s" and "clocks_from c es"
  shows "within_limits conf (last_clock c es) (fold (sender_step conf) es s)"
  using assms
proof (induction es arbitrary: c s)
  case (Cons e es)
  from Cons.prems(2) have "\<forall>c'. event_clock e = Some c' \<longrightarrow> later c c'"
    "clocks_from (case event_clock e of None \<Rightarrow> c | Some c' \<Rightarrow> c') es"
    by (auto split: option.splits)
  with Cons show ?case using sender_step_within by simp
qed simp

definition sample_clock :: active_clock where
  "sample_clock = \<lparr>clock_now = 10, active_local_date = 1, active_day_start = 0, active_week_start = 0\<rparr>"

definition sample_conf :: limits_conf where
  "sample_conf = \<lparr>MAX_TOTAL_DAILY_ACTIONS = 200, CONNECT_DAILY_LIMIT = Some 1, CONNECT_WEEKLY_LIMIT = None,
     FOLLOW_UP_DAILY_LIMIT = None\<rparr>"

definition sample_sender :: sender where
  "sample_sender = \<lparr>exhausted = Map.empty, connect_restricted_on = None, connect_daily_limit = 20,
     connect_weekly_limit = 100, follow_up_daily_limit = 30, action_log = [], rb2b_attempts = []\<rparr>"

lemma sample_within: "within_limits sample_conf sample_clock sample_sender"
  by (auto simp: within_limits_def sample_conf_def sample_clock_def sample_sender_def daily_limit_def
      weekly_limit_def daily_count_def weekly_count_def total_daily_count_def log_count_def budget_count_def
      effective_limit_def split: action_type.splits)

theorem limits_never_exceeded_witness:
  "\<exists>s. s = fold (sender_step sample_conf) [Act sample_clock Connect, Restart, Act sample_clock Connect] sample_sender \<and>
     within_limits sample_conf sample_clock s"
  using limits_never_exceeded [OF sample_within, of "[Act sample_clock Connect, Restart, Act sample_clock Connect]"]
  by (simp add: later_def)

section \<open>Restrictions by LinkedIn\<close>

text \<open>The events of one day.\<close>

definition on_day :: "date \<Rightarrow> sender_event \<Rightarrow> bool" where
  "on_day d e \<longleftrightarrow> (case event_clock e of None \<Rightarrow> True | Some c \<Rightarrow> active_local_date c = d)"

definition connects_recorded :: "sender \<Rightarrow> int" where
  "connects_recorded s = int (length (filter (\<lambda>(k, t). k = Connect) (action_log s)))"

text \<open>A sender that is restricted for the day, with the connection requests it had made before.\<close>

definition day_step :: "limits_conf \<Rightarrow> date \<Rightarrow> sender_event \<Rightarrow> sender \<Rightarrow> sender" where
  "day_step conf d e s = (if on_day d e then sender_step conf e s else s)"

definition restricted :: "date \<Rightarrow> int \<Rightarrow> sender \<Rightarrow> bool" where
  "restricted d n s \<longleftrightarrow> connect_restricted_on s = Some d \<and> connects_recorded s = n"

lemma act_restricted:
  assumes "restricted d n s" and "active_local_date c = d"
  shows "restricted d n (act conf c k s)"
proof (cases rule: act_cases [of conf c k s])
  case blocked
  with assms show ?thesis by (auto simp: restricted_def connects_recorded_def)
next
  case (allowed x)
  then have "k \<noteq> Connect" using assms by (auto simp: restricted_def)
  then show ?thesis using assms(1) by (simp add: allowed(1) restricted_def connects_recorded_def record_action_def)
qed

lemma day_step_restricted: "restricted d n s \<Longrightarrow> restricted d n (day_step conf d e s)"
  by (cases e)
    (auto simp: day_step_def on_day_def act_restricted,
     auto simp: restricted_def connects_recorded_def mark_exhausted_def Let_def)

interpretation restriction: latched_machine "day_step conf d" "\<lambda>_. True" "restricted d n" for conf d n
  by unfold_locales (auto intro: day_step_restricted)

text \<open>
  C25: a restriction by LinkedIn is latched for the day: once a connection request was refused with a
  restriction, no further connection request is recorded on that date, even when the process
  restarts and its own memory of the restriction is lost.
\<close>

theorem restriction_latched:
  assumes "active_local_date c = d"
  shows "connects_recorded (fold (day_step conf d) es (mark_exhausted c Connect s)) = connects_recorded s \<and>
    can_execute conf c Connect (fold (day_step conf d) es (mark_exhausted c Connect s)) \<noteq> Inr (True, s')"
proof -
  let ?s = "mark_exhausted c Connect s"
  have "restricted d (connects_recorded s) ?s"
    using assms by (simp add: restricted_def mark_exhausted_def connects_recorded_def Let_def)
  then have "restricted d (connects_recorded s) (fold (day_step conf d) es ?s)"
    using restriction.latched_run by blast
  then show ?thesis
    using assms by (auto simp: restricted_def can_execute_def rate_limit_reasons_def Let_def split: option.splits)
qed

theorem restriction_latched_witness:
  "connects_recorded (fold (day_step sample_conf 1) [Restart, Act sample_clock Connect]
     (mark_exhausted sample_clock Connect sample_sender)) = 0"
  using restriction_latched [of sample_clock 1 sample_conf "[Restart, Act sample_clock Connect]" sample_sender]
  by (simp add: sample_clock_def connects_recorded_def sample_sender_def)

end
