(* ===== verification/Post_Urls.thy ===== *)
theory Post_Urls
  imports Copy_Text
begin

text \<open>
  LinkedIn post addresses and the validation of a queued repost (\<open>linkedin/reposts.py\<close>): the exact
  address pattern, the URN forms that the browser shows, and the checks of the other fields. A
  regular expression that is matched in full becomes a parser that must consume the whole text.
\<close>

section \<open>Parsers\<close>

definition drop_prefix :: "string \<Rightarrow> string \<Rightarrow> string option" where
  "drop_prefix p s = (if take (length p) s = p then Some (drop (length p) s) else None)"

definition ascii_digit :: "char \<Rightarrow> bool" where
  "ascii_digit c \<longleftrightarrow> (let n = of_char c :: nat in 48 \<le> n \<and> n \<le> 57)"

definition POST_TYPES :: "string list" where
  "POST_TYPES = [''activity'', ''ugcPost'', ''share'']"

text \<open>\<open>(activity|ugcPost|share):([0-9]{1,30})\<close> followed by the end given as a parameter.\<close>

definition type_prefix :: "(string \<Rightarrow> string) \<Rightarrow> string \<Rightarrow> (string \<times> string) option" where
  "type_prefix norm s =
     first_some (\<lambda>t. if norm (take (length t) s) = norm t then Some (t, drop (length t) s) else None) POST_TYPES"

definition POST_URL_PREFIX :: string where
  "POST_URL_PREFIX = ''https://www.linkedin.com/feed/update/urn:li:''"

definition match_post_url :: "string \<Rightarrow> (string \<times> string) option" where
  "match_post_url url =
     (case drop_prefix POST_URL_PREFIX url of
        None \<Rightarrow> None
      | Some s \<Rightarrow>
          (case type_prefix id s of
             None \<Rightarrow> None
           | Some (t, r) \<Rightarrow>
               (case r of
                  [] \<Rightarrow> None
                | c # r' \<Rightarrow>
                    let ds = takeWhile ascii_digit r' in
                    if c = CHR '':'' \<and> 1 \<le> length ds \<and> length ds \<le> 30 \<and> drop (length ds) r' = ''/''
                    then Some (t, ds) else None)))"

text \<open>A separator of a URN, plain or percent encoded in either case.\<close>

definition drop_separator :: "string \<Rightarrow> string option" where
  "drop_separator s =
     (case s of
        [] \<Rightarrow> None
      | c # r \<Rightarrow>
          if c = CHR '':'' then Some r
          else if casefold (take 3 s) = ''%3a'' then Some (drop 3 s) else None)"

definition bind_option :: "'a option \<Rightarrow> ('a \<Rightarrow> 'b option) \<Rightarrow> 'b option" where
  "bind_option m f = (case m of None \<Rightarrow> None | Some a \<Rightarrow> f a)"

definition drop_word :: "string \<Rightarrow> string \<Rightarrow> string option" where
  "drop_word w s = (if casefold (take (length w) s) = w then Some (drop (length w) s) else None)"

definition match_urn :: "string \<Rightarrow> (string \<times> string) option" where
  "match_urn s =
     bind_option (drop_word ''urn'' s) (\<lambda>s. bind_option (drop_separator s) (\<lambda>s.
     bind_option (drop_word ''li'' s) (\<lambda>s. bind_option (drop_separator s) (\<lambda>s.
     bind_option (type_prefix casefold s) (\<lambda>(t, s). bind_option (drop_separator s) (\<lambda>ds.
       if list_all ascii_digit ds \<and> 1 \<le> length ds \<and> length ds \<le> 30 then Some (t, ds) else None))))))"

section \<open>Validation\<close>

datatype repost_error =
    LinkedInRepostValidationError string
  | LinkedInRepostConflictError
  | LinkedInRepostStateError string
  | RepostStateChangedError
  | LinkedInRepostWorkerRefused string
  | RepostDoesNotExist

abbreviation invalid :: "string \<Rightarrow> (repost_error, 'a) result" where
  "invalid m \<equiv> Inl (LinkedInRepostValidationError m)"

definition REPOST_OPERATORS :: "string list" where
  "REPOST_OPERATORS = [''Arian'', ''Chuka'']"

definition OPERATOR_INPUTS :: "string list" where
  "OPERATOR_INPUTS = [''arian'', ''chuka'', ''eddy'']"

definition validate_operator :: "string \<Rightarrow> (repost_error, string) result" where
  "validate_operator v =
     (let k = casefold (strip v) in
      if k \<notin> set OPERATOR_INPUTS then invalid ''--operator must be Arian, Chuka or Eddy.''
      else let operator = resolve_operator (Some k) in
           if operator \<notin> set REPOST_OPERATORS then invalid ''--operator must be Arian, Chuka or Eddy.''
           else Inr operator)"

definition validate_post_url :: "string \<Rightarrow> (repost_error, string) result" where
  "validate_post_url v =
     (let url = strip v in
      if match_post_url url = None then invalid ''--post-url must be exactly a post address''
      else Inr url)"

definition ref_head :: "char \<Rightarrow> bool" where
  "ref_head c \<longleftrightarrow> (let n = of_char c :: nat in
     (48 \<le> n \<and> n \<le> 57) \<or> (65 \<le> n \<and> n \<le> 90) \<or> (97 \<le> n \<and> n \<le> 122))"

definition external_ref_re :: "string \<Rightarrow> bool" where
  "external_ref_re s =
     (case s of
        [] \<Rightarrow> False
      | c # t \<Rightarrow> ref_head c \<and> list_all (\<lambda>x. ref_head x \<or> x \<in> set ''._:-'') t \<and> length t \<le> 99)"

definition validate_external_ref :: "string \<Rightarrow> (repost_error, string) result" where
  "validate_external_ref v = (if \<not> external_ref_re v then invalid ''--external-ref'' else Inr v)"

definition MAX_COMMENTARY_CHARS :: nat where "MAX_COMMENTARY_CHARS = 3000"

definition control_char :: "char \<Rightarrow> bool" where
  "control_char c \<longleftrightarrow> (let n = of_char c :: nat in n < 32 \<or> (127 \<le> n \<and> n \<le> 159))"

definition validate_commentary :: "string \<Rightarrow> (repost_error, string) result" where
  "validate_commentary v =
     (if MAX_COMMENTARY_CHARS < length v then invalid ''Commentary must be at most 3000 characters.''
      else if v \<noteq> strip v then invalid ''Commentary must not start or end with whitespace.''
      else if list_ex (\<lambda>c. of_char c \<noteq> (10 :: nat) \<and> control_char c) v then
        invalid ''Commentary may contain line breaks but no other control characters.''
      else Inr v)"

definition error_type_re :: "string \<Rightarrow> bool" where
  "error_type_re s =
     (case s of
        [] \<Rightarrow> False
      | c # t \<Rightarrow> (ref_head c \<and> \<not> ascii_digit c \<or> c = CHR ''_'') \<and>
          list_all (\<lambda>x. ref_head x \<or> x = CHR ''_'') t \<and> length t \<le> 79)"

definition safe_error_type :: "string \<Rightarrow> string \<Rightarrow> string" where
  "safe_error_type fallback v = (let e = strip v in if error_type_re e then e else fallback)"

section \<open>URNs\<close>

definition urn_text :: "string \<Rightarrow> string \<Rightarrow> string" where
  "urn_text t ds = ''urn:li:'' @ t @ '':'' @ ds"

definition urn_from_post_url :: "string \<Rightarrow> (repost_error, string) result" where
  "urn_from_post_url url =
     (case match_post_url url of
        None \<Rightarrow> invalid ''Not a canonical LinkedIn post URL.''
      | Some (t, ds) \<Rightarrow> Inr (urn_text t ds))"

definition normalize_urn :: "string \<Rightarrow> string option" where
  "normalize_urn v = (case match_urn (strip v) of None \<Rightarrow> None | Some (t, ds) \<Rightarrow> Some (urn_text t ds))"

definition post_url_for_urn :: "string \<Rightarrow> (repost_error, string) result" where
  "post_url_for_urn urn =
     (case normalize_urn urn of
        None \<Rightarrow> invalid ''Not a LinkedIn post URN.''
      | Some u \<Rightarrow> Inr (''https://www.linkedin.com/feed/update/'' @ u @ ''/''))"

section \<open>Round trips\<close>

definition post_id :: "string \<Rightarrow> string \<Rightarrow> bool" where
  "post_id t ds \<longleftrightarrow> t \<in> set POST_TYPES \<and> list_all ascii_digit ds \<and> 1 \<le> length ds \<and> length ds \<le> 30"

definition post_url :: "string \<Rightarrow> string \<Rightarrow> string" where
  "post_url t ds = POST_URL_PREFIX @ t @ '':'' @ ds @ ''/''"

lemma drop_prefix_Some: "drop_prefix p s = Some r \<longleftrightarrow> s = p @ r"
  by (auto simp: drop_prefix_def) (metis append_take_drop_id)

lemma type_prefix_id:
  "type_prefix id s = Some (t, r) \<Longrightarrow> s = t @ r \<and> t \<in> set POST_TYPES"
  unfolding type_prefix_def POST_TYPES_def
  by (auto split: if_splits)

lemma takeWhile_digits:
  "list_all ascii_digit ds \<Longrightarrow> takeWhile ascii_digit (ds @ CHR ''/'' # r) = ds"
proof -
  assume "list_all ascii_digit ds"
  moreover have "\<not> ascii_digit CHR ''/''" by code_simp
  ultimately show ?thesis by (simp add: takeWhile_append list_all_iff)
qed

lemma lower_letters:
  "ascii_lower CHR ''a'' = CHR ''a''" "ascii_lower CHR ''c'' = CHR ''c''" "ascii_lower CHR ''t'' = CHR ''t''"
  "ascii_lower CHR ''i'' = CHR ''i''" "ascii_lower CHR ''v'' = CHR ''v''" "ascii_lower CHR ''y'' = CHR ''y''"
  "ascii_lower CHR ''u'' = CHR ''u''" "ascii_lower CHR ''g'' = CHR ''g''" "ascii_lower CHR ''P'' = CHR ''p''"
  "ascii_lower CHR ''o'' = CHR ''o''" "ascii_lower CHR ''s'' = CHR ''s''" "ascii_lower CHR ''h'' = CHR ''h''"
  "ascii_lower CHR ''r'' = CHR ''r''" "ascii_lower CHR ''e'' = CHR ''e''" "ascii_lower CHR '':'' = CHR '':''"
  "ascii_lower CHR ''n'' = CHR ''n''" "ascii_lower CHR ''l'' = CHR ''l''"
  by code_simp+

lemma type_prefix_colon:
  assumes "t \<in> set POST_TYPES"
  shows "type_prefix id (t @ CHR '':'' # r) = Some (t, CHR '':'' # r)"
    and "type_prefix casefold (t @ CHR '':'' # r) = Some (t, CHR '':'' # r)"
proof -
  from assms have "t = ''activity'' \<or> t = ''ugcPost'' \<or> t = ''share''" by (simp add: POST_TYPES_def)
  then show "type_prefix id (t @ CHR '':'' # r) = Some (t, CHR '':'' # r)"
    by (elim disjE) (simp_all add: type_prefix_def POST_TYPES_def)
  from assms have "t = ''activity'' \<or> t = ''ugcPost'' \<or> t = ''share''" by (simp add: POST_TYPES_def)
  then show "type_prefix casefold (t @ CHR '':'' # r) = Some (t, CHR '':'' # r)"
    by (elim disjE) (simp_all add: type_prefix_def POST_TYPES_def casefold_def lower_letters)
qed

lemma match_post_url_Some: "match_post_url url = Some (t, ds) \<longleftrightarrow> url = post_url t ds \<and> post_id t ds"
proof
  assume "match_post_url url = Some (t, ds)"
  then obtain s r where s: "drop_prefix POST_URL_PREFIX url = Some s"
    and t: "type_prefix id s = Some (t, CHR '':'' # r)"
    and d: "ds = takeWhile ascii_digit r" "1 \<le> length ds" "length ds \<le> 30" "drop (length ds) r = ''/''"
    by (auto simp: match_post_url_def Let_def split: option.splits list.splits if_splits)
  have "r = ds @ ''/''" using d(1,4) by (metis append_take_drop_id takeWhile_eq_take)
  moreover have "list_all ascii_digit ds" unfolding d(1) by (auto simp: list_all_iff dest: set_takeWhileD)
  ultimately show "url = post_url t ds \<and> post_id t ds"
    using s type_prefix_id [OF t] d(2,3) by (simp add: drop_prefix_Some post_url_def post_id_def)
next
  assume u: "url = post_url t ds \<and> post_id t ds"
  then have p: "t \<in> set POST_TYPES" "list_all ascii_digit ds" "1 \<le> length ds" "length ds \<le> 30"
    by (simp_all add: post_id_def)
  have "drop_prefix POST_URL_PREFIX url = Some (t @ CHR '':'' # (ds @ ''/''))"
    using u by (simp add: drop_prefix_Some post_url_def)
  then show "match_post_url url = Some (t, ds)"
    using p takeWhile_digits [OF p(2), of "[]"]
    by (simp add: match_post_url_def type_prefix_colon(1) Let_def)
qed

lemma match_urn_text: "post_id t ds \<Longrightarrow> match_urn (urn_text t ds) = Some (t, ds)"
proof -
  assume p: "post_id t ds"
  have a: "casefold ''urn'' = ''urn''" "casefold ''li'' = ''li''" by code_simp+
  show ?thesis
    using p
    by (simp add: match_urn_def urn_text_def drop_word_def drop_separator_def bind_option_def a
        type_prefix_colon(2) post_id_def)
qed

lemma digit_not_space: "ascii_digit c \<Longrightarrow> \<not> py_space c"
  by (auto simp: ascii_digit_def py_space_def Let_def)

lemma strip_ends:
  assumes "s \<noteq> []" and "\<not> py_space (hd s)" and "\<not> py_space (last s)" shows "strip s = s"
proof -
  have "lstrip s = s" by (rule lstrip_fixed) (simp add: assms(2))
  moreover have "lstrip (rev s) = rev s" by (rule lstrip_fixed) (simp add: assms hd_rev)
  ultimately show ?thesis by (simp add: strip_def)
qed

lemma strip_urn: "post_id t ds \<Longrightarrow> strip (urn_text t ds) = urn_text t ds"
proof (rule strip_ends)
  assume p: "post_id t ds"
  show "urn_text t ds \<noteq> []" by (simp add: urn_text_def)
  show "\<not> py_space (hd (urn_text t ds))" by (simp add: urn_text_def py_space_def)
  have "ds \<noteq> []" "\<forall>c \<in> set ds. ascii_digit c" using p by (auto simp: post_id_def list_all_iff)
  then have "last (urn_text t ds) = last ds" "last ds \<in> set ds" by (simp_all add: urn_text_def)
  then show "\<not> py_space (last (urn_text t ds))"
    using \<open>\<forall>c \<in> set ds. ascii_digit c\<close> digit_not_space by metis
qed

text \<open>
  C30: an accepted post address and its URN carry the same information: the address that the
  validation returns has a URN, the URN is in normal form, and the address that is built from the
  URN is the accepted one, character for character.
\<close>

theorem post_url_roundtrip:
  assumes "validate_post_url v = Inr url"
  shows "\<exists>urn. urn_from_post_url url = Inr urn \<and> normalize_urn urn = Some urn \<and>
    post_url_for_urn urn = Inr url \<and> validate_post_url url = Inr url"
proof -
  have u: "url = strip v" "match_post_url url \<noteq> None"
    using assms by (simp_all add: validate_post_url_def Let_def split: if_splits)
  then obtain t ds where m: "match_post_url url = Some (t, ds)" by auto
  then have p: "url = post_url t ds" "post_id t ds" by (simp_all add: match_post_url_Some)
  have n: "normalize_urn (urn_text t ds) = Some (urn_text t ds)"
    by (simp add: normalize_urn_def strip_urn [OF p(2)] match_urn_text [OF p(2)])
  have "post_url_for_urn (urn_text t ds) = Inr url"
  proof -
    have "''https://www.linkedin.com/feed/update/'' @ urn_text t ds @ ''/'' = url"
      by (simp add: p(1) post_url_def POST_URL_PREFIX_def urn_text_def)
    then show ?thesis by (simp only: post_url_for_urn_def n option.case)
  qed
  moreover have "strip url = url" by (simp only: u(1) strip_strip)
  then have "validate_post_url url = Inr url" using m by (simp add: validate_post_url_def)
  moreover have "urn_from_post_url url = Inr (urn_text t ds)" by (simp add: urn_from_post_url_def m)
  ultimately show ?thesis using n by blast
qed

theorem post_url_roundtrip_witness:
  "\<exists>urn. urn_from_post_url ''https://www.linkedin.com/feed/update/urn:li:share:12/'' = Inr urn \<and>
     post_url_for_urn urn = Inr ''https://www.linkedin.com/feed/update/urn:li:share:12/''"
proof -
  have "validate_post_url '' https://www.linkedin.com/feed/update/urn:li:share:12/'' =
      Inr ''https://www.linkedin.com/feed/update/urn:li:share:12/''" by code_simp
  from post_url_roundtrip [OF this] show ?thesis by blast
qed

text \<open>\<open>normalize_urn\<close> is idempotent: what it returns is a normal form.\<close>

lemma bind_option_Some: "bind_option m f = Some b \<longleftrightarrow> (\<exists>a. m = Some a \<and> f a = Some b)"
  by (cases m) (simp_all add: bind_option_def)

lemma type_prefix_in: "type_prefix norm s = Some (t, r) \<Longrightarrow> t \<in> set POST_TYPES"
  by (auto simp: type_prefix_def dest!: first_some_SomeD split: if_splits)

lemma match_urn_id:
  assumes "match_urn s = Some (t, ds)" shows "post_id t ds"
proof -
  from assms obtain s0 s1 r where tp: "type_prefix casefold s0 = Some (s1, r)"
    and f: "bind_option (drop_separator r) (\<lambda>ds.
       if list_all ascii_digit ds \<and> 1 \<le> length ds \<and> length ds \<le> 30 then Some (s1, ds) else None) = Some (t, ds)"
    unfolding match_urn_def by (auto simp only: bind_option_Some split_paired_Ex case_prod_conv)
  from f have "s1 = t" "list_all ascii_digit ds" "1 \<le> length ds" "length ds \<le> 30"
    by (auto simp: bind_option_Some split: if_splits)
  with type_prefix_in [OF tp] show ?thesis by (simp add: post_id_def)
qed

lemma normalize_urn_idem:
  assumes "normalize_urn v = Some u" shows "normalize_urn u = Some u"
proof -
  from assms obtain t ds where "match_urn (strip v) = Some (t, ds)" "u = urn_text t ds"
    by (auto simp: normalize_urn_def split: option.splits)
  with match_urn_id show ?thesis by (simp add: normalize_urn_def strip_urn match_urn_text)
qed

end
