(* ===== verification/Attempt_Ledger.thy ===== *)
theory Attempt_Ledger
  imports Post_Urls "HOL-Library.Product_Lexorder"
begin

text \<open>
  The ledger of queued reposts (\<open>linkedin/reposts.py\<close>, model \<open>LinkedInRepost\<close>): enqueue, cancel,
  retry, claim, the persisted click, the outcome and the sweep of interrupted rows. The personal
  posts of \<open>linkedin/personal_posts.py\<close> keep a ledger of the same shape with another payload and
  other constants, so the payload is a type parameter and the constants are a record. Every
  operation is one transaction; times are microseconds.
\<close>

section \<open>Rows\<close>

datatype ledger_status = Queued | Running | Sent | Failed | Uncertain | Skipped

record 'p ledger_row =
  row_pk :: int
  external_ref :: string
  row_operator :: string
  commentary :: string
  row_payload :: 'p
  row_status :: ledger_status
  scheduled_for :: "int option"
  click_attempted_at :: "int option"
  started_at :: "int option"
  completed_at :: "int option"
  result_url :: string
  error_type :: string
  retry_count :: nat
  row_created_at :: int

record 'p ledger =
  rows :: "'p ledger_row list"
  row_seq :: int

record ledger_conf =
  base_budget_seconds :: int
  default_error :: string
  unverified_error :: string
  interrupted_error :: string
  state_changed_error :: string

definition MAX_RETRIES :: nat where "MAX_RETRIES = 2"
definition PROCESS_GRACE_SECONDS :: int where "PROCESS_GRACE_SECONDS = 10"
definition COMMENTARY_TYPE_MAX_DELAY_MS :: int where "COMMENTARY_TYPE_MAX_DELAY_MS = 250"
definition SECOND :: int where "SECOND = 1000000"

text \<open>\<open>math.ceil(n / 1000)\<close>\<close>

definition ceil_thousandth :: "int \<Rightarrow> int" where
  "ceil_thousandth n = - ((- n) div 1000)"

definition budget_seconds :: "ledger_conf \<Rightarrow> string \<Rightarrow> int" where
  "budget_seconds conf text =
     base_budget_seconds conf + ceil_thousandth (int (length text) * COMMENTARY_TYPE_MAX_DELAY_MS)"

section \<open>Operations\<close>

definition due :: "int \<Rightarrow> 'p ledger_row \<Rightarrow> bool" where
  "due now r = (case scheduled_for r of None \<Rightarrow> True | Some t \<Rightarrow> t \<le> now)"

text \<open>
  \<open>filter(...).update(...)\<close>: the changed table and the number of rows that matched.
\<close>

definition update_where ::
  "('p ledger_row \<Rightarrow> bool) \<Rightarrow> ('p ledger_row \<Rightarrow> 'p ledger_row) \<Rightarrow> 'p ledger \<Rightarrow> 'p ledger" where
  "update_where P f l = l\<lparr>rows := map (\<lambda>r. if P r then f r else r) (rows l)\<rparr>"

definition updated :: "('p ledger_row \<Rightarrow> bool) \<Rightarrow> 'p ledger \<Rightarrow> nat" where
  "updated P l = length (filter P (rows l))"

definition enqueue ::
  "int \<Rightarrow> string \<Rightarrow> string \<Rightarrow> string \<Rightarrow> 'p \<Rightarrow> int option \<Rightarrow> 'p ledger
     \<Rightarrow> (repost_error, ('p ledger_row \<times> bool) \<times> 'p ledger) result" where
  "enqueue now ref operator text payload sched l =
     (case List.find (\<lambda>r. external_ref r = ref) (rows l) of
        Some r \<Rightarrow>
          if row_operator r \<noteq> operator \<or> commentary r \<noteq> text \<or> row_payload r \<noteq> payload
          then Inl LinkedInRepostConflictError
          else Inr ((r, False), l)
      | None \<Rightarrow>
          let r = \<lparr>row_pk = row_seq l + 1, external_ref = ref, row_operator = operator, commentary = text,
                   row_payload = payload, row_status = Queued, scheduled_for = sched,
                   click_attempted_at = None, started_at = None, completed_at = None,
                   result_url = '''', error_type = '''', retry_count = 0, row_created_at = now\<rparr>
          in Inr ((r, True), \<lparr>rows = rows l @ [r], row_seq = row_seq l + 1\<rparr>))"

definition find_row :: "string \<Rightarrow> 'p ledger \<Rightarrow> (repost_error, 'p ledger_row) result" where
  "find_row ref l =
     bind_result (validate_external_ref ref) (\<lambda>ref.
       case List.find (\<lambda>r. external_ref r = ref) (rows l) of
         None \<Rightarrow> Inl (LinkedInRepostStateError ''No LinkedIn repost has that external_ref.'')
       | Some r \<Rightarrow> Inr r)"

definition is_stale_running :: "ledger_conf \<Rightarrow> int \<Rightarrow> 'p ledger_row \<Rightarrow> bool" where
  "is_stale_running conf now r =
     (if row_status r \<noteq> Running then False
      else case started_at r of
        None \<Rightarrow> True
      | Some t \<Rightarrow> (budget_seconds conf (commentary r) + PROCESS_GRACE_SECONDS) * SECOND < now - t)"

definition read_status :: "ledger_conf \<Rightarrow> int \<Rightarrow> string \<Rightarrow> 'p ledger \<Rightarrow> (repost_error, ledger_status) result" where
  "read_status conf now ref l =
     bind_result (find_row ref l) (\<lambda>r. Inr (if is_stale_running conf now r then Uncertain else row_status r))"

definition cancel_where :: "int \<Rightarrow> 'p ledger_row \<Rightarrow> bool" where
  "cancel_where pk r \<longleftrightarrow> row_pk r = pk \<and> row_status r = Queued"

definition cancel_row :: "int \<Rightarrow> 'p ledger_row \<Rightarrow> 'p ledger_row" where
  "cancel_row now r = r\<lparr>row_status := Skipped, completed_at := Some now\<rparr>"

definition cancel :: "int \<Rightarrow> string \<Rightarrow> 'p ledger \<Rightarrow> (repost_error, 'p ledger) result" where
  "cancel now ref l =
     bind_result (find_row ref l) (\<lambda>r.
       if updated (cancel_where (row_pk r)) l \<noteq> 1 then
         Inl (LinkedInRepostStateError ''Only queued reposts can be cancelled'')
       else Inr (update_where (cancel_where (row_pk r)) (cancel_row now) l))"

definition retry_where :: "int \<Rightarrow> 'p ledger_row \<Rightarrow> bool" where
  "retry_where pk r \<longleftrightarrow> row_pk r = pk \<and> row_status r = Failed \<and> click_attempted_at r = None \<and>
     retry_count r < MAX_RETRIES"

definition retry_row :: "'p ledger_row \<Rightarrow> 'p ledger_row" where
  "retry_row r = r\<lparr>row_status := Queued, started_at := None, completed_at := None, error_type := '''',
     retry_count := retry_count r + 1\<rparr>"

definition retry :: "string \<Rightarrow> 'p ledger \<Rightarrow> (repost_error, 'p ledger) result" where
  "retry ref l =
     bind_result (find_row ref l) (\<lambda>r.
       if updated (retry_where (row_pk r)) l \<noteq> 1 then
         (if row_status r = Failed \<and> click_attempted_at r = None
          then Inl (LinkedInRepostStateError ''already retried to the limit'')
          else Inl (LinkedInRepostStateError ''Only a failed repost that never clicked can be retried''))
       else Inr (update_where (retry_where (row_pk r)) retry_row l))"

definition has_queued :: "string \<Rightarrow> int \<Rightarrow> 'p ledger \<Rightarrow> bool" where
  "has_queued operator now l \<longleftrightarrow>
     list_ex (\<lambda>r. due now r \<and> row_operator r = operator \<and> row_status r = Queued) (rows l)"

text \<open>The rows of a sender that its interrupted child left behind.\<close>

definition sweep_where :: "ledger_conf \<Rightarrow> string \<Rightarrow> int \<Rightarrow> 'p ledger_row \<Rightarrow> bool" where
  "sweep_where conf operator now r \<longleftrightarrow> row_operator r = operator \<and> row_status r = Running \<and>
     \<not> (click_attempted_at r = None \<and> \<not> is_stale_running conf now r)"

definition interrupt_row :: "ledger_conf \<Rightarrow> int \<Rightarrow> 'p ledger_row \<Rightarrow> 'p ledger_row" where
  "interrupt_row conf now r =
     r\<lparr>row_status := Uncertain, error_type := interrupted_error conf, completed_at := Some now\<rparr>"

definition sweep_stale_running :: "ledger_conf \<Rightarrow> string \<Rightarrow> int \<Rightarrow> 'p ledger \<Rightarrow> string list \<times> 'p ledger" where
  "sweep_stale_running conf operator now l =
     (map external_ref (sort_key row_pk (filter (sweep_where conf operator now) (rows l))),
      update_where (sweep_where conf operator now) (interrupt_row conf now) l)"

definition due_key :: "'p ledger_row \<Rightarrow> int \<times> int" where
  "due_key r = (case scheduled_for r of None \<Rightarrow> row_created_at r | Some t \<Rightarrow> t, row_pk r)"

definition start_row :: "int \<Rightarrow> 'p ledger_row \<Rightarrow> 'p ledger_row" where
  "start_row now r = r\<lparr>row_status := Running, started_at := Some now\<rparr>"

definition running_of :: "string \<Rightarrow> 'p ledger \<Rightarrow> bool" where
  "running_of operator l \<longleftrightarrow> list_ex (\<lambda>r. row_operator r = operator \<and> row_status r = Running) (rows l)"

definition claim_next :: "string \<Rightarrow> int \<Rightarrow> 'p ledger \<Rightarrow> 'p ledger_row option \<times> 'p ledger" where
  "claim_next operator now l =
     (if running_of operator l then (None, l)
      else case sort_key due_key
             (filter (\<lambda>r. due now r \<and> row_operator r = operator \<and> row_status r = Queued) (rows l)) of
        [] \<Rightarrow> (None, l)
      | r # _ \<Rightarrow>
          let P = (\<lambda>x. due now x \<and> row_pk x = row_pk r \<and> row_status x = Queued)
          in if updated P l \<noteq> 1 then (None, l)
             else (Some (start_row now r), update_where P (start_row now) l))"

definition click_where :: "int \<Rightarrow> 'p ledger_row \<Rightarrow> bool" where
  "click_where pk r \<longleftrightarrow> row_pk r = pk \<and> row_status r = Running \<and> click_attempted_at r = None"

definition mark_click_attempted :: "int \<Rightarrow> int \<Rightarrow> 'p ledger \<Rightarrow> (repost_error, 'p ledger) result" where
  "mark_click_attempted pk now l =
     (if updated (click_where pk) l \<noteq> 1 then Inl RepostStateChangedError
      else Inr (update_where (click_where pk) (\<lambda>r. r\<lparr>click_attempted_at := Some now\<rparr>) l))"

definition running_where :: "int \<Rightarrow> 'p ledger_row \<Rightarrow> bool" where
  "running_where pk r \<longleftrightarrow> row_pk r = pk \<and> row_status r = Running"

definition status_of :: "int \<Rightarrow> 'p ledger \<Rightarrow> (repost_error, ledger_status) result" where
  "status_of pk l = (case List.find (\<lambda>r. row_pk r = pk) (rows l) of
     None \<Rightarrow> Inl RepostDoesNotExist | Some r \<Rightarrow> Inr (row_status r))"

definition fail_row :: "ledger_conf \<Rightarrow> string \<Rightarrow> bool \<Rightarrow> int \<Rightarrow> 'p ledger_row \<Rightarrow> 'p ledger_row" where
  "fail_row conf e uncertain now r =
     r\<lparr>row_status := (if click_attempted_at r \<noteq> None then Uncertain else if uncertain then Uncertain else Failed),
       error_type := safe_error_type (default_error conf) e, completed_at := Some now\<rparr>"

definition record_failure ::
  "ledger_conf \<Rightarrow> int \<Rightarrow> string \<Rightarrow> bool \<Rightarrow> int \<Rightarrow> 'p ledger \<Rightarrow> (repost_error, ledger_status) result \<times> 'p ledger" where
  "record_failure conf pk e uncertain now l =
     (let l' = update_where (running_where pk) (fail_row conf e uncertain now) l in (status_of pk l', l'))"

definition sent_row :: "string \<Rightarrow> int \<Rightarrow> 'p ledger_row \<Rightarrow> 'p ledger_row" where
  "sent_row url now r = r\<lparr>row_status := Sent, result_url := url, error_type := '''', completed_at := Some now\<rparr>"

definition record_sent ::
  "ledger_conf \<Rightarrow> int \<Rightarrow> string \<Rightarrow> int \<Rightarrow> 'p ledger \<Rightarrow> (repost_error, ledger_status) result \<times> 'p ledger" where
  "record_sent conf pk url now l =
     (if match_post_url url = None then record_failure conf pk (unverified_error conf) True now l
      else let l' = update_where (running_where pk) (sent_row url now) l in (status_of pk l', l'))"

end
