(* ===== verification/Attempt_Machine.thy ===== *)
theory Attempt_Machine
  imports Attempt_Ledger
begin

text \<open>
  The ledger of \<open>Attempt_Ledger\<close> driven by its operations in any order: the transactions of the
  workers, of the manual commands and of the dashboard that inserts, reschedules and cancels rows.
  Two logs that the code does not keep record what the browser and the workers did: the rows whose
  final click was released, and the rows that were claimed. The life cycle of a row is stated as an
  abstract step relation, and every operation refines it.
\<close>

section \<open>Operations as events\<close>

datatype 'p ledger_event =
    Enqueue int string string string 'p "int option"
  | Reschedule int "int option"
  | Cancel int string
  | Retry string
  | Sweep string int
  | Claim string int
  | Click int int
  | Record_sent int string int
  | Record_failure int string bool int

record 'p tracked =
  led :: "'p ledger"
  clicks :: "int list"
  claims :: "int list"

definition empty_tracked :: "'p tracked" where
  "empty_tracked = \<lparr>led = \<lparr>rows = [], row_seq = 0\<rparr>, clicks = [], claims = []\<rparr>"

definition set_led :: "(repost_error, 'p ledger) result \<Rightarrow> 'p tracked \<Rightarrow> 'p tracked" where
  "set_led r s = (case r of Inl _ \<Rightarrow> s | Inr l \<Rightarrow> s\<lparr>led := l\<rparr>)"

definition click_row :: "int \<Rightarrow> int \<Rightarrow> 'p tracked \<Rightarrow> 'p tracked" where
  "click_row pk now s =
     (case mark_click_attempted pk now (led s) of
        Inl _ \<Rightarrow> s
      | Inr l \<Rightarrow> s\<lparr>led := l, clicks := pk # clicks s\<rparr>)"

definition claim_row :: "string \<Rightarrow> int \<Rightarrow> 'p tracked \<Rightarrow> 'p tracked" where
  "claim_row operator now s =
     (case claim_next operator now (led s) of
        (None, _) \<Rightarrow> s
      | (Some r, l) \<Rightarrow> s\<lparr>led := l, claims := row_pk r # claims s\<rparr>)"

definition reschedule_where :: "int \<Rightarrow> 'p ledger_row \<Rightarrow> bool" where
  "reschedule_where pk r \<longleftrightarrow> row_pk r = pk \<and> row_status r = Queued"

fun ledger_step :: "ledger_conf \<Rightarrow> 'p ledger_event \<Rightarrow> 'p tracked \<Rightarrow> 'p tracked" where
  "ledger_step conf (Enqueue now ref operator text payload sched) s =
     set_led (bind_result (enqueue now ref operator text payload sched (led s)) (\<lambda>(_, l). Inr l)) s"
| "ledger_step conf (Reschedule pk t) s =
     s\<lparr>led := update_where (reschedule_where pk) (\<lambda>r. r\<lparr>scheduled_for := t\<rparr>) (led s)\<rparr>"
| "ledger_step conf (Cancel now ref) s = set_led (cancel now ref (led s)) s"
| "ledger_step conf (Retry ref) s = set_led (retry ref (led s)) s"
| "ledger_step conf (Sweep operator now) s = s\<lparr>led := snd (sweep_stale_running conf operator now (led s))\<rparr>"
| "ledger_step conf (Claim operator now) s = claim_row operator now s"
| "ledger_step conf (Click pk now) s = click_row pk now s"
| "ledger_step conf (Record_sent pk url now) s = s\<lparr>led := snd (record_sent conf pk url now (led s))\<rparr>"
| "ledger_step conf (Record_failure pk e uncertain now) s =
     s\<lparr>led := snd (record_failure conf pk e uncertain now (led s))\<rparr>"

section \<open>The life cycle of a row\<close>

type_synonym life = "ledger_status \<times> bool \<times> nat"

definition life_of :: "'p ledger_row \<Rightarrow> life" where
  "life_of r = (row_status r, click_attempted_at r \<noteq> None, retry_count r)"

inductive life_step :: "life \<Rightarrow> life \<Rightarrow> bool" where
  start: "life_step (Queued, c, n) (Running, c, n)"
| skip: "life_step (Queued, c, n) (Skipped, c, n)"
| click: "life_step (Running, False, n) (Running, True, n)"
| send: "life_step (Running, c, n) (Sent, c, n)"
| fail: "life_step (Running, False, n) (Failed, False, n)"
| lose: "life_step (Running, c, n) (Uncertain, c, n)"
| again: "n < 2 \<Longrightarrow> life_step (Failed, False, n) (Queued, False, Suc n)"

inductive_simps life_step_simps: "life_step (s, c, n) (s', c', n')"

definition final_status :: "ledger_status \<Rightarrow> bool" where
  "final_status x \<longleftrightarrow> x = Sent \<or> x = Uncertain \<or> x = Skipped"

text \<open>The columns that no operation writes once a row exists.\<close>

definition row_identity :: "'p ledger_row \<Rightarrow> int \<times> string \<times> string \<times> string \<times> 'p \<times> int" where
  "row_identity r = (row_pk r, external_ref r, row_operator r, commentary r, row_payload r, row_created_at r)"

definition row_moves :: "'p ledger_row \<Rightarrow> 'p ledger_row \<Rightarrow> bool" where
  "row_moves r r' \<longleftrightarrow> row_identity r' = row_identity r \<and>
     (life_of r' = life_of r \<or> life_step (life_of r) (life_of r'))"

definition fresh_row :: "'p ledger_row \<Rightarrow> bool" where
  "fresh_row r \<longleftrightarrow> life_of r = (Queued, False, 0)"

definition ledger_extends :: "'p ledger \<Rightarrow> 'p ledger \<Rightarrow> bool" where
  "ledger_extends l l' \<longleftrightarrow>
     (\<exists>new. list_all fresh_row new \<and> list_all2 row_moves (rows l @ new) (rows l'))"

named_theorems row_ops
declare cancel_where_def [row_ops] cancel_row_def [row_ops] retry_where_def [row_ops] retry_row_def [row_ops]
  sweep_where_def [row_ops] interrupt_row_def [row_ops] start_row_def [row_ops] click_where_def [row_ops]
  running_where_def [row_ops] fail_row_def [row_ops] sent_row_def [row_ops] reschedule_where_def [row_ops]
  MAX_RETRIES_def [row_ops]

lemma row_moves_refl [simp]: "row_moves r r"
  by (simp add: row_moves_def)

lemma list_all2_row_moves_refl [simp]: "list_all2 row_moves rs rs"
  by (simp add: list_all2_same)

lemma extends_refl [simp]: "ledger_extends l l"
  unfolding ledger_extends_def by (intro exI [of _ "[]"]) simp

lemma extends_update:
  assumes "\<And>r. r \<in> set (rows l) \<Longrightarrow> P r \<Longrightarrow> row_moves r (f r)"
  shows "ledger_extends l (update_where P f l)"
  unfolding ledger_extends_def update_where_def
  by (intro exI [of _ "[]"]) (auto simp: list.rel_map list_all2_same assms)

lemmas row_moves_simps = row_moves_def row_identity_def life_of_def life_step_simps

lemma enqueue_cases:
  assumes "enqueue now ref operator text payload sched l = Inr ((r, created), l')"
  obtains "created = False" and "l' = l" and "r \<in> set (rows l)" and "external_ref r = ref"
      and "row_operator r = operator" and "commentary r = text" and "row_payload r = payload"
    | "created = True" and "ref \<notin> external_ref ` set (rows l)" and "rows l' = rows l @ [r]"
      and "row_seq l' = row_seq l + 1" and "row_pk r = row_seq l + 1" and "external_ref r = ref" and "fresh_row r"
      and "row_operator r = operator" and "commentary r = text" and "row_payload r = payload"
proof (cases "List.find (\<lambda>r. external_ref r = ref) (rows l)")
  case None
  then have "ref \<notin> external_ref ` set (rows l)" by (auto simp: find_None_iff)
  with None assms show ?thesis
    by (intro that(2)) (simp_all add: enqueue_def Let_def fresh_row_def life_of_def, (elim conjE, hypsubst, simp)+)
next
  case (Some x)
  then have "x \<in> set (rows l)" "external_ref x = ref" by (auto dest: find_Some_iff_mem)
  with Some assms show ?thesis
    by (intro that(1)) (auto simp: enqueue_def split: if_splits)
qed

lemma claim_next_cases:
  assumes "claim_next operator now l = (res, l')"
  obtains "res = None" and "l' = l"
    | r where "res = Some (start_row now r)" and "r \<in> set (rows l)" and "row_status r = Queued"
      and "row_operator r = operator" and "due now r" and "\<not> running_of operator l"
      and "l' = update_where (\<lambda>x. due now x \<and> row_pk x = row_pk r \<and> row_status x = Queued) (start_row now) l"
proof (cases "running_of operator l")
  case True
  then show ?thesis using assms that(1) by (simp add: claim_next_def)
next
  case run: False
  let ?q = "filter (\<lambda>r. due now r \<and> row_operator r = operator \<and> row_status r = Queued) (rows l)"
  show ?thesis
  proof (cases "sort_key due_key ?q")
    case Nil
    then show ?thesis using assms run that(1) by (simp add: claim_next_def)
  next
    case (Cons r rs)
    let ?P = "\<lambda>x. due now x \<and> row_pk x = row_pk r \<and> row_status x = Queued"
    have "r \<in> set (sort_key due_key ?q)" unfolding Cons by simp
    then have r: "r \<in> set (rows l)" "row_status r = Queued" "row_operator r = operator" "due now r" by simp_all
    have e: "claim_next operator now l =
      (if updated ?P l \<noteq> 1 then (None, l) else (Some (start_row now r), update_where ?P (start_row now) l))"
      using run Cons by (simp add: claim_next_def Let_def)
    show ?thesis
    proof (cases "updated ?P l = 1")
      case True
      then have "res = Some (start_row now r)" "l' = update_where ?P (start_row now) l" using assms e by simp_all
      with r run show ?thesis using that(2) by blast
    next
      case False
      then show ?thesis using assms e that(1) by simp
    qed
  qed
qed

lemma cancel_Inr:
  "cancel now ref l = Inr l' \<Longrightarrow> \<exists>pk. l' = update_where (cancel_where pk) (cancel_row now) l"
  by (auto simp: cancel_def bind_result_def split: sum.splits if_splits)

lemma retry_Inr:
  "retry ref l = Inr l' \<Longrightarrow> \<exists>pk. l' = update_where (retry_where pk) retry_row l"
  by (auto simp: retry_def bind_result_def split: sum.splits if_splits)

lemma mark_click_Inr:
  "mark_click_attempted pk now l = Inr l' \<Longrightarrow>
     length (filter (click_where pk) (rows l)) = 1 \<and>
     l' = update_where (click_where pk) (\<lambda>r. r\<lparr>click_attempted_at := Some now\<rparr>) l"
  by (auto simp: mark_click_attempted_def updated_def split: if_splits)

lemma record_failure_led:
  "snd (record_failure conf pk e u now l) = update_where (running_where pk) (fail_row conf e u now) l"
  by (simp add: record_failure_def Let_def)

lemma record_sent_led:
  "snd (record_sent conf pk url now l) =
     (if match_post_url url = None then update_where (running_where pk) (fail_row conf (unverified_error conf) True now) l
      else update_where (running_where pk) (sent_row url now) l)"
  by (simp add: record_sent_def record_failure_led Let_def)

lemma sweep_led:
  "snd (sweep_stale_running conf operator now l) = update_where (sweep_where conf operator now) (interrupt_row conf now) l"
  by (simp add: sweep_stale_running_def)

lemmas led_simps = record_failure_led record_sent_led sweep_led

section \<open>Every operation refines the life cycle\<close>

lemma led_set_led: "led (set_led r s) = (case r of Inl _ \<Rightarrow> led s | Inr l \<Rightarrow> l)"
  by (simp add: set_led_def split: sum.split)

lemma extends_enqueue:
  "enqueue now ref operator text payload sched l = Inr (rc, l') \<Longrightarrow> ledger_extends l l'"
proof -
  assume e: "enqueue now ref operator text payload sched l = Inr (rc, l')"
  obtain r c where "rc = (r, c)" by (cases rc)
  with e have "enqueue now ref operator text payload sched l = Inr ((r, c), l')" by simp
  then show ?thesis
  proof (cases rule: enqueue_cases)
    case 2
    then show ?thesis unfolding ledger_extends_def by (intro exI [of _ "[r]"]) simp
  qed simp
qed

lemma step_extends: "ledger_extends (led s) (led (ledger_step conf e s))"
proof (cases e)
  case (Enqueue now ref operator body payload sched)
  then show ?thesis
    by (cases "enqueue now ref operator body payload sched (led s)")
      (auto simp: led_set_led dest: extends_enqueue)
next
  case (Reschedule pk t)
  then show ?thesis by (auto intro!: extends_update simp: row_moves_simps)
next
  case (Cancel now ref)
  then show ?thesis
    by (auto simp: led_set_led row_moves_simps row_ops split: sum.split dest!: cancel_Inr intro!: extends_update)
next
  case (Retry ref)
  then show ?thesis
    by (auto simp: led_set_led row_moves_simps row_ops split: sum.split dest!: retry_Inr intro!: extends_update)
next
  case (Sweep operator now)
  then show ?thesis by (auto intro!: extends_update simp: row_moves_simps row_ops sweep_led)
next
  case (Claim operator now)
  obtain res l' where c: "claim_next operator now (led s) = (res, l')" by fastforce
  then show ?thesis
  proof (cases rule: claim_next_cases)
    case 1
    with c Claim show ?thesis by (simp add: claim_row_def)
  next
    case (2 r)
    with c Claim show ?thesis
      by (auto intro!: extends_update simp: claim_row_def row_moves_simps row_ops)
  qed
next
  case (Click pk now)
  then show ?thesis
    by (auto simp: click_row_def row_moves_simps row_ops split: sum.split dest!: mark_click_Inr intro!: extends_update)
next
  case (Record_sent pk url now)
  then show ?thesis by (auto intro!: extends_update simp: row_moves_simps row_ops record_sent_led)
next
  case (Record_failure pk e uncertain now)
  then show ?thesis by (auto intro!: extends_update simp: row_moves_simps row_ops record_failure_led)
qed

section \<open>The invariant\<close>

definition row_ok :: "nat \<Rightarrow> nat \<Rightarrow> 'p ledger_row \<Rightarrow> bool" where
  "row_ok k c r \<longleftrightarrow>
     k = (if click_attempted_at r = None then 0 else 1) \<and>
     (click_attempted_at r \<noteq> None \<longrightarrow> row_status r \<in> {Running, Sent, Uncertain}) \<and>
     c \<le> retry_count r + (if row_status r \<in> {Queued, Skipped} then 0 else 1) \<and>
     retry_count r \<le> MAX_RETRIES \<and>
     (row_status r = Sent \<longrightarrow> match_post_url (result_url r) \<noteq> None)"

definition one_running :: "'p ledger \<Rightarrow> bool" where
  "one_running l \<longleftrightarrow> (\<forall>r \<in> set (rows l). \<forall>x \<in> set (rows l).
     row_status r = Running \<and> row_status x = Running \<and> row_operator r = row_operator x \<longrightarrow> r = x)"

definition keys_ok :: "'p ledger \<Rightarrow> bool" where
  "keys_ok l \<longleftrightarrow> distinct (map row_pk (rows l)) \<and> distinct (map external_ref (rows l)) \<and>
     (\<forall>r \<in> set (rows l). row_pk r \<le> row_seq l)"

definition ledger_ok :: "'p tracked \<Rightarrow> bool" where
  "ledger_ok s \<longleftrightarrow> keys_ok (led s) \<and> one_running (led s) \<and>
     (\<forall>r \<in> set (rows (led s)). row_ok (count_list (clicks s) (row_pk r)) (count_list (claims s) (row_pk r)) r) \<and>
     set (clicks s) \<union> set (claims s) \<subseteq> row_pk ` set (rows (led s))"

lemma same_pk: "keys_ok l \<Longrightarrow> r \<in> set (rows l) \<Longrightarrow> x \<in> set (rows l) \<Longrightarrow> row_pk r = row_pk x \<Longrightarrow> r = x"
  by (auto simp: keys_ok_def distinct_map inj_on_def)

lemma rows_update [simp]: "rows (update_where P f l) = map (\<lambda>r. if P r then f r else r) (rows l)"
  and seq_update [simp]: "row_seq (update_where P f l) = row_seq l"
  by (simp_all add: update_where_def)

lemma keys_ok_update:
  assumes "keys_ok l" and "\<And>r. row_pk (f r) = row_pk r \<and> external_ref (f r) = external_ref r"
  shows "keys_ok (update_where P f l)"
proof -
  have "map row_pk (rows (update_where P f l)) = map row_pk (rows l)"
    "map external_ref (rows (update_where P f l)) = map external_ref (rows l)"
    using assms(2) by auto
  moreover have "row_pk (f r) = row_pk r" for r using assms(2) by simp
  ultimately show ?thesis using assms(1) unfolding keys_ok_def by (auto simp del: map_map)
qed

lemma one_running_update:
  assumes "one_running l" and "keys_ok l"
    and "\<And>r. row_operator (f r) = row_operator r"
    and "\<And>r. r \<in> set (rows l) \<Longrightarrow> P r \<Longrightarrow> row_status (f r) = Running \<Longrightarrow> row_status r = Running"
  shows "one_running (update_where P f l)"
  unfolding one_running_def
proof (intro ballI impI, elim conjE)
  fix r x
  assume "r \<in> set (rows (update_where P f l))" "x \<in> set (rows (update_where P f l))"
    and run: "row_status r = Running" "row_status x = Running" "row_operator r = row_operator x"
  then obtain r0 x0 where r0: "r0 \<in> set (rows l)" "r = (if P r0 then f r0 else r0)"
    and x0: "x0 \<in> set (rows l)" "x = (if P x0 then f x0 else x0)" by auto
  have "row_status r0 = Running" "row_status x0 = Running" "row_operator r0 = row_operator x0"
    using r0 x0 run assms(3,4) by (auto split: if_splits)
  then have "r0 = x0" using assms(1) r0(1) x0(1) by (auto simp: one_running_def)
  then show "r = x" using r0 x0 by simp
qed

lemma ledger_ok_update:
  assumes "ledger_ok s"
    and "\<And>r. row_pk (f r) = row_pk r \<and> external_ref (f r) = external_ref r \<and> row_operator (f r) = row_operator r"
    and "\<And>r. r \<in> set (rows (led s)) \<Longrightarrow> P r \<Longrightarrow> row_status (f r) = Running \<Longrightarrow> row_status r = Running"
    and "\<And>r k c. r \<in> set (rows (led s)) \<Longrightarrow> P r \<Longrightarrow> row_ok k c r \<Longrightarrow> row_ok k c (f r)"
  shows "ledger_ok (s\<lparr>led := update_where P f (led s)\<rparr>)"
proof -
  have pk: "row_pk (f r) = row_pk r" for r using assms(2) by simp
  have "row_pk \<circ> (\<lambda>r. if P r then f r else r) = row_pk" using pk by auto
  then have "row_pk ` set (rows (update_where P f (led s))) = row_pk ` set (rows (led s))"
    by (simp only: rows_update set_map image_comp)
  moreover have "keys_ok (update_where P f (led s))" "one_running (update_where P f (led s))"
    using assms by (auto simp: ledger_ok_def intro!: keys_ok_update one_running_update)
  moreover have "\<forall>r \<in> set (rows (update_where P f (led s))).
      row_ok (count_list (clicks s) (row_pk r)) (count_list (claims s) (row_pk r)) r"
    using assms(1,4) by (auto simp: ledger_ok_def pk)
  ultimately show ?thesis using assms(1) by (simp add: ledger_ok_def)
qed

lemma row_okD: "ledger_ok s \<Longrightarrow> r \<in> set (rows (led s)) \<Longrightarrow>
    row_ok (count_list (clicks s) (row_pk r)) (count_list (claims s) (row_pk r)) r"
  by (simp add: ledger_ok_def)

lemma ledger_ok_enqueue:
  assumes "ledger_ok s" and "enqueue now ref operator body payload sched (led s) = Inr (rc, l')"
  shows "ledger_ok (s\<lparr>led := l'\<rparr>)"
proof -
  obtain r c where rc: "rc = (r, c)" by (cases rc)
  from assms(2) have "enqueue now ref operator body payload sched (led s) = Inr ((r, c), l')" by (simp add: rc)
  then show ?thesis
  proof (cases rule: enqueue_cases)
    case 1
    with assms(1) show ?thesis by simp
  next
    case 2
    have k: "keys_ok (led s)" and o: "one_running (led s)" using assms(1) by (simp_all add: ledger_ok_def)
    have new: "row_pk r \<notin> row_pk ` set (rows (led s))" using k 2(5) by (force simp: keys_ok_def)
    then have "row_pk r \<notin> set (clicks s)" "row_pk r \<notin> set (claims s)" using assms(1) by (auto simp: ledger_ok_def)
    then have "row_ok (count_list (clicks s) (row_pk r)) (count_list (claims s) (row_pk r)) r"
      using 2(7) by (simp add: row_ok_def fresh_row_def life_of_def)
    moreover have "keys_ok l'" using k new 2(2-6) by (force simp: keys_ok_def)
    moreover have "one_running l'" using o 2(3,7) by (auto simp: one_running_def fresh_row_def life_of_def)
    ultimately show ?thesis using assms(1) 2(3) by (auto simp: ledger_ok_def)
  qed
qed

lemma ledger_ok_claim:
  assumes ok: "ledger_ok s" shows "ledger_ok (claim_row operator now s)"
proof -
  obtain res l' where c: "claim_next operator now (led s) = (res, l')" by fastforce
  then show ?thesis
  proof (cases rule: claim_next_cases)
    case 1
    with c ok show ?thesis by (simp add: claim_row_def)
  next
    case (2 r)
    let ?P = "\<lambda>x. due now x \<and> row_pk x = row_pk r \<and> row_status x = Queued"
    have k: "keys_ok (led s)" using ok by (simp add: ledger_ok_def)
    have only: "x = r" if "x \<in> set (rows (led s))" "row_pk x = row_pk r" for x
      using same_pk [OF k that(1) 2(2) that(2)] .
    have rows': "rows l' = map (\<lambda>x. if x = r then start_row now r else x) (rows (led s))"
      unfolding 2(7) using only 2(3,5) by auto
    have pks: "row_pk ` set (rows l') = row_pk ` set (rows (led s))"
      using 2(2) unfolding rows' by (force simp: start_row_def image_iff)
    have "keys_ok l'" unfolding 2(7) using k by (rule keys_ok_update) (simp add: start_row_def)
    moreover have "one_running l'"
      using ok 2(4,6) unfolding one_running_def rows' ledger_ok_def
      by (auto simp: start_row_def running_of_def list_ex_iff)
    moreover have "\<forall>x \<in> set (rows l'). row_ok (count_list (clicks s) (row_pk x))
        (count_list (row_pk r # claims s) (row_pk x)) x"
    proof
      fix x assume "x \<in> set (rows l')"
      then obtain y where y: "y \<in> set (rows (led s))" "x = (if y = r then start_row now r else y)"
        unfolding rows' by auto
      show "row_ok (count_list (clicks s) (row_pk x)) (count_list (row_pk r # claims s) (row_pk x)) x"
      proof (cases "y = r")
        case True
        with row_okD [OF ok 2(2)] 2(3) y(2) show ?thesis by (simp add: start_row_def row_ok_def)
      next
        case False
        then have "row_pk r \<noteq> row_pk y" using only [OF y(1)] by metis
        with False row_okD [OF ok y(1)] y(2) show ?thesis by simp
      qed
    qed
    moreover have "claim_row operator now s = s\<lparr>led := l', claims := row_pk r # claims s\<rparr>"
      using c 2(1) by (simp add: claim_row_def start_row_def)
    ultimately show ?thesis using ok pks 2(2) by (auto simp: ledger_ok_def)
  qed
qed

lemma ledger_ok_click:
  assumes ok: "ledger_ok s" shows "ledger_ok (click_row pk now s)"
proof (cases "mark_click_attempted pk now (led s)")
  case (Inl e)
  with ok show ?thesis by (simp add: click_row_def)
next
  case (Inr l')
  let ?f = "\<lambda>r. r\<lparr>click_attempted_at := Some now\<rparr>"
  have k: "keys_ok (led s)" using ok by (simp add: ledger_ok_def)
  have one: "length (filter (click_where pk) (rows (led s))) = 1" and l': "l' = update_where (click_where pk) ?f (led s)"
    using mark_click_Inr [OF Inr] by simp_all
  then obtain r where "r \<in> set (filter (click_where pk) (rows (led s)))"
    by (metis One_nat_def length_0_conv nth_mem zero_less_one)
  then have r: "r \<in> set (rows (led s))" "row_pk r = pk" "row_status r = Running" "click_attempted_at r = None"
    by (simp_all add: click_where_def)
  have only: "x = r" if "x \<in> set (rows (led s))" "row_pk x = pk" for x
    using same_pk [OF k that(1) r(1)] that(2) r(2) by simp
  have rows': "rows l' = map (\<lambda>x. if x = r then ?f r else x) (rows (led s))"
  proof (unfold l' rows_update, rule map_cong [OF refl])
    fix x assume "x \<in> set (rows (led s))"
    then have "row_pk x = pk \<Longrightarrow> x = r" by (rule only)
    then show "(if click_where pk x then ?f x else x) = (if x = r then ?f r else x)"
      using r(2-4) by (cases "x = r") (simp_all add: click_where_def, blast?)
  qed
  have pks: "row_pk ` set (rows l') = row_pk ` set (rows (led s))"
    using r(1) unfolding rows' by (force simp: image_iff)
  have "keys_ok l'" unfolding l' using k by (rule keys_ok_update) simp
  moreover have "one_running l'"
    using ok r(1,3) unfolding one_running_def rows' ledger_ok_def by auto
  moreover have "\<forall>x \<in> set (rows l'). row_ok (count_list (pk # clicks s) (row_pk x)) (count_list (claims s) (row_pk x)) x"
  proof
    fix x assume "x \<in> set (rows l')"
    then obtain y where y: "y \<in> set (rows (led s))" "x = (if y = r then ?f r else y)"
      unfolding rows' by auto
    show "row_ok (count_list (pk # clicks s) (row_pk x)) (count_list (claims s) (row_pk x)) x"
    proof (cases "y = r")
      case True
      with row_okD [OF ok r(1)] r(2-4) y(2) show ?thesis by (simp add: row_ok_def)
    next
      case False
      then have "pk \<noteq> row_pk y" using only [OF y(1)] by metis
      with False row_okD [OF ok y(1)] y(2) show ?thesis by simp
    qed
  qed
  moreover have "click_row pk now s = s\<lparr>led := l', clicks := pk # clicks s\<rparr>"
    using Inr by (simp add: click_row_def)
  ultimately show ?thesis using ok pks r(1,2) by (auto simp: ledger_ok_def)
qed

lemma ledger_ok_step:
  assumes ok: "ledger_ok s" shows "ledger_ok (ledger_step conf e s)"
proof (cases e)
  case (Enqueue now ref operator body payload sched)
  with ok show ?thesis
    by (cases "enqueue now ref operator body payload sched (led s)")
      (auto simp: set_led_def intro: ledger_ok_enqueue)
next
  case (Reschedule pk t)
  with ok show ?thesis by (auto intro!: ledger_ok_update simp: row_ok_def)
next
  case (Cancel now ref)
  with ok show ?thesis
    by (cases "cancel now ref (led s)")
      (auto simp: set_led_def row_ops row_ok_def dest!: cancel_Inr intro!: ledger_ok_update)
next
  case (Retry ref)
  with ok show ?thesis
    by (cases "retry ref (led s)")
      (auto simp: set_led_def row_ops row_ok_def dest!: retry_Inr intro!: ledger_ok_update)
next
  case (Sweep operator now)
  with ok show ?thesis by (auto intro!: ledger_ok_update simp: row_ops row_ok_def sweep_led)
next
  case (Claim operator now)
  with ok show ?thesis by (simp add: ledger_ok_claim)
next
  case (Click pk now)
  with ok show ?thesis by (simp add: ledger_ok_click)
next
  case (Record_sent pk url now)
  with ok show ?thesis by (auto intro!: ledger_ok_update simp: row_ops row_ok_def record_sent_led)
next
  case (Record_failure pk e uncertain now)
  with ok show ?thesis by (auto intro!: ledger_ok_update simp: row_ops row_ok_def record_failure_led)
qed

lemma ledger_ok_empty: "ledger_ok empty_tracked"
  by (simp add: ledger_ok_def empty_tracked_def keys_ok_def one_running_def)

interpretation attempts: machine "ledger_step conf" ledger_ok for conf
  by unfold_locales (rule ledger_ok_step)

lemma attempts_ok: "ledger_ok (fold (ledger_step conf) es empty_tracked)"
  by (rule attempts.inv_run) (rule ledger_ok_empty)

section \<open>Properties\<close>

text \<open>
  C1: at most one attempt per row. However the enqueues, cancellations, retries, sweeps, claims, clicks
  and recorded outcomes of all workers and commands are interleaved, the final click of one row is
  released at most once and the row is claimed at most three times, the first attempt and two retries.
\<close>

theorem row_clicked_once:
  "count_list (clicks (fold (ledger_step conf) es empty_tracked)) pk \<le> 1 \<and>
   count_list (claims (fold (ledger_step conf) es empty_tracked)) pk \<le> 3"
proof -
  let ?s = "fold (ledger_step conf) es empty_tracked"
  have ok: "ledger_ok ?s" by (rule attempts_ok)
  show ?thesis
  proof (cases "pk \<in> row_pk ` set (rows (led ?s))")
    case True
    then obtain r where "r \<in> set (rows (led ?s))" "row_pk r = pk" by auto
    with row_okD [OF ok this(1)] show ?thesis
      by (auto simp: row_ok_def MAX_RETRIES_def split: if_splits)
  next
    case False
    with ok have "pk \<notin> set (clicks ?s)" "pk \<notin> set (claims ?s)" by (auto simp: ledger_ok_def)
    then show ?thesis by simp
  qed
qed

text \<open>
  C26: the final click decides what may be recorded. In every reachable ledger: a sender has at most
  one running row; a row whose click was released is running, sent or uncertain, never failed, queued
  or skipped, so it is never tried again; a sent row carries the address of a post; references
  and keys are unique.
\<close>

theorem ledger_invariant:
  "(\<forall>r \<in> set (rows l). \<forall>x \<in> set (rows l).
       row_status r = Running \<longrightarrow> row_status x = Running \<longrightarrow> row_operator r = row_operator x \<longrightarrow> r = x) \<and>
   (\<forall>r \<in> set (rows l). row_pk r \<in> set (clicks s) \<longrightarrow> row_status r \<in> {Running, Sent, Uncertain}) \<and>
   (\<forall>r \<in> set (rows l). row_status r = Sent \<longrightarrow> match_post_url (result_url r) \<noteq> None) \<and>
   distinct (map row_pk (rows l)) \<and> distinct (map external_ref (rows l))"
  if "s = fold (ledger_step conf) es empty_tracked" and "l = led s"
proof -
  have ok: "ledger_ok s" unfolding that(1) by (rule attempts_ok)
  have "row_status r \<in> {Running, Sent, Uncertain}"
    if r: "r \<in> set (rows (led s))" and c: "row_pk r \<in> set (clicks s)" for r
  proof -
    have "count_list (clicks s) (row_pk r) \<noteq> 0" using c by (simp add: count_list_0_iff)
    with row_okD [OF ok r] show ?thesis by (auto simp: row_ok_def)
  qed
  with ok row_okD [OF ok] show ?thesis
    unfolding that(2) by (auto simp: ledger_ok_def one_running_def keys_ok_def row_ok_def)
qed

theorem ledger_invariant_witness:
  "let s = fold (ledger_step \<lparr>base_budget_seconds = 240, default_error = ''E'', unverified_error = ''U'', interrupted_error = ''I'', state_changed_error = ''S''\<rparr>)
     [Enqueue 1 ''r1'' ''Arian'' [] () None, Claim ''Arian'' 2, Click 1 3, Retry ''r1''] empty_tracked
   in \<forall>r \<in> set (rows (led s)). row_pk r \<in> set (clicks s) \<longrightarrow> row_status r \<in> {Running, Sent, Uncertain}"
  unfolding Let_def
  by (rule ledger_invariant [THEN conjunct2, THEN conjunct1, OF refl refl])

text \<open>
  C8: every operation refines the life cycle of a row. Whatever its arguments, an operation only
  appends fresh queued rows, keeps the key, reference, sender, text and payload of every row, and
  moves each row by at most one edge of the life cycle: queued to running or skipped, running to
  sent, uncertain or (never clicked) failed, and failed back to queued at most twice.
\<close>

theorem ledger_refines_life_cycle:
  "ledger_extends (led s) (led (ledger_step conf e s))"
  by (rule step_extends)

lemma life_step_final: "life_step v w \<Longrightarrow> \<not> final_status (fst v)"
  by (induction rule: life_step.induct) (simp_all add: final_status_def)

definition final_at ::
  "nat \<Rightarrow> int \<times> string \<times> string \<times> string \<times> 'p \<times> int \<Rightarrow> life \<Rightarrow> 'p tracked \<Rightarrow> bool" where
  "final_at i k v s \<longleftrightarrow> i < length (rows (led s)) \<and> final_status (fst v) \<and>
     row_identity (rows (led s) ! i) = k \<and> life_of (rows (led s) ! i) = v"

lemma final_at_step:
  assumes "final_at i k v s" shows "final_at i k v (ledger_step conf e s)"
proof -
  let ?l = "led s" and ?l' = "led (ledger_step conf e s)"
  obtain new where moves: "list_all2 row_moves (rows ?l @ new) (rows ?l')"
    using step_extends unfolding ledger_extends_def by blast
  have i: "i < length (rows ?l)" using assms by (simp add: final_at_def)
  then have len: "i < length (rows ?l')" using list_all2_lengthD [OF moves] by simp
  have "row_moves (rows ?l ! i) (rows ?l' ! i)"
    using list_all2_nthD2 [OF moves len] i by (simp add: nth_append)
  moreover have "\<not> life_step (life_of (rows ?l ! i)) w" for w
    using assms life_step_final by (metis final_at_def)
  ultimately show ?thesis
    using assms len by (simp add: final_at_def row_moves_def)
qed

interpretation final_row: latched_machine "ledger_step conf" "\<lambda>_. True" "final_at i k v" for conf i k v
  by unfold_locales (simp_all add: final_at_step)

text \<open>
  A finished row is never touched again. Once a row is sent, uncertain or skipped, no later
  operation changes its status, its recorded click, its number of retries or its payload.
\<close>

theorem final_rows_frozen:
  assumes "i < length (rows (led s))" and "final_status (row_status (rows (led s) ! i))"
    and "s' = fold (ledger_step conf) es s"
  shows "i < length (rows (led s')) \<and>
    row_identity (rows (led s') ! i) = row_identity (rows (led s) ! i) \<and>
    life_of (rows (led s') ! i) = life_of (rows (led s) ! i)"
proof -
  have "final_at i (row_identity (rows (led s) ! i)) (life_of (rows (led s) ! i)) s"
    using assms(1,2) by (simp add: final_at_def life_of_def)
  from final_row.latched_run [OF TrueI this] show ?thesis
    unfolding assms(3) by (simp add: final_at_def)
qed

definition repost_conf :: ledger_conf where
  "repost_conf = \<lparr>base_budget_seconds = 240, default_error = ''RepostError'',
     unverified_error = ''RepostUnverifiedError'', interrupted_error = ''RepostInterruptedError'',
     state_changed_error = ''RepostStateChangedError''\<rparr>"

theorem final_rows_frozen_witness:
  "\<exists>s :: unit tracked. s = fold (ledger_step repost_conf)
       [Enqueue 1 ''r1'' ''Arian'' [] () None, Cancel 2 ''r1''] empty_tracked \<and>
     life_of (rows (led (fold (ledger_step repost_conf) [Claim ''Arian'' 3, Click 1 4, Retry ''r1''] s)) ! 0) =
       (Skipped, False, 0)"
proof -
  let ?s = "fold (ledger_step repost_conf)
       [Enqueue 1 ''r1'' ''Arian'' [] () None, Cancel 2 ''r1''] (empty_tracked :: unit tracked)"
  have s: "0 < length (rows (led ?s))" "final_status (row_status (rows (led ?s) ! 0))"
    "life_of (rows (led ?s) ! 0) = (Skipped, False, 0)" by code_simp+
  from final_rows_frozen [OF s(1,2) refl] s(3) show ?thesis by metis
qed

text \<open>
  Which row a worker gets. \<open>claim_next\<close> starts a row exactly when the sender has no running
  row and a queued row that is due; the row it starts is one of those, and none of them was due
  earlier (with the creation time for rows without a time, and the key for ties).
\<close>

theorem claim_next_earliest:
  assumes "keys_ok l"
  shows "(fst (claim_next operator now l) \<noteq> None \<longleftrightarrow> \<not> running_of operator l \<and> has_queued operator now l) \<and>
    (\<forall>r. fst (claim_next operator now l) = Some r \<longrightarrow>
       row_status r = Running \<and> started_at r = Some now \<and> row_operator r = operator \<and>
       (\<exists>r0 \<in> set (rows l). row_status r0 = Queued \<and> due now r0 \<and> r = start_row now r0 \<and>
          (\<forall>x \<in> set (rows l). row_status x = Queued \<longrightarrow> due now x \<longrightarrow> row_operator x = operator \<longrightarrow>
             due_key r0 \<le> due_key x)))"
proof -
  let ?q = "filter (\<lambda>r. due now r \<and> row_operator r = operator \<and> row_status r = Queued) (rows l)"
  have queued: "has_queued operator now l \<longleftrightarrow> ?q \<noteq> []"
    by (auto simp: has_queued_def list_ex_iff filter_empty_conv)
  show ?thesis
  proof (cases "running_of operator l \<or> ?q = []")
    case True
    then show ?thesis unfolding queued by (auto simp: claim_next_def)
  next
    case False
    then have "sort_key due_key ?q \<noteq> []" by simp
    then obtain r rs where q: "sort_key due_key ?q = r # rs" by (cases "sort_key due_key ?q") blast+
    have "r \<in> set (sort_key due_key ?q)" unfolding q by simp
    then have r: "r \<in> set (rows l)" "row_status r = Queued" "row_operator r = operator" "due now r" by simp_all
    have least: "due_key r \<le> due_key x" if "x \<in> set ?q" for x
      using hd_sort_key_least [of ?q x due_key] that False q by auto
    let ?P = "\<lambda>x. due now x \<and> row_pk x = row_pk r \<and> row_status x = Queued"
    have "?P x \<longleftrightarrow> r = x" if "x \<in> set (rows l)" for x
      using r(2,4) same_pk [OF assms that r(1)] by blast
    then have "{x. ?P x} \<inter> set (rows l) = {r}" using r by blast
    moreover have "distinct (rows l)" using assms by (auto simp: keys_ok_def distinct_map)
    ultimately have "updated ?P l = 1" by (simp only: updated_def distinct_length_filter) simp
    then have "fst (claim_next operator now l) = Some (start_row now r)"
      using False q by (simp add: claim_next_def Let_def)
    then show ?thesis using r least False unfolding queued by (auto simp: start_row_def)
  qed
qed

lemma keys_ok_run: "keys_ok (led (fold (ledger_step conf) es empty_tracked))"
  using attempts_ok unfolding ledger_ok_def by blast

lemma sample_ledger_keys:
  "keys_ok (led (fold (ledger_step repost_conf)
     [Enqueue 1 ''r1'' ''Arian'' [] () (Some 9), Enqueue 2 ''r2'' ''Arian'' [] () None] empty_tracked))"
  by (rule keys_ok_run)

theorem claim_next_earliest_witness:
  "let l = led (fold (ledger_step repost_conf)
     [Enqueue 1 ''r1'' ''Arian'' [] () (Some 9), Enqueue 2 ''r2'' ''Arian'' [] () None] empty_tracked)
   in fst (claim_next ''Arian'' 10 l) \<noteq> None \<and>
      (\<forall>r. fst (claim_next ''Arian'' 10 l) = Some r \<longrightarrow> started_at r = Some 10)"
proof -
  let ?l = "led (fold (ledger_step repost_conf)
     [Enqueue 1 ''r1'' ''Arian'' [] () (Some 9), Enqueue 2 ''r2'' ''Arian'' [] () None] empty_tracked)"
  have "\<not> running_of ''Arian'' ?l \<and> has_queued ''Arian'' 10 ?l" by code_simp
  with claim_next_earliest [OF sample_ledger_keys, of "''Arian''" 10] show ?thesis unfolding Let_def by blast
qed

end
