(* ===== verification/Post_Workers.thy ===== *)
theory Post_Workers
  imports Attempt_Machine
begin

text \<open>
  One worker run (\<open>run_once\<close> of \<open>linkedin/reposts.py\<close> and \<open>linkedin/personal_posts.py\<close>) around the
  browser procedure (\<open>perform_repost\<close>, \<open>perform_post\<close>): sweep, claim, browser work, the persisted
  click, and the recorded outcome. What the pages answer is an argument; the two functions differ in
  constants, in the check of the row before the browser work, and in the ledger that blocks a claim.
\<close>

section \<open>The sender of this checkout\<close>

record sender_profile =
  linkedin_username :: string
  profile_active :: bool
  stop_requested :: bool

definition worker_operator :: "sender_profile list \<Rightarrow> string \<Rightarrow> (repost_error, string) result" where
  "worker_operator profiles username =
     (let username = strip username in
      if username = '''' then Inl (LinkedInRepostWorkerRefused ''LINKEDIN_USERNAME is not configured.'')
      else let operator = resolve_operator (Some username) in
        if operator \<notin> set REPOST_OPERATORS then Inl (LinkedInRepostWorkerRefused ''This sender is not enabled.'')
        else (case filter (\<lambda>p. casefold (linkedin_username p) = casefold username) profiles of
            [p] \<Rightarrow>
              if stop_requested p \<or> \<not> profile_active p
              then Inl (LinkedInRepostWorkerRefused ''Sender is stopped or inactive.'')
              else Inr operator
          | _ \<Rightarrow> Inl (LinkedInRepostWorkerRefused ''Local LinkedIn username matches no or multiple profiles.'')))"

section \<open>The browser procedure\<close>

text \<open>
  An exception of the browser work, with its class name: a \<open>RepostSendError\<close>, its subclass
  \<open>RepostUncertainError\<close>, a Playwright or timeout error, any other exception, or the end of the
  process by the watchdog.
\<close>

datatype fault =
    Send_fault string
  | Uncertain_fault string
  | Browser_fault string
  | Other_fault string
  | Killed

record browser_run =
  before_click :: "fault option"
  after_click :: "fault option"
  permalink :: "string option"

fun convert_fault :: "bool \<Rightarrow> fault \<Rightarrow> fault" where
  "convert_fault click_attempted (Uncertain_fault e) = Uncertain_fault e"
| "convert_fault click_attempted (Send_fault e) = (if click_attempted then Uncertain_fault e else Send_fault e)"
| "convert_fault click_attempted (Browser_fault e) = (if click_attempted then Uncertain_fault e else Send_fault e)"
| "convert_fault click_attempted f = f"

definition perform ::
  "ledger_conf \<Rightarrow> browser_run \<Rightarrow> int \<Rightarrow> int \<Rightarrow> 'p tracked \<Rightarrow> (fault, string) result \<times> 'p tracked" where
  "perform conf b pk now s =
     (case before_click b of
        Some f \<Rightarrow> (Inl (convert_fault False f), s)
      | None \<Rightarrow>
          (case mark_click_attempted pk now (led s) of
             Inl _ \<Rightarrow> (Inl (convert_fault False (Send_fault (state_changed_error conf))), s)
           | Inr _ \<Rightarrow>
               let s = click_row pk now s in
               (case after_click b of
                  Some f \<Rightarrow> (Inl (convert_fault True f), s)
                | None \<Rightarrow>
                    (case permalink b of
                       None \<Rightarrow> (Inl (convert_fault True (Uncertain_fault (unverified_error conf))), s)
                     | Some url \<Rightarrow> (Inr url, s)))))"

section \<open>One run\<close>

text \<open>The readings of the clock during one run.\<close>

record clock =
  at_sweep :: int
  at_check :: int
  at_claim :: int
  at_click :: int
  at_record :: int

record summary =
  swept :: "string list"
  claimed :: "string option"
  run_status :: "ledger_status option"
  run_error :: "string option"
  run_url :: "string option"

datatype run_error = Run_fault fault | Run_refused repost_error

definition claim_unless :: "bool \<Rightarrow> string \<Rightarrow> int \<Rightarrow> 'p ledger \<Rightarrow> 'p ledger_row option \<times> 'p ledger" where
  "claim_unless blocked operator now l = (if blocked then (None, l) else claim_next operator now l)"

definition refused :: "(repost_error, 'a) result \<Rightarrow> (run_error, 'a) result" where
  "refused r = (case r of Inl e \<Rightarrow> Inl (Run_refused e) | Inr a \<Rightarrow> Inr a)"

definition failed_run ::
  "ledger_conf \<Rightarrow> summary \<Rightarrow> int \<Rightarrow> string \<Rightarrow> bool \<Rightarrow> int \<Rightarrow> 'p tracked \<Rightarrow> (run_error, summary) result \<times> 'p tracked" where
  "failed_run conf sm pk e uncertain now s =
     (let et = safe_error_type (default_error conf) e;
          (st, l) = record_failure conf pk et uncertain now (led s)
      in (refused (map_sum id (\<lambda>x. sm\<lparr>run_status := Some x, run_error := Some et, run_url := None\<rparr>) st), s\<lparr>led := l\<rparr>))"

definition finish_run ::
  "ledger_conf \<Rightarrow> summary \<Rightarrow> int \<Rightarrow> int \<Rightarrow> (fault, string) result \<Rightarrow> 'p tracked
     \<Rightarrow> (run_error, summary) result \<times> 'p tracked" where
  "finish_run conf sm pk now res s =
     (case res of
        Inl (Send_fault e) \<Rightarrow> failed_run conf sm pk e False now s
      | Inl (Uncertain_fault e) \<Rightarrow> failed_run conf sm pk e True now s
      | Inl (Browser_fault e) \<Rightarrow>
          (Inl (Run_fault (Browser_fault e)), s\<lparr>led := snd (record_failure conf pk e False now (led s))\<rparr>)
      | Inl (Other_fault e) \<Rightarrow>
          (Inl (Run_fault (Other_fault e)), s\<lparr>led := snd (record_failure conf pk e False now (led s))\<rparr>)
      | Inl Killed \<Rightarrow> (Inl (Run_fault Killed), s)
      | Inr url \<Rightarrow>
          (case record_sent conf pk url now (led s) of
             (st, l) \<Rightarrow>
               (refused (map_sum id (\<lambda>x. sm\<lparr>run_status := Some x,
                   run_error := (if x = Sent then None else Some (unverified_error conf)),
                   run_url := (if x = Sent then Some url else None)\<rparr>) st), s\<lparr>led := l\<rparr>)))"

definition run_once ::
  "ledger_conf \<Rightarrow> ('p ledger_row \<Rightarrow> fault option) \<Rightarrow> bool \<Rightarrow> string \<Rightarrow> clock \<Rightarrow> fault option \<Rightarrow> browser_run
     \<Rightarrow> 'p tracked \<Rightarrow> (run_error, summary) result \<times> 'p tracked" where
  "run_once conf check blocked operator clk attach b s =
     (let (refs, l) = sweep_stale_running conf operator (at_sweep clk) (led s);
          s = s\<lparr>led := l\<rparr>;
          sm = \<lparr>swept = refs, claimed = None, run_status = None, run_error = None, run_url = None\<rparr>
      in if \<not> has_queued operator (at_check clk) (led s) then (Inr sm, s)
         else (case attach of
             Some f \<Rightarrow> (Inl (Run_fault f), s)
           | None \<Rightarrow>
               (case claim_unless blocked operator (at_claim clk) (led s) of
                  (None, _) \<Rightarrow> (Inr sm, s)
                | (Some r, l) \<Rightarrow>
                    let s = s\<lparr>led := l, claims := row_pk r # claims s\<rparr>;
                        sm = sm\<lparr>claimed := Some (external_ref r)\<rparr>;
                        (res, s) = (case check r of
                            Some f \<Rightarrow> (Inl f, s)
                          | None \<Rightarrow> perform conf b (row_pk r) (at_click clk) s)
                    in finish_run conf sm (row_pk r) (at_record clk) res s)))"

text \<open>\<open>linkedin/reposts.py run_once\<close>, from the resolved sender on.\<close>

definition run_repost_once ::
  "string \<Rightarrow> clock \<Rightarrow> fault option \<Rightarrow> browser_run \<Rightarrow> string tracked \<Rightarrow> (run_error, summary) result \<times> string tracked" where
  "run_repost_once operator = run_once repost_conf (\<lambda>_. None) False operator"

section \<open>A run is a sequence of ledger operations\<close>

lemma perform_cases:
  assumes "perform conf b pk now s = (res, s')"
  obtains "s' = s" and "\<exists>f. res = Inl f"
    | l where "mark_click_attempted pk now (led s) = Inr l" and "s' = click_row pk now s"
proof (cases "before_click b")
  case (Some f)
  with assms show ?thesis by (intro that(1)) (auto simp: perform_def)
next
  case before: None
  show ?thesis
  proof (cases "mark_click_attempted pk now (led s)")
    case (Inl e)
    with assms before show ?thesis by (intro that(1)) (auto simp: perform_def)
  next
    case (Inr l)
    with assms before show ?thesis
      by (intro that(2)) (simp_all add: perform_def Let_def split: option.splits)
  qed
qed

lemma failed_run_state:
  "snd (failed_run conf sm pk e u now s) =
     ledger_step conf (Record_failure pk (safe_error_type (default_error conf) e) u now) s"
  by (simp add: failed_run_def Let_def split: prod.split)

lemma finish_run_steps: "\<exists>es. snd (finish_run conf sm pk now res s) = fold (ledger_step conf) es s"
proof (cases res)
  case (Inr url)
  then have "snd (finish_run conf sm pk now res s) = ledger_step conf (Record_sent pk url now) s"
    by (simp add: finish_run_def split: prod.split)
  then show ?thesis by (intro exI [of _ "[Record_sent pk url now]"]) simp
next
  case (Inl f)
  show ?thesis
  proof (cases f)
    case (Send_fault e)
    with Inl show ?thesis
      by (intro exI [of _ "[Record_failure pk (safe_error_type (default_error conf) e) False now]"])
        (simp add: finish_run_def failed_run_state)
  next
    case (Uncertain_fault e)
    with Inl show ?thesis
      by (intro exI [of _ "[Record_failure pk (safe_error_type (default_error conf) e) True now]"])
        (simp add: finish_run_def failed_run_state)
  next
    case (Browser_fault e)
    with Inl show ?thesis
      by (intro exI [of _ "[Record_failure pk e False now]"]) (simp add: finish_run_def)
  next
    case (Other_fault e)
    with Inl show ?thesis
      by (intro exI [of _ "[Record_failure pk e False now]"]) (simp add: finish_run_def)
  next
    case Killed
    with Inl show ?thesis by (intro exI [of _ "[]"]) (simp add: finish_run_def)
  qed
qed

text \<open>The claim of a run and what follows it.\<close>

definition claimed_run ::
  "ledger_conf \<Rightarrow> ('p ledger_row \<Rightarrow> fault option) \<Rightarrow> clock \<Rightarrow> browser_run \<Rightarrow> summary \<Rightarrow> 'p ledger_row
     \<Rightarrow> 'p tracked \<Rightarrow> (run_error, summary) result \<times> 'p tracked" where
  "claimed_run conf check clk b sm r s =
     (let (res, s) = (case check r of
          Some f \<Rightarrow> (Inl f, s)
        | None \<Rightarrow> perform conf b (row_pk r) (at_click clk) s)
      in finish_run conf sm (row_pk r) (at_record clk) res s)"

lemma run_once_cases:
  assumes "run_once conf check blocked operator clk attach b s = (res, s')"
  obtains "s' = ledger_step conf (Sweep operator (at_sweep clk)) s"
      and "\<And>sm. res = Inr sm \<Longrightarrow> claimed sm = None"
    | s1 r l sm where "s1 = ledger_step conf (Sweep operator (at_sweep clk)) s"
      and "claim_next operator (at_claim clk) (led s1) = (Some r, l)"
      and "claimed sm = Some (external_ref r)"
      and "(res, s') = claimed_run conf check clk b sm r (claim_row operator (at_claim clk) s1)"
proof -
  obtain refs l where sw: "sweep_stale_running conf operator (at_sweep clk) (led s) = (refs, l)" by fastforce
  let ?s1 = "ledger_step conf (Sweep operator (at_sweep clk)) s"
  have s1: "?s1 = s\<lparr>led := l\<rparr>" using sw by simp
  obtain c l' where cl: "claim_next operator (at_claim clk) l = (c, l')" by fastforce
  let ?sm = "\<lparr>swept = refs, claimed = None, run_status = None, run_error = None, run_url = None\<rparr>"
  have e: "run_once conf check blocked operator clk attach b s =
    (if \<not> has_queued operator (at_check clk) l then (Inr ?sm, ?s1)
     else (case attach of
         Some f \<Rightarrow> (Inl (Run_fault f), ?s1)
       | None \<Rightarrow>
           (case claim_unless blocked operator (at_claim clk) l of
              (None, _) \<Rightarrow> (Inr ?sm, ?s1)
            | (Some r, l) \<Rightarrow> claimed_run conf check clk b (?sm\<lparr>claimed := Some (external_ref r)\<rparr>) r
                (s\<lparr>led := l, claims := row_pk r # claims s\<rparr>))))"
    unfolding s1 by (simp add: run_once_def sw Let_def claimed_run_def cong: if_cong option.case_cong)
  show ?thesis
  proof (cases "has_queued operator (at_check clk) l \<and> attach = None \<and> \<not> blocked \<and> c \<noteq> None")
    case True
    then obtain r where r: "c = Some r" by auto
    have cr: "claim_row operator (at_claim clk) ?s1 = s\<lparr>led := l', claims := row_pk r # claims s\<rparr>"
      using cl r by (simp add: claim_row_def s1 sweep_led [symmetric] sw)
    have "(res, s') = claimed_run conf check clk b (?sm\<lparr>claimed := Some (external_ref r)\<rparr>) r
        (claim_row operator (at_claim clk) ?s1)"
      unfolding cr assms [symmetric] e using True r cl by (simp add: claim_unless_def)
    moreover have "claim_next operator (at_claim clk) (led ?s1) = (Some r, l')" using cl r s1 by simp
    ultimately show ?thesis by (intro that(2) [OF refl]) simp_all
  next
    case False
    then have "s' = ?s1 \<and> (\<forall>sm. res = Inr sm \<longrightarrow> claimed sm = None)"
      using assms cl unfolding e
      by (cases "has_queued operator (at_check clk) l"; cases attach; cases blocked; cases c)
        (auto simp: claim_unless_def simp del: ledger_step.simps)
    then show ?thesis using that(1) by blast
  qed
qed

lemma claimed_run_steps: "\<exists>es. snd (claimed_run conf check clk b sm r s) = fold (ledger_step conf) es s"
proof -
  obtain res s1 where p: "(case check r of Some f \<Rightarrow> (Inl f, s)
      | None \<Rightarrow> perform conf b (row_pk r) (at_click clk) s) = (res, s1)" by fastforce
  have "\<exists>es. s1 = fold (ledger_step conf) es s"
  proof (cases "check r")
    case None
    with p have "perform conf b (row_pk r) (at_click clk) s = (res, s1)" by simp
    then show ?thesis
    proof (cases rule: perform_cases)
      case 1
      then show ?thesis by (intro exI [of _ "[]"]) simp
    next
      case (2 l)
      then show ?thesis by (intro exI [of _ "[Click (row_pk r) (at_click clk)]"]) simp
    qed
  next
    case (Some f)
    with p show ?thesis by (intro exI [of _ "[]"]) simp
  qed
  then obtain es where "s1 = fold (ledger_step conf) es s" ..
  moreover obtain es' where "snd (finish_run conf sm (row_pk r) (at_record clk) res s1) = fold (ledger_step conf) es' s1"
    using finish_run_steps by blast
  ultimately show ?thesis
    by (intro exI [of _ "es @ es'"]) (simp add: claimed_run_def p)
qed

lemma run_once_steps: "\<exists>es. snd (run_once conf check blocked operator clk attach b s) = fold (ledger_step conf) es s"
proof -
  obtain res s' where run: "run_once conf check blocked operator clk attach b s = (res, s')" by fastforce
  then show ?thesis
  proof (cases rule: run_once_cases)
    case 1
    with run show ?thesis by (intro exI [of _ "[Sweep operator (at_sweep clk)]"]) simp
  next
    case (2 s1 r l sm)
    obtain es where "snd (claimed_run conf check clk b sm r (claim_row operator (at_claim clk) s1)) =
        fold (ledger_step conf) es (claim_row operator (at_claim clk) s1)"
      using claimed_run_steps by blast
    moreover have "snd (claimed_run conf check clk b sm r (claim_row operator (at_claim clk) s1)) = s'"
      using 2(4) by (metis snd_conv)
    ultimately show ?thesis using 2(1) run
      by (intro exI [of _ "[Sweep operator (at_sweep clk), Claim operator (at_claim clk)] @ es"]) simp
  qed
qed

section \<open>The outcome of a run\<close>

lemma status_of_mem: "keys_ok l \<Longrightarrow> x \<in> set (rows l) \<Longrightarrow> status_of (row_pk x) l = Inr (row_status x)"
proof -
  assume k: "keys_ok l" and x: "x \<in> set (rows l)"
  then have "List.find (\<lambda>r. row_pk r = row_pk x) (rows l) \<noteq> None" by (auto simp: find_None_iff)
  then obtain y where y: "List.find (\<lambda>r. row_pk r = row_pk x) (rows l) = Some y" by auto
  then have "y = x" using same_pk [OF k] x by (auto dest: find_Some_iff_mem)
  with y show ?thesis by (simp add: status_of_def)
qed

definition outcome :: "'p ledger_row \<Rightarrow> (run_error, summary) result \<Rightarrow> summary \<Rightarrow> 'p ledger_row \<Rightarrow> bool" where
  "outcome r out sm r' \<longleftrightarrow> row_identity r' = row_identity r \<and> row_status r' \<in> {Sent, Failed, Uncertain} \<and>
     (click_attempted_at r \<noteq> None \<longrightarrow> row_status r' \<noteq> Failed) \<and>
     (\<forall>sm'. out = Inr sm' \<longrightarrow> claimed sm' = claimed sm \<and> run_status sm' = Some (row_status r') \<and>
        run_url sm' = (if row_status r' = Sent then Some (result_url r') else None))"

lemma update_running:
  assumes "keys_ok l" and "r \<in> set (rows l)" and "row_status r = Running"
    and "\<And>r. row_pk (f r) = row_pk r \<and> external_ref (f r) = external_ref r"
  shows "f r \<in> set (rows (update_where (running_where (row_pk r)) f l))"
    and "status_of (row_pk r) (update_where (running_where (row_pk r)) f l) = Inr (row_status (f r))"
proof -
  show mem: "f r \<in> set (rows (update_where (running_where (row_pk r)) f l))"
    using assms(2,3) by (auto simp: running_where_def)
  have "keys_ok (update_where (running_where (row_pk r)) f l)" using assms(1,4) by (rule keys_ok_update)
  from status_of_mem [OF this mem] show
    "status_of (row_pk r) (update_where (running_where (row_pk r)) f l) = Inr (row_status (f r))"
    using assms(4) by simp
qed

lemma fail_row_keys: "row_pk (fail_row conf e u now r) = row_pk r \<and> external_ref (fail_row conf e u now r) = external_ref r"
  and sent_row_keys: "row_pk (sent_row url now r) = row_pk r \<and> external_ref (sent_row url now r) = external_ref r"
  by (simp_all add: fail_row_def sent_row_def)

lemmas finish_simps = finish_run_def failed_run_def record_failure_def record_sent_def refused_def Let_def

lemma finish_run_outcome:
  assumes k: "keys_ok (led s)" and r: "r \<in> set (rows (led s))" "row_status r = Running" "row_pk r = pk"
    and fin: "finish_run conf sm pk now res s = (out, s')" and "res \<noteq> Inl Killed"
  shows "clicks s' = clicks s \<and> claims s' = claims s \<and> (\<exists>r' \<in> set (rows (led s')). outcome r out sm r')"
proof -
  note fail = update_running [OF k r(1,2), of "fail_row conf e u now" for e u, OF fail_row_keys, unfolded r(3)]
  note sent = update_running [OF k r(1,2), of "sent_row url now" for url, OF sent_row_keys, unfolded r(3)]
  have f: "outcome r out sm (fail_row conf e u now r)"
    if "\<And>sm'. out = Inr sm' \<Longrightarrow> claimed sm' = claimed sm \<and>
      run_status sm' = Some (row_status (fail_row conf e u now r)) \<and> run_url sm' = None" for e u
    using that by (auto simp: outcome_def row_identity_def fail_row_def)
  show ?thesis
  proof (cases res)
    case (Inr url)
    show ?thesis
    proof (cases "match_post_url url")
      case None
      with fin Inr fail(2) have "out = Inr (sm\<lparr>run_status := Some (row_status (fail_row conf (unverified_error conf) True now r)),
          run_error := Some (unverified_error conf), run_url := None\<rparr>)"
        "s' = s\<lparr>led := update_where (running_where pk) (fail_row conf (unverified_error conf) True now) (led s)\<rparr>"
        by (auto simp: finish_simps fail_row_def)
      with f fail(1) show ?thesis by fastforce
    next
      case (Some p)
      with fin Inr sent(2) have "out = Inr (sm\<lparr>run_status := Some Sent, run_error := None, run_url := Some url\<rparr>)"
        "s' = s\<lparr>led := update_where (running_where pk) (sent_row url now) (led s)\<rparr>"
        by (auto simp: finish_simps sent_row_def)
      moreover from this(1) have "outcome r out sm (sent_row url now r)"
        by (simp add: outcome_def row_identity_def sent_row_def)
      ultimately show ?thesis using sent(1) [of url] by auto
    qed
  next
    case (Inl x)
    have "(\<exists>e u. failed_run conf sm pk e u now s = (out, s')) \<or>
      (\<exists>e. out = Inl e) \<and> (\<exists>e u. s' = s\<lparr>led := snd (record_failure conf pk e u now (led s))\<rparr>)"
      using fin Inl assms(6) by (cases x) (auto simp: finish_run_def)
    then consider e u where "failed_run conf sm pk e u now s = (out, s')"
      | e where "out = Inl e" "\<exists>e u. s' = s\<lparr>led := snd (record_failure conf pk e u now (led s))\<rparr>"
      by blast
    then show ?thesis
    proof cases
      case (1 e u)
      let ?e = "safe_error_type (default_error conf) e"
      have "out = Inr (sm\<lparr>run_status := Some (row_status (fail_row conf ?e u now r)), run_error := Some ?e, run_url := None\<rparr>)"
        "s' = s\<lparr>led := update_where (running_where pk) (fail_row conf ?e u now) (led s)\<rparr>"
        using 1 fail(2) by (auto simp: finish_simps)
      with f fail(1) show ?thesis by fastforce
    next
      case (2 e0)
      then obtain e u where s': "s' = s\<lparr>led := update_where (running_where pk) (fail_row conf e u now) (led s)\<rparr>"
        by (auto simp: record_failure_led)
      have "outcome r out sm (fail_row conf e u now r)" by (rule f) (simp add: 2(1))
      with fail(1) [of e u] show ?thesis unfolding s' by (auto simp del: rows_update)
    qed
  qed
qed

lemma click_row_led:
  assumes k: "keys_ok (led s)" and r: "r \<in> set (rows (led s))" "row_status r = Running"
    and m: "mark_click_attempted (row_pk r) now (led s) = Inr l"
  shows "r\<lparr>click_attempted_at := Some now\<rparr> \<in> set (rows (led (click_row (row_pk r) now s)))"
    and "keys_ok (led (click_row (row_pk r) now s))"
    and "clicks (click_row (row_pk r) now s) = row_pk r # clicks s"
    and "claims (click_row (row_pk r) now s) = claims s"
proof -
  let ?f = "\<lambda>r. r\<lparr>click_attempted_at := Some now\<rparr>"
  have one: "length (filter (click_where (row_pk r)) (rows (led s))) = 1"
    and l: "l = update_where (click_where (row_pk r)) ?f (led s)" using mark_click_Inr [OF m] by simp_all
  have s': "click_row (row_pk r) now s = s\<lparr>led := l, clicks := row_pk r # clicks s\<rparr>"
    using m by (simp add: click_row_def)
  from one obtain x where "x \<in> set (filter (click_where (row_pk r)) (rows (led s)))"
    by (cases "filter (click_where (row_pk r)) (rows (led s))") auto
  then have "x = r" "click_where (row_pk r) x" using same_pk [OF k _ r(1)] by (auto simp: click_where_def)
  then show "?f r \<in> set (rows (led (click_row (row_pk r) now s)))" unfolding s' l using r(1) by auto
  show "keys_ok (led (click_row (row_pk r) now s))" unfolding s' l using k by (auto intro: keys_ok_update)
  show "clicks (click_row (row_pk r) now s) = row_pk r # clicks s" "claims (click_row (row_pk r) now s) = claims s"
    unfolding s' by simp_all
qed

text \<open>What a run that claimed the row \<open>pk\<close> leaves behind.\<close>

definition run_outcome :: "int \<Rightarrow> (run_error, summary) result \<Rightarrow> 'p tracked \<Rightarrow> 'p tracked \<Rightarrow> bool" where
  "run_outcome pk res s s' \<longleftrightarrow> claims s' = pk # claims s \<and> (clicks s' = clicks s \<or> clicks s' = pk # clicks s) \<and>
     (\<exists>r \<in> set (rows (led s')). row_pk r = pk \<and> row_status r \<in> {Sent, Failed, Uncertain} \<and>
        (clicks s' \<noteq> clicks s \<longrightarrow> row_status r \<noteq> Failed) \<and>
        (\<forall>sm. res = Inr sm \<longrightarrow> claimed sm = Some (external_ref r) \<and> run_status sm = Some (row_status r) \<and>
           run_url sm = (if row_status r = Sent then Some (result_url r) else None)))"

lemma claimed_run_outcome:
  assumes k: "keys_ok (led s)" and r: "r \<in> set (rows (led s))" "row_status r = Running"
    and sm: "claimed sm = Some (external_ref r)"
    and run: "claimed_run conf check clk b sm r s = (res, s')"
    and alive: "res \<noteq> Inl (Run_fault Killed)"
  shows "claims s' = claims s \<and> (clicks s' = clicks s \<or> clicks s' = row_pk r # clicks s) \<and>
     (\<exists>r' \<in> set (rows (led s')). row_identity r' = row_identity r \<and> row_status r' \<in> {Sent, Failed, Uncertain} \<and>
        (clicks s' \<noteq> clicks s \<longrightarrow> row_status r' \<noteq> Failed) \<and>
        (\<forall>sm. res = Inr sm \<longrightarrow> claimed sm = Some (external_ref r') \<and> run_status sm = Some (row_status r') \<and>
           run_url sm = (if row_status r' = Sent then Some (result_url r') else None)))"
proof -
  obtain p s1 where p: "(case check r of Some f \<Rightarrow> (Inl f, s)
      | None \<Rightarrow> perform conf b (row_pk r) (at_click clk) s) = (p, s1)" by fastforce
  have fin: "finish_run conf sm (row_pk r) (at_record clk) p s1 = (res, s')"
    using run by (simp add: claimed_run_def p)
  have live: "p \<noteq> Inl Killed" using fin alive by (auto simp: finish_run_def)
  consider "s1 = s" | l where "mark_click_attempted (row_pk r) (at_click clk) (led s) = Inr l"
      and "s1 = click_row (row_pk r) (at_click clk) s"
  proof (cases "check r")
    case None
    with p have "perform conf b (row_pk r) (at_click clk) s = (p, s1)" by simp
    then show ?thesis using that by (cases rule: perform_cases)
  next
    case (Some f)
    with p that(1) show ?thesis by simp
  qed
  then show ?thesis
  proof cases
    case 1
    with finish_run_outcome [OF k r refl fin [unfolded 1] live] sm show ?thesis
      by (auto simp: outcome_def row_identity_def)
  next
    case (2 l)
    let ?r = "r\<lparr>click_attempted_at := Some (at_click clk)\<rparr>"
    note c = click_row_led [OF k r 2(1), folded 2(2)]
    have "row_status ?r = Running" "row_pk ?r = row_pk r" "row_identity ?r = row_identity r"
      using r(2) by (simp_all add: row_identity_def)
    with finish_run_outcome [OF c(2,1) _ _ fin live] c(3,4) sm show ?thesis
      by (auto simp: outcome_def row_identity_def)
  qed
qed

lemma claim_next_row:
  assumes k: "keys_ok (led s)" and c: "claim_next operator now (led s) = (Some r, l)"
  shows "r \<in> set (rows (led (claim_row operator now s)))" and "row_status r = Running"
    and "keys_ok (led (claim_row operator now s))"
    and "claims (claim_row operator now s) = row_pk r # claims s" and "clicks (claim_row operator now s) = clicks s"
proof -
  have s': "claim_row operator now s = s\<lparr>led := l, claims := row_pk r # claims s\<rparr>"
    using c by (simp add: claim_row_def)
  from c show "r \<in> set (rows (led (claim_row operator now s)))" "row_status r = Running"
    "keys_ok (led (claim_row operator now s))"
    by (cases rule: claim_next_cases; auto simp: s' start_row_def intro: keys_ok_update [OF k])+
  show "claims (claim_row operator now s) = row_pk r # claims s" "clicks (claim_row operator now s) = clicks s"
    by (simp_all add: s')
qed

lemma ledger_ok_sweep: "ledger_ok s \<Longrightarrow> ledger_ok (ledger_step conf (Sweep operator now) s)"
  by (rule ledger_ok_step)

text \<open>
  C19: the outcome of one worker run. From a ledger that satisfies the invariant, a run that is not
  killed either claims nothing and releases no click, or claims one row and leaves it sent, failed or
  uncertain, whatever the browser did; the click is released at most once and then the row is not
  recorded as failed; and the summary reports exactly the status and the address in the ledger.
  Killed or not, the invariant holds afterwards.
\<close>

theorem run_once_outcome:
  assumes ok: "ledger_ok s" and run: "run_once conf check blocked operator clk attach b s = (res, s')"
  shows "ledger_ok s' \<and>
    (res \<noteq> Inl (Run_fault Killed) \<longrightarrow>
      (claims s' = claims s \<and> clicks s' = clicks s \<and> (\<forall>sm. res = Inr sm \<longrightarrow> claimed sm = None)) \<or>
      (\<exists>pk. run_outcome pk res s s'))"
proof (intro conjI impI)
  obtain es where "s' = fold (ledger_step conf) es s" using run_once_steps run by (metis snd_conv)
  then show "ledger_ok s'" using attempts.inv_run [OF ok] by simp
next
  assume alive: "res \<noteq> Inl (Run_fault Killed)"
  from run show "(claims s' = claims s \<and> clicks s' = clicks s \<and> (\<forall>sm. res = Inr sm \<longrightarrow> claimed sm = None)) \<or>
      (\<exists>pk. run_outcome pk res s s')"
  proof (cases rule: run_once_cases)
    case 1
    then show ?thesis by simp
  next
    case (2 s1 r l sm)
    have "ledger_ok s1" unfolding 2(1) using ok by (rule ledger_ok_sweep)
    then have k: "keys_ok (led s1)" by (simp add: ledger_ok_def)
    have "claims s1 = claims s" "clicks s1 = clicks s" unfolding 2(1) by simp_all
    note row = claim_next_row [OF k 2(2)] this
    from claimed_run_outcome [OF row(3,1,2) 2(3) 2(4) [symmetric] alive] row(4-7)
    have "run_outcome (row_pk r) res s s'" unfolding run_outcome_def by (auto simp: row_identity_def)
    then show ?thesis by blast
  qed
qed

definition sample_browser :: "string option \<Rightarrow> browser_run" where
  "sample_browser url = \<lparr>before_click = None, after_click = None, permalink = url\<rparr>"

definition sample_clock_at :: "int \<Rightarrow> clock" where
  "sample_clock_at t = \<lparr>at_sweep = t, at_check = t, at_claim = t, at_click = t + 1, at_record = t + 2\<rparr>"

definition sample_reposts :: "string tracked" where
  "sample_reposts = fold (ledger_step repost_conf) [Enqueue 1 ''r1'' ''Arian'' [] ''u'' None] empty_tracked"

theorem run_once_outcome_witness:
  "let (res, s') = run_repost_once ''Arian'' (sample_clock_at 5) None (sample_browser None) sample_reposts
   in ledger_ok s' \<and> run_outcome 1 res sample_reposts s' \<and> map row_status (rows (led s')) = [Uncertain]"
proof -
  obtain res s' where run: "run_repost_once ''Arian'' (sample_clock_at 5) None (sample_browser None) sample_reposts = (res, s')"
    by fastforce
  have ok: "ledger_ok sample_reposts" unfolding sample_reposts_def by (rule attempts_ok)
  have "case run_repost_once ''Arian'' (sample_clock_at 5) None (sample_browser None) sample_reposts of
      (res, s') \<Rightarrow> (case res of Inl _ \<Rightarrow> False | Inr _ \<Rightarrow> True) \<and> claims s' = [1] \<and> map row_status (rows (led s')) = [Uncertain]"
    by code_simp
  moreover have "claims sample_reposts = []" by code_simp
  ultimately show ?thesis
    using run_once_outcome [OF ok run [unfolded run_repost_once_def]] unfolding run
    by (auto simp: run_outcome_def split: sum.splits)
qed

lemma identity_kept:
  "r \<in> set (rows (led s)) \<Longrightarrow> \<exists>r' \<in> set (rows (led (ledger_step conf e s))). row_identity r' = row_identity r"
proof -
  assume "r \<in> set (rows (led s))"
  then obtain i where i: "i < length (rows (led s))" "rows (led s) ! i = r" by (auto simp: in_set_conv_nth)
  obtain new where moves: "list_all2 row_moves (rows (led s) @ new) (rows (led (ledger_step conf e s)))"
    using step_extends unfolding ledger_extends_def by blast
  have len: "i < length (rows (led (ledger_step conf e s)))" using list_all2_lengthD [OF moves] i by simp
  then have "row_moves r (rows (led (ledger_step conf e s)) ! i)"
    using list_all2_nthD2 [OF moves len] i by (simp add: nth_append)
  with len show ?thesis unfolding row_moves_def by (metis nth_mem)
qed

definition holds_row :: "int \<times> string \<times> string \<times> string \<times> 'p \<times> int \<Rightarrow> 'p tracked \<Rightarrow> bool" where
  "holds_row k s \<longleftrightarrow> (\<exists>r \<in> set (rows (led s)). row_identity r = k)"

interpretation kept_row: latched_machine "ledger_step conf" ledger_ok "holds_row k" for conf k
  by unfold_locales (auto simp: holds_row_def dest: identity_kept)

section \<open>Queueing a repost\<close>

definition enqueue_repost ::
  "int \<Rightarrow> string \<Rightarrow> string \<Rightarrow> string \<Rightarrow> string \<Rightarrow> int option \<Rightarrow> string ledger
     \<Rightarrow> (repost_error, (string ledger_row \<times> bool) \<times> string ledger) result" where
  "enqueue_repost now operator url ref body sched l =
     bind_result (validate_operator operator) (\<lambda>operator.
     bind_result (validate_post_url url) (\<lambda>url.
     bind_result (validate_commentary body) (\<lambda>body.
     bind_result (validate_external_ref ref) (\<lambda>ref.
       enqueue now ref operator body url sched l))))"

lemma enqueue_found:
  assumes k: "keys_ok l" and r: "r \<in> set (rows l)" "external_ref r = ref"
  shows "enqueue now ref operator body payload sched l =
    (if row_operator r = operator \<and> commentary r = body \<and> row_payload r = payload
     then Inr ((r, False), l) else Inl LinkedInRepostConflictError)"
proof -
  have "List.find (\<lambda>r. external_ref r = ref) (rows l) \<noteq> None" using r by (auto simp: find_None_iff)
  then obtain y where y: "List.find (\<lambda>r. external_ref r = ref) (rows l) = Some y" by auto
  then have "y \<in> set (rows l)" "external_ref y = external_ref r" using r(2) by (auto dest: find_Some_iff_mem)
  then have "y = r" using k r(1) by (auto simp: keys_ok_def distinct_map inj_on_def)
  with y show ?thesis by (auto simp: enqueue_def)
qed

lemma enqueue_row:
  assumes "enqueue now ref operator body payload sched l = Inr ((r, c), l')"
  shows "r \<in> set (rows l') \<and> external_ref r = ref \<and> row_operator r = operator \<and> commentary r = body \<and> row_payload r = payload"
  using assms by (cases rule: enqueue_cases) auto

text \<open>
  C29: queueing is idempotent and the payload of a reference is immutable. After a successful
  \<open>enqueue_repost\<close> and any later operations on the ledger, a valid request with the same reference changes
  nothing: it finds the same row when its sender, post and text are, in canonical form, those of the row, and is
  refused with the conflict error otherwise. In particular the same request finds its row again.
\<close>

theorem enqueue_repost_idempotent:
  assumes ok: "ledger_ok s" and first: "enqueue_repost now operator url ref body sched (led s) = Inr ((r, c), l)"
    and later: "s' = fold (ledger_step conf) es (s\<lparr>led := l\<rparr>)"
  shows "\<exists>r'. row_identity r' = row_identity r \<and>
    enqueue_repost now' operator url ref body sched' (led s') = Inr ((r', False), led s') \<and>
    (\<forall>operator' url' body' v_operator v_url v_body.
       validate_operator operator' = Inr v_operator \<and> validate_post_url url' = Inr v_url \<and>
       validate_commentary body' = Inr v_body \<longrightarrow>
       enqueue_repost now' operator' url' ref body' sched' (led s') =
         (if (v_operator, v_url, v_body) = (row_operator r, row_payload r, commentary r) then Inr ((r', False), led s')
          else Inl LinkedInRepostConflictError))"
proof -
  obtain v_op v_url v_body v_ref where v: "validate_operator operator = Inr v_op" "validate_post_url url = Inr v_url"
      "validate_commentary body = Inr v_body" "validate_external_ref ref = Inr v_ref"
    and e: "enqueue now v_ref v_op v_body v_url sched (led s) = Inr ((r, c), l)"
    using first unfolding enqueue_repost_def by (auto simp del: split_paired_Ex)
  have ref: "v_ref = ref" using v(4) by (auto simp: validate_external_ref_def split: if_splits)
  have row: "r \<in> set (rows l)" "external_ref r = ref" "row_operator r = v_op" "commentary r = v_body" "row_payload r = v_url"
    using enqueue_row [OF e] ref by simp_all
  have ok1: "ledger_ok (s\<lparr>led := l\<rparr>)" using ok e by (rule ledger_ok_enqueue)
  have "holds_row (row_identity r) (s\<lparr>led := l\<rparr>)" using row(1) by (auto simp: holds_row_def)
  from kept_row.latched_run [OF ok1 this] obtain r' where
    r': "r' \<in> set (rows (led s'))" "row_identity r' = row_identity r" by (auto simp: holds_row_def later)
  have k: "keys_ok (led s')" using attempts.inv_run [OF ok1] by (simp add: later ledger_ok_def)
  have same: "external_ref r' = ref" "row_operator r' = v_op" "commentary r' = v_body" "row_payload r' = v_url"
    using r'(2) row by (simp_all add: row_identity_def)
  have again: "enqueue now' ref op b u sched' (led s') =
      (if v_op = op \<and> v_body = b \<and> v_url = u then Inr ((r', False), led s') else Inl LinkedInRepostConflictError)"
    for op b u using enqueue_found [OF k r'(1) same(1)] same(2-4) by simp
  show ?thesis
    using v(1-3) v(4) [unfolded ref] r'(2) row(3-5) by (intro exI [of _ r']) (auto simp: enqueue_repost_def again)
qed

text \<open>The alias of the sender finds the row again; another text is a conflict, whatever its alias or spaces.\<close>

theorem enqueue_repost_idempotent_witness:
  "let url = ''https://www.linkedin.com/feed/update/urn:li:share:12/'' in
   \<exists>r l r'. enqueue_repost 1 ''eddy'' url ''ref-1'' ''Hi'' None (led empty_tracked) = Inr ((r, True), l) \<and>
     row_identity r' = row_identity r \<and>
     (let s' = fold (ledger_step repost_conf) [Claim ''Chuka'' 5, Click 1 6] (empty_tracked\<lparr>led := l\<rparr>) in
      enqueue_repost 7 ''eddy'' url ''ref-1'' ''Hi'' None (led s') = Inr ((r', False), led s') \<and>
      enqueue_repost 7 ''Chuka'' ('' '' @ url) ''ref-1'' ''Hi'' None (led s') = Inr ((r', False), led s') \<and>
      enqueue_repost 7 ''eddy'' url ''ref-1'' ''Ho'' None (led s') = Inl LinkedInRepostConflictError)"
proof -
  let ?url = "''https://www.linkedin.com/feed/update/urn:li:share:12/''"
  have v: "validate_operator ''eddy'' = Inr ''Chuka''" "validate_operator ''Chuka'' = Inr ''Chuka''"
    "validate_post_url ?url = Inr ?url" "validate_post_url ('' '' @ ?url) = Inr ?url"
    "validate_commentary ''Hi'' = Inr ''Hi''" "validate_commentary ''Ho'' = Inr ''Ho''" "validate_external_ref ''ref-1'' = Inr ''ref-1''"
    by code_simp+
  have "\<exists>r l. enqueue_repost 1 ''eddy'' ?url ''ref-1'' ''Hi'' None (led empty_tracked) = Inr ((r, True), l) \<and>
    row_operator r = ''Chuka'' \<and> row_payload r = ?url \<and> commentary r = ''Hi''"
    by (simp only: enqueue_repost_def v bind_result_simps) (simp add: enqueue_def empty_tracked_def Let_def)
  then obtain r l where e: "enqueue_repost 1 ''eddy'' ?url ''ref-1'' ''Hi'' None (led empty_tracked) = Inr ((r, True), l)"
    and r: "row_operator r = ''Chuka''" "row_payload r = ?url" "commentary r = ''Hi''" by blast
  let ?s = "fold (ledger_step repost_conf) [Claim ''Chuka'' 5, Click 1 6] (empty_tracked\<lparr>led := l\<rparr>)"
  obtain r' where r': "row_identity r' = row_identity r"
      "enqueue_repost 7 ''eddy'' ?url ''ref-1'' ''Hi'' None (led ?s) = Inr ((r', False), led ?s)"
    and any: "\<And>op u b v_op v_url v_body. validate_operator op = Inr v_op \<and> validate_post_url u = Inr v_url \<and>
       validate_commentary b = Inr v_body \<Longrightarrow> enqueue_repost 7 op u ''ref-1'' b None (led ?s) =
         (if (v_op, v_url, v_body) = (row_operator r, row_payload r, commentary r) then Inr ((r', False), led ?s)
          else Inl LinkedInRepostConflictError)"
    using enqueue_repost_idempotent [OF ledger_ok_empty e refl, of 7 None repost_conf "[Claim ''Chuka'' 5, Click 1 6]"] by blast
  have "enqueue_repost 7 ''Chuka'' ('' '' @ ?url) ''ref-1'' ''Hi'' None (led ?s) = Inr ((r', False), led ?s)"
    using any [of "''Chuka''" _ "'' '' @ ?url" _ "''Hi''"] v(2,4,5) by (simp add: r)
  moreover have "enqueue_repost 7 ''eddy'' ?url ''ref-1'' ''Ho'' None (led ?s) = Inl LinkedInRepostConflictError"
    using any [of "''eddy''" _ ?url _ "''Ho''"] v(1,3,6) by (simp add: r)
  ultimately show ?thesis using e r' unfolding Let_def by blast
qed

end
