(* ===== verification/Personal_Posts.thy ===== *)
theory Personal_Posts
  imports Post_Workers
begin

text \<open>
  Queued personal posts (\<open>linkedin/personal_posts.py\<close>, model \<open>LinkedInPost\<close>): the validation of text and
  media, the queue on the shared ledger, the verified download, and the worker run. The module
  mirrors \<open>linkedin/reposts.py\<close> with parallel exception classes, which share the error type here;
  the payload of a row is its media, and a claim is also refused while a repost of the sender runs.
\<close>

section \<open>Media\<close>

record media =
  media_kind :: string
  media_url :: string
  media_sha256 :: string
  media_bytes :: "int option"
  media_name :: string
  document_title :: string

definition MEDIA_KINDS :: "string list" where "MEDIA_KINDS = ['''', ''image'', ''document'']"
definition MAX_MEDIA_BYTES :: int where "MAX_MEDIA_BYTES = 104857600"
definition MAX_DOCUMENT_TITLE_CHARS :: nat where "MAX_DOCUMENT_TITLE_CHARS = 200"

definition MEDIA_EXTENSIONS :: "string \<Rightarrow> string list" where
  "MEDIA_EXTENSIONS kind = (if kind = ''image'' then [''.png'', ''.jpg'', ''.jpeg'', ''.gif''] else [''.pdf''])"

definition lower_alnum :: "char \<Rightarrow> bool" where
  "lower_alnum c \<longleftrightarrow> (let n = of_char c :: nat in (48 \<le> n \<and> n \<le> 57) \<or> (97 \<le> n \<and> n \<le> 122))"

definition lower_hex :: "char \<Rightarrow> bool" where
  "lower_hex c \<longleftrightarrow> (let n = of_char c :: nat in (48 \<le> n \<and> n \<le> 57) \<or> (97 \<le> n \<and> n \<le> 102))"

text \<open>One path segment of characters of a class that excludes the separator, and the separator.\<close>

definition drop_segment :: "(char \<Rightarrow> bool) \<Rightarrow> (nat \<Rightarrow> bool) \<Rightarrow> string \<Rightarrow> string \<Rightarrow> string option" where
  "drop_segment P len sep s =
     (let w = takeWhile P s in if len (length w) then drop_prefix sep (drop (length w) s) else None)"

definition media_url_re :: "string \<Rightarrow> bool" where
  "media_url_re url \<longleftrightarrow>
     bind_option (drop_prefix ''https://cdn.sanity.io/files/'' url) (\<lambda>s.
     bind_option (drop_segment lower_alnum (\<lambda>n. 1 \<le> n) ''/'' s) (\<lambda>s.
     bind_option (drop_segment (\<lambda>c. lower_alnum c \<or> c \<in> set ''_-'') (\<lambda>n. 1 \<le> n) ''/'' s) (\<lambda>s.
     bind_option (drop_segment lower_hex (\<lambda>n. n = 40) ''.'' s) (\<lambda>s.
       if list_all lower_alnum s \<and> 2 \<le> length s \<and> length s \<le> 5 then Some () else None)))) \<noteq> None"

definition sha256_re :: "string \<Rightarrow> bool" where
  "sha256_re s \<longleftrightarrow> length s = 64 \<and> list_all lower_hex s"

definition media_name_re :: "string \<Rightarrow> bool" where
  "media_name_re s =
     (case s of
        [] \<Rightarrow> False
      | c # t \<Rightarrow> ref_head c \<and> list_all (\<lambda>x. ref_head x \<or> x \<in> set ''._-'') t \<and> length t \<le> 199)"

definition ends_with :: "string \<Rightarrow> string \<Rightarrow> bool" where
  "ends_with s e \<longleftrightarrow> length e \<le> length s \<and> drop (length s - length e) s = e"

definition plain_text :: "string \<Rightarrow> nat \<Rightarrow> bool \<Rightarrow> (repost_error, string) result" where
  "plain_text v limit line_breaks =
     (if limit < length v then invalid ''must be at most the given number of characters.''
      else if v \<noteq> strip v then invalid ''must not start or end with whitespace.''
      else if list_ex (\<lambda>c. \<not> (line_breaks \<and> of_char c = (10 :: nat)) \<and> control_char c) v then
        invalid ''may not contain control characters.''
      else Inr v)"

definition validate_post_commentary :: "string \<Rightarrow> (repost_error, string) result" where
  "validate_post_commentary v = plain_text v MAX_COMMENTARY_CHARS True"

definition no_media :: media where
  "no_media = \<lparr>media_kind = '''', media_url = '''', media_sha256 = '''', media_bytes = None, media_name = '''', document_title = ''''\<rparr>"

definition validate_media :: "media \<Rightarrow> (repost_error, media) result" where
  "validate_media m =
     (if media_kind m \<notin> set MEDIA_KINDS then invalid ''Media kind''
      else if media_kind m = '''' then
        (if media_url m \<noteq> '''' \<or> media_sha256 m \<noteq> '''' \<or> media_bytes m \<noteq> None \<or> media_name m \<noteq> '''' \<or> document_title m \<noteq> ''''
         then invalid ''A post without media must not carry media fields or a document title.''
         else Inr no_media)
      else if \<not> media_url_re (media_url m) then invalid ''Media must be a file address.''
      else if \<not> sha256_re (media_sha256 m) then invalid ''Media SHA-256 must be 64 lowercase hex characters.''
      else if (case media_bytes m of None \<Rightarrow> False | Some n \<Rightarrow> \<not> (0 < n \<and> n \<le> MAX_MEDIA_BYTES)) then invalid ''Media size''
      else if \<not> media_name_re (media_name m) \<or>
          \<not> list_ex (ends_with (casefold (media_name m))) (MEDIA_EXTENSIONS (media_kind m)) then invalid ''Media name''
      else if media_kind m = ''document'' then
        (if document_title m = '''' then invalid ''A document needs its title.''
         else bind_result (plain_text (document_title m) MAX_DOCUMENT_TITLE_CHARS False) (\<lambda>_. Inr m))
      else if document_title m \<noteq> '''' then invalid ''Only a document has a title.''
      else Inr m)"

definition validate_row :: "media ledger_row \<Rightarrow> (repost_error, media) result" where
  "validate_row r =
     bind_result (validate_operator (row_operator r)) (\<lambda>_.
     bind_result (validate_post_commentary (commentary r)) (\<lambda>body.
     bind_result (validate_media (row_payload r)) (\<lambda>m.
       if body = '''' \<and> media_kind m = '''' then invalid ''A post needs text, media or both.'' else Inr m)))"

section \<open>The queue\<close>

definition post_conf :: ledger_conf where
  "post_conf = \<lparr>base_budget_seconds = 360, default_error = ''PostError'',
     unverified_error = ''PostUnverifiedError'', interrupted_error = ''PostInterruptedError'',
     state_changed_error = ''PostStateChangedError''\<rparr>"

definition enqueue_post ::
  "int \<Rightarrow> string \<Rightarrow> string \<Rightarrow> string \<Rightarrow> media \<Rightarrow> int option \<Rightarrow> media ledger
     \<Rightarrow> (repost_error, (media ledger_row \<times> bool) \<times> media ledger) result" where
  "enqueue_post now operator ref body m sched l =
     bind_result (validate_media m) (\<lambda>m.
     bind_result (validate_operator operator) (\<lambda>operator.
     bind_result (validate_post_commentary body) (\<lambda>body.
       if body = '''' \<and> media_kind m = '''' then invalid ''A post needs text, media or both.''
       else bind_result (validate_external_ref ref) (\<lambda>ref. enqueue now ref operator body m sched l))))"

text \<open>The check constraints of the table \<open>LinkedInPost\<close>, on one row.\<close>

definition lpost_constraints :: "media ledger_row \<Rightarrow> bool" where
  "lpost_constraints r \<longleftrightarrow> (let m = row_payload r in
     (row_status r = Sent \<longrightarrow> result_url r \<noteq> '''') \<and>
     media_kind m \<in> {'''', ''image'', ''document''} \<and>
     (commentary r = '''' \<longrightarrow> media_kind m \<noteq> '''') \<and>
     (media_kind m = '''' \<or> (media_url m \<noteq> '''' \<and> media_sha256 m \<noteq> '''' \<and> media_name m \<noteq> '''')) \<and>
     (media_kind m = ''document'' \<longrightarrow> document_title m \<noteq> ''''))"

section \<open>The download\<close>

text \<open>
  \<open>fetch_media\<close> reads the response in chunks until an empty one; the response is the list of its chunks
  and the \<open>OSError\<close> that ends it, if any. The digest function is a parameter.
\<close>

fun copy_chunks :: "string list \<Rightarrow> string option \<Rightarrow> string \<Rightarrow> (fault, string) result" where
  "copy_chunks [] None got = Inr got"
| "copy_chunks [] (Some e) got = Inl (Send_fault e)"
| "copy_chunks (c # cs) e got =
     (if c = '''' then Inr got
      else if MAX_MEDIA_BYTES < int (length (got @ c)) then Inl (Send_fault ''PostMediaMismatchError'')
      else copy_chunks cs e (got @ c))"

definition fetch_media :: "(string \<Rightarrow> string) \<Rightarrow> media \<Rightarrow> string list \<times> string option \<Rightarrow> (fault, string) result" where
  "fetch_media sha256 m response =
     (if \<not> media_url_re (media_url m) then Inl (Send_fault ''PostMediaUnavailableError'')
      else bind_result (copy_chunks (fst response) (snd response) []) (\<lambda>got.
        if sha256 got \<noteq> media_sha256 m \<or> (media_bytes m \<noteq> None \<and> media_bytes m \<noteq> Some (int (length got)))
        then Inl (Send_fault ''PostMediaMismatchError'') else Inr got))"

section \<open>The worker run\<close>

definition check_post ::
  "(string \<Rightarrow> string) \<Rightarrow> string list \<times> string option \<Rightarrow> media ledger_row \<Rightarrow> fault option" where
  "check_post sha256 response r =
     (case validate_row r of
        Inl _ \<Rightarrow> Some (Send_fault ''PostInvalidRowError'')
      | Inr m \<Rightarrow>
          if media_kind m = '''' then None
          else (case fetch_media sha256 m response of Inl f \<Rightarrow> Some f | Inr _ \<Rightarrow> None))"

definition run_post_once ::
  "(string \<Rightarrow> string) \<Rightarrow> string list \<times> string option \<Rightarrow> string ledger \<Rightarrow> string \<Rightarrow> clock \<Rightarrow> fault option \<Rightarrow> browser_run
     \<Rightarrow> media tracked \<Rightarrow> (run_error, summary) result \<times> media tracked" where
  "run_post_once sha256 response reposts operator clk =
     run_once post_conf (check_post sha256 response) (running_of operator reposts) operator clk"

section \<open>Properties\<close>

lemma plain_text_Inr: "plain_text v n b = Inr w \<Longrightarrow> w = v"
  by (auto simp: plain_text_def split: if_splits)

lemma validate_media_Inr:
  assumes "validate_media m = Inr m'"
  shows "m' = m" and "media_kind m \<in> set MEDIA_KINDS"
    and "media_kind m \<noteq> '''' \<Longrightarrow> media_url_re (media_url m) \<and> sha256_re (media_sha256 m) \<and> media_name_re (media_name m)"
    and "media_kind m = ''document'' \<Longrightarrow> document_title m \<noteq> ''''"
  using assms
  by (auto simp: validate_media_def no_media_def split: if_splits)

lemma patterns_nonempty: "\<not> media_url_re ''''" "\<not> sha256_re ''''" "\<not> media_name_re ''''"
  by code_simp+

lemma validate_operator_again: "validate_operator v = Inr w \<Longrightarrow> validate_operator w = Inr w"
proof -
  assume "validate_operator v = Inr w"
  then have "w \<in> set REPOST_OPERATORS" by (auto simp: validate_operator_def Let_def split: if_splits)
  moreover have "list_all (\<lambda>w. validate_operator w = Inr w) REPOST_OPERATORS" by code_simp
  ultimately show ?thesis by (auto simp: list_all_iff)
qed

lemma validate_post_commentary_again:
  "validate_post_commentary v = Inr w \<Longrightarrow> w = v \<and> validate_post_commentary w = Inr w"
  using plain_text_Inr by (fastforce simp: validate_post_commentary_def)

lemma enqueue_post_row:
  assumes "enqueue_post now operator ref body m sched l = Inr ((r, True), l')"
  shows "validate_row r = Inr m" and "row_status r = Queued" and "row_payload r = m"
    and "commentary r = body" and "validate_operator operator = Inr (row_operator r)"
proof -
  from assms obtain m' op' body' ref' where v: "validate_media m = Inr m'" "validate_operator operator = Inr op'"
      "validate_post_commentary body = Inr body'" "\<not> (body' = '''' \<and> media_kind m' = '''')"
    and e: "enqueue now ref' op' body' m' sched l = Inr ((r, True), l')"
    unfolding enqueue_post_def by (auto simp del: split_paired_Ex split: if_splits)
  from e have row: "row_operator r = op'" "commentary r = body'" "row_payload r = m'" "fresh_row r"
    by (cases rule: enqueue_cases; simp)+
  have "m' = m" using validate_media_Inr(1) [OF v(1)] .
  moreover have "body' = body" using validate_post_commentary_again [OF v(3)] by simp
  ultimately show "validate_row r = Inr m" "row_status r = Queued" "row_payload r = m"
    "commentary r = body" "validate_operator operator = Inr (row_operator r)"
    using row v validate_operator_again [OF v(2)]
    by (simp_all add: validate_row_def fresh_row_def life_of_def)
qed

text \<open>
  The validation at the door agrees with the validation at the claim and with the table. A row
  that \<open>enqueue_post\<close> creates is accepted unchanged by \<open>validate_row\<close> when a worker claims it, and it
  satisfies every check constraint of the table, so the insertion cannot fail for its content.
\<close>

theorem enqueue_post_valid:
  assumes "enqueue_post now operator ref body m sched l = Inr ((r, True), l')"
  shows "validate_row r = Inr m \<and> row_payload r = m \<and> commentary r = body \<and> lpost_constraints r"
proof -
  note row = enqueue_post_row [OF assms]
  have m: "validate_media m = Inr m" and body: "\<not> (body = '''' \<and> media_kind m = '''')"
    using row(1,3,4) validate_media_Inr(1)
    by (auto simp: validate_row_def dest: validate_post_commentary_again split: if_splits)
  have "media_kind m \<noteq> '''' \<longrightarrow> media_url m \<noteq> '''' \<and> media_sha256 m \<noteq> '''' \<and> media_name m \<noteq> ''''"
    using validate_media_Inr(3) [OF m] patterns_nonempty by metis
  then have "lpost_constraints r"
    using validate_media_Inr(2,4) [OF m] body row(2-4) by (auto simp: lpost_constraints_def MEDIA_KINDS_def Let_def)
  with row show ?thesis by simp
qed

definition sample_media :: media where
  "sample_media = \<lparr>media_kind = ''document'',
     media_url = ''https://cdn.sanity.io/files/a/b/0123456789012345678901234567890123456789.pdf'',
     media_sha256 = replicate 64 (CHR ''0''), media_bytes = Some 2, media_name = ''Deck.PDF'', document_title = ''Deck''\<rparr>"

theorem enqueue_post_valid_witness:
  "\<exists>r l. enqueue_post 1 ''arian'' ''ref-1'' '''' sample_media None \<lparr>rows = [], row_seq = 0\<rparr> = Inr ((r, True), l) \<and>
     validate_row r = Inr sample_media \<and> lpost_constraints r"
proof -
  have v: "validate_operator ''arian'' = Inr ''Arian''" "validate_media sample_media = Inr sample_media"
    "validate_post_commentary '''' = Inr ''''" "validate_external_ref ''ref-1'' = Inr ''ref-1''"
    "media_kind sample_media \<noteq> ''''" by code_simp+
  have "\<exists>r l. enqueue_post 1 ''arian'' ''ref-1'' '''' sample_media None \<lparr>rows = [], row_seq = 0\<rparr> = Inr ((r, True), l)"
    by (simp only: enqueue_post_def v bind_result_simps) (simp add: v enqueue_def Let_def)
  then show ?thesis using enqueue_post_valid by blast
qed

lemma copy_chunks_bound:
  "copy_chunks cs e got = Inr bytes \<Longrightarrow> int (length got) \<le> MAX_MEDIA_BYTES \<Longrightarrow> int (length bytes) \<le> MAX_MEDIA_BYTES"
  by (induction cs e got rule: copy_chunks.induct) (auto split: if_splits)

lemma fetch_media_Inr:
  assumes "fetch_media sha256 m response = Inr bytes"
  shows "sha256 bytes = media_sha256 m \<and> int (length bytes) \<le> MAX_MEDIA_BYTES \<and>
    (\<forall>n. media_bytes m = Some n \<longrightarrow> int (length bytes) = n)"
proof -
  have c: "copy_chunks (fst response) (snd response) [] = Inr bytes" "sha256 bytes = media_sha256 m"
      "media_bytes m = None \<or> media_bytes m = Some (int (length bytes))"
    using assms by (auto simp: fetch_media_def split: if_splits)
  have "int (length bytes) \<le> MAX_MEDIA_BYTES" by (rule copy_chunks_bound [OF c(1)]) (simp add: MAX_MEDIA_BYTES_def)
  with c(2,3) show ?thesis by auto
qed

text \<open>The approved content of a row: what must hold of it before LinkedIn is opened.\<close>

definition approved :: "(string \<Rightarrow> string) \<Rightarrow> string list \<times> string option \<Rightarrow> media ledger_row \<Rightarrow> bool" where
  "approved sha256 response r \<longleftrightarrow>
     (\<exists>m. validate_row r = Inr m \<and>
       (media_kind m \<noteq> '''' \<longrightarrow>
         (\<exists>bytes. fetch_media sha256 m response = Inr bytes \<and> sha256 bytes = media_sha256 m \<and>
            int (length bytes) \<le> MAX_MEDIA_BYTES \<and> (\<forall>n. media_bytes m = Some n \<longrightarrow> int (length bytes) = n))))"

lemma check_post_None: "check_post sha256 response r = None \<Longrightarrow> approved sha256 response r"
proof -
  assume c: "check_post sha256 response r = None"
  then obtain m where m: "validate_row r = Inr m" by (auto simp: check_post_def split: sum.splits)
  show ?thesis
  proof (cases "media_kind m = ''''")
    case True
    with m show ?thesis by (simp add: approved_def)
  next
    case False
    with c m obtain bytes where "fetch_media sha256 m response = Inr bytes"
      by (auto simp: check_post_def split: sum.splits)
    with fetch_media_Inr [OF this] m show ?thesis unfolding approved_def by blast
  qed
qed

lemma validate_row_identity: "row_identity r = row_identity r' \<Longrightarrow> validate_row r = validate_row r'"
  by (simp add: validate_row_def row_identity_def)

lemma finish_run_logs:
  "clicks (snd (finish_run conf sm pk now res s)) = clicks s"
  by (auto simp: finish_run_def failed_run_def Let_def split: sum.split fault.split prod.split)

lemma claimed_run_checked:
  assumes "claimed_run conf check clk b sm r s = (res, s')" and "clicks s' \<noteq> clicks s"
  shows "check r = None \<and> clicks s' = row_pk r # clicks s"
proof (cases "check r")
  case (Some f)
  then have "s' = snd (finish_run conf sm (row_pk r) (at_record clk) (Inl f) s)"
    using assms(1) by (simp add: claimed_run_def)
  then have "clicks s' = clicks s" by (simp only: finish_run_logs)
  with assms(2) show ?thesis by simp
next
  case None
  obtain p s1 where p: "perform conf b (row_pk r) (at_click clk) s = (p, s1)" by fastforce
  then have "s' = snd (finish_run conf sm (row_pk r) (at_record clk) p s1)"
    using assms(1) None by (simp add: claimed_run_def)
  then have s1: "clicks s' = clicks s1" by (simp only: finish_run_logs)
  from p show ?thesis
  proof (cases rule: perform_cases)
    case 1
    with s1 assms(2) show ?thesis by simp
  next
    case (2 l)
    then have "clicks s1 = row_pk r # clicks s" by (simp add: click_row_def)
    with s1 None show ?thesis by simp
  qed
qed

text \<open>
  C20: nothing is posted that was not approved. If a run of the post worker releases the final click,
  then the clicked row passed the validation, and its media, when it has any, was downloaded with the
  approved digest and size, within the size limit; and no repost of the sender was running.
\<close>

theorem post_click_approved:
  assumes ok: "ledger_ok s" and run: "run_post_once sha256 response reposts operator clk attach b s = (res, s')"
    and click: "clicks s' \<noteq> clicks s"
  shows "\<not> running_of operator reposts \<and>
    (\<exists>r \<in> set (rows (led s')). row_operator r = operator \<and> clicks s' = row_pk r # clicks s \<and>
       approved sha256 response r)"
  using run [unfolded run_post_once_def]
proof (cases rule: run_once_cases)
  case 1
  with click show ?thesis by simp
next
  case (2 s1 r l sm)
  have ok1: "ledger_ok s1" unfolding 2(1) using ok by (rule ledger_ok_sweep)
  then have k: "keys_ok (led s1)" by (simp add: ledger_ok_def)
  note row = claim_next_row [OF k 2(2)]
  let ?s2 = "claim_row operator (at_claim clk) s1"
  have "clicks ?s2 = clicks s" using row(5) unfolding 2(1) by simp
  then have c: "check_post sha256 response r = None" "clicks s' = row_pk r # clicks s"
    using claimed_run_checked [OF 2(4) [symmetric]] click by simp_all
  obtain es where s': "s' = fold (ledger_step post_conf) es ?s2"
    using claimed_run_steps 2(4) by (metis snd_conv)
  have ok2: "ledger_ok ?s2" using ok1 by (rule ledger_ok_claim)
  have "holds_row (row_identity r) ?s2" using row(1) by (auto simp: holds_row_def)
  from kept_row.latched_run [OF ok2 this] obtain r' where
    r': "r' \<in> set (rows (led s'))" "row_identity r' = row_identity r" by (auto simp: holds_row_def s')
  have "row_operator r = operator"
    using 2(2) by (cases rule: claim_next_cases) (auto simp: start_row_def)
  then have op: "row_operator r' = operator" "row_pk r' = row_pk r" using r'(2) by (simp_all add: row_identity_def)
  have "approved sha256 response r'"
    using check_post_None [OF c(1)] validate_row_identity [OF r'(2)] by (simp add: approved_def)
  moreover have "\<not> running_of operator reposts"
  proof
    assume "running_of operator reposts"
    then have "clicks s' = clicks s"
      using run unfolding run_post_once_def run_once_def claim_unless_def
      by (auto simp: Let_def split: prod.splits if_splits option.splits)
    with click show False ..
  qed
  ultimately show ?thesis using r'(1) op c(2) by auto
qed

definition sample_posts :: "media tracked" where
  "sample_posts = fold (ledger_step post_conf) [Enqueue 1 ''p1'' ''Arian'' [] sample_media None] empty_tracked"

theorem post_click_approved_witness:
  "let sha256 = (\<lambda>_. replicate 64 (CHR ''0''));
       (res, s') = run_post_once sha256 ([''%P''], None) \<lparr>rows = [], row_seq = 0\<rparr> ''Arian'' (sample_clock_at 5) None
         (sample_browser None) sample_posts
   in clicks s' = [1] \<and> (\<exists>r \<in> set (rows (led s')). approved sha256 ([''%P''], None) r)"
proof -
  let ?h = "\<lambda>_ :: string. replicate 64 (CHR ''0'')"
  let ?run = "run_post_once ?h ([''%P''], None) \<lparr>rows = [], row_seq = 0\<rparr> ''Arian'' (sample_clock_at 5) None
     (sample_browser None) sample_posts"
  obtain res s' where run: "?run = (res, s')" by fastforce
  have ok: "ledger_ok sample_posts" unfolding sample_posts_def by (rule attempts_ok)
  have "clicks (snd ?run) = [1] \<and> clicks sample_posts = []" by code_simp
  then have "clicks s' = [1]" "clicks s' \<noteq> clicks sample_posts" unfolding run by simp_all
  with post_click_approved [OF ok run] run show ?thesis unfolding Let_def by auto
qed

end
