(* ===== verification/Child_Supervisor.thy ===== *)
theory Child_Supervisor
  imports Personal_Posts
begin

text \<open>
  The one-shot children of the supervisor (\<open>daemon_supervisor.py _supervise_workers\<close>): when the repost
  child and the post child are started, timed out and stopped. The two workers drive the same
  browser, and the claim of a repost does not look at the posts, so their exclusion rests on this loop.
  The answers of the operating system and of the queue, and the readings of the clock, are inputs.
\<close>

section \<open>State and inputs\<close>

definition REPOST_CHECK_SECONDS :: int where "REPOST_CHECK_SECONDS = 120"
definition POST_CHECK_SECONDS :: int where "POST_CHECK_SECONDS = 120"

definition supervisor_timeout :: "ledger_conf \<Rightarrow> int" where
  "supervisor_timeout conf = base_budget_seconds conf +
     ceil_thousandth (int MAX_COMMENTARY_CHARS * COMMENTARY_TYPE_MAX_DELAY_MS) + 3 * PROCESS_GRACE_SECONDS"

text \<open>A running child is the time of its start; two logs record when the queues were read.\<close>

record children =
  repost_child :: "int option"
  post_child :: "int option"
  next_repost_check :: int
  next_post_check :: int
  repost_checks :: "int list"
  post_checks :: "int list"

record child_input =
  exit_code :: "int option"
  age_at :: int
  due_at :: int
  check_at :: int
  queued_work :: bool
  start_at :: int

record tick =
  restart_children :: bool
  worker_exited :: bool
  repost_input :: child_input
  post_input :: child_input

section \<open>One iteration of the loop\<close>

definition stop_children :: "children \<Rightarrow> children" where
  "stop_children s = s\<lparr>repost_child := None, post_child := None\<rparr>"

definition poll_child :: "int \<Rightarrow> child_input \<Rightarrow> int option \<Rightarrow> int option" where
  "poll_child limit i child =
     (case child of
        None \<Rightarrow> None
      | Some started \<Rightarrow>
          (let code = (if exit_code i = None \<and> limit \<le> age_at i - started then Some 124 else exit_code i)
           in if code \<noteq> None then None else Some started))"

definition repost_section :: "child_input \<Rightarrow> children \<Rightarrow> children" where
  "repost_section i s =
     (let s = s\<lparr>repost_child := poll_child (supervisor_timeout repost_conf) i (repost_child s)\<rparr>
      in if repost_child s = None \<and> post_child s = None \<and> next_repost_check s \<le> due_at i then
           (let s = s\<lparr>next_repost_check := check_at i + REPOST_CHECK_SECONDS, repost_checks := check_at i # repost_checks s\<rparr>
            in if queued_work i then s\<lparr>repost_child := Some (start_at i)\<rparr> else s)
         else s)"

definition post_section :: "child_input \<Rightarrow> children \<Rightarrow> children" where
  "post_section i s =
     (let s = s\<lparr>post_child := poll_child (supervisor_timeout post_conf) i (post_child s)\<rparr>
      in if post_child s = None \<and> repost_child s = None \<and> next_post_check s \<le> due_at i then
           (let s = s\<lparr>next_post_check := check_at i + POST_CHECK_SECONDS, post_checks := check_at i # post_checks s\<rparr>
            in if queued_work i then s\<lparr>post_child := Some (start_at i)\<rparr> else s)
         else s)"

definition supervise :: "bool \<Rightarrow> bool \<Rightarrow> tick \<Rightarrow> children \<Rightarrow> children" where
  "supervise reposts_enabled posts_enabled t s =
     (let s = (if restart_children t then stop_children s else s)
      in if worker_exited t then stop_children s
         else (let s = (if reposts_enabled then repost_section (repost_input t) s else s)
               in if posts_enabled then post_section (post_input t) s else s))"

definition start_supervisor :: "int \<Rightarrow> int \<Rightarrow> children" where
  "start_supervisor t1 t2 = \<lparr>repost_child = None, post_child = None,
     next_repost_check = t1 + REPOST_CHECK_SECONDS, next_post_check = t2 + POST_CHECK_SECONDS,
     repost_checks = [], post_checks = []\<rparr>"

section \<open>Exclusion\<close>

definition exclusive :: "children \<Rightarrow> bool" where
  "exclusive s \<longleftrightarrow> repost_child s = None \<or> post_child s = None"

lemma poll_child_None [simp]: "poll_child limit i None = None"
  by (simp add: poll_child_def)

lemma exclusive_stop [simp]: "exclusive (stop_children s)"
  by (simp add: exclusive_def stop_children_def)

lemma exclusive_sections: "exclusive s \<Longrightarrow> exclusive (repost_section i s)" "exclusive s \<Longrightarrow> exclusive (post_section i s)"
  by (auto simp: exclusive_def repost_section_def post_section_def Let_def)

lemma exclusive_supervise: "exclusive s \<Longrightarrow> exclusive (supervise re pe t s)"
  by (simp add: supervise_def Let_def exclusive_sections)

text \<open>
  The bound on a child: when its section ran, it had exited, was stopped for its age, was younger
  than its limit, or has just been started.
\<close>

definition young :: "int \<Rightarrow> child_input \<Rightarrow> int option \<Rightarrow> bool" where
  "young limit i child \<longleftrightarrow> (\<forall>t. child = Some t \<longrightarrow> age_at i - t < limit \<or> t = start_at i)"

lemma poll_child_young: "poll_child limit i child = Some t \<Longrightarrow> child = Some t \<and> age_at i - t < limit"
  by (auto simp: poll_child_def Let_def split: option.splits if_splits)

lemma young_sections:
  "young (supervisor_timeout repost_conf) i (repost_child (repost_section i s))"
  "young (supervisor_timeout post_conf) i (post_child (post_section i s))"
  "repost_child (post_section j s) = repost_child s"
  by (auto simp: young_def repost_section_def post_section_def Let_def dest: poll_child_young split: if_splits)

lemma young_supervise:
  assumes "\<not> worker_exited t" "s' = supervise True True t s"
  shows "young (supervisor_timeout repost_conf) (repost_input t) (repost_child s') \<and>
    young (supervisor_timeout post_conf) (post_input t) (post_child s')"
  using assms by (simp add: supervise_def Let_def young_sections)

interpretation supervisor: machine "supervise re pe" exclusive for re pe
  by unfold_locales (rule exclusive_supervise)

text \<open>
  C28: the supervisor never runs a repost child and a post child of its sender together, through any
  sequence of iterations, exits, restarts and queue answers; and after an iteration that looked at
  them, a child is younger than its time limit (1020 and 1140 seconds) or was started in it.
\<close>

theorem children_exclusive:
  "(let s = fold (supervise re pe) ts (start_supervisor t1 t2)
    in repost_child s = None \<or> post_child s = None) \<and>
   (let s' = supervise True True t s
    in worker_exited t \<or>
       young (supervisor_timeout repost_conf) (repost_input t) (repost_child s') \<and>
       young (supervisor_timeout post_conf) (post_input t) (post_child s')) \<and>
   supervisor_timeout repost_conf = 1020 \<and> supervisor_timeout post_conf = 1140"
proof -
  have "exclusive (fold (supervise re pe) ts (start_supervisor t1 t2))"
    by (rule supervisor.inv_run) (simp add: exclusive_def start_supervisor_def)
  moreover have "supervisor_timeout repost_conf = 1020" "supervisor_timeout post_conf = 1140" by code_simp+
  ultimately show ?thesis using young_supervise [OF _ refl] unfolding exclusive_def Let_def by blast
qed

section \<open>Pace\<close>

definition input_ok :: "child_input \<Rightarrow> bool" where
  "input_ok i \<longleftrightarrow> due_at i \<le> check_at i"

definition tick_ok :: "tick \<Rightarrow> bool" where
  "tick_ok t \<longleftrightarrow> input_ok (repost_input t) \<and> input_ok (post_input t)"

text \<open>A log, newest first, whose entries are at least \<open>gap\<close> apart and \<open>gap\<close> before the next one.\<close>

definition paced :: "int \<Rightarrow> int \<Rightarrow> int list \<Rightarrow> bool" where
  "paced gap next log \<longleftrightarrow> sorted_wrt (\<lambda>later earlier. earlier + gap \<le> later) log \<and> (\<forall>t \<in> set log. t + gap \<le> next)"

definition pace_ok :: "children \<Rightarrow> bool" where
  "pace_ok s \<longleftrightarrow> paced REPOST_CHECK_SECONDS (next_repost_check s) (repost_checks s) \<and>
     paced POST_CHECK_SECONDS (next_post_check s) (post_checks s)"

lemma paced_Cons: "paced gap next log \<Longrightarrow> next \<le> t \<Longrightarrow> 0 \<le> gap \<Longrightarrow> paced gap (t + gap) (t # log)"
  by (force simp: paced_def)

lemma pace_sections:
  "input_ok i \<Longrightarrow> pace_ok s \<Longrightarrow> pace_ok (repost_section i s)"
  "input_ok i \<Longrightarrow> pace_ok s \<Longrightarrow> pace_ok (post_section i s)"
  by (auto simp: pace_ok_def input_ok_def repost_section_def post_section_def Let_def
      REPOST_CHECK_SECONDS_def POST_CHECK_SECONDS_def intro!: paced_Cons)

lemma pace_stop [simp]: "pace_ok (stop_children s) = pace_ok s"
  by (simp add: pace_ok_def stop_children_def)

lemma pace_supervise: "tick_ok t \<Longrightarrow> pace_ok s \<Longrightarrow> pace_ok (supervise re pe t s)"
  by (simp add: supervise_def Let_def tick_ok_def pace_sections)

text \<open>
  The supervisor reads each queue at most once in 120 seconds, and first after 120 seconds, however
  often children or workers exit and are restarted.
\<close>

theorem queue_checks_paced:
  assumes "list_all tick_ok ts"
  shows "sorted_wrt (\<lambda>later earlier. earlier + 120 \<le> later)
           (repost_checks (fold (supervise re pe) ts (start_supervisor t1 t2))) \<and>
         sorted_wrt (\<lambda>later earlier. earlier + 120 \<le> later)
           (post_checks (fold (supervise re pe) ts (start_supervisor t1 t2)))"
proof -
  have "pace_ok s \<Longrightarrow> list_all tick_ok ts \<Longrightarrow> pace_ok (fold (supervise re pe) ts s)" for s
    by (induction ts arbitrary: s) (simp_all add: pace_supervise)
  moreover have "pace_ok (start_supervisor t1 t2)" by (simp add: pace_ok_def paced_def start_supervisor_def)
  ultimately have "pace_ok (fold (supervise re pe) ts (start_supervisor t1 t2))" using assms by blast
  then show ?thesis by (simp add: pace_ok_def paced_def REPOST_CHECK_SECONDS_def POST_CHECK_SECONDS_def)
qed

definition sample_tick :: "int \<Rightarrow> tick" where
  "sample_tick n = (let i = \<lparr>exit_code = Some 0, age_at = n, due_at = n, check_at = n, queued_work = True, start_at = n\<rparr>
     in \<lparr>restart_children = False, worker_exited = False, repost_input = i, post_input = i\<rparr>)"

theorem queue_checks_paced_witness:
  "repost_checks (fold (supervise True True) (map sample_tick [119, 120, 121, 240, 241]) (start_supervisor 0 0)) = [241, 120] \<and>
   sorted_wrt (\<lambda>later earlier. earlier + 120 \<le> later)
     (repost_checks (fold (supervise True True) (map sample_tick [119, 120, 121, 240, 241]) (start_supervisor 0 0)))"
proof -
  have ok: "list_all tick_ok (map sample_tick [119, 120, 121, 240, 241])" by code_simp
  have "repost_checks (fold (supervise True True) (map sample_tick [119, 120, 121, 240, 241]) (start_supervisor 0 0)) = [241, 120]"
    by code_simp
  with queue_checks_paced [OF ok, of True True 0 0] show ?thesis by blast
qed

end
