(* ===== verification/Drip_Store.thy ===== *)
theory Drip_Store
  imports Task_Queue
begin

text \<open>
  The tables of the drip campaigns (\<open>drip/models.py\<close>) and the services that stop an enrollment
  (\<open>drip/services/stops.py\<close>, \<open>ownership.py\<close>). An enrollment of a lead has one lane for each channel; a lane
  freezes its deliveries one after the other and hands each to a task. Times are microseconds.
\<close>

section \<open>Tables\<close>

datatype drip_channel = Linkedin_lane | Gmail_lane

datatype enrollment_status = E_Waiting | E_Active | E_Paused | E_Stopped | E_Completed

datatype lane_status =
    L_Waiting_current | L_Waiting_connection | L_Active | L_Paused | L_Stopped | L_Completed

datatype sequence_status = Seq_Pending | Seq_Completed | Seq_Not_applicable

datatype drip_status = D_Planned | D_Queued | D_Sending | D_Sent | D_Failed | D_Unclear | D_Stopped

record drip_step =
  step_delay :: int
  step_subject :: string
  step_body :: string

record drip_theme =
  theme_key :: string
  theme_senders :: "(string \<times> (drip_channel \<times> drip_step list) list) list"

type_synonym manifest = "(string \<times> drip_theme list) list"

record drip_enrollment =
  enr_pk :: int
  enr_lead :: int
  enr_campaign :: int
  enr_version :: int
  frozen_icp :: string
  enr_status :: enrollment_status
  activated_at :: "int option"
  enr_completed_at :: "int option"
  stopped_at :: "int option"
  stop_reason :: string
  stop_detail :: string
  stop_trigger_message :: "int option"

record drip_lane =
  lane_pk :: int
  lane_enrollment :: int
  lane_channel :: drip_channel
  lane_operator :: string
  provider_account :: string
  sender_identity :: string
  recipient_identity :: string
  member_urn :: string
  lane_status :: lane_status
  current_sequence_status :: sequence_status
  handoff_evidence :: "(string \<times> json) list"
  handed_off_at :: "int option"
  current_theme_index :: nat
  current_theme_key :: string
  theme_started_at :: "int option"
  gmail_thread_id :: string
  gmail_thread_subject :: string

record drip_delivery =
  dlv_pk :: int
  dlv_lane :: int
  dlv_theme_key :: string
  dlv_theme_index :: nat
  dlv_step_index :: nat
  dlv_subject :: string
  dlv_body :: string
  dlv_scheduled_at :: int
  dlv_sent_at :: "int option"
  dlv_status :: drip_status
  current_task :: "int option"
  outbound_message :: "int option"
  dlv_account :: string
  provider_message_id :: string
  provider_thread_id :: string
  rfc_message_id :: string
  rfc_references :: string

record drip_message =
  msg_pk :: int
  msg_lead :: int
  msg_source :: string
  msg_inbound :: bool
  msg_external :: string
  msg_body :: string
  msg_automation_key :: string

record drip_db =
  enrollments :: "drip_enrollment list"
  lanes :: "drip_lane list"
  deliveries :: "drip_delivery list"
  tasks :: "task list"
  dlv_seq :: int
  task_seq :: int
  campaigns :: "(int \<times> string) list"
  versions :: "(int \<times> manifest) list"
  leads :: "int list"
  messages :: "drip_message list"
  workflow_runs :: "(nat \<times> nat) list"

datatype drip_error =
    Drip_KeyError
  | Drip_ValueError string
  | Drip_ValidationError string
  | Drip_DoesNotExist string
  | Drip_RenderError string
  | Drip_MailError string

definition nonterminal_enrollment :: "drip_enrollment \<Rightarrow> bool" where
  "nonterminal_enrollment e \<longleftrightarrow> enr_status e \<in> {E_Waiting, E_Active, E_Paused}"

definition nonterminal_lane :: "drip_lane \<Rightarrow> bool" where
  "nonterminal_lane l \<longleftrightarrow> lane_status l \<in> {L_Waiting_current, L_Waiting_connection, L_Active, L_Paused}"

definition get_row :: "('r \<Rightarrow> int) \<Rightarrow> string \<Rightarrow> 'r list \<Rightarrow> int \<Rightarrow> (drip_error, 'r) result" where
  "get_row pk name rows k =
     (case List.find (\<lambda>r. pk r = k) rows of None \<Rightarrow> Inl (Drip_DoesNotExist name) | Some r \<Rightarrow> Inr r)"

text \<open>The task that sends a delivery.\<close>

definition drip_task :: "drip_delivery \<Rightarrow> drip_lane \<Rightarrow> int \<Rightarrow> int \<Rightarrow> task" where
  "drip_task d l now pk =
     \<lparr>task_pk = pk, task_type = (if lane_channel l = Linkedin_lane then DRIP_LINKEDIN else DRIP_GMAIL),
      task_status = PENDING, task_scheduled_at = dlv_scheduled_at d,
      task_payload = [(''delivery_id'', JInt (dlv_pk d)), (''operator'', JStr (lane_operator l))],
      task_error = '''', task_created_at = now, task_started_at = None, task_completed_at = None\<rparr>"

section \<open>Ownership\<close>

definition lock_enrollment_graph :: "int \<Rightarrow> drip_db \<Rightarrow> (drip_error, drip_enrollment) result" where
  "lock_enrollment_graph k db =
     bind_result (get_row enr_pk ''DripEnrollment'' (enrollments db) k) (\<lambda>e.
     bind_result (get_row id ''Lead'' (leads db) (enr_lead e)) (\<lambda>_. Inr e))"

definition drip_owns_channel :: "int \<Rightarrow> drip_channel \<Rightarrow> drip_db \<Rightarrow> bool" where
  "drip_owns_channel lead channel db \<longleftrightarrow>
     (\<exists>l \<in> set (lanes db). \<exists>e \<in> set (enrollments db). lane_enrollment l = enr_pk e \<and> enr_lead e = lead \<and>
        lane_channel l = channel \<and> handed_off_at l \<noteq> None)"

section \<open>Why a lead is left alone\<close>

text \<open>
  \<open>linkedin/tasks/stop_checks.py\<close>. What the CRM knows of a lead comes from tables that the campaigns
  do not write; the reply is read from the messages.
\<close>

record lead_facts =
  disqualified :: "int \<Rightarrow> bool"
  suppression :: "int \<Rightarrow> string option"
  has_meeting :: "int \<Rightarrow> bool"

definition human_reply :: "int \<Rightarrow> drip_message \<Rightarrow> bool" where
  "human_reply lead m \<longleftrightarrow> msg_lead m = lead \<and> msg_source m \<in> {''linkedin'', ''gmail''} \<and> msg_inbound m"

definition lead_automation_stop_reason :: "lead_facts \<Rightarrow> int \<Rightarrow> drip_db \<Rightarrow> string" where
  "lead_automation_stop_reason f lead db =
     (if disqualified f lead then ''Lead disqualified; automation stopped''
      else case suppression f lead of
        Some v \<Rightarrow> ''Suppression: '' @ v
      | None \<Rightarrow>
          if has_meeting f lead then ''Meeting exists; automation stopped''
          else if (\<exists>m \<in> set (messages db). human_reply lead m) then ''Lead replied; automation stopped''
          else '''')"

section \<open>Stops\<close>

definition stop_lanes :: "int list \<Rightarrow> drip_db \<Rightarrow> drip_db" where
  "stop_lanes ids db = db\<lparr>lanes := map (\<lambda>l. if lane_pk l \<in> set ids then l\<lparr>lane_status := L_Stopped\<rparr> else l) (lanes db)\<rparr>"

definition open_delivery :: "int list \<Rightarrow> drip_delivery \<Rightarrow> bool" where
  "open_delivery ids d \<longleftrightarrow> dlv_lane d \<in> set ids \<and> dlv_status d \<in> {D_Planned, D_Queued}"

definition stop_deliveries :: "int list \<Rightarrow> drip_db \<Rightarrow> drip_db" where
  "stop_deliveries ids db =
     db\<lparr>deliveries := map (\<lambda>d. if open_delivery ids d then d\<lparr>dlv_status := D_Stopped\<rparr> else d) (deliveries db)\<rparr>"

definition retire_task :: "int \<Rightarrow> string \<Rightarrow> task \<Rightarrow> task" where
  "retire_task now reason t = t\<lparr>task_status := COMPLETED, task_completed_at := Some now, task_error := reason\<rparr>"

definition retire_tasks :: "int list \<Rightarrow> int \<Rightarrow> string \<Rightarrow> drip_db \<Rightarrow> drip_db" where
  "retire_tasks ids now reason db =
     db\<lparr>tasks := map (\<lambda>t. if task_pk t \<in> set ids \<and> task_status t = PENDING then retire_task now reason t else t) (tasks db)\<rparr>"

definition open_task_ids :: "int list \<Rightarrow> drip_db \<Rightarrow> int list" where
  "open_task_ids ids db = List.map_filter current_task (filter (open_delivery ids) (deliveries db))"

text \<open>What both stops do below the enrollment: its open lanes, their open deliveries, and their pending tasks.\<close>

definition stop_below :: "(drip_lane \<Rightarrow> bool) \<Rightarrow> int \<Rightarrow> string \<Rightarrow> drip_db \<Rightarrow> drip_db" where
  "stop_below mine now reason db =
     (let lane_ids = map lane_pk (filter (\<lambda>l. mine l \<and> nonterminal_lane l) (lanes db));
          db = stop_lanes lane_ids db;
          task_ids = open_task_ids lane_ids db;
          db = stop_deliveries lane_ids db
      in retire_tasks task_ids now reason db)"

definition stop_enrollment_row :: "int \<Rightarrow> string \<Rightarrow> string \<Rightarrow> int option \<Rightarrow> drip_enrollment \<Rightarrow> drip_enrollment" where
  "stop_enrollment_row now reason detail trigger e =
     e\<lparr>enr_status := E_Stopped, stopped_at := Some now, stop_reason := reason, stop_detail := detail,
       stop_trigger_message := trigger\<rparr>"

definition stop_enrollment_for_reason :: "int \<Rightarrow> string \<Rightarrow> int \<Rightarrow> drip_db \<Rightarrow> (drip_error, bool \<times> drip_db) result" where
  "stop_enrollment_for_reason k reason now db =
     bind_result (lock_enrollment_graph k db) (\<lambda>e.
       if \<not> nonterminal_enrollment e then Inr (False, db)
       else
         let db = db\<lparr>enrollments := map (\<lambda>x. if enr_pk x = k
               then stop_enrollment_row now ''shared_stop'' reason (stop_trigger_message x) x else x) (enrollments db)\<rparr>
         in Inr (True, stop_below (\<lambda>l. lane_enrollment l = k) now reason db))"

definition open_of_lead :: "int \<Rightarrow> drip_db \<Rightarrow> drip_enrollment list" where
  "open_of_lead lead db = filter (\<lambda>e. enr_lead e = lead \<and> nonterminal_enrollment e) (enrollments db)"

definition inbound_detail :: "drip_message \<Rightarrow> string" where
  "inbound_detail m = ''Inbound '' @ msg_source m @ '' Message '' @ str_int (msg_pk m) @ '' persisted''"

definition stop_open_of_lead :: "drip_message \<Rightarrow> int \<Rightarrow> drip_db \<Rightarrow> drip_db" where
  "stop_open_of_lead m now db =
     (let ids = map enr_pk (open_of_lead (msg_lead m) db)
      in stop_below (\<lambda>l. lane_enrollment l \<in> set ids) now (inbound_detail m)
           (db\<lparr>enrollments := map (\<lambda>x. if enr_pk x \<in> set ids
              then stop_enrollment_row now (''inbound_'' @ msg_source m) (inbound_detail m) (Some (msg_pk m)) x
              else x) (enrollments db)\<rparr>))"

definition stop_for_inbound_message :: "int \<Rightarrow> int \<Rightarrow> drip_db \<Rightarrow> (drip_error, nat \<times> drip_db) result" where
  "stop_for_inbound_message k now db =
     (case List.find (\<lambda>m. msg_pk m = k) (messages db) of
        None \<Rightarrow> Inr (0, db)
      | Some m \<Rightarrow>
          if \<not> msg_inbound m \<or> msg_source m \<notin> {''linkedin'', ''gmail''} then Inr (0, db)
          else bind_result (get_row id ''Lead'' (leads db) (msg_lead m)) (\<lambda>_.
            if open_of_lead (msg_lead m) db = [] then Inr (0, db)
            else Inr (length (open_of_lead (msg_lead m) db), stop_open_of_lead m now db)))"

end
