(* ===== verification/Drip_Stops.thy ===== *)
theory Drip_Stops
  imports Drip_Store
begin

text \<open>
  What a stop guarantees (\<open>drip/services/stops.py\<close>): everything below the stopped enrollment is silent,
  nothing else changes, and stopping again does nothing.
\<close>

section \<open>The rows below\<close>

lemma rows_below [simp]:
  "enrollments (stop_below mine now reason db) = enrollments db"
  "leads (stop_below mine now reason db) = leads db"
  "messages (stop_below mine now reason db) = messages db"
  "versions (stop_below mine now reason db) = versions db"
  "campaigns (stop_below mine now reason db) = campaigns db"
  "dlv_seq (stop_below mine now reason db) = dlv_seq db"
  "task_seq (stop_below mine now reason db) = task_seq db"
  by (simp_all add: stop_below_def Let_def stop_lanes_def stop_deliveries_def retire_tasks_def)

definition below_ids :: "(drip_lane \<Rightarrow> bool) \<Rightarrow> drip_db \<Rightarrow> int list" where
  "below_ids mine db = map lane_pk (filter (\<lambda>l. mine l \<and> nonterminal_lane l) (lanes db))"

definition below_tasks :: "(drip_lane \<Rightarrow> bool) \<Rightarrow> drip_db \<Rightarrow> int list" where
  "below_tasks mine db = open_task_ids (below_ids mine db) db"

lemma lanes_below:
  "lanes (stop_below mine now reason db) =
     map (\<lambda>l. if lane_pk l \<in> set (below_ids mine db) then l\<lparr>lane_status := L_Stopped\<rparr> else l) (lanes db)"
  by (simp add: stop_below_def Let_def stop_lanes_def stop_deliveries_def retire_tasks_def below_ids_def)

lemma deliveries_below:
  "deliveries (stop_below mine now reason db) =
     map (\<lambda>d. if open_delivery (below_ids mine db) d then d\<lparr>dlv_status := D_Stopped\<rparr> else d) (deliveries db)"
  by (simp add: stop_below_def Let_def stop_lanes_def stop_deliveries_def retire_tasks_def below_ids_def)

lemma tasks_below:
  "tasks (stop_below mine now reason db) =
     map (\<lambda>t. if task_pk t \<in> set (below_tasks mine db) \<and> task_status t = PENDING then retire_task now reason t else t) (tasks db)"
  by (simp add: stop_below_def Let_def stop_lanes_def stop_deliveries_def retire_tasks_def below_ids_def
      below_tasks_def open_task_ids_def)

text \<open>
  The lanes that a predicate selects are silent: none is open, no delivery of a lane that was open is
  waiting to be sent, and no task of such a delivery can still be claimed.
\<close>

definition silent :: "(drip_lane \<Rightarrow> bool) \<Rightarrow> drip_db \<Rightarrow> drip_db \<Rightarrow> bool" where
  "silent mine db db' \<longleftrightarrow>
     (\<forall>l \<in> set (lanes db'). mine l \<longrightarrow> \<not> nonterminal_lane l) \<and>
     (\<forall>d \<in> set (deliveries db'). dlv_lane d \<in> set (below_ids mine db) \<longrightarrow> dlv_status d \<notin> {D_Planned, D_Queued}) \<and>
     (\<forall>t \<in> set (tasks db'). task_pk t \<in> set (below_tasks mine db) \<longrightarrow> task_status t \<noteq> PENDING)"

text \<open>Nothing that the predicate does not select has changed.\<close>

definition kept_outside :: "(drip_lane \<Rightarrow> bool) \<Rightarrow> drip_db \<Rightarrow> drip_db \<Rightarrow> bool" where
  "kept_outside mine db db' \<longleftrightarrow>
     filter (\<lambda>l. lane_pk l \<notin> set (below_ids mine db)) (lanes db') = filter (\<lambda>l. lane_pk l \<notin> set (below_ids mine db)) (lanes db) \<and>
     filter (\<lambda>d. dlv_lane d \<notin> set (below_ids mine db)) (deliveries db') =
       filter (\<lambda>d. dlv_lane d \<notin> set (below_ids mine db)) (deliveries db) \<and>
     filter (\<lambda>t. task_pk t \<notin> set (below_tasks mine db)) (tasks db') =
       filter (\<lambda>t. task_pk t \<notin> set (below_tasks mine db)) (tasks db)"

lemma filter_map_if:
  assumes "\<And>x. P x \<Longrightarrow> \<not> Q x" and "\<And>x. P x \<Longrightarrow> \<not> Q (f x)"
  shows "filter Q (map (\<lambda>x. if P x then f x else x) xs) = filter Q xs"
  using assms by (induction xs) auto

lemma below_kept: "kept_outside mine db (stop_below mine now reason db)"
  unfolding kept_outside_def lanes_below deliveries_below tasks_below
  by (intro conjI; rule filter_map_if) (auto simp: open_delivery_def retire_task_def)

lemma below_silent:
  assumes "\<And>l. mine (l\<lparr>lane_status := L_Stopped\<rparr>) = mine l"
  shows "silent mine db (stop_below mine now reason db)"
  using assms unfolding silent_def lanes_below deliveries_below tasks_below
  by (auto simp: below_ids_def nonterminal_lane_def open_delivery_def retire_task_def)

lemma silent_cong:
  "lanes db1 = lanes db2 \<Longrightarrow> deliveries db1 = deliveries db2 \<Longrightarrow> silent mine db1 db' = silent mine db2 db'"
  by (simp add: silent_def below_ids_def below_tasks_def open_task_ids_def)

lemma kept_cong:
  "lanes db1 = lanes db2 \<Longrightarrow> deliveries db1 = deliveries db2 \<Longrightarrow> tasks db1 = tasks db2 \<Longrightarrow>
     kept_outside mine db1 db' = kept_outside mine db2 db'"
  by (simp add: kept_outside_def below_ids_def below_tasks_def open_task_ids_def)

section \<open>Stopping an enrollment\<close>

lemma get_row_Inr: "get_row pk name rows k = Inr r \<Longrightarrow> r \<in> set rows \<and> pk r = k"
  by (auto simp: get_row_def split: option.splits dest: find_Some_iff_mem)

lemma get_row_map:
  assumes "\<And>r. pk (f r) = pk r"
  shows "get_row pk name (map f rows) k = (case get_row pk name rows k of Inl e \<Rightarrow> Inl e | Inr r \<Rightarrow> Inr (f r))"
  using assms by (induction rows) (auto simp: get_row_def)

text \<open>
  C16: a stop silences the enrollment. After a stop that took effect the enrollment and all its lanes
  are closed, no delivery of its open lanes waits to be sent and no task of such a delivery can be
  claimed any more; rows of other enrollments are untouched; and stopping it again changes nothing.
\<close>

theorem stop_silences:
  assumes "stop_enrollment_for_reason k reason now db = Inr (True, db')"
  shows "(\<forall>e \<in> set (enrollments db'). enr_pk e = k \<longrightarrow> enr_status e = E_Stopped) \<and>
    silent (\<lambda>l. lane_enrollment l = k) db db' \<and> kept_outside (\<lambda>l. lane_enrollment l = k) db db' \<and>
    filter (\<lambda>e. enr_pk e \<noteq> k) (enrollments db') = filter (\<lambda>e. enr_pk e \<noteq> k) (enrollments db) \<and>
    stop_enrollment_for_reason k reason' now' db' = Inr (False, db')"
proof -
  let ?f = "\<lambda>x. if enr_pk x = k then stop_enrollment_row now ''shared_stop'' reason (stop_trigger_message x) x else x"
  let ?db1 = "db\<lparr>enrollments := map ?f (enrollments db)\<rparr>"
  obtain e where e: "lock_enrollment_graph k db = Inr e" and ne: "nonterminal_enrollment e"
    and db': "db' = stop_below (\<lambda>l. lane_enrollment l = k) now reason ?db1"
    using assms by (auto simp: stop_enrollment_for_reason_def Let_def split: if_splits)
  have pk: "enr_pk (?f x) = enr_pk x" and lead: "enr_lead (?f x) = enr_lead x" for x
    by (simp_all add: stop_enrollment_row_def)
  have enr: "enrollments db' = map ?f (enrollments db)" and ld: "leads db' = leads db" unfolding db' by simp_all
  have ek: "enr_pk e = k" using e by (auto simp: lock_enrollment_graph_def dest: get_row_Inr)
  have "lock_enrollment_graph k db' = Inr (?f e)"
    using e get_row_map [of enr_pk ?f "''DripEnrollment''" "enrollments db" k, OF pk]
    unfolding lock_enrollment_graph_def enr ld by (auto simp: lead)
  moreover have "\<not> nonterminal_enrollment (?f e)"
    using ek by (simp add: stop_enrollment_row_def nonterminal_enrollment_def)
  ultimately have again: "stop_enrollment_for_reason k reason' now' db' = Inr (False, db')"
    by (simp add: stop_enrollment_for_reason_def)
  have "silent (\<lambda>l. lane_enrollment l = k) ?db1 db'" unfolding db' by (rule below_silent) simp
  then have s: "silent (\<lambda>l. lane_enrollment l = k) db db'" by (simp add: silent_cong [of ?db1 db])
  have "kept_outside (\<lambda>l. lane_enrollment l = k) ?db1 db'" unfolding db' by (rule below_kept)
  then have out: "kept_outside (\<lambda>l. lane_enrollment l = k) db db'" by (simp add: kept_cong [of ?db1 db])
  have other: "filter (\<lambda>e. enr_pk e \<noteq> k) (enrollments db') = filter (\<lambda>e. enr_pk e \<noteq> k) (enrollments db)"
    unfolding enr by (rule filter_map_if) (simp_all add: stop_enrollment_row_def)
  have closed: "enr_status x = E_Stopped" if mem: "x \<in> set (enrollments db')" and "enr_pk x = k" for x
  proof -
    obtain y where "x = ?f y" using mem unfolding enr set_map by (rule imageE)
    then show ?thesis using that(2) pk [of y] by (simp add: stop_enrollment_row_def)
  qed
  show ?thesis using closed s out other again by blast
qed

text \<open>An enrollment with a queued LinkedIn delivery and its pending task, beside one of another lead.\<close>

definition sample_enrollment :: "int \<Rightarrow> int \<Rightarrow> drip_enrollment" where
  "sample_enrollment k lead =
     \<lparr>enr_pk = k, enr_lead = lead, enr_campaign = 1, enr_version = 1, frozen_icp = ''founders'', enr_status = E_Active,
      activated_at = Some 10, enr_completed_at = None, stopped_at = None, stop_reason = '''', stop_detail = '''',
      stop_trigger_message = None\<rparr>"

definition sample_lane :: "int \<Rightarrow> int \<Rightarrow> drip_channel \<Rightarrow> drip_lane" where
  "sample_lane k e channel =
     \<lparr>lane_pk = k, lane_enrollment = e, lane_channel = channel, lane_operator = ''eracle'', provider_account = ''a'',
      sender_identity = ''a'', recipient_identity = ''r'', member_urn = '''', lane_status = L_Active,
      current_sequence_status = Seq_Completed, handoff_evidence = [], handed_off_at = Some 20, current_theme_index = 0,
      current_theme_key = ''intro'', theme_started_at = Some 20, gmail_thread_id = '''', gmail_thread_subject = ''''\<rparr>"

definition sample_delivery :: "int \<Rightarrow> int \<Rightarrow> int \<Rightarrow> drip_delivery" where
  "sample_delivery k l t =
     \<lparr>dlv_pk = k, dlv_lane = l, dlv_theme_key = ''intro'', dlv_theme_index = 0, dlv_step_index = 0, dlv_subject = '''',
      dlv_body = ''hi'', dlv_scheduled_at = 30, dlv_sent_at = None, dlv_status = D_Queued, current_task = Some t,
      outbound_message = None, dlv_account = ''a'', provider_message_id = '''', provider_thread_id = '''',
      rfc_message_id = '''', rfc_references = ''''\<rparr>"

definition sample_reply :: drip_message where
  "sample_reply = \<lparr>msg_pk = 5, msg_lead = 7, msg_source = ''gmail'', msg_inbound = True, msg_external = ''m5'', msg_body = ''no'', msg_automation_key = ''''\<rparr>"

definition sample_drips :: drip_db where
  "sample_drips =
     \<lparr>enrollments = [sample_enrollment 1 7, sample_enrollment 2 8],
      lanes = [sample_lane 11 1 Linkedin_lane, sample_lane 12 1 Gmail_lane, sample_lane 13 2 Linkedin_lane],
      deliveries = [sample_delivery 21 11 31, sample_delivery 22 13 32],
      tasks = [drip_task (sample_delivery 21 11 31) (sample_lane 11 1 Linkedin_lane) 25 31,
               drip_task (sample_delivery 22 13 32) (sample_lane 13 2 Linkedin_lane) 25 32],
      dlv_seq = 22, task_seq = 32, campaigns = [(1, ''active'')], versions = [], leads = [7, 8],
      messages = [sample_reply], workflow_runs = []\<rparr>"

lemmas sample_defs = sample_drips_def sample_enrollment_def sample_lane_def sample_delivery_def drip_task_def

lemma sample_stopped:
  "stop_enrollment_for_reason 1 ''opted out'' 40 sample_drips =
     Inr (True, snd (projr (stop_enrollment_for_reason 1 ''opted out'' 40 sample_drips)))"
  by (simp add: stop_enrollment_for_reason_def lock_enrollment_graph_def get_row_def sample_drips_def sample_enrollment_def
      nonterminal_enrollment_def Let_def)

lemma stop_silences_witness:
  "\<exists>db'. stop_enrollment_for_reason 1 ''opted out'' 40 sample_drips = Inr (True, db') \<and>
     silent (\<lambda>l. lane_enrollment l = 1) sample_drips db' \<and>
     stop_enrollment_for_reason 1 ''again'' 41 db' = Inr (False, db') \<and>
     map task_status (tasks db') = [COMPLETED, PENDING]"
proof -
  let ?db' = "snd (projr (stop_enrollment_for_reason 1 ''opted out'' 40 sample_drips))"
  have "map task_status (tasks ?db') = [COMPLETED, PENDING]"
    by (simp add: stop_enrollment_for_reason_def lock_enrollment_graph_def get_row_def nonterminal_enrollment_def Let_def
        stop_below_def stop_lanes_def stop_deliveries_def retire_tasks_def retire_task_def open_task_ids_def
        nonterminal_lane_def open_delivery_def map_filter_simps sample_defs)
  moreover note stop_silences [OF sample_stopped, of "''again''" 41]
  ultimately show ?thesis by (elim conjE, intro exI [of _ ?db'] conjI sample_stopped)
qed

section \<open>An inbound message\<close>

definition stops_lead :: "drip_message \<Rightarrow> bool" where
  "stops_lead m \<longleftrightarrow> msg_inbound m \<and> msg_source m \<in> {''linkedin'', ''gmail''}"

text \<open>
  C15: a reply stops every drip to its sender. Once the hook of a persisted inbound LinkedIn or Gmail
  message has run, the lead has no open enrollment, the lanes of the stopped enrollments are silent,
  and a repeated hook for the same message finds nothing to stop and changes nothing.
\<close>

theorem inbound_stops_lead:
  assumes run: "stop_for_inbound_message k now db = Inr (n, db')"
    and m: "List.find (\<lambda>m. msg_pk m = k) (messages db) = Some m" and stops: "stops_lead m"
  shows "open_of_lead (msg_lead m) db' = [] \<and>
    silent (\<lambda>l. lane_enrollment l \<in> enr_pk ` set (open_of_lead (msg_lead m) db)) db db' \<and>
    stop_for_inbound_message k now' db' = Inr (0, db')"
proof -
  let ?open = "open_of_lead (msg_lead m) db"
  have ok: "(\<not> msg_inbound m \<or> msg_source m \<notin> {''linkedin'', ''gmail''}) = False"
    using stops by (simp add: stops_lead_def)
  obtain u where ld: "get_row id ''Lead'' (leads db) (msg_lead m) = Inr u"
    using run unfolding stop_for_inbound_message_def m option.case ok if_False by auto
  have r: "(if ?open = [] then Inr (0 :: nat, db) else Inr (length ?open, stop_open_of_lead m now db)) = Inr (n, db')"
    using run unfolding stop_for_inbound_message_def m option.case ok if_False ld by (simp split: if_splits)
  show ?thesis
  proof (cases "?open = []")
    case True
    then have "db' = db" using r by simp
    moreover have "stop_for_inbound_message k now' db = Inr (0, db)"
      unfolding stop_for_inbound_message_def m option.case ok if_False ld bind_result_simps by (simp add: True)
    ultimately show ?thesis using True
      by (simp add: silent_def below_ids_def below_tasks_def open_task_ids_def open_delivery_def map_filter_simps)
  next
    case False
    let ?sel = "\<lambda>l. lane_enrollment l \<in> enr_pk ` set ?open"
    let ?f = "\<lambda>x. if enr_pk x \<in> enr_pk ` set ?open
      then stop_enrollment_row now (''inbound_'' @ msg_source m) (inbound_detail m) (Some (msg_pk m)) x else x"
    let ?db1 = "db\<lparr>enrollments := map ?f (enrollments db)\<rparr>"
    have db': "db' = stop_below ?sel now (inbound_detail m) ?db1"
      using r False by (simp add: stop_open_of_lead_def Let_def)
    have shut: "\<not> (enr_lead (?f x) = msg_lead m \<and> nonterminal_enrollment (?f x))" if "x \<in> set (enrollments db)" for x
    proof (cases "enr_pk x \<in> enr_pk ` set ?open")
      case True then show ?thesis by (simp add: stop_enrollment_row_def nonterminal_enrollment_def)
    next
      case False then show ?thesis using that by (auto simp: open_of_lead_def)
    qed
    have enr: "enrollments db' = map ?f (enrollments db)" unfolding db' by simp
    have closed: "open_of_lead (msg_lead m) db' = []"
      unfolding open_of_lead_def filter_empty_conv
    proof (rule ballI)
      fix y assume "y \<in> set (enrollments db')"
      then obtain x where "x \<in> set (enrollments db)" and y: "y = ?f x" unfolding enr set_map by (elim imageE)
      from shut [OF this(1)] show "\<not> (enr_lead y = msg_lead m \<and> nonterminal_enrollment y)" unfolding y .
    qed
    have "silent ?sel ?db1 db'" unfolding db' by (rule below_silent) simp
    then have "silent ?sel db db'" by (simp add: silent_cong [of ?db1 db])
    moreover have "messages db' = messages db" "leads db' = leads db" unfolding db' by simp_all
    then have "stop_for_inbound_message k now' db' = Inr (0, db')"
      unfolding stop_for_inbound_message_def by (simp only: m option.case ok if_False ld bind_result_simps closed simp_thms if_True)
    ultimately show ?thesis using closed by blast
  qed
qed


lemma sample_inbound:
  "stop_for_inbound_message 5 40 sample_drips =
     Inr (1, snd (projr (stop_for_inbound_message 5 40 sample_drips)))"
  by (simp add: stop_for_inbound_message_def get_row_def open_of_lead_def sample_drips_def sample_enrollment_def
      sample_reply_def nonterminal_enrollment_def Let_def)

lemma inbound_stops_lead_witness:
  "\<exists>db'. stop_for_inbound_message 5 40 sample_drips = Inr (1, db') \<and> open_of_lead 7 db' = [] \<and>
     stop_for_inbound_message 5 50 db' = Inr (0, db') \<and> open_of_lead 7 sample_drips = [sample_enrollment 1 7]"
proof -
  let ?m = sample_reply
  have m: "List.find (\<lambda>m. msg_pk m = 5) (messages sample_drips) = Some ?m" by (simp add: sample_drips_def sample_reply_def)
  have s: "stops_lead ?m" by (simp add: stops_lead_def sample_reply_def)
  have o: "open_of_lead 7 sample_drips = [sample_enrollment 1 7]"
    by (simp add: open_of_lead_def sample_drips_def sample_enrollment_def nonterminal_enrollment_def)
  have "msg_lead ?m = 7" by (simp add: sample_reply_def)
  with o show ?thesis using sample_inbound inbound_stops_lead [OF sample_inbound m s, of 50] by auto
qed

end
