(* ===== verification/Drip_Reconcile.thy ===== *)
theory Drip_Reconcile
  imports Drip_Store
begin

text \<open>
  The reconciliation of the drip campaigns (\<open>drip/services/reconciliation.py\<close>): one pass that moves every
  open enrollment as far as it may go, or only lists what it would do. What other services answer in
  the pass is an argument: the evaluation of the hand-off, the reason to stop a lead, the normalised
  time of a LinkedIn message, and the rendered text. Deliveries carry no media and no tracked link.
\<close>

section \<open>Inputs and outputs\<close>

record handoff_evaluation =
  eligible :: bool
  hand_reason :: string
  completed_at :: "int option"
  wait_status :: lane_status
  eval_evidence :: "(string \<times> json) list"
  eval_thread_id :: string
  eval_thread_subject :: string

record drip_env =
  evaluate_handoff :: "drip_lane \<Rightarrow> handoff_evaluation"
  facts :: lead_facts
  normalize_due :: "int \<Rightarrow> int \<Rightarrow> int"
  render_step :: "drip_lane \<Rightarrow> drip_step list \<Rightarrow> nat \<Rightarrow> string \<Rightarrow> (drip_error, string \<times> string) result"

record decision =
  dec_enrollment :: int
  dec_lane :: "int option"
  dec_channel :: "drip_channel option"
  dec_action :: string
  dec_detail :: string
  dec_due_at :: "int option"

record lane_outcome =
  out_status :: lane_status
  out_decisions :: "decision list"
  out_stop_reason :: string

definition decision_of :: "drip_lane \<Rightarrow> string \<Rightarrow> string \<Rightarrow> int option \<Rightarrow> decision" where
  "decision_of l action detail at_time =
     \<lparr>dec_enrollment = lane_enrollment l, dec_lane = Some (lane_pk l), dec_channel = Some (lane_channel l),
      dec_action = action, dec_detail = detail, dec_due_at = at_time\<rparr>"

definition enrollment_decision :: "drip_enrollment \<Rightarrow> string \<Rightarrow> string \<Rightarrow> decision" where
  "enrollment_decision e action detail =
     \<lparr>dec_enrollment = enr_pk e, dec_lane = None, dec_channel = None, dec_action = action, dec_detail = detail,
      dec_due_at = None\<rparr>"

definition outcome_of :: "lane_status \<Rightarrow> decision list \<Rightarrow> lane_outcome" where
  "outcome_of st ds = \<lparr>out_status = st, out_decisions = ds, out_stop_reason = ''''\<rparr>"

fun status_text :: "drip_status \<Rightarrow> string" where
  "status_text D_Planned = ''planned''" | "status_text D_Queued = ''queued''" | "status_text D_Sending = ''sending''"
| "status_text D_Sent = ''sent''" | "status_text D_Failed = ''failed''" | "status_text D_Unclear = ''unclear''"
| "status_text D_Stopped = ''stopped''"

fun task_status_text :: "task_status \<Rightarrow> string" where
  "task_status_text PENDING = ''pending''" | "task_status_text RUNNING = ''running''"
| "task_status_text COMPLETED = ''completed''" | "task_status_text FAILED = ''failed''"

fun channel_text :: "drip_channel \<Rightarrow> string" where
  "channel_text Linkedin_lane = ''linkedin''" | "channel_text Gmail_lane = ''gmail''"

definition stop_reason_now :: "drip_env \<Rightarrow> drip_enrollment \<Rightarrow> drip_db \<Rightarrow> string" where
  "stop_reason_now env e db = lead_automation_stop_reason (facts env) (enr_lead e) db"

section \<open>Writes\<close>

text \<open>\<open>save\<close> of a lane normalises its identity columns and writes them with the named ones.\<close>

definition normal_lane :: "drip_lane \<Rightarrow> drip_lane" where
  "normal_lane l = l\<lparr>lane_operator := strip (lane_operator l), provider_account := casefold (strip (provider_account l)),
     sender_identity := casefold (strip (sender_identity l)), recipient_identity := casefold (strip (recipient_identity l)),
     member_urn := strip (member_urn l)\<rparr>"

definition save_lane :: "drip_lane \<Rightarrow> drip_db \<Rightarrow> drip_db" where
  "save_lane l db = db\<lparr>lanes := map (\<lambda>x. if lane_pk x = lane_pk l then normal_lane l else x) (lanes db)\<rparr>"

definition save_delivery :: "drip_delivery \<Rightarrow> drip_db \<Rightarrow> drip_db" where
  "save_delivery d db = db\<lparr>deliveries := map (\<lambda>x. if dlv_pk x = dlv_pk d then d else x) (deliveries db)\<rparr>"

definition materialize_task :: "int \<Rightarrow> drip_delivery \<Rightarrow> drip_lane \<Rightarrow> drip_db \<Rightarrow> (drip_error, drip_db) result" where
  "materialize_task now d l db =
     (if current_task d \<noteq> None then Inl (Drip_ValueError ''already has a current Task'')
      else if dlv_status d \<noteq> D_Planned then Inl (Drip_ValueError ''is not planned'')
      else
        let t = drip_task d l now (task_seq db + 1)
        in case task_clean t of
             Inl _ \<Rightarrow> Inl (Drip_ValidationError ''task'')
           | Inr _ \<Rightarrow>
               let db = db\<lparr>tasks := tasks db @ [t], task_seq := task_seq db + 1\<rparr>
               in Inr (save_delivery (d\<lparr>current_task := Some (task_pk t), dlv_status := D_Queued\<rparr>) db))"

text \<open>\<open>full_clean\<close> of a new delivery: the account of its lane, a text, no subject on LinkedIn, one row per step.\<close>

definition delivery_clean :: "drip_delivery \<Rightarrow> drip_lane \<Rightarrow> drip_db \<Rightarrow> (drip_error, unit) result" where
  "delivery_clean d l db =
     (if dlv_account d = '''' then Inl (Drip_ValidationError ''provider_account'')
      else if provider_account l \<noteq> casefold (strip (dlv_account d)) then Inl (Drip_ValidationError ''provider_account'')
      else if dlv_body d = '''' then Inl (Drip_ValidationError ''frozen_body'')
      else if 998 < length (dlv_subject d) then Inl (Drip_ValidationError ''frozen_subject'')
      else if lane_channel l = Linkedin_lane \<and> dlv_subject d \<noteq> '''' then Inl (Drip_ValidationError ''frozen_subject'')
      else if (\<exists>x \<in> set (deliveries db). dlv_lane x = dlv_lane d \<and> dlv_theme_index x = dlv_theme_index d \<and>
                 dlv_step_index x = dlv_step_index d) then Inl (Drip_ValidationError ''drip_unique_lane_step'')
      else Inr ())"

definition materialize_delivery ::
  "drip_env \<Rightarrow> int \<Rightarrow> drip_lane \<Rightarrow> drip_theme \<Rightarrow> nat \<Rightarrow> nat \<Rightarrow> drip_step list \<Rightarrow> int \<Rightarrow> string \<Rightarrow> drip_db
     \<Rightarrow> (drip_error, drip_db) result" where
  "materialize_delivery env now l theme k i rendition at_time subject db =
     bind_result (render_step env l rendition i subject) (\<lambda>(subj, body).
       let d = \<lparr>dlv_pk = dlv_seq db + 1, dlv_lane = lane_pk l, dlv_theme_key = theme_key theme, dlv_theme_index = k,
                dlv_step_index = i, dlv_subject = subj, dlv_body = body, dlv_scheduled_at = at_time, dlv_sent_at = None,
                dlv_status = D_Planned, current_task = None, outbound_message = None,
                dlv_account = casefold (strip (provider_account l)), provider_message_id = '''', provider_thread_id = '''',
                rfc_message_id = '''', rfc_references = ''''\<rparr>
       in bind_result (delivery_clean (d\<lparr>dlv_account := provider_account l\<rparr>) l db) (\<lambda>_.
          bind_result (materialize_task now d l (db\<lparr>deliveries := deliveries db @ [d], dlv_seq := dlv_seq db + 1\<rparr>)) (\<lambda>db.
            Inr (if lane_channel l = Gmail_lane \<and> gmail_thread_subject l = ''''
                 then save_lane (l\<lparr>gmail_thread_subject := subj\<rparr>) db else db))))"

definition save_lane_progress :: "lane_status \<Rightarrow> nat \<Rightarrow> string \<Rightarrow> int option \<Rightarrow> drip_lane \<Rightarrow> drip_lane" where
  "save_lane_progress st k key started l =
     normal_lane (l\<lparr>lane_status := st, current_theme_index := k, current_theme_key := key, theme_started_at := started\<rparr>)"

definition handoff_anchor :: "drip_enrollment \<Rightarrow> handoff_evaluation \<Rightarrow> int \<Rightarrow> int" where
  "handoff_anchor e ev now =
     (case (activated_at e, completed_at ev) of
        (None, None) \<Rightarrow> now
      | (Some a, None) \<Rightarrow> a
      | (None, Some b) \<Rightarrow> b
      | (Some a, Some b) \<Rightarrow> max a b)"

definition apply_handoff :: "drip_enrollment \<Rightarrow> handoff_evaluation \<Rightarrow> int \<Rightarrow> drip_lane \<Rightarrow> drip_lane" where
  "apply_handoff e ev now l =
     (let l = l\<lparr>current_sequence_status :=
                (if current_sequence_status l = Seq_Not_applicable then Seq_Not_applicable else Seq_Completed),
              handoff_evidence := dict_merge (dict_merge (handoff_evidence l) (eval_evidence ev))
                [(''handed_off_at'', JStr (datetime_iso now))],
              handed_off_at := Some now, lane_status := L_Active, theme_started_at := Some (handoff_anchor e ev now)\<rparr>
      in normal_lane (if eval_thread_id ev \<noteq> '''' then
           l\<lparr>gmail_thread_id := eval_thread_id ev, gmail_thread_subject := eval_thread_subject ev\<rparr> else l))"

section \<open>One outstanding delivery\<close>

definition outstanding_of :: "drip_lane \<Rightarrow> drip_db \<Rightarrow> drip_delivery list" where
  "outstanding_of l db = sort_key (\<lambda>d. (dlv_theme_index d, dlv_step_index d))
     (filter (\<lambda>d. dlv_lane d = lane_pk l \<and> dlv_status d \<in> {D_Planned, D_Queued, D_Sending}) (deliveries db))"

definition would :: "bool \<Rightarrow> string \<Rightarrow> string \<Rightarrow> string" where
  "would apply_it done planned = (if apply_it then done else planned)"

definition delivery_text :: "drip_delivery \<Rightarrow> string" where
  "delivery_text d = ''delivery '' @ str_int (dlv_pk d)"

text \<open>The rest of the function for a delivery without a task, or released from a finished one.\<close>

definition reconcile_released ::
  "drip_env \<Rightarrow> int \<Rightarrow> bool \<Rightarrow> bool \<Rightarrow> drip_enrollment \<Rightarrow> drip_lane \<Rightarrow> drip_delivery \<Rightarrow> decision list \<Rightarrow> drip_db
     \<Rightarrow> (drip_error, lane_outcome option \<times> drip_db) result" where
  "reconcile_released env now apply_it allow e l d decs db =
     (let here = (\<lambda>action detail. Inr (Some (outcome_of (lane_status l)
            (decs @ [decision_of l action detail (Some (dlv_scheduled_at d))])), db)) in
      if dlv_status d = D_Sending then here ''outstanding_delivery'' (delivery_text d @ '' is '' @ status_text (dlv_status d))
      else if dlv_status d \<noteq> D_Planned then
        Inr (Some (outcome_of (lane_status l) (decs @ [decision_of l ''invariant_block''
          (''queued '' @ delivery_text d @ '' has no live current Task'') None])), db)
      else if \<not> allow then here ''planned_held'' (delivery_text d @ '' remains frozen while controls are inactive'')
      else let reason = stop_reason_now env e db in
        if reason \<noteq> '''' then
          Inr (Some \<lparr>out_status = L_Stopped, out_decisions = decs @ [decision_of l ''stop'' reason None],
                    out_stop_reason = reason\<rparr>, db)
        else
          let decs = decs @ [decision_of l (would apply_it ''rematerialized_task'' ''would_rematerialize_task'')
                (delivery_text d @ '' reuses its frozen content and schedule'') (Some (dlv_scheduled_at d))]
          in bind_result (if apply_it then materialize_task now d l db else Inr db) (\<lambda>db.
            Inr (Some (outcome_of (lane_status l) decs), db)))"

definition reconcile_existing ::
  "drip_env \<Rightarrow> int \<Rightarrow> bool \<Rightarrow> bool \<Rightarrow> drip_enrollment \<Rightarrow> drip_lane \<Rightarrow> drip_db
     \<Rightarrow> (drip_error, lane_outcome option \<times> drip_db) result" where
  "reconcile_existing env now apply_it allow e l db =
     (case outstanding_of l db of
        [] \<Rightarrow> Inr (None, db)
      | [d] \<Rightarrow>
          (case current_task d of
             None \<Rightarrow> reconcile_released env now apply_it allow e l d [] db
           | Some k \<Rightarrow>
               bind_result (get_row task_pk ''Task'' (tasks db) k) (\<lambda>t.
                 if task_status t \<in> {PENDING, RUNNING} then
                   Inr (Some (outcome_of (lane_status l) [decision_of l ''outstanding_delivery''
                     (delivery_text d @ '' is '' @ status_text (dlv_status d) @ '' with '' @
                      task_status_text (task_status t) @ '' task '' @ str_int (task_pk t)) (Some (dlv_scheduled_at d))]), db)
                 else if dlv_status d \<notin> {D_Planned, D_Queued} then
                   Inr (Some (outcome_of (lane_status l) [decision_of l ''invariant_block''
                     (delivery_text d @ '' is '' @ status_text (dlv_status d) @ '' with terminal task '' @
                      str_int (task_pk t)) None]), db)
                 else
                   let d' = d\<lparr>current_task := None, dlv_status := D_Planned\<rparr>;
                       dec = decision_of l (would apply_it ''detached_terminal_task'' ''would_detach_terminal_task'')
                         (delivery_text d @ '' released from '' @ task_status_text (task_status t) @ '' task '' @
                          str_int (task_pk t)) None
                   in reconcile_released env now apply_it allow e l d' [dec]
                        (if apply_it then save_delivery d' db else db)))
      | _ \<Rightarrow> Inr (Some (outcome_of (lane_status l)
               [decision_of l ''invariant_block'' ''lane has more than one outstanding delivery'' None]), db))"

section \<open>One lane\<close>

record lane_cursor =
  cur_lane :: drip_lane
  cur_status :: lane_status
  cur_started :: "int option"
  cur_subject :: string
  cur_decisions :: "decision list"

definition handoff_stage ::
  "drip_env \<Rightarrow> int \<Rightarrow> bool \<Rightarrow> drip_enrollment \<Rightarrow> drip_lane \<Rightarrow> drip_db \<Rightarrow> (lane_outcome + lane_cursor) \<times> drip_db" where
  "handoff_stage env now apply_it e l db =
     (let ev = evaluate_handoff env l;
          block = (\<lambda>detail. (Inl (outcome_of (lane_status l) [decision_of l ''invariant_block'' detail None]), db))
      in
      if handed_off_at l = None then
        (if \<not> eligible ev then
           (Inl (outcome_of (wait_status ev) [decision_of l ''waiting_handoff'' (hand_reason ev) None]),
            if apply_it \<and> lane_status l \<noteq> wait_status ev then save_lane (l\<lparr>lane_status := wait_status ev\<rparr>) db else db)
         else
           let l' = (if apply_it then apply_handoff e ev now l else l) in
           (Inr \<lparr>cur_lane = l', cur_status = L_Active, cur_started = Some (handoff_anchor e ev now),
                 cur_subject = (if eval_thread_subject ev \<noteq> '''' then eval_thread_subject ev else gmail_thread_subject l),
                 cur_decisions = [decision_of l ''handoff'' (hand_reason ev) None]\<rparr>,
            if apply_it then save_lane l' db else db))
      else if lane_status l = L_Waiting_connection then
        (if lane_channel l \<noteq> Linkedin_lane then block ''only a LinkedIn lane may wait for connection after handoff''
         else if \<not> eligible ev then
           (Inl (outcome_of (lane_status l) [decision_of l ''waiting_connection'' (hand_reason ev) None]), db)
         else
           let l' = (if apply_it then normal_lane (l\<lparr>lane_status := L_Active\<rparr>) else l) in
           (Inr \<lparr>cur_lane = l', cur_status = L_Active, cur_started = theme_started_at l, cur_subject = gmail_thread_subject l,
                 cur_decisions = [decision_of l ''connection_restored'' (hand_reason ev) None]\<rparr>,
            if apply_it then save_lane l' db else db))
      else if lane_status l = L_Waiting_current then block ''handed-off lane cannot wait for the current sequence''
      else (Inr \<lparr>cur_lane = l, cur_status = lane_status l, cur_started = theme_started_at l,
                 cur_subject = gmail_thread_subject l, cur_decisions = []\<rparr>, db))"

text \<open>The deliveries of a theme by step, and the first step that is not sent, with the delivery that blocks it.\<close>

definition theme_deliveries :: "drip_lane \<Rightarrow> nat \<Rightarrow> drip_db \<Rightarrow> drip_delivery list" where
  "theme_deliveries l k db =
     sort_key dlv_step_index (filter (\<lambda>d. dlv_lane d = lane_pk l \<and> dlv_theme_index d = k) (deliveries db))"

definition by_step :: "drip_delivery list \<Rightarrow> nat \<Rightarrow> drip_delivery option" where
  "by_step ds i = List.find (\<lambda>d. dlv_step_index d = i) (rev ds)"

fun scan_steps :: "drip_delivery list \<Rightarrow> nat \<Rightarrow> nat \<Rightarrow> nat \<times> drip_delivery option" where
  "scan_steps ds i 0 = (i, None)"
| "scan_steps ds i (Suc n) =
     (case by_step ds i of
        None \<Rightarrow> (i, None)
      | Some d \<Rightarrow> if dlv_status d = D_Sent \<and> dlv_sent_at d \<noteq> None then scan_steps ds (Suc i) n else (i, Some d))"

definition sent_time :: "drip_delivery list \<Rightarrow> nat \<Rightarrow> (drip_error, int) result" where
  "sent_time ds i =
     (case by_step ds i of
        None \<Rightarrow> Inl Drip_KeyError
      | Some d \<Rightarrow> (case dlv_sent_at d of None \<Rightarrow> Inl (Drip_ValueError ''sent_at'') | Some t \<Rightarrow> Inr t))"

definition due_time :: "drip_env \<Rightarrow> drip_lane \<Rightarrow> int \<Rightarrow> int \<Rightarrow> int \<Rightarrow> int" where
  "due_time env l anchor delay now =
     (if lane_channel l = Gmail_lane then anchor + delay else normalize_due env (anchor + delay) now)"

fun next_key :: "drip_theme list \<Rightarrow> string" where
  "next_key [] = ''''"
| "next_key (t # ts) = theme_key t"

definition str_list :: "nat list \<Rightarrow> string" where
  "str_list xs = ''['' @ concat (map (\<lambda>(i, x). (if i = 0 then '''' else '', '') @ str_nat x) (enumerate 0 xs)) @ '']''"

text \<open>The step of one theme that has a rendition for the lane: advance past it, or stop at its next step.\<close>

datatype theme_result =
    Advance "decision list" int
  | Halt lane_outcome

definition theme_step ::
  "drip_env \<Rightarrow> int \<Rightarrow> bool \<Rightarrow> drip_enrollment \<Rightarrow> drip_lane \<Rightarrow> lane_status \<Rightarrow> int \<Rightarrow> string \<Rightarrow> decision list
     \<Rightarrow> drip_theme \<Rightarrow> drip_step list \<Rightarrow> nat \<Rightarrow> drip_db \<Rightarrow> (drip_error, theme_result \<times> drip_db) result" where
  "theme_step env now apply_it e l st started subject decs theme rendition k db =
     (let ds = theme_deliveries l k db;
          n = length rendition;
          halt = (\<lambda>st action detail at_time. Inr (Halt (outcome_of st (decs @ [decision_of l action detail at_time])), db));
          unexpected = filter (\<lambda>i. n \<le> i) (remdups (map dlv_step_index ds));
          (i, blocked) = scan_steps ds 0 n
      in
      if unexpected \<noteq> [] then
        halt st ''invariant_block'' (''theme '' @ theme_key theme @ '' has unexpected delivery step(s) '' @ str_list unexpected) None
      else case blocked of
        Some d \<Rightarrow> halt st ''delivery_block'' (delivery_text d @ '' is '' @ status_text (dlv_status d)) None
      | None \<Rightarrow>
        if (\<exists>d \<in> set ds. i < dlv_step_index d) then halt st ''invariant_block'' ''delivery sequence contains a gap'' None
        else if i = n then
          bind_result (if n = 0 then Inl Drip_KeyError else sent_time ds (n - 1)) (\<lambda>t.
            Inr (Advance (decs @ [decision_of l ''advance_theme'' (''theme '' @ theme_key theme @ '' completed'') None]) t, db))
        else
          bind_result (if i = 0 then Inr started else sent_time ds (i - 1)) (\<lambda>anchor.
            let at_time = due_time env l anchor (step_delay (rendition ! i)) now;
                label = ''theme '' @ theme_key theme @ '' step '' @ str_nat i;
                reason = stop_reason_now env e db
            in if now < at_time then halt st ''waiting_due'' (label @ '' is not due'') (Some at_time)
               else if reason \<noteq> '''' then
                 Inr (Halt \<lparr>out_status = L_Stopped, out_decisions = decs @ [decision_of l ''stop'' reason None],
                            out_stop_reason = reason\<rparr>, db)
               else
                 let o1 = outcome_of st (decs @ [decision_of l (would apply_it ''materialized'' ''would_materialize'') label (Some at_time)])
                 in bind_result (if apply_it then materialize_delivery env now l theme k i rendition at_time subject db else Inr db)
                      (\<lambda>db. Inr (Halt o1, db))))"

definition progress :: "bool \<Rightarrow> drip_theme list \<Rightarrow> nat \<Rightarrow> int \<Rightarrow> drip_lane \<Rightarrow> drip_lane" where
  "progress apply_it rest k started l =
     (if apply_it then save_lane_progress (if rest \<noteq> [] then L_Active else L_Completed) k (next_key rest) (Some started) l else l)"

fun theme_loop ::
  "drip_env \<Rightarrow> int \<Rightarrow> bool \<Rightarrow> drip_enrollment \<Rightarrow> nat \<Rightarrow> drip_lane \<Rightarrow> lane_status \<Rightarrow> int \<Rightarrow> string \<Rightarrow> decision list
     \<Rightarrow> drip_theme list \<Rightarrow> nat \<Rightarrow> drip_db \<Rightarrow> (drip_error, lane_outcome \<times> drip_db) result" where
  "theme_loop env now apply_it e size_all l st started subject decs [] k db =
     Inr (outcome_of L_Completed (decs @ [decision_of l ''complete_lane'' ''all configured themes completed'' None]),
       if apply_it \<and> lane_status l \<noteq> L_Completed
       then save_lane (save_lane_progress L_Completed size_all '''' (Some started) l) db else db)"
| "theme_loop env now apply_it e size_all l st started subject decs (theme # rest) k db =
     (case map_of (theme_senders theme) (lane_operator l) of
        None \<Rightarrow> Inl Drip_KeyError
      | Some block \<Rightarrow>
          (case map_of block (lane_channel l) of
             None \<Rightarrow>
               let decs = decs @ [decision_of l ''advance_omitted_theme''
                     (''theme '' @ theme_key theme @ '' has no '' @ channel_text (lane_channel l) @ '' rendition'') None];
                   l' = progress apply_it rest (Suc k) now l
               in theme_loop env now apply_it e size_all l' st now subject decs rest (Suc k)
                    (if apply_it then save_lane l' db else db)
           | Some rendition \<Rightarrow>
               bind_result (theme_step env now apply_it e l st started subject decs theme rendition k db) (\<lambda>(r, db).
                 case r of
                   Halt out \<Rightarrow> Inr (out, db)
                 | Advance decs t \<Rightarrow>
                     let l' = progress apply_it rest (Suc k) t l
                     in theme_loop env now apply_it e size_all l' st t subject decs rest (Suc k)
                          (if apply_it then save_lane l' db else db))))"

definition enrollment_themes :: "drip_enrollment \<Rightarrow> drip_db \<Rightarrow> (drip_error, drip_theme list) result" where
  "enrollment_themes e db =
     (case map_of (versions db) (enr_version e) of
        None \<Rightarrow> Inl (Drip_DoesNotExist ''DripCampaignVersion'')
      | Some m \<Rightarrow> (case map_of m (frozen_icp e) of None \<Rightarrow> Inl Drip_KeyError | Some ts \<Rightarrow> Inr ts))"

definition with_decisions :: "decision list \<Rightarrow> lane_outcome \<Rightarrow> lane_outcome" where
  "with_decisions ds out = out\<lparr>out_decisions := ds @ out_decisions out\<rparr>"

definition run_themes ::
  "drip_env \<Rightarrow> int \<Rightarrow> bool \<Rightarrow> drip_enrollment \<Rightarrow> lane_cursor \<Rightarrow> drip_db \<Rightarrow> (drip_error, lane_outcome \<times> drip_db) result" where
  "run_themes env now apply_it e c db =
     bind_result (enrollment_themes e db) (\<lambda>themes.
       case cur_started c of
         None \<Rightarrow> Inr (outcome_of (cur_status c) (cur_decisions c @
             [decision_of (cur_lane c) ''invariant_block'' ''active lane has no theme anchor'' None]), db)
       | Some started \<Rightarrow>
           bind_result (reconcile_existing env now apply_it True e (cur_lane c) db) (\<lambda>(out, db).
             case out of
               Some out \<Rightarrow> Inr (with_decisions (cur_decisions c) out, db)
             | None \<Rightarrow>
                 let k = current_theme_index (cur_lane c)
                 in theme_loop env now apply_it e (length themes) (cur_lane c) (cur_status c) started (cur_subject c)
                      (cur_decisions c) (drop k themes) k db))"

definition reconcile_lane ::
  "drip_env \<Rightarrow> int \<Rightarrow> bool \<Rightarrow> drip_enrollment \<Rightarrow> drip_lane \<Rightarrow> drip_db \<Rightarrow> (drip_error, lane_outcome \<times> drip_db) result" where
  "reconcile_lane env now apply_it e l db =
     (if lane_status l \<in> {L_Stopped, L_Completed} then Inr (outcome_of (lane_status l) [], db)
      else if lane_status l = L_Paused then
        bind_result (reconcile_existing env now apply_it False e l db) (\<lambda>(out, db).
          Inr (outcome_of (lane_status l)
            ((case out of None \<Rightarrow> [] | Some out \<Rightarrow> out_decisions out) @ [decision_of l ''paused'' ''lane is paused'' None]), db))
      else case handoff_stage env now apply_it e l db of
        (Inl out, db) \<Rightarrow> Inr (out, db)
      | (Inr c, db) \<Rightarrow> run_themes env now apply_it e c db)"

section \<open>One pass\<close>

fun hold_lanes ::
  "drip_env \<Rightarrow> int \<Rightarrow> bool \<Rightarrow> drip_enrollment \<Rightarrow> drip_lane list \<Rightarrow> drip_db \<Rightarrow> (drip_error, decision list \<times> drip_db) result" where
  "hold_lanes env now apply_it e [] db = Inr ([], db)"
| "hold_lanes env now apply_it e (l # ls) db =
     bind_result (reconcile_existing env now apply_it False e l db) (\<lambda>(out, db).
     bind_result (hold_lanes env now apply_it e ls db) (\<lambda>(ds, db).
       Inr ((case out of None \<Rightarrow> [] | Some out \<Rightarrow> out_decisions out) @ ds, db)))"

text \<open>The lanes of an enrollment in turn, until one asks for a stop: the decisions, the statuses, the reason.\<close>

fun run_lanes ::
  "drip_env \<Rightarrow> int \<Rightarrow> bool \<Rightarrow> drip_enrollment \<Rightarrow> drip_lane list \<Rightarrow> drip_db
     \<Rightarrow> (drip_error, (decision list \<times> lane_status list \<times> string) \<times> drip_db) result" where
  "run_lanes env now apply_it e [] db = Inr (([], [], ''''), db)"
| "run_lanes env now apply_it e (l # ls) db =
     bind_result (reconcile_lane env now apply_it e l db) (\<lambda>(out, db).
       if out_stop_reason out \<noteq> '''' then Inr ((out_decisions out, [out_status out], out_stop_reason out), db)
       else bind_result (run_lanes env now apply_it e ls db) (\<lambda>((ds, sts, reason), db).
         Inr ((out_decisions out @ ds, out_status out # sts, reason), db)))"

definition set_enrollment :: "int \<Rightarrow> (drip_enrollment \<Rightarrow> drip_enrollment) \<Rightarrow> drip_db \<Rightarrow> drip_db" where
  "set_enrollment k f db = db\<lparr>enrollments := map (\<lambda>e. if enr_pk e = k then f e else e) (enrollments db)\<rparr>"

definition lane_order :: "drip_lane \<Rightarrow> nat" where
  "lane_order l = (case lane_channel l of Gmail_lane \<Rightarrow> 0 | Linkedin_lane \<Rightarrow> 1)"

definition stop_now :: "bool \<Rightarrow> int \<Rightarrow> string \<Rightarrow> int \<Rightarrow> drip_db \<Rightarrow> (drip_error, drip_db) result" where
  "stop_now apply_it k reason now db =
     (if apply_it then bind_result (stop_enrollment_for_reason k reason now db) (\<lambda>(_, db). Inr db) else Inr db)"

definition hold_enrollment ::
  "drip_env \<Rightarrow> int \<Rightarrow> bool \<Rightarrow> drip_enrollment \<Rightarrow> drip_lane list \<Rightarrow> string \<Rightarrow> string \<Rightarrow> drip_db
     \<Rightarrow> (drip_error, decision list \<times> drip_db) result" where
  "hold_enrollment env now apply_it e ls action detail db =
     bind_result (hold_lanes env now apply_it e ls db) (\<lambda>(ds, db). Inr (ds @ [enrollment_decision e action detail], db))"

definition run_enrollment ::
  "drip_env \<Rightarrow> int \<Rightarrow> bool \<Rightarrow> drip_enrollment \<Rightarrow> drip_lane list \<Rightarrow> drip_db \<Rightarrow> (drip_error, decision list \<times> drip_db) result" where
  "run_enrollment env now apply_it e ls db =
     bind_result (run_lanes env now apply_it e ls db) (\<lambda>((ds, sts, reason), db).
       if reason \<noteq> '''' then bind_result (stop_now apply_it (enr_pk e) reason now db) (\<lambda>db. Inr (ds, db))
       else if list_all (\<lambda>s. s = L_Completed) sts then
         Inr (ds @ [enrollment_decision e ''complete_enrollment'' ''both channel lanes completed''],
           if apply_it then set_enrollment (enr_pk e) (\<lambda>e. e\<lparr>enr_status := E_Completed, enr_completed_at := Some now\<rparr>) db else db)
       else Inr (ds, if L_Active \<in> set sts \<and> apply_it \<and> enr_status e = E_Waiting
                     then set_enrollment (enr_pk e) (\<lambda>e. e\<lparr>enr_status := E_Active\<rparr>) db else db))"

definition reconcile_enrollment ::
  "drip_env \<Rightarrow> int \<Rightarrow> bool \<Rightarrow> int \<Rightarrow> drip_db \<Rightarrow> (drip_error, decision list \<times> drip_db) result" where
  "reconcile_enrollment env now apply_it k db =
     bind_result (lock_enrollment_graph k db) (\<lambda>e.
       let reason = stop_reason_now env e db;
           ls = sort_key lane_order (filter (\<lambda>l. lane_enrollment l = k) (lanes db))
       in if reason \<noteq> '''' then
            bind_result (stop_now apply_it k reason now db) (\<lambda>db.
              Inr ([enrollment_decision e (would apply_it ''stop'' ''would_stop'') reason], db))
          else if lane_channel ` set ls \<noteq> {Linkedin_lane, Gmail_lane} then
            Inr ([enrollment_decision e ''invariant_block'' ''enrollment does not have exactly one lane per channel''], db)
          else case map_of (campaigns db) (enr_campaign e) of
            None \<Rightarrow> Inl (Drip_DoesNotExist ''DripCampaign'')
          | Some st \<Rightarrow>
              if st \<noteq> ''active'' then hold_enrollment env now apply_it e ls ''campaign_inactive'' (''campaign is '' @ st) db
              else if enr_status e = E_Paused then hold_enrollment env now apply_it e ls ''paused'' ''enrollment is paused'' db
              else run_enrollment env now apply_it e ls db)"

fun reconcile_all ::
  "drip_env \<Rightarrow> int \<Rightarrow> bool \<Rightarrow> int list \<Rightarrow> drip_db \<Rightarrow> (drip_error, decision list \<times> drip_db) result" where
  "reconcile_all env now apply_it [] db = Inr ([], db)"
| "reconcile_all env now apply_it (k # ks) db =
     bind_result (reconcile_enrollment env now apply_it k db) (\<lambda>(ds, db).
     bind_result (reconcile_all env now apply_it ks db) (\<lambda>(ds', db). Inr (ds @ ds', db)))"

definition reconcile_drips ::
  "drip_env \<Rightarrow> int \<Rightarrow> bool \<Rightarrow> int option \<Rightarrow> drip_db \<Rightarrow> (drip_error, decision list \<times> drip_db) result" where
  "reconcile_drips env now apply_it campaign db =
     (let mine = filter (\<lambda>e. nonterminal_enrollment e \<and> (case campaign of None \<Rightarrow> True | Some c \<Rightarrow> enr_campaign e = c)) (enrollments db)
      in bind_result (reconcile_all env now apply_it (sort (map enr_pk mine)) db) (\<lambda>(ds, db).
           Inr (ds, if apply_it
                    then db\<lparr>workflow_runs := workflow_runs db @ [(card (dec_enrollment ` set ds), length ds)]\<rparr> else db)))"

end
