(* ===== verification/Drip_Preview.thy ===== *)
theory Drip_Preview
  imports Drip_Stops Drip_Reconcile
begin

text \<open>
  A pass that only lists (\<open>apply=False\<close>) announces what the applying pass then does. The proof compares the two runs through
  what a lane, and an enrollment, sees of the tables: an applied step on one lane changes nothing another lane sees.
\<close>

section \<open>Keys of the tables\<close>

text \<open>The constraints of the database that the pass relies on: keys, the one-to-one task, normalised lanes.\<close>

definition one_to_one :: "drip_delivery list \<Rightarrow> bool" where
  "one_to_one ds \<longleftrightarrow>
     (\<forall>d \<in> set ds. \<forall>d' \<in> set ds. current_task d \<noteq> None \<and> current_task d = current_task d' \<longrightarrow> dlv_pk d = dlv_pk d')"

definition drip_ok :: "drip_db \<Rightarrow> bool" where
  "drip_ok db \<longleftrightarrow>
     distinct (map lane_pk (lanes db)) \<and> distinct (map dlv_pk (deliveries db)) \<and>
     (\<forall>l \<in> set (lanes db). normal_lane l = l) \<and>
     (\<forall>d \<in> set (deliveries db). dlv_pk d \<le> dlv_seq db) \<and>
     (\<forall>t \<in> set (tasks db). task_pk t \<le> task_seq db) \<and>
     (\<forall>d \<in> set (deliveries db). \<forall>k. current_task d = Some k \<longrightarrow> k \<in> task_pk ` set (tasks db)) \<and>
     one_to_one (deliveries db) \<and> distinct (map task_pk (tasks db))"

lemma one_to_oneI:
  "(\<And>x y t. x \<in> set ds \<Longrightarrow> y \<in> set ds \<Longrightarrow> current_task x = Some t \<Longrightarrow> current_task y = Some t \<Longrightarrow> dlv_pk x = dlv_pk y)
     \<Longrightarrow> one_to_one ds"
  unfolding one_to_one_def by (metis option.exhaust)

lemma one_to_oneD:
  "one_to_one ds \<Longrightarrow> x \<in> set ds \<Longrightarrow> y \<in> set ds \<Longrightarrow> current_task x = Some t \<Longrightarrow> current_task y = Some t \<Longrightarrow> dlv_pk x = dlv_pk y"
  unfolding one_to_one_def by (metis option.distinct(1))

lemma drip_okI:
  assumes "distinct (map lane_pk (lanes db))" and "distinct (map dlv_pk (deliveries db))" and "one_to_one (deliveries db)"
    and "\<And>l. l \<in> set (lanes db) \<Longrightarrow> normal_lane l = l" and "\<And>d. d \<in> set (deliveries db) \<Longrightarrow> dlv_pk d \<le> dlv_seq db"
    and "\<And>t. t \<in> set (tasks db) \<Longrightarrow> task_pk t \<le> task_seq db"
    and "\<And>d k. d \<in> set (deliveries db) \<Longrightarrow> current_task d = Some k \<Longrightarrow> k \<in> task_pk ` set (tasks db)"
    and "distinct (map task_pk (tasks db))"
  shows "drip_ok db"
  using assms unfolding drip_ok_def by blast

lemma drip_okD:
  assumes "drip_ok db"
  shows "distinct (map lane_pk (lanes db))" and "distinct (map dlv_pk (deliveries db))" and "one_to_one (deliveries db)"
    and "\<And>l. l \<in> set (lanes db) \<Longrightarrow> normal_lane l = l" and "\<And>d. d \<in> set (deliveries db) \<Longrightarrow> dlv_pk d \<le> dlv_seq db"
    and "\<And>t. t \<in> set (tasks db) \<Longrightarrow> task_pk t \<le> task_seq db"
    and "\<And>d k. d \<in> set (deliveries db) \<Longrightarrow> current_task d = Some k \<Longrightarrow> k \<in> task_pk ` set (tasks db)"
    and "distinct (map task_pk (tasks db))"
  using assms unfolding drip_ok_def by blast+

lemma drip_ok_task_le:
  assumes "drip_ok db" and "d \<in> set (deliveries db)" and "current_task d = Some k"
  shows "k \<le> task_seq db"
  using drip_okD(7) [OF assms] drip_okD(6) [OF assms(1)] by auto

definition lane_deliveries :: "int \<Rightarrow> drip_db \<Rightarrow> drip_delivery list" where
  "lane_deliveries k db = filter (\<lambda>d. dlv_lane d = k) (deliveries db)"

definition task_row :: "int \<Rightarrow> drip_db \<Rightarrow> task option" where
  "task_row k db = List.find (\<lambda>t. task_pk t = k) (tasks db)"

text \<open>What the code of one lane reads in either table.\<close>

definition same_base :: "drip_db \<Rightarrow> drip_db \<Rightarrow> bool" where
  "same_base a b \<longleftrightarrow> versions a = versions b \<and> campaigns a = campaigns b \<and> leads a = leads b \<and> messages a = messages b"

definition sees :: "int \<Rightarrow> drip_db \<Rightarrow> drip_db \<Rightarrow> bool" where
  "sees k a b \<longleftrightarrow> same_base a b \<and> lane_deliveries k a = lane_deliveries k b \<and>
     (\<forall>d \<in> set (lane_deliveries k a). \<forall>t. current_task d = Some t \<longrightarrow> task_row t a = task_row t b)"

lemma same_base_refl [simp]: "same_base a a" by (simp add: same_base_def)

lemma sees_refl [simp]: "sees k a a" by (simp add: sees_def)

lemma same_base_trans: "same_base a b \<Longrightarrow> same_base b c \<Longrightarrow> same_base a c" by (simp add: same_base_def)

lemma same_base_sym: "same_base a b \<Longrightarrow> same_base b a" by (simp add: same_base_def)

lemma sees_trans: "sees k a b \<Longrightarrow> sees k b c \<Longrightarrow> sees k a c"
  by (auto simp: sees_def same_base_def)

lemma sees_sym: "sees k a b \<Longrightarrow> sees k b a"
  by (auto simp: sees_def same_base_def)

section \<open>Normalised lanes\<close>

lemma space_lower: "py_space (ascii_lower c) = py_space c"
proof (cases "65 \<le> (of_char c :: nat) \<and> (of_char c :: nat) \<le> 90")
  case True
  then have "of_char (char_of ((of_char c :: nat) + 32) :: char) = (of_char c :: nat) + 32" by (simp add: of_char_of)
  with True show ?thesis by (auto simp: py_space_def ascii_lower_def Let_def)
next
  case False then show ?thesis by (auto simp: ascii_lower_def Let_def)
qed

lemma lower_lower: "ascii_lower (ascii_lower c) = ascii_lower c"
proof (cases "65 \<le> (of_char c :: nat) \<and> (of_char c :: nat) \<le> 90")
  case True
  then have "of_char (char_of ((of_char c :: nat) + 32) :: char) = (of_char c :: nat) + 32" by (simp add: of_char_of)
  with True show ?thesis by (auto simp: ascii_lower_def Let_def)
next
  case False then show ?thesis by (auto simp: ascii_lower_def Let_def)
qed

lemma lstrip_casefold: "lstrip (casefold s) = casefold (lstrip s)"
  by (simp add: lstrip_def casefold_def dropWhile_map comp_def space_lower)

lemma strip_casefold: "strip (casefold s) = casefold (strip s)"
  unfolding strip_def lstrip_casefold using lstrip_casefold [of "rev (lstrip s)"]
  by (simp add: casefold_def rev_map)

lemma normal_normal [simp]: "normal_lane (normal_lane l) = normal_lane l"
  by (simp add: normal_lane_def strip_casefold) (simp add: casefold_def lower_lower)

section \<open>What a listing announces\<close>

definition announced_action :: "bool \<Rightarrow> string \<Rightarrow> string" where
  "announced_action of_lane act =
     (if act = ''materialized'' then ''would_materialize''
      else if act = ''rematerialized_task'' then ''would_rematerialize_task''
      else if act = ''detached_terminal_task'' then ''would_detach_terminal_task''
      else if act = ''stop'' \<and> \<not> of_lane then ''would_stop''
      else act)"

definition announce :: "decision \<Rightarrow> decision" where
  "announce d = d\<lparr>dec_action := announced_action (dec_lane d \<noteq> None) (dec_action d)\<rparr>"

definition announces :: "lane_outcome \<Rightarrow> lane_outcome \<Rightarrow> bool" where
  "announces out out' \<longleftrightarrow> out_decisions out' = map announce (out_decisions out) \<and>
     out_stop_reason out' = out_stop_reason out \<and> (out_status out' = L_Completed \<longleftrightarrow> out_status out = L_Completed)"

definition lane_agrees :: "drip_lane \<Rightarrow> drip_lane \<Rightarrow> bool" where
  "lane_agrees l l' \<longleftrightarrow> lane_pk l = lane_pk l' \<and> lane_enrollment l = lane_enrollment l' \<and>
     lane_channel l = lane_channel l' \<and> lane_operator l = lane_operator l'"

lemma decision_agrees: "lane_agrees l l' \<Longrightarrow> decision_of l' = decision_of l"
  by (auto simp: lane_agrees_def decision_of_def intro!: ext)

lemma announce_lane: "announce (decision_of l act detail tm) = decision_of l (announced_action True act) detail tm"
  by (simp add: announce_def decision_of_def)

lemma announce_enrollment:
  "announce (enrollment_decision e act detail) = enrollment_decision e (announced_action False act) detail"
  by (simp add: announce_def enrollment_decision_def)

lemma announced_would:
  "announced_action True (would True ''rematerialized_task'' ''would_rematerialize_task'') = would False ''rematerialized_task'' ''would_rematerialize_task''"
  "announced_action True (would True ''materialized'' ''would_materialize'') = would False ''materialized'' ''would_materialize''"
  "announced_action True (would True ''detached_terminal_task'' ''would_detach_terminal_task'') =
     would False ''detached_terminal_task'' ''would_detach_terminal_task''"
  by (simp_all add: would_def announced_action_def)

lemma announced_same:
  "announced_action True ''outstanding_delivery'' = ''outstanding_delivery''"
  "announced_action True ''invariant_block'' = ''invariant_block''"
  "announced_action True ''planned_held'' = ''planned_held''"
  "announced_action True ''stop'' = ''stop''"
  "announced_action True ''waiting_handoff'' = ''waiting_handoff''"
  "announced_action True ''handoff'' = ''handoff''"
  "announced_action True ''waiting_connection'' = ''waiting_connection''"
  "announced_action True ''connection_restored'' = ''connection_restored''"
  "announced_action True ''delivery_block'' = ''delivery_block''"
  "announced_action True ''advance_theme'' = ''advance_theme''"
  "announced_action True ''advance_omitted_theme'' = ''advance_omitted_theme''"
  "announced_action True ''waiting_due'' = ''waiting_due''"
  "announced_action True ''complete_lane'' = ''complete_lane''"
  "announced_action True ''paused'' = ''paused''"
  by (simp_all add: announced_action_def)

lemma announced_enrollment:
  "announced_action False (would True ''stop'' ''would_stop'') = would False ''stop'' ''would_stop''"
  "announced_action False ''invariant_block'' = ''invariant_block''"
  "announced_action False ''campaign_inactive'' = ''campaign_inactive''"
  "announced_action False ''paused'' = ''paused''"
  "announced_action False ''complete_enrollment'' = ''complete_enrollment''"
  by (simp_all add: announced_action_def would_def)

lemmas announce_simps = announce_lane announced_would announced_same

section \<open>An outstanding delivery\<close>

lemma outstanding_view:
  "outstanding_of l db = sort_key (\<lambda>d. (dlv_theme_index d, dlv_step_index d))
     (filter (\<lambda>d. dlv_status d \<in> {D_Planned, D_Queued, D_Sending}) (lane_deliveries (lane_pk l) db))"
  by (simp add: outstanding_of_def lane_deliveries_def conj_commute)

lemma theme_view:
  "theme_deliveries l k db = sort_key dlv_step_index (filter (\<lambda>d. dlv_theme_index d = k) (lane_deliveries (lane_pk l) db))"
  by (simp add: theme_deliveries_def lane_deliveries_def conj_commute)

lemma outstanding_mem: "d \<in> set (outstanding_of l db) \<Longrightarrow>
    d \<in> set (deliveries db) \<and> dlv_lane d = lane_pk l \<and> dlv_status d \<in> {D_Planned, D_Queued, D_Sending}"
  by (simp add: outstanding_of_def)

lemma stop_reason_messages: "messages a = messages b \<Longrightarrow> stop_reason_now env e a = stop_reason_now env e b"
  by (simp only: stop_reason_now_def lead_automation_stop_reason_def)

lemma stop_reason_sees: "sees k a b \<Longrightarrow> stop_reason_now env e a = stop_reason_now env e b"
  by (rule stop_reason_messages) (simp add: sees_def same_base_def)

lemma outstanding_sees: "sees k a b \<Longrightarrow> lane_pk l = k \<Longrightarrow> lane_pk l' = k \<Longrightarrow> outstanding_of l a = outstanding_of l' b"
  by (simp add: outstanding_view sees_def)

lemma theme_sees: "sees k a b \<Longrightarrow> lane_pk l = k \<Longrightarrow> lane_pk l' = k \<Longrightarrow> theme_deliveries l i a = theme_deliveries l' i b"
  by (simp add: theme_view sees_def)

lemma task_sees:
  assumes "sees (lane_pk l) a b" and "d \<in> set (outstanding_of l a)" and "current_task d = Some t"
  shows "get_row task_pk nm (tasks a) t = get_row task_pk nm (tasks b) t"
proof -
  have "d \<in> set (lane_deliveries (lane_pk l) a)" using assms(2) by (simp add: outstanding_view)
  then have "task_row t a = task_row t b" using assms by (auto simp: sees_def)
  then show ?thesis by (simp add: get_row_def task_row_def)
qed

lemma released_announced:
  assumes run: "reconcile_released env now True allow e l d decs a = Inr (out, a')"
    and ag: "lane_agrees l l'" and st: "(lane_status l' = L_Completed) = (lane_status l = L_Completed)"
    and r: "stop_reason_now env e a = stop_reason_now env e b" and ds: "decs' = map announce decs"
  shows "\<exists>o1 o2. out = Some o1 \<and> reconcile_released env now False allow e l' d decs' b = Inr (Some o2, b) \<and> announces o1 o2"
  using run st unfolding reconcile_released_def r [symmetric] decision_agrees [OF ag] ds
  by (auto simp: Let_def announces_def outcome_of_def announce_simps split: if_splits)

lemma existing_announced:
  assumes run: "reconcile_existing env now True allow e l a = Inr (out, a')"
    and ag: "lane_agrees l l'" and st: "(lane_status l' = L_Completed) = (lane_status l = L_Completed)"
    and s: "sees (lane_pk l) a b"
  shows "\<exists>out'. reconcile_existing env now False allow e l' b = Inr (out', b) \<and> rel_option announces out out'"
proof -
  have pk: "lane_pk l' = lane_pk l" using ag by (simp add: lane_agrees_def)
  note view = outstanding_sees [OF s refl pk]
  note dec = decision_agrees [OF ag]
  show ?thesis
  proof (cases "outstanding_of l a")
    case Nil
    then show ?thesis using run view by (auto simp: reconcile_existing_def)
  next
    case (Cons d ds)
    show ?thesis
    proof (cases ds)
      case (Cons d2 ds2)
      with \<open>outstanding_of l a = d # ds\<close> show ?thesis using run view st
        by (auto simp: reconcile_existing_def dec announces_def outcome_of_def announce_simps)
    next
      case Nil
      with Cons have o: "outstanding_of l a = [d]" "outstanding_of l' b = [d]" using view by simp_all
      have r: "stop_reason_now env e a = stop_reason_now env e b" by (rule stop_reason_sees [OF s])
      show ?thesis
      proof (cases "current_task d")
        case None
        then have "reconcile_released env now True allow e l d [] a = Inr (out, a')" using run o(1) by (simp add: reconcile_existing_def)
        from released_announced [OF this ag st r, of "[]"] show ?thesis
          using None o(2) by (fastforce simp: reconcile_existing_def)
      next
        case (Some k)
        have t: "get_row task_pk ''Task'' (tasks a) k = get_row task_pk ''Task'' (tasks b) k"
          by (rule task_sees [OF s _ Some]) (simp add: o(1))
        obtain t0 where t0: "get_row task_pk ''Task'' (tasks b) k = Inr t0"
          using run o(1) Some t by (auto simp: reconcile_existing_def)
        note unf = reconcile_existing_def o list.case Some option.case t t0 bind_result_simps
        show ?thesis
        proof (cases "task_status t0 \<in> {PENDING, RUNNING} \<or> dlv_status d \<notin> {D_Planned, D_Queued}")
          case True
          then show ?thesis using run st unfolding unf
            by (auto simp: dec announces_def outcome_of_def announce_simps split: if_splits)
        next
          case False
          let ?d = "d\<lparr>current_task := None, dlv_status := D_Planned\<rparr>"
          have nots: "task_status t0 \<notin> {PENDING, RUNNING}" "dlv_status d \<in> {D_Planned, D_Queued}" using False by blast+
          obtain c where c: "reconcile_released env now True allow e l ?d [c] (save_delivery ?d a) = Inr (out, a')"
            and cd: "announce c = decision_of l (would False ''detached_terminal_task'' ''would_detach_terminal_task'')
                (delivery_text d @ '' released from '' @ task_status_text (task_status t0) @ '' task '' @ str_int (task_pk t0)) None"
            using run nots unfolding unf by (auto simp: announce_simps Let_def)
          have r': "stop_reason_now env e (save_delivery ?d a) = stop_reason_now env e b"
            using r stop_reason_messages [of "save_delivery ?d a" a env e] by (simp add: save_delivery_def)
          from released_announced [OF c ag st r', of "[announce c]"] show ?thesis
            using nots unfolding unf by (auto simp: cd dec Let_def)
        qed
      qed
    qed
  qed
qed

section \<open>The lane\<close>

lemma handoff_announced:
  assumes "handoff_stage env now True e l a = (Inl out, a')"
  shows "\<exists>out'. handoff_stage env now False e l b = (Inl out', b) \<and> announces out out'"
  using assms unfolding handoff_stage_def Let_def
  by (auto simp: announces_def outcome_of_def announce_simps split: if_splits)

lemma save_lane_frame [simp]:
  "deliveries (save_lane l db) = deliveries db" "tasks (save_lane l db) = tasks db" "enrollments (save_lane l db) = enrollments db"
  "same_base db (save_lane l db)" "same_base (save_lane l db) db" "dlv_seq (save_lane l db) = dlv_seq db"
  "task_seq (save_lane l db) = task_seq db"
  by (simp_all add: save_lane_def same_base_def)

lemma save_lane_sees [simp]: "sees k db (save_lane l db)" "sees k (save_lane l db) db"
  by (simp_all add: sees_def lane_deliveries_def task_row_def)

lemma normal_operator: "normal_lane l = l \<Longrightarrow> strip (lane_operator l) = lane_operator l"
  by (metis drip_lane.select_convs(4) drip_lane.surjective drip_lane.update_convs(4) normal_lane_def drip_lane.ext_inject
      drip_lane.update_convs(5,6,7,8))

lemma normal_fields [simp]:
  "lane_pk (normal_lane l) = lane_pk l" "lane_enrollment (normal_lane l) = lane_enrollment l"
  "lane_channel (normal_lane l) = lane_channel l" "lane_operator (normal_lane l) = strip (lane_operator l)"
  "lane_status (normal_lane l) = lane_status l" "current_theme_index (normal_lane l) = current_theme_index l"
  by (simp_all add: normal_lane_def)

lemma apply_handoff_fields [simp]:
  "lane_pk (apply_handoff e ev now l) = lane_pk l" "lane_enrollment (apply_handoff e ev now l) = lane_enrollment l"
  "lane_channel (apply_handoff e ev now l) = lane_channel l" "lane_operator (apply_handoff e ev now l) = strip (lane_operator l)"
  "lane_status (apply_handoff e ev now l) = L_Active" "current_theme_index (apply_handoff e ev now l) = current_theme_index l"
  by (simp_all add: apply_handoff_def Let_def)

lemma handoff_continues:
  assumes "handoff_stage env now True e l a = (Inr c, a')" and "normal_lane l = l" and "lane_status l \<noteq> L_Completed"
  shows "\<exists>c'. handoff_stage env now False e l b = (Inr c', b) \<and> cur_status c' = cur_status c \<and> cur_started c' = cur_started c \<and>
    cur_decisions c' = map announce (cur_decisions c) \<and> lane_agrees (cur_lane c) (cur_lane c') \<and>
    lane_status (cur_lane c) \<noteq> L_Completed \<and> lane_status (cur_lane c') \<noteq> L_Completed \<and> cur_status c \<noteq> L_Completed \<and>
    current_theme_index (cur_lane c') = current_theme_index (cur_lane c) \<and> lane_pk (cur_lane c) = lane_pk l \<and>
    deliveries a' = deliveries a \<and> tasks a' = tasks a \<and> same_base a a'"
proof -
  let ?ev = "evaluate_handoff env l"
  have op: "strip (lane_operator l) = lane_operator l" by (rule normal_operator) fact
  show ?thesis
  proof (cases "handed_off_at l")
    case None
    then have "eligible ?ev" using assms(1) by (auto simp: handoff_stage_def Let_def split: if_splits)
    with None assms(1) show ?thesis
      by (auto simp: handoff_stage_def Let_def announce_simps lane_agrees_def op assms(3))
  next
    case (Some h)
    show ?thesis
    proof (cases "lane_status l = L_Waiting_connection")
      case True
      then have "eligible ?ev" "lane_channel l = Linkedin_lane" using Some assms(1)
        by (auto simp: handoff_stage_def Let_def split: if_splits)
      with Some True assms(1) show ?thesis by (auto simp: handoff_stage_def Let_def announce_simps lane_agrees_def op)
    next
      case False
      then have "lane_status l \<noteq> L_Waiting_current" using Some assms(1)
        by (auto simp: handoff_stage_def Let_def split: if_splits)
      with Some False assms(1,3) show ?thesis by (auto simp: handoff_stage_def Let_def lane_agrees_def)
    qed
  qed
qed

fun step_announces :: "theme_result \<Rightarrow> theme_result \<Rightarrow> bool" where
  "step_announces (Advance ds t) r = (r = Advance (map announce ds) t)"
| "step_announces (Halt o1) r = (\<exists>o2. r = Halt o2 \<and> announces o1 o2)"

lemma step_halts:
  "announces (outcome_of st (decs @ [decision_of l act detail tm]))
     (outcome_of st (map announce decs @ [decision_of l (announced_action True act) detail tm]))"
  by (simp add: announces_def outcome_of_def announce_lane)

lemma step_stops:
  "announces \<lparr>out_status = L_Stopped, out_decisions = decs @ [decision_of l ''stop'' reason None], out_stop_reason = reason\<rparr>
     \<lparr>out_status = L_Stopped, out_decisions = map announce decs @ [decision_of l ''stop'' reason None], out_stop_reason = reason\<rparr>"
  by (simp add: announces_def announce_simps)

lemmas step_halts_same = step_halts [where act = "''invariant_block''", unfolded announced_same]
  step_halts [where act = "''delivery_block''", unfolded announced_same]
  step_halts [where act = "''waiting_due''", unfolded announced_same]
  step_halts [where act = "would True ''materialized'' ''would_materialize''", unfolded announced_would]

lemma theme_step_announced:
  assumes run: "theme_step env now True e l st started subject decs theme rendition k a = Inr (r, a')"
    and ag: "lane_agrees l l'" and s: "sees (lane_pk l) a b"
  shows "\<exists>r'. theme_step env now False e l' st started subject' (map announce decs) theme rendition k b = Inr (r', b) \<and>
    step_announces r r'"
proof -
  have pk: "lane_pk l' = lane_pk l" and ch: "lane_channel l' = lane_channel l" using ag by (simp_all add: lane_agrees_def)
  have due: "due_time env l' = due_time env l" by (intro ext) (simp add: due_time_def ch)
  note view = theme_sees [OF s refl pk, of k, symmetric] and dec = decision_agrees [OF ag]
    and reason = stop_reason_sees [OF s, of env e, symmetric]
  obtain i blocked where scan: "scan_steps (theme_deliveries l k a) 0 (length rendition) = (i, blocked)" by fastforce
  let ?ds = "theme_deliveries l k a" and ?n = "length rendition"
  note unf = theme_step_def Let_def view dec reason due scan prod.case
  show ?thesis
  proof (cases "filter (\<lambda>i. ?n \<le> i) (remdups (map dlv_step_index ?ds)) \<noteq> []")
    case True
    then show ?thesis using run unfolding unf if_P [OF True] by (auto simp: step_halts_same)
  next
    case False
    note none = if_not_P [OF False]
    show ?thesis
    proof (cases blocked)
      case (Some d)
      then show ?thesis using run unfolding unf none by (auto simp: step_halts_same)
    next
      case None
      note go = None option.case
      show ?thesis
      proof (cases "\<exists>d \<in> set ?ds. i < dlv_step_index d")
        case True
        then show ?thesis using run unfolding unf none go if_P [OF True] by (auto simp: step_halts_same)
      next
        case False
        note gap = if_not_P [OF False]
        show ?thesis
        proof (cases "i = ?n")
          case True
          then show ?thesis using run unfolding unf none go gap if_P [OF True] by (auto simp: announce_simps)
        next
          case False
          obtain anchor where anchor: "(if i = 0 then Inr started else sent_time ?ds (i - 1)) = Inr anchor"
            using run unfolding unf none go gap if_not_P [OF False] by auto
          note at_step = if_not_P [OF False] anchor bind_result_simps
          show ?thesis
          proof (cases "now < due_time env l anchor (step_delay (rendition ! i)) now")
            case True
            then show ?thesis using run unfolding unf none go gap at_step if_P [OF True] by (auto simp: step_halts_same)
          next
            case False
            note is_due = if_not_P [OF False]
            show ?thesis
            proof (cases "stop_reason_now env e a \<noteq> ''''")
              case True
              then show ?thesis using run unfolding unf none go gap at_step is_due if_P [OF True] by (auto simp: step_stops)
            next
              case False
              then show ?thesis using run unfolding unf none go gap at_step is_due if_not_P [OF False]
                by (auto simp: step_halts_same)
            qed
          qed
        qed
      qed
    qed
  qed
qed

lemma theme_step_advances:
  "theme_step env now ap e l st started subject decs theme rendition k a = Inr (Advance ds t, a') \<Longrightarrow> a' = a"
  unfolding theme_step_def Let_def
  by (auto split: if_splits option.splits prod.splits)

lemma progress_agrees:
  assumes "lane_agrees l l'" and "strip (lane_operator l) = lane_operator l"
  shows "lane_agrees (progress True rest k t l) (progress False rest k' t' l')"
    and "strip (lane_operator (progress True rest k t l)) = lane_operator (progress True rest k t l)"
    and "lane_pk (progress True rest k t l) = lane_pk l"
  using assms by (simp_all add: progress_def lane_agrees_def save_lane_progress_def)

lemma theme_loop_announced:
  assumes "theme_loop env now True e n l st started subject decs themes k a = Inr (out, a')"
    and "lane_agrees l l'" and "strip (lane_operator l) = lane_operator l" and "sees (lane_pk l) a b"
  shows "\<exists>out'. theme_loop env now False e n l' st started subject' (map announce decs) themes k b = Inr (out', b) \<and> announces out out'"
  using assms
proof (induction themes arbitrary: l l' started decs k a)
  case Nil
  then show ?case
    by (auto simp: announces_def outcome_of_def announce_simps decision_agrees)
next
  case (Cons theme rest)
  note ag = Cons.prems(2) and op = Cons.prems(3) and s = Cons.prems(4)
  have same: "lane_operator l' = lane_operator l" "lane_channel l' = lane_channel l" using ag by (simp_all add: lane_agrees_def)
  have prog: "progress False rest (Suc k) t l' = l'" for t by (simp add: progress_def)
  have next_sees: "sees (lane_pk (progress True rest (Suc k) t l)) (save_lane (progress True rest (Suc k) t l) c) b"
    if "sees (lane_pk l) c b" for t c
    using sees_trans [OF save_lane_sees(2) that] by (simp add: progress_agrees(3) [OF ag op])
  obtain block where block: "map_of (theme_senders theme) (lane_operator l) = Some block"
    using Cons.prems(1) by (auto split: option.splits)
  show ?case
  proof (cases "map_of block (lane_channel l)")
    case None
    let ?l = "progress True rest (Suc k) now l"
    let ?d = "decision_of l ''advance_omitted_theme''
       (''theme '' @ theme_key theme @ '' has no '' @ channel_text (lane_channel l) @ '' rendition'') None"
    have "theme_loop env now True e n ?l st now subject (decs @ [?d]) rest (Suc k) (save_lane ?l a) = Inr (out, a')"
      using Cons.prems(1) by (simp add: block None Let_def)
    from Cons.IH [OF this progress_agrees(1,2) [OF ag op] next_sees [OF s]]
    obtain out' where "theme_loop env now False e n (progress False rest (Suc k) now l') st now subject' (map announce (decs @ [?d])) rest (Suc k) b = Inr (out', b)"
      and "announces out out'" by blast
    then show ?thesis by (simp add: block None Let_def same prog decision_agrees [OF ag] announce_simps)
  next
    case (Some rendition)
    obtain r a1 where r: "theme_step env now True e l st started subject decs theme rendition k a = Inr (r, a1)"
      using Cons.prems(1) by (auto simp: block Some)
    obtain r' where r': "theme_step env now False e l' st started subject' (map announce decs) theme rendition k b = Inr (r', b)"
      and ra: "step_announces r r'" using theme_step_announced [OF r ag s] by blast
    show ?thesis
    proof (cases r)
      case (Halt o1)
      then show ?thesis using Cons.prems(1) r r' ra by (auto simp: block Some same)
    next
      case (Advance ds t)
      let ?l = "progress True rest (Suc k) t l"
      have a1: "a1 = a" using theme_step_advances r Advance by blast
      have "theme_loop env now True e n ?l st t subject ds rest (Suc k) (save_lane ?l a) = Inr (out, a')"
        using Cons.prems(1) r Advance a1 by (simp add: block Some Let_def)
      from Cons.IH [OF this progress_agrees(1,2) [OF ag op] next_sees [OF s]]
      obtain out' where "theme_loop env now False e n (progress False rest (Suc k) t l') st t subject' (map announce ds) rest (Suc k) b = Inr (out', b)"
        and "announces out out'" by blast
      then show ?thesis using r' ra Advance by (simp add: block Some Let_def same prog)
    qed
  qed
qed

lemma announces_with: "announces o1 o2 \<Longrightarrow> announces (with_decisions ds o1) (with_decisions (map announce ds) o2)"
  by (simp add: announces_def with_decisions_def)

lemma run_themes_announced:
  assumes run: "run_themes env now True e c a = Inr (out, a')"
    and ag: "lane_agrees (cur_lane c) (cur_lane c')" and op: "strip (lane_operator (cur_lane c)) = lane_operator (cur_lane c)"
    and s: "sees (lane_pk (cur_lane c)) a b"
    and same: "cur_status c' = cur_status c" "cur_started c' = cur_started c" "cur_decisions c' = map announce (cur_decisions c)"
      "current_theme_index (cur_lane c') = current_theme_index (cur_lane c)"
    and open_lanes: "lane_status (cur_lane c) \<noteq> L_Completed" "lane_status (cur_lane c') \<noteq> L_Completed"
  shows "\<exists>out'. run_themes env now False e c' b = Inr (out', b) \<and> announces out out'"
proof -
  obtain themes where themes: "enrollment_themes e a = Inr themes" "enrollment_themes e b = Inr themes"
    using run s by (auto simp: run_themes_def enrollment_themes_def sees_def same_base_def)
  show ?thesis
  proof (cases "cur_started c")
    case None
    then show ?thesis using run themes same
      by (auto simp: run_themes_def announces_def outcome_of_def announce_simps decision_agrees [OF ag])
  next
    case (Some t)
    obtain ex a1 where ex: "reconcile_existing env now True True e (cur_lane c) a = Inr (ex, a1)"
      using run themes Some by (auto simp: run_themes_def)
    obtain ex' where ex': "reconcile_existing env now False True e (cur_lane c') b = Inr (ex', b)" "rel_option announces ex ex'"
      using existing_announced [OF ex ag _ s] open_lanes by blast
    show ?thesis
    proof (cases ex)
      case (Some o1)
      then show ?thesis using run themes ex ex' same \<open>cur_started c = Some t\<close>
        by (auto simp: run_themes_def option_rel_Some1 announces_with)
    next
      case None
      then have a1: "a1 = a" using ex by (auto simp: reconcile_existing_def reconcile_released_def Let_def split: list.splits option.splits if_splits)
      have "theme_loop env now True e (length themes) (cur_lane c) (cur_status c) t (cur_subject c) (cur_decisions c)
          (drop (current_theme_index (cur_lane c)) themes) (current_theme_index (cur_lane c)) a = Inr (out, a')"
        using run themes ex None Some a1 by (simp add: run_themes_def Let_def)
      from theme_loop_announced [OF this ag op s, of "cur_subject c'"] show ?thesis
        using themes ex' None Some same by (auto simp: run_themes_def Let_def)
    qed
  qed
qed

lemma handoff_operator:
  assumes run: "handoff_stage env now True e l a = (Inr c, a')" and normal: "normal_lane l = l"
  shows "strip (lane_operator (cur_lane c)) = lane_operator (cur_lane c)"
proof -
  have op: "strip (lane_operator l) = lane_operator l" by (rule normal_operator) fact
  have "cur_lane c \<in> {apply_handoff e (evaluate_handoff env l) now l, normal_lane (l\<lparr>lane_status := L_Active\<rparr>), l}"
    using run by (auto simp: handoff_stage_def Let_def split: if_splits)
  then show ?thesis using op by auto
qed

lemma lane_announced:
  assumes run: "reconcile_lane env now True e l a = Inr (out, a')" and normal: "normal_lane l = l" and s: "sees (lane_pk l) a b"
  shows "\<exists>out'. reconcile_lane env now False e l b = Inr (out', b) \<and> announces out out'"
proof -
  have refl: "lane_agrees l l" by (simp add: lane_agrees_def)
  show ?thesis
  proof (cases "lane_status l \<in> {L_Stopped, L_Completed}")
    case True
    then show ?thesis using run by (auto simp: reconcile_lane_def announces_def outcome_of_def)
  next
    case closed: False
    show ?thesis
    proof (cases "lane_status l = L_Paused")
      case True
      then obtain ex a1 where ex: "reconcile_existing env now True False e l a = Inr (ex, a1)"
        using run by (auto simp: reconcile_lane_def)
      obtain ex' where ex': "reconcile_existing env now False False e l b = Inr (ex', b)" "rel_option announces ex ex'"
        using existing_announced [OF ex refl _ s] by blast
      have "map announce (case ex of None \<Rightarrow> [] | Some o1 \<Rightarrow> out_decisions o1) = (case ex' of None \<Rightarrow> [] | Some o1 \<Rightarrow> out_decisions o1)"
        using ex'(2) by (cases ex; cases ex') (auto simp: announces_def)
      then show ?thesis using run True ex ex'(1)
        by (auto simp: reconcile_lane_def announces_def outcome_of_def announce_simps)
    next
      case False
      note ladder = closed False
      obtain res a1 where h: "handoff_stage env now True e l a = (res, a1)" by fastforce
      show ?thesis
      proof (cases res)
        case (Inl o1)
        then show ?thesis using run h ladder handoff_announced [of env now e l a o1 a1 b]
          by (auto simp: reconcile_lane_def)
      next
        case (Inr c)
        have nc: "lane_status l \<noteq> L_Completed" using closed by simp
        obtain c' where c': "handoff_stage env now False e l b = (Inr c', b)" "cur_status c' = cur_status c" "cur_started c' = cur_started c"
          "cur_decisions c' = map announce (cur_decisions c)" "lane_agrees (cur_lane c) (cur_lane c')"
          "lane_status (cur_lane c) \<noteq> L_Completed" "lane_status (cur_lane c') \<noteq> L_Completed"
          "current_theme_index (cur_lane c') = current_theme_index (cur_lane c)" "lane_pk (cur_lane c) = lane_pk l"
          "deliveries a1 = deliveries a" "tasks a1 = tasks a" "same_base a a1"
          using handoff_continues [OF h [unfolded Inr] normal nc, of b] by blast
        have op: "strip (lane_operator (cur_lane c)) = lane_operator (cur_lane c)"
          by (rule handoff_operator [OF h [unfolded Inr] normal])
        have "sees (lane_pk l) a1 a" using c'(10-12) by (simp add: sees_def lane_deliveries_def task_row_def same_base_def)
        then have "sees (lane_pk (cur_lane c)) a1 b" unfolding c'(9) by (rule sees_trans [OF _ s])
        moreover have "run_themes env now True e c a1 = Inr (out, a')" using run h Inr ladder by (simp add: reconcile_lane_def)
        ultimately obtain out' where "run_themes env now False e c' b = Inr (out', b)" "announces out out'"
          using run_themes_announced [OF _ c'(5) op _ c'(2,3,4,8,6,7)] by blast
        then show ?thesis using c'(1) ladder by (auto simp: reconcile_lane_def)
      qed
    qed
  qed
qed

section \<open>What an applied step writes\<close>

text \<open>
  What a pass or a stop may do to the rows that an executor works with: a delivery that waits may wait
  again or stop, one that is being sent may only be stopped, a new delivery waits, and no task that is
  not new becomes claimable.
\<close>

definition shifted :: "int \<Rightarrow> drip_delivery \<Rightarrow> drip_delivery \<Rightarrow> bool" where
  "shifted n d d' \<longleftrightarrow>
     dlv_status d \<in> {D_Planned, D_Queued} \<and> dlv_status d' \<in> {D_Planned, D_Queued, D_Stopped} \<and>
       (current_task d' = current_task d \<or> current_task d' = None \<or> (\<exists>t. current_task d' = Some t \<and> n < t)) \<or>
     dlv_status d = D_Sending \<and> dlv_status d' = D_Stopped \<and> current_task d' = current_task d"

definition delivery_origin :: "drip_db \<Rightarrow> drip_delivery \<Rightarrow> bool" where
  "delivery_origin a d' \<longleftrightarrow>
     (\<exists>d \<in> set (deliveries a). dlv_pk d = dlv_pk d' \<and> (d' = d \<or> shifted (task_seq a) d d')) \<or>
     dlv_seq a < dlv_pk d' \<and> dlv_status d' \<in> {D_Planned, D_Queued, D_Stopped}"

definition task_origin :: "drip_db \<Rightarrow> task \<Rightarrow> bool" where
  "task_origin a t' \<longleftrightarrow> task_status t' \<noteq> PENDING \<or> task_seq a < task_pk t' \<or>
     (\<exists>t \<in> set (tasks a). task_pk t = task_pk t' \<and> task_status t = PENDING)"

definition rows_step :: "drip_db \<Rightarrow> drip_db \<Rightarrow> bool" where
  "rows_step a b \<longleftrightarrow> dlv_seq a \<le> dlv_seq b \<and> task_seq a \<le> task_seq b \<and>
     (\<forall>d' \<in> set (deliveries b). delivery_origin a d') \<and> (\<forall>t' \<in> set (tasks b). task_origin a t')"

lemma rows_stepI:
  assumes "dlv_seq a \<le> dlv_seq b" and "task_seq a \<le> task_seq b"
    and "\<And>d. d \<in> set (deliveries b) \<Longrightarrow> delivery_origin a d" and "\<And>t. t \<in> set (tasks b) \<Longrightarrow> task_origin a t"
  shows "rows_step a b"
  using assms by (simp add: rows_step_def)

lemma delivery_kept: "d \<in> set (deliveries a) \<Longrightarrow> delivery_origin a d"
  by (auto simp: delivery_origin_def)

lemma task_kept: "t \<in> set (tasks a) \<Longrightarrow> task_origin a t"
  by (auto simp: task_origin_def)

lemma rows_step_same: "deliveries b = deliveries a \<Longrightarrow> tasks b = tasks a \<Longrightarrow> dlv_seq b = dlv_seq a \<Longrightarrow> task_seq b = task_seq a \<Longrightarrow> rows_step a b"
  by (auto intro!: rows_stepI delivery_kept task_kept)

lemma rows_step_refl [simp]: "rows_step a a" by (rule rows_step_same) simp_all

definition retasked :: "int \<Rightarrow> drip_delivery \<Rightarrow> drip_delivery \<Rightarrow> bool" where
  "retasked n d d' \<longleftrightarrow> current_task d' = current_task d \<or> current_task d' = None \<or> (\<exists>t. current_task d' = Some t \<and> n < t)"

lemma retasked_trans: "retasked m d d' \<Longrightarrow> retasked n d' d'' \<Longrightarrow> m \<le> n \<Longrightarrow> retasked m d d''"
  by (fastforce simp: retasked_def)

lemma shifted_cases:
  "shifted n d d' \<longleftrightarrow>
     dlv_status d \<in> {D_Planned, D_Queued} \<and> dlv_status d' \<in> {D_Planned, D_Queued, D_Stopped} \<and> retasked n d d' \<or>
     dlv_status d = D_Sending \<and> dlv_status d' = D_Stopped \<and> current_task d' = current_task d"
  unfolding shifted_def retasked_def ..

lemma shifted_trans:
  assumes s1: "shifted m d d'" and s2: "shifted n d' d''" and le: "m \<le> n"
  shows "shifted m d d''"
proof -
  have "dlv_status d' \<noteq> D_Sending" using s1 unfolding shifted_cases by auto
  then have p: "dlv_status d' \<in> {D_Planned, D_Queued}" "dlv_status d'' \<in> {D_Planned, D_Queued, D_Stopped}" "retasked n d' d''"
    using s2 unfolding shifted_cases by simp_all
  then have "dlv_status d \<in> {D_Planned, D_Queued}" "retasked m d d'" using s1 unfolding shifted_cases by auto
  then show ?thesis using p retasked_trans [OF _ p(3) le] unfolding shifted_cases by simp
qed

lemma shifted_weaken:
  assumes s: "shifted n d d'" and le: "m \<le> n"
  shows "shifted m d d'"
proof -
  have "retasked n d d' \<Longrightarrow> retasked m d d'" using le by (fastforce simp: retasked_def)
  then show ?thesis using s unfolding shifted_cases by blast
qed

lemma delivery_origin_trans:
  assumes ab: "rows_step a b" and o: "delivery_origin b d"
  shows "delivery_origin a d"
proof (cases "dlv_seq b < dlv_pk d \<and> dlv_status d \<in> {D_Planned, D_Queued, D_Stopped}")
  case True
  then show ?thesis using ab by (auto simp: delivery_origin_def rows_step_def)
next
  case False
  then obtain y where y: "y \<in> set (deliveries b)" "dlv_pk y = dlv_pk d" "d = y \<or> shifted (task_seq b) y d"
    using o unfolding delivery_origin_def by blast
  have oy: "delivery_origin a y" and seq: "task_seq a \<le> task_seq b" using ab y(1) by (simp_all add: rows_step_def)
  from y(3) show ?thesis
  proof
    assume "d = y"
    then show ?thesis using oy by simp
  next
    assume s: "shifted (task_seq b) y d"
    from oy show ?thesis
      unfolding delivery_origin_def
    proof
      assume "\<exists>x \<in> set (deliveries a). dlv_pk x = dlv_pk y \<and> (y = x \<or> shifted (task_seq a) x y)"
      then obtain x where "x \<in> set (deliveries a)" "dlv_pk x = dlv_pk y" "y = x \<or> shifted (task_seq a) x y" by blast
      moreover from this(3) have "shifted (task_seq a) x d"
        using shifted_trans [OF _ s seq] shifted_weaken [OF s seq] by blast
      ultimately show "(\<exists>x \<in> set (deliveries a). dlv_pk x = dlv_pk d \<and> (d = x \<or> shifted (task_seq a) x d)) \<or>
          dlv_seq a < dlv_pk d \<and> dlv_status d \<in> {D_Planned, D_Queued, D_Stopped}" using y(2) by auto
    next
      assume "dlv_seq a < dlv_pk y \<and> dlv_status y \<in> {D_Planned, D_Queued, D_Stopped}"
      then show "(\<exists>x \<in> set (deliveries a). dlv_pk x = dlv_pk d \<and> (d = x \<or> shifted (task_seq a) x d)) \<or>
          dlv_seq a < dlv_pk d \<and> dlv_status d \<in> {D_Planned, D_Queued, D_Stopped}"
        using s y(2) by (auto simp: shifted_def)
    qed
  qed
qed

lemma rows_step_trans:
  assumes ab: "rows_step a b" and bc: "rows_step b c"
  shows "rows_step a c"
proof (rule rows_stepI)
  fix d assume "d \<in> set (deliveries c)"
  then show "delivery_origin a d" using delivery_origin_trans [OF ab] bc by (simp add: rows_step_def)
next
  fix t assume "t \<in> set (tasks c)"
  then have t: "task_origin b t" using bc by (simp add: rows_step_def)
  show "task_origin a t"
  proof (cases "task_status t \<noteq> PENDING \<or> task_seq b < task_pk t")
    case True
    then show ?thesis using ab by (auto simp: task_origin_def rows_step_def)
  next
    case False
    then obtain y where "y \<in> set (tasks b)" "task_pk y = task_pk t" "task_status y = PENDING"
      using t by (auto simp: task_origin_def)
    moreover from this have "task_origin a y" using ab by (simp add: rows_step_def)
    ultimately show ?thesis using False by (auto simp: task_origin_def)
  qed
qed (use ab bc in \<open>auto simp: rows_step_def\<close>)

lemma stop_below_rows: "rows_step a (stop_below mine now reason a)"
proof (rule rows_stepI)
  fix d assume "d \<in> set (deliveries (stop_below mine now reason a))"
  then obtain x where "x \<in> set (deliveries a)" "d = x \<or> (d = x\<lparr>dlv_status := D_Stopped\<rparr> \<and> dlv_status x \<in> {D_Planned, D_Queued})"
    unfolding deliveries_below open_delivery_def by auto
  then show "delivery_origin a d" by (fastforce simp: delivery_origin_def shifted_def)
next
  fix t assume "t \<in> set (tasks (stop_below mine now reason a))"
  then show "task_origin a t" unfolding tasks_below task_origin_def retire_task_def by auto
qed simp_all


definition lane_keys :: "drip_db \<Rightarrow> (int \<times> int \<times> drip_channel) list" where
  "lane_keys db = map (\<lambda>l. (lane_pk l, lane_enrollment l, lane_channel l)) (lanes db)"

definition keyed :: "drip_lane \<Rightarrow> drip_db \<Rightarrow> bool" where
  "keyed l db \<longleftrightarrow> (\<forall>x \<in> set (lane_keys db). fst x = lane_pk l \<longrightarrow> snd x = (lane_enrollment l, lane_channel l))"

definition lane_frame :: "int \<Rightarrow> drip_db \<Rightarrow> drip_db \<Rightarrow> bool" where
  "lane_frame k a b \<longleftrightarrow> enrollments b = enrollments a \<and> same_base a b \<and> lane_keys b = lane_keys a \<and>
     filter (\<lambda>l. lane_pk l \<noteq> k) (lanes b) = filter (\<lambda>l. lane_pk l \<noteq> k) (lanes a) \<and>
     (\<forall>j. j \<noteq> k \<longrightarrow> sees j a b) \<and> drip_ok b"

definition lane_step :: "int \<Rightarrow> drip_db \<Rightarrow> drip_db \<Rightarrow> bool" where
  "lane_step k a b \<longleftrightarrow> lane_frame k a b \<and> rows_step a b"

lemma lane_frame_trans: "lane_frame k a b \<Longrightarrow> lane_frame k b c \<Longrightarrow> lane_frame k a c"
  by (auto simp: lane_frame_def intro: same_base_trans sees_trans)

lemma lane_step_refl: "drip_ok a \<Longrightarrow> lane_step k a a"
  by (simp add: lane_step_def lane_frame_def)

lemma lane_step_trans: "lane_step k a b \<Longrightarrow> lane_step k b c \<Longrightarrow> lane_step k a c"
  by (auto simp: lane_step_def lane_frame_def intro: same_base_trans sees_trans rows_step_trans)

lemma lane_step_ok: "lane_step k a b \<Longrightarrow> drip_ok b" by (simp add: lane_step_def lane_frame_def)

lemma keyed_step: "lane_step k a b \<Longrightarrow> keyed l a = keyed l b" by (simp add: lane_step_def lane_frame_def keyed_def)

lemma pks_of_keys: "lane_keys b = lane_keys a \<Longrightarrow> map lane_pk (lanes b) = map lane_pk (lanes a)"
  unfolding lane_keys_def by (metis (mono_tags, lifting) comp_apply fst_conv list.map_comp map_eq_conv)

lemma save_lane_step:
  assumes ok: "drip_ok a" and keyed: "keyed l a"
  shows "lane_step (lane_pk l) a (save_lane l a)"
proof -
  have keys: "lane_keys (save_lane l a) = lane_keys a"
    using keyed by (auto simp: lane_keys_def save_lane_def keyed_def)
  have "normal_lane x = x" if "x \<in> set (lanes (save_lane l a))" for x
    using that ok by (auto simp: save_lane_def drip_ok_def)
  then have "drip_ok (save_lane l a)"
    using ok pks_of_keys [OF keys] by (simp add: drip_ok_def)
  moreover have "filter (\<lambda>x. lane_pk x \<noteq> lane_pk l) (lanes (save_lane l a)) = filter (\<lambda>x. lane_pk x \<noteq> lane_pk l) (lanes a)"
    unfolding save_lane_def by (simp add: filter_map_if)
  moreover have "rows_step a (save_lane l a)" by (rule rows_step_same) simp_all
  ultimately show ?thesis using keys by (simp add: lane_step_def lane_frame_def)
qed

lemma save_delivery_frame [simp]:
  "enrollments (save_delivery d db) = enrollments db" "lanes (save_delivery d db) = lanes db" "tasks (save_delivery d db) = tasks db"
  "dlv_seq (save_delivery d db) = dlv_seq db" "task_seq (save_delivery d db) = task_seq db" "same_base db (save_delivery d db)"
  "lane_keys (save_delivery d db) = lane_keys db" "task_row k (save_delivery d db) = task_row k db"
  by (simp_all add: save_delivery_def same_base_def lane_keys_def task_row_def)

lemma pk_determines: "distinct (map f xs) \<Longrightarrow> x \<in> set xs \<Longrightarrow> y \<in> set xs \<Longrightarrow> f x = f y \<Longrightarrow> x = y"
  by (simp add: distinct_map inj_on_def)

lemma filter_map_same:
  "(\<And>x. x \<in> set xs \<Longrightarrow> f x = x \<or> (\<not> P x \<and> \<not> P (f x))) \<Longrightarrow> filter P (map f xs) = filter P xs"
  by (induction xs) fastforce+

lemma save_delivery_step:
  assumes ok: "drip_ok a" and d: "d \<in> set (deliveries a)" "dlv_pk d' = dlv_pk d" "dlv_lane d = k" "dlv_lane d' = k"
    and task: "\<And>t. current_task d' = Some t \<Longrightarrow>
      t \<in> task_pk ` set (tasks a) \<and> (\<forall>x \<in> set (deliveries a). current_task x = Some t \<longrightarrow> dlv_pk x = dlv_pk d)"
  shows "lane_frame k a (save_delivery d' a)"
proof -
  have dist: "distinct (map dlv_pk (deliveries a))" using ok by (simp add: drip_ok_def)
  have pks: "map dlv_pk (deliveries (save_delivery d' a)) = map dlv_pk (deliveries a)"
    by (simp add: save_delivery_def)
  have mem: "x = d' \<or> (x \<in> set (deliveries a) \<and> dlv_pk x \<noteq> dlv_pk d)" if "x \<in> set (deliveries (save_delivery d' a))" for x
    using that d(2) by (auto simp: save_delivery_def)
  have others: "lane_deliveries j (save_delivery d' a) = lane_deliveries j a" if "j \<noteq> k" for j
  proof -
    have "filter (\<lambda>x. dlv_lane x = j) (map (\<lambda>x. if dlv_pk x = dlv_pk d then d' else x) (deliveries a)) =
        filter (\<lambda>x. dlv_lane x = j) (deliveries a)"
    proof (rule filter_map_same)
      fix x assume "x \<in> set (deliveries a)"
      then have "dlv_pk x = dlv_pk d \<Longrightarrow> x = d" using pk_determines [OF dist _ d(1)] by blast
      then show "(if dlv_pk x = dlv_pk d then d' else x) = x \<or>
          \<not> dlv_lane x = j \<and> \<not> dlv_lane (if dlv_pk x = dlv_pk d then d' else x) = j" using d that by auto
    qed
    then show ?thesis unfolding lane_deliveries_def save_delivery_def d(2) by simp
  qed
  have "drip_ok (save_delivery d' a)"
  proof (rule drip_okI)
    show "one_to_one (deliveries (save_delivery d' a))"
    proof (rule one_to_oneI)
      fix x y t
      assume x: "x \<in> set (deliveries (save_delivery d' a))" and y: "y \<in> set (deliveries (save_delivery d' a))"
        and t: "current_task x = Some t" "current_task y = Some t"
      from mem [OF x] show "dlv_pk x = dlv_pk y"
      proof
        assume "x = d'"
        then show ?thesis using mem [OF y] task t d(2) by auto
      next
        assume "x \<in> set (deliveries a) \<and> dlv_pk x \<noteq> dlv_pk d"
        then show ?thesis using mem [OF y] task t d(2) one_to_oneD [OF drip_okD(3) [OF ok], of x y t] by auto
      qed
    qed
  next
    fix x t assume "x \<in> set (deliveries (save_delivery d' a))" and "current_task x = Some t"
    then show "t \<in> task_pk ` set (tasks (save_delivery d' a))" using mem [of x] task drip_okD(7) [OF ok, of x t] by auto
  next
    fix x assume "x \<in> set (deliveries (save_delivery d' a))"
    then show "dlv_pk x \<le> dlv_seq (save_delivery d' a)" using mem [of x] d drip_okD(5) [OF ok] by auto
  qed (use dist pks drip_okD [OF ok] in simp_all)
  then show ?thesis using others by (simp add: lane_frame_def sees_def)
qed

lemma save_delivery_rows:
  assumes "d \<in> set (deliveries a)" and "dlv_pk d' = dlv_pk d" and "shifted n d d'" and "task_seq a \<le> n"
  shows "rows_step a (save_delivery d' a)"
proof (rule rows_stepI)
  fix x assume "x \<in> set (deliveries (save_delivery d' a))"
  then have "x = d' \<or> x \<in> set (deliveries a)" by (auto simp: save_delivery_def)
  then show "delivery_origin a x" using assms delivery_kept shifted_weaken by (fastforce simp: delivery_origin_def)
qed (simp_all add: task_kept)

lemma find_append_Some: "List.find P xs = Some x \<Longrightarrow> List.find P (xs @ ys) = Some x"
  by (induction xs) auto

lemma add_task_step:
  assumes ok: "drip_ok a" and pk: "task_pk t = task_seq a + 1"
  shows "lane_step k a (a\<lparr>tasks := tasks a @ [t], task_seq := task_seq a + 1\<rparr>)" (is "lane_step k a ?b")
proof -
  have "drip_ok ?b"
  proof (rule drip_okI)
    fix x assume "x \<in> set (tasks ?b)"
    then show "task_pk x \<le> task_seq ?b" using pk drip_okD(6) [OF ok, of x] by auto
  next
    fix d i assume "d \<in> set (deliveries ?b)" and "current_task d = Some i"
    then show "i \<in> task_pk ` set (tasks ?b)" using drip_okD(7) [OF ok, of d i] by auto
  next
    have "task_seq a + 1 \<notin> task_pk ` set (tasks a)" using drip_okD(6) [OF ok] by force
    then show "distinct (map task_pk (tasks ?b))" using drip_okD(8) [OF ok] pk by simp
  qed (use drip_okD [OF ok] in simp_all)
  moreover have "task_row i ?b = task_row i a" if "d \<in> set (deliveries a)" "current_task d = Some i" for d i
  proof -
    have "i \<in> task_pk ` set (tasks a)" by (rule drip_okD(7) [OF ok that])
    then obtain r where "List.find (\<lambda>t. task_pk t = i) (tasks a) = Some r"
      by (cases "List.find (\<lambda>t. task_pk t = i) (tasks a)") (auto simp: find_None_iff)
    then show ?thesis by (simp add: task_row_def find_append_Some)
  qed
  moreover have "rows_step a ?b"
    by (rule rows_stepI) (use pk in \<open>auto simp: task_kept task_origin_def delivery_kept\<close>)
  ultimately show ?thesis
    by (auto simp: lane_step_def lane_frame_def sees_def same_base_def lane_keys_def lane_deliveries_def)
qed

lemma add_delivery_step:
  assumes ok: "drip_ok a" and d: "dlv_pk d = dlv_seq a + 1" "dlv_lane d = k" "current_task d = None" "dlv_status d = D_Planned"
  shows "lane_step k a (a\<lparr>deliveries := deliveries a @ [d], dlv_seq := dlv_seq a + 1\<rparr>)" (is "lane_step k a ?b")
proof -
  have "drip_ok ?b"
  proof (rule drip_okI)
    show "one_to_one (deliveries ?b)"
    proof (rule one_to_oneI)
      fix x y t assume "x \<in> set (deliveries ?b)" "y \<in> set (deliveries ?b)" "current_task x = Some t" "current_task y = Some t"
      then show "dlv_pk x = dlv_pk y" using d(3) one_to_oneD [OF drip_okD(3) [OF ok], of x y t] by auto
    qed
    have "dlv_seq a + 1 \<notin> dlv_pk ` set (deliveries a)" using drip_okD(5) [OF ok] by force
    then show "distinct (map dlv_pk (deliveries ?b))" using drip_okD(2) [OF ok] d(1) by simp
  next
    fix x assume "x \<in> set (deliveries ?b)"
    then show "dlv_pk x \<le> dlv_seq ?b" using d(1) drip_okD(5) [OF ok, of x] by auto
  next
    fix x i assume "x \<in> set (deliveries ?b)" and "current_task x = Some i"
    then show "i \<in> task_pk ` set (tasks ?b)" using d(3) drip_okD(7) [OF ok, of x i] by auto
  qed (use drip_okD [OF ok] in simp_all)
  moreover have "rows_step a ?b"
    by (rule rows_stepI) (use d in \<open>auto simp: task_kept delivery_kept delivery_origin_def\<close>)
  ultimately show ?thesis using d by (auto simp: lane_step_def lane_frame_def sees_def same_base_def lane_keys_def lane_deliveries_def task_row_def)
qed

lemma materialize_task_step:
  assumes run: "materialize_task now d l a = Inr b" and ok: "drip_ok a" and d: "x \<in> set (deliveries a)" "dlv_pk d = dlv_pk x"
      "dlv_lane x = k" "dlv_lane d = k" "dlv_status x \<in> {D_Planned, D_Queued}"
  shows "lane_step k a b"
proof -
  let ?t = "drip_task d l now (task_seq a + 1)"
  let ?a = "a\<lparr>tasks := tasks a @ [?t], task_seq := task_seq a + 1\<rparr>"
  let ?d = "d\<lparr>current_task := Some (task_pk ?t), dlv_status := D_Queued\<rparr>"
  have b: "b = save_delivery ?d ?a"
    using run unfolding materialize_task_def Let_def by (auto split: if_splits sum.splits)
  have pk: "task_pk ?t = task_seq a + 1" by (simp add: drip_task_def)
  have first: "lane_step k a ?a" by (rule add_task_step [OF ok pk])
  have "rows_step a (save_delivery ?d ?a)"
  proof (rule rows_stepI)
    fix y assume "y \<in> set (deliveries (save_delivery ?d ?a))"
    then have "y = ?d \<or> y \<in> set (deliveries a)" by (auto simp: save_delivery_def)
    moreover have "shifted (task_seq a) x ?d" using d(5) pk by (auto simp: shifted_def)
    ultimately show "delivery_origin a y" using d(1,2) delivery_kept unfolding delivery_origin_def by force
  qed (use pk in \<open>auto simp: task_kept task_origin_def\<close>)
  moreover have "lane_frame k ?a (save_delivery ?d ?a)"
  proof (rule save_delivery_step [where d = x])
    show "drip_ok ?a" by (rule lane_step_ok [OF first])
    fix t assume "current_task ?d = Some t"
    then have t: "t = task_seq a + 1" using pk by simp
    have "current_task y \<noteq> Some t" if "y \<in> set (deliveries a)" for y
      using drip_ok_task_le [OF ok that, of t] t by auto
    then show "t \<in> task_pk ` set (tasks ?a) \<and> (\<forall>y \<in> set (deliveries ?a). current_task y = Some t \<longrightarrow> dlv_pk y = dlv_pk x)"
      using t pk by simp
  qed (use d in simp_all)
  ultimately show ?thesis using first lane_frame_trans unfolding b lane_step_def by blast
qed

lemma materialize_delivery_step:
  assumes run: "materialize_delivery env now l theme i j rendition tm subject a = Inr b" and ok: "drip_ok a" and keyed: "keyed l a"
  shows "lane_step (lane_pk l) a b"
proof -
  obtain subj body where body: "render_step env l rendition j subject = Inr (subj, body)"
    using run unfolding materialize_delivery_def by auto
  define d where "d = \<lparr>dlv_pk = dlv_seq a + 1, dlv_lane = lane_pk l, dlv_theme_key = theme_key theme, dlv_theme_index = i,
    dlv_step_index = j, dlv_subject = subj, dlv_body = body, dlv_scheduled_at = tm, dlv_sent_at = None,
    dlv_status = D_Planned, current_task = None, outbound_message = None, dlv_account = casefold (strip (provider_account l)),
    provider_message_id = '''', provider_thread_id = '''', rfc_message_id = '''', rfc_references = ''''\<rparr>"
  let ?a = "a\<lparr>deliveries := deliveries a @ [d], dlv_seq := dlv_seq a + 1\<rparr>"
  obtain c where c: "materialize_task now d l ?a = Inr c"
    and b: "b = (if lane_channel l = Gmail_lane \<and> gmail_thread_subject l = ''''
      then save_lane (l\<lparr>gmail_thread_subject := subj\<rparr>) c else c)"
    using run unfolding materialize_delivery_def body by (auto simp: Let_def d_def)
  have first: "lane_step (lane_pk l) a ?a" by (rule add_delivery_step [OF ok]) (simp_all add: d_def)
  moreover have second: "lane_step (lane_pk l) ?a c"
    by (rule materialize_task_step [OF c lane_step_ok [OF first], of d]) (simp_all add: d_def)
  ultimately have ac: "lane_step (lane_pk l) a c" by (rule lane_step_trans)
  let ?l = "l\<lparr>gmail_thread_subject := subj\<rparr>"
  have "keyed ?l c" using keyed keyed_step [OF ac, of l] by (simp add: keyed_def)
  then have "lane_step (lane_pk l) c (save_lane ?l c)" using save_lane_step [OF lane_step_ok [OF ac], of ?l] by simp
  then show ?thesis unfolding b using ac lane_step_trans [OF ac] by simp
qed

lemma released_step:
  assumes run: "reconcile_released env now ap allow e l d decs a = Inr (out, b)" and ok: "drip_ok a"
    and x: "x \<in> set (deliveries a)" "dlv_pk d = dlv_pk x" "dlv_lane x = lane_pk l" "dlv_lane d = lane_pk l"
    and st: "dlv_status d = D_Planned \<Longrightarrow> dlv_status x \<in> {D_Planned, D_Queued}"
  shows "lane_step (lane_pk l) a b"
proof -
  have "b = a \<or> (materialize_task now d l a = Inr b \<and> dlv_status d = D_Planned)"
    using run unfolding reconcile_released_def Let_def by (auto split: if_splits)
  then show ?thesis using lane_step_refl [OF ok] materialize_task_step [OF _ ok x st] by blast
qed

lemma existing_step:
  assumes run: "reconcile_existing env now ap allow e l a = Inr (out, b)" and ok: "drip_ok a"
  shows "lane_step (lane_pk l) a b"
proof (cases "\<exists>d k t. outstanding_of l a = [d] \<and> current_task d = Some k \<and> get_row task_pk ''Task'' (tasks a) k = Inr t \<and>
    task_status t \<notin> {PENDING, RUNNING} \<and> dlv_status d \<in> {D_Planned, D_Queued}")
  case True
  then obtain d k t where o: "outstanding_of l a = [d]" and k: "current_task d = Some k"
    and t: "get_row task_pk ''Task'' (tasks a) k = Inr t" "task_status t \<notin> {PENDING, RUNNING}" "dlv_status d \<in> {D_Planned, D_Queued}"
    by blast
  let ?d = "d\<lparr>current_task := None, dlv_status := D_Planned\<rparr>"
  let ?a = "if ap then save_delivery ?d a else a"
  have d: "d \<in> set (deliveries a)" "dlv_lane d = lane_pk l" using outstanding_mem [of d l a] o by auto
  obtain decs where r: "reconcile_released env now ap allow e l ?d decs ?a = Inr (out, b)"
    using run o k t by (auto simp: reconcile_existing_def Let_def)
  have first: "lane_step (lane_pk l) a ?a"
    using save_delivery_step [OF ok d(1), of ?d "lane_pk l"] save_delivery_rows [OF d(1), of ?d "task_seq a"] d t(3)
      lane_step_refl [OF ok] by (auto simp: lane_step_def shifted_def)
  obtain x where "x \<in> set (deliveries ?a)" "dlv_pk ?d = dlv_pk x" "dlv_lane x = lane_pk l" "dlv_status x \<in> {D_Planned, D_Queued}"
  proof (cases ap)
    case True
    have "?d \<in> set (deliveries ?a)" using True d(1) by (auto simp: save_delivery_def)
    then show ?thesis using d that by simp
  next
    case False
    then show ?thesis using d t(3) that by simp
  qed
  then show ?thesis using released_step [OF r lane_step_ok [OF first]] lane_step_trans [OF first] d by simp
next
  case False
  show ?thesis
  proof (cases "outstanding_of l a")
    case Nil
    then show ?thesis using run lane_step_refl [OF ok] by (auto simp: reconcile_existing_def)
  next
    case (Cons d ds)
    show ?thesis
    proof (cases "ds = [] \<and> current_task d = None")
      case True
      have "reconcile_released env now ap allow e l d [] a = Inr (out, b)" using run Cons True by (simp add: reconcile_existing_def)
      moreover have "d \<in> set (deliveries a)" "dlv_lane d = lane_pk l" using outstanding_mem [of d l a] Cons by auto
      ultimately show ?thesis using released_step [OF _ ok] by blast
    next
      case no: False
      have "b = a"
      proof (cases "ds = []")
        case True
        then obtain k where k: "current_task d = Some k" using no by (cases "current_task d") auto
        then obtain t where t: "get_row task_pk ''Task'' (tasks a) k = Inr t" using run Cons True by (auto simp: reconcile_existing_def)
        with False Cons True k have "task_status t \<in> {PENDING, RUNNING} \<or> dlv_status d \<notin> {D_Planned, D_Queued}" by blast
        then show ?thesis using run Cons True k t by (auto simp: reconcile_existing_def split: if_splits)
      next
        case False
        then show ?thesis using run Cons by (cases ds) (auto simp: reconcile_existing_def)
      qed
      then show ?thesis using lane_step_refl [OF ok] by simp
    qed
  qed
qed

lemma theme_step_step:
  assumes run: "theme_step env now ap e l st started subject decs theme rendition k a = Inr (r, b)" and ok: "drip_ok a" and keyed: "keyed l a"
  shows "lane_step (lane_pk l) a b"
proof -
  have "b = a \<or> (\<exists>i tm. materialize_delivery env now l theme k i rendition tm subject a = Inr b)"
    using run unfolding theme_step_def Let_def by (auto split: if_splits option.splits prod.splits)
  then show ?thesis using lane_step_refl [OF ok] materialize_delivery_step [OF _ ok keyed] by blast
qed

lemma progress_keys:
  "lane_pk (progress ap rest k t l) = lane_pk l" "keyed (progress ap rest k t l) a = keyed l a"
  "lane_pk (save_lane_progress st k key t' l) = lane_pk l" "keyed (save_lane_progress st k key t' l) a = keyed l a"
  by (simp_all add: progress_def save_lane_progress_def keyed_def)

lemma theme_loop_step:
  assumes "theme_loop env now ap e n l st started subject decs themes k a = Inr (out, b)" and "drip_ok a" and "keyed l a"
  shows "lane_step (lane_pk l) a b"
  using assms
proof (induction themes arbitrary: l started decs k a)
  case Nil
  let ?l = "save_lane_progress L_Completed n '''' (Some started) l"
  have "lane_step (lane_pk l) a (save_lane ?l a)"
    using save_lane_step [OF Nil.prems(2), of ?l] Nil.prems(3) by (simp add: progress_keys)
  then show ?case using Nil.prems(1) lane_step_refl [OF Nil.prems(2)] by (auto split: if_splits)
next
  case (Cons theme rest)
  have go: "lane_step (lane_pk l) a b"
    if run: "theme_loop env now ap e n (progress ap rest (Suc k) t l) st t subject ds rest (Suc k)
        (if ap then save_lane (progress ap rest (Suc k) t l) c else c) = Inr (out, b)"
      and c: "lane_step (lane_pk l) a c" for t ds c
  proof -
    let ?l = "progress ap rest (Suc k) t l"
    have keyed: "keyed ?l c" using Cons.prems(3) keyed_step [OF c, of l] by (simp add: progress_keys)
    have s: "lane_step (lane_pk ?l) c (if ap then save_lane ?l c else c)"
      using save_lane_step [OF lane_step_ok [OF c] keyed] lane_step_refl [OF lane_step_ok [OF c]] by (cases ap) auto
    have "lane_step (lane_pk ?l) (if ap then save_lane ?l c else c) b"
      by (rule Cons.IH [OF run lane_step_ok [OF s]]) (use keyed keyed_step [OF s, of ?l] in simp)
    then show ?thesis using lane_step_trans [OF c lane_step_trans [OF s [unfolded progress_keys]]] by (simp add: progress_keys)
  qed
  obtain block where block: "map_of (theme_senders theme) (lane_operator l) = Some block"
    using Cons.prems(1) by (auto split: option.splits)
  show ?case
  proof (cases "map_of block (lane_channel l)")
    case None
    then show ?thesis using Cons.prems(1) go [OF _ lane_step_refl [OF Cons.prems(2)]] by (simp add: block Let_def)
  next
    case (Some rendition)
    then obtain r c where r: "theme_step env now ap e l st started subject decs theme rendition k a = Inr (r, c)"
      using Cons.prems(1) by (auto simp: block)
    have c: "lane_step (lane_pk l) a c" by (rule theme_step_step [OF r Cons.prems(2,3)])
    show ?thesis
    proof (cases r)
      case (Halt o1)
      then show ?thesis using Cons.prems(1) r c by (auto simp: block Some)
    next
      case (Advance ds t)
      then show ?thesis using Cons.prems(1) r go [OF _ c] by (simp add: block Some Let_def)
    qed
  qed
qed

lemma handoff_step:
  assumes run: "handoff_stage env now ap e l a = (res, b)" and ok: "drip_ok a" and keyed: "keyed l a"
  shows "lane_step (lane_pk l) a b" and "res = Inr c \<Longrightarrow> lane_pk (cur_lane c) = lane_pk l \<and> keyed (cur_lane c) a"
proof -
  let ?ls = "{l\<lparr>lane_status := wait_status (evaluate_handoff env l)\<rparr>, apply_handoff e (evaluate_handoff env l) now l,
    normal_lane (l\<lparr>lane_status := L_Active\<rparr>)}"
  have cases: "b = a \<or> (\<exists>l' \<in> ?ls. b = save_lane l' a)"
    using run unfolding handoff_stage_def Let_def by (auto split: if_splits)
  have "lane_pk l' = lane_pk l \<and> keyed l' a" if "l' \<in> ?ls" for l' using that keyed by (auto simp: keyed_def)
  with cases show "lane_step (lane_pk l) a b" using lane_step_refl [OF ok] save_lane_step [OF ok] by metis
  show "lane_pk (cur_lane c) = lane_pk l \<and> keyed (cur_lane c) a" if "res = Inr c"
    using run keyed that unfolding handoff_stage_def Let_def by (auto simp: keyed_def split: if_splits)
qed

lemma reconcile_lane_step:
  assumes run: "reconcile_lane env now ap e l a = Inr (out, b)" and ok: "drip_ok a" and keyed: "keyed l a"
  shows "lane_step (lane_pk l) a b"
proof (cases "lane_status l \<in> {L_Stopped, L_Completed}")
  case True
  then show ?thesis using run lane_step_refl [OF ok] by (auto simp: reconcile_lane_def)
next
  case closed: False
  show ?thesis
  proof (cases "lane_status l = L_Paused")
    case True
    then show ?thesis using run existing_step [OF _ ok] by (auto simp: reconcile_lane_def)
  next
    case False
    obtain res a1 where h: "handoff_stage env now ap e l a = (res, a1)" by fastforce
    note s1 = handoff_step [OF h ok keyed]
    show ?thesis
    proof (cases res)
      case (Inl o1)
      then show ?thesis using run h closed False s1(1) by (auto simp: reconcile_lane_def)
    next
      case (Inr c)
      then have rt: "run_themes env now ap e c a1 = Inr (out, b)" using run h closed False by (simp add: reconcile_lane_def)
      have c: "lane_pk (cur_lane c) = lane_pk l" "keyed (cur_lane c) a1" using s1(2) [OF Inr] keyed_step [OF s1(1)] by auto
      note ok1 = lane_step_ok [OF s1(1)]
      have "lane_step (lane_pk (cur_lane c)) a1 b"
      proof (cases "cur_started c")
        case None
        then show ?thesis using rt lane_step_refl [OF ok1] by (auto simp: run_themes_def)
      next
        case (Some t)
        then obtain themes ex a2 where ex: "enrollment_themes e a1 = Inr themes"
            "reconcile_existing env now ap True e (cur_lane c) a1 = Inr (ex, a2)"
          using rt by (auto simp: run_themes_def)
        have s2: "lane_step (lane_pk (cur_lane c)) a1 a2" by (rule existing_step [OF ex(2) ok1])
        show ?thesis
        proof (cases ex)
          case None
          then have loop: "theme_loop env now ap e (length themes) (cur_lane c) (cur_status c) t (cur_subject c) (cur_decisions c)
              (drop (current_theme_index (cur_lane c)) themes) (current_theme_index (cur_lane c)) a2 = Inr (out, b)"
            using rt ex Some by (simp add: run_themes_def Let_def)
          have "keyed (cur_lane c) a2" using keyed_step [OF s2] c by simp
          from theme_loop_step [OF loop lane_step_ok [OF s2] this] show ?thesis by (rule lane_step_trans [OF s2])
        next
          case (Some o1)
          then show ?thesis using rt ex \<open>cur_started c = Some t\<close> s2 by (auto simp: run_themes_def)
        qed
      qed
      then show ?thesis using lane_step_trans [OF s1(1)] c by simp
    qed
  qed
qed

section \<open>What an enrollment sees\<close>

definition lanes_of :: "int \<Rightarrow> drip_db \<Rightarrow> drip_lane list" where
  "lanes_of k db = filter (\<lambda>l. lane_enrollment l = k) (lanes db)"

definition agrees :: "int \<Rightarrow> drip_db \<Rightarrow> drip_db \<Rightarrow> bool" where
  "agrees k a b \<longleftrightarrow> same_base a b \<and> filter (\<lambda>e. enr_pk e = k) (enrollments a) = filter (\<lambda>e. enr_pk e = k) (enrollments b) \<and>
     lanes_of k a = lanes_of k b \<and> (\<forall>l \<in> set (lanes_of k a). sees (lane_pk l) a b)"

definition enrollment_step :: "int \<Rightarrow> drip_db \<Rightarrow> drip_db \<Rightarrow> bool" where
  "enrollment_step k a b \<longleftrightarrow> drip_ok b \<and> lane_keys b = lane_keys a \<and> map enr_pk (enrollments b) = map enr_pk (enrollments a) \<and>
     (\<forall>j. j \<noteq> k \<longrightarrow> agrees j a b) \<and> rows_step a b"

lemma agrees_refl [simp]: "agrees k a a" by (simp add: agrees_def)

lemma agrees_trans: "agrees k a b \<Longrightarrow> agrees k b c \<Longrightarrow> agrees k a c"
  by (auto simp: agrees_def intro: same_base_trans sees_trans [of _ a b c])

lemma agrees_sym: "agrees k a b \<Longrightarrow> agrees k b a"
  by (auto simp: agrees_def intro: same_base_sym sees_sym)

lemma enrollment_step_refl: "drip_ok a \<Longrightarrow> enrollment_step k a a" by (simp add: enrollment_step_def)

lemma enrollment_step_trans: "enrollment_step k a b \<Longrightarrow> enrollment_step k b c \<Longrightarrow> enrollment_step k a c"
  by (auto simp: enrollment_step_def intro: agrees_trans rows_step_trans)

lemma find_filter: "List.find P xs = (case filter P xs of [] \<Rightarrow> None | x # _ \<Rightarrow> Some x)"
  by (induction xs) auto

lemma lock_agrees: "agrees k a b \<Longrightarrow> lock_enrollment_graph k a = lock_enrollment_graph k b"
  by (simp add: agrees_def same_base_def lock_enrollment_graph_def get_row_def find_filter)

lemma lane_enrollment_step:
  assumes step: "lane_step (lane_pk l) a b" and keyed: "keyed l a"
  shows "enrollment_step (lane_enrollment l) a b"
proof -
  have other: "lane_pk x \<noteq> lane_pk l" if "x \<in> set (lanes c)" "lane_enrollment x \<noteq> lane_enrollment l" "lane_keys c = lane_keys a" for x c
  proof
    assume "lane_pk x = lane_pk l"
    moreover have "(lane_pk x, lane_enrollment x, lane_channel x) \<in> set (lane_keys a)"
      unfolding that(3) [symmetric] using that(1) by (auto simp: lane_keys_def)
    ultimately show False using keyed that(2) unfolding keyed_def by fastforce
  qed
  have lanes_eq: "lanes_of j b = lanes_of j a" if j: "j \<noteq> lane_enrollment l" for j
  proof -
    have sub: "lanes_of j c = filter (\<lambda>x. lane_enrollment x = j) (filter (\<lambda>x. lane_pk x \<noteq> lane_pk l) (lanes c))"
      if "lane_keys c = lane_keys a" for c
      unfolding lanes_of_def filter_filter using other [OF _ _ that] j by (intro filter_cong) auto
    have keys: "lane_keys b = lane_keys a" and rows: "filter (\<lambda>x. lane_pk x \<noteq> lane_pk l) (lanes b) = filter (\<lambda>x. lane_pk x \<noteq> lane_pk l) (lanes a)"
      using step by (simp_all add: lane_step_def lane_frame_def)
    show ?thesis unfolding sub [OF keys] sub [OF refl] rows ..
  qed
  have "agrees j a b" if j: "j \<noteq> lane_enrollment l" for j
  proof -
    have "lane_pk x \<noteq> lane_pk l" if "x \<in> set (lanes_of j a)" for x using that j other [of x a] by (auto simp: lanes_of_def)
    then show ?thesis using step lanes_eq [OF j] by (auto simp: agrees_def lane_step_def lane_frame_def)
  qed
  then show ?thesis using step by (auto simp: enrollment_step_def lane_step_def lane_frame_def)
qed

section \<open>The lanes of an enrollment\<close>

lemma hold_lanes_step:
  assumes "hold_lanes env now ap e ls a = Inr (ds, b)" and "drip_ok a" and "\<And>l. l \<in> set ls \<Longrightarrow> keyed l a \<and> lane_enrollment l = k"
  shows "enrollment_step k a b"
  using assms
proof (induction ls arbitrary: a ds)
  case Nil
  then show ?case by (simp add: enrollment_step_refl)
next
  case (Cons l ls)
  obtain out c ds' where x: "reconcile_existing env now ap False e l a = Inr (out, c)" and r: "hold_lanes env now ap e ls c = Inr (ds', b)"
    using Cons.prems(1) by auto
  have l: "keyed l a" "lane_enrollment l = k" using Cons.prems(3) by simp_all
  have s: "lane_step (lane_pk l) a c" by (rule existing_step [OF x Cons.prems(2)])
  have "enrollment_step k c b"
    by (rule Cons.IH [OF r lane_step_ok [OF s]]) (use Cons.prems(3) keyed_step [OF s] in simp)
  then show ?case using lane_enrollment_step [OF s l(1)] l(2) enrollment_step_trans by blast
qed

lemma hold_lanes_announced:
  assumes "hold_lanes env now True e ls a = Inr (ds, a')" and "drip_ok a" and "distinct (map lane_pk ls)"
    and "\<And>l. l \<in> set ls \<Longrightarrow> sees (lane_pk l) a b"
  shows "hold_lanes env now False e ls b = Inr (map announce ds, b)"
  using assms
proof (induction ls arbitrary: a ds)
  case Nil
  then show ?case by simp
next
  case (Cons l ls)
  obtain out c ds' where x: "reconcile_existing env now True False e l a = Inr (out, c)" and r: "hold_lanes env now True e ls c = Inr (ds', a')"
    and ds: "ds = (case out of None \<Rightarrow> [] | Some o1 \<Rightarrow> out_decisions o1) @ ds'"
    using Cons.prems(1) by auto
  have s: "lane_step (lane_pk l) a c" by (rule existing_step [OF x Cons.prems(2)])
  have "sees (lane_pk x) c b" if "x \<in> set ls" for x
  proof -
    have "lane_pk x \<noteq> lane_pk l" using that Cons.prems(3) by (metis distinct.simps(2) image_eqI list.simps(9) set_map)
    then have "sees (lane_pk x) a c" using s by (simp add: lane_step_def lane_frame_def)
    then show ?thesis using Cons.prems(4) [of x] that sees_sym sees_trans by (meson list.set_intros(2))
  qed
  then have IH: "hold_lanes env now False e ls b = Inr (map announce ds', b)"
    by (intro Cons.IH [OF r lane_step_ok [OF s]]) (use Cons.prems(3) in simp_all)
  have "lane_agrees l l" by (simp add: lane_agrees_def)
  from existing_announced [OF x this refl Cons.prems(4)] obtain out' where
    "reconcile_existing env now False False e l b = Inr (out', b)" "rel_option announces out out'" by auto
  then show ?case using IH ds by (cases out; cases out') (auto simp: announces_def)
qed

lemma run_lanes_step:
  assumes "run_lanes env now ap e ls a = Inr (res, b)" and "drip_ok a" and "\<And>l. l \<in> set ls \<Longrightarrow> keyed l a \<and> lane_enrollment l = k"
  shows "enrollment_step k a b"
  using assms
proof (induction ls arbitrary: a res)
  case Nil
  then show ?case by (simp add: enrollment_step_refl)
next
  case (Cons l ls)
  obtain out c where x: "reconcile_lane env now ap e l a = Inr (out, c)"
    and r: "b = c \<or> (\<exists>res. run_lanes env now ap e ls c = Inr (res, b))"
    using Cons.prems(1) by (auto split: if_splits)
  have l: "keyed l a" "lane_enrollment l = k" using Cons.prems(3) by simp_all
  have s: "lane_step (lane_pk l) a c" by (rule reconcile_lane_step [OF x Cons.prems(2) l(1)])
  have first: "enrollment_step k a c" using lane_enrollment_step [OF s l(1)] l(2) by simp
  have "enrollment_step k c b" if "run_lanes env now ap e ls c = Inr (res, b)" for res
    by (rule Cons.IH [OF that lane_step_ok [OF s]]) (use Cons.prems(3) keyed_step [OF s] in simp)
  then show ?case using r first enrollment_step_trans by blast
qed

lemma run_lanes_announced:
  assumes "run_lanes env now True e ls a = Inr ((ds, sts, reason), a')" and "drip_ok a" and "distinct (map lane_pk ls)"
    and "\<And>l. l \<in> set ls \<Longrightarrow> sees (lane_pk l) a b \<and> keyed l a \<and> normal_lane l = l"
  shows "\<exists>sts'. run_lanes env now False e ls b = Inr ((map announce ds, sts', reason), b) \<and>
    list_all (\<lambda>s. s = L_Completed) sts' = list_all (\<lambda>s. s = L_Completed) sts"
  using assms
proof (induction ls arbitrary: a ds sts)
  case Nil
  then show ?case by simp
next
  case (Cons l ls)
  obtain out c where x: "reconcile_lane env now True e l a = Inr (out, c)" using Cons.prems(1) by auto
  have l: "sees (lane_pk l) a b" "keyed l a" "normal_lane l = l" using Cons.prems(4) by simp_all
  have s: "lane_step (lane_pk l) a c" by (rule reconcile_lane_step [OF x Cons.prems(2) l(2)])
  obtain out' where x': "reconcile_lane env now False e l b = Inr (out', b)" and an: "announces out out'"
    using lane_announced [OF x l(3,1)] by blast
  show ?case
  proof (cases "out_stop_reason out = ''''")
    case False
    then show ?thesis using Cons.prems(1) x x' an by (auto simp: announces_def)
  next
    case True
    then obtain ds2 sts2 where r: "run_lanes env now True e ls c = Inr ((ds2, sts2, reason), a')"
      and ds: "ds = out_decisions out @ ds2" "sts = out_status out # sts2" using Cons.prems(1) x by auto
    have "sees (lane_pk y) c b \<and> keyed y c \<and> normal_lane y = y" if "y \<in> set ls" for y
    proof -
      have "lane_pk y \<noteq> lane_pk l" using that Cons.prems(3) by (metis distinct.simps(2) image_eqI list.simps(9) set_map)
      then have "sees (lane_pk y) a c" using s by (simp add: lane_step_def lane_frame_def)
      then show ?thesis using Cons.prems(4) [of y] that sees_sym sees_trans keyed_step [OF s] by (meson list.set_intros(2))
    qed
    then obtain sts' where "run_lanes env now False e ls b = Inr ((map announce ds2, sts', reason), b)"
      "list_all (\<lambda>s. s = L_Completed) sts' = list_all (\<lambda>s. s = L_Completed) sts2"
      using Cons.IH [OF r lane_step_ok [OF s]] Cons.prems(3) by auto
    then show ?thesis using x' an True ds by (auto simp: announces_def)
  qed
qed

section \<open>The enrollment\<close>

lemma find_map_same:
  assumes "\<And>x. pk (f x) = pk x" and "\<And>x. pk x = k \<Longrightarrow> f x = x"
  shows "List.find (\<lambda>x. pk x = k) (map f xs) = List.find (\<lambda>x. pk x = k) xs"
  using assms by (induction xs) auto

lemma stop_below_ok:
  assumes ok: "drip_ok a"
  shows "drip_ok (stop_below mine now reason a)" (is "drip_ok ?b")
proof (rule drip_okI)
  show "distinct (map lane_pk (lanes ?b))" using drip_okD(1) [OF ok] by (simp add: lanes_below comp_def if_distrib cong: if_cong)
  show "distinct (map task_pk (tasks ?b))"
    using drip_okD(8) [OF ok] by (simp add: tasks_below retire_task_def comp_def if_distrib cong: if_cong)
  show "distinct (map dlv_pk (deliveries ?b))"
    using drip_okD(2) [OF ok] by (simp add: deliveries_below comp_def if_distrib cong: if_cong)
  show "one_to_one (deliveries ?b)"
  proof (rule one_to_oneI)
    fix x y t assume "x \<in> set (deliveries ?b)" "y \<in> set (deliveries ?b)" "current_task x = Some t" "current_task y = Some t"
    then obtain x' y' where "x' \<in> set (deliveries a)" "y' \<in> set (deliveries a)" "current_task x' = Some t" "current_task y' = Some t"
      "dlv_pk x' = dlv_pk x" "dlv_pk y' = dlv_pk y" by (auto simp: deliveries_below split: if_splits)
    then show "dlv_pk x = dlv_pk y" using one_to_oneD [OF drip_okD(3) [OF ok]] by metis
  qed
next
  fix l assume "l \<in> set (lanes ?b)"
  then obtain x where x: "x \<in> set (lanes a)" and l: "l = x \<or> l = x\<lparr>lane_status := L_Stopped\<rparr>" by (auto simp: lanes_below)
  have n: "normal_lane x = x" by (rule drip_okD(4) [OF ok x])
  have "normal_lane (x\<lparr>lane_status := L_Stopped\<rparr>) = (normal_lane x)\<lparr>lane_status := L_Stopped\<rparr>" by (simp add: normal_lane_def)
  then show "normal_lane l = l" using l n by auto
next
  fix d assume "d \<in> set (deliveries ?b)"
  then show "dlv_pk d \<le> dlv_seq ?b" using drip_okD(5) [OF ok] by (auto simp: deliveries_below)
next
  fix t assume "t \<in> set (tasks ?b)"
  then show "task_pk t \<le> task_seq ?b" using drip_okD(6) [OF ok] by (auto simp: tasks_below retire_task_def)
next
  fix d i assume "d \<in> set (deliveries ?b)" and i: "current_task d = Some i"
  then obtain x where "x \<in> set (deliveries a)" "current_task x = Some i" by (auto simp: deliveries_below split: if_splits)
  then have "i \<in> task_pk ` set (tasks a)" by (rule drip_okD(7) [OF ok])
  moreover have "map task_pk (tasks ?b) = map task_pk (tasks a)" by (simp add: tasks_below retire_task_def)
  ultimately show "i \<in> task_pk ` set (tasks ?b)" by (metis set_map)
qed

lemma stop_below_sees:
  assumes ok: "drip_ok a" and x: "x \<in> set (lanes a)" "\<not> mine x"
  shows "sees (lane_pk x) a (stop_below mine now reason a)" (is "sees _ a ?b")
proof -
  let ?ids = "below_ids mine a"
  have out: "lane_pk x \<notin> set ?ids"
    using pk_determines [OF drip_okD(1) [OF ok] x(1)] x(2) by (auto simp: below_ids_def)
  have ds: "lane_deliveries (lane_pk x) ?b = lane_deliveries (lane_pk x) a"
    unfolding lane_deliveries_def deliveries_below
    by (rule filter_map_same) (use out in \<open>auto simp: open_delivery_def\<close>)
  have "task_row t ?b = task_row t a" if d: "d \<in> set (lane_deliveries (lane_pk x) a)" "current_task d = Some t" for d t
  proof -
    have "t \<notin> set (below_tasks mine a)"
    proof
      assume "t \<in> set (below_tasks mine a)"
      then obtain y where y: "y \<in> set (deliveries a)" "dlv_lane y \<in> set ?ids" "current_task y = Some t"
        by (auto simp: below_tasks_def open_task_ids_def open_delivery_def List.map_filter_def)
      moreover have m: "d \<in> set (deliveries a)" "dlv_lane d = lane_pk x" using d(1) by (auto simp: lane_deliveries_def)
      ultimately have "dlv_pk y = dlv_pk d" using one_to_oneD [OF drip_okD(3) [OF ok]] d(2) by blast
      then have "y = d" using pk_determines [OF drip_okD(2) [OF ok] y(1) m(1)] by blast
      then show False using y(2) m(2) out by simp
    qed
    then have "task_pk r = t \<Longrightarrow> (if task_pk r \<in> set (below_tasks mine a) \<and> task_status r = PENDING then retire_task now reason r else r) = r" for r
      by simp
    then show ?thesis unfolding task_row_def tasks_below
      by (intro find_map_same) (simp_all add: retire_task_def)
  qed
  then show ?thesis using ds by (auto simp: sees_def same_base_def)
qed

lemma edit_enrollments_step:
  assumes ok: "drip_ok a" and f: "\<And>e. enr_pk (f e) = enr_pk e" "\<And>e. enr_pk e \<noteq> k \<Longrightarrow> f e = e"
  shows "enrollment_step k a (a\<lparr>enrollments := map f (enrollments a)\<rparr>)" (is "enrollment_step k a ?b")
proof -
  have "filter (\<lambda>e. enr_pk e = j) (map f (enrollments a)) = filter (\<lambda>e. enr_pk e = j) (enrollments a)" if "j \<noteq> k" for j
  proof (rule filter_map_same)
    fix e show "f e = e \<or> \<not> enr_pk e = j \<and> \<not> enr_pk (f e) = j" using f that by (cases "enr_pk e = k") auto
  qed
  moreover have "drip_ok ?b" using ok by (simp add: drip_ok_def)
  moreover have "rows_step a ?b" by (rule rows_step_same) simp_all
  ultimately show ?thesis
    using f(1) by (simp add: enrollment_step_def agrees_def same_base_def lanes_of_def sees_def lane_deliveries_def task_row_def
        lane_keys_def)
qed

lemma stop_step:
  assumes run: "stop_enrollment_for_reason k reason now a = Inr (r, b)" and ok: "drip_ok a"
  shows "enrollment_step k a b"
proof -
  let ?f = "\<lambda>x. if enr_pk x = k then stop_enrollment_row now ''shared_stop'' reason (stop_trigger_message x) x else x"
  let ?a = "a\<lparr>enrollments := map ?f (enrollments a)\<rparr>" and ?mine = "\<lambda>l. lane_enrollment l = k"
  have first: "enrollment_step k a ?a"
    by (rule edit_enrollments_step [OF ok]) (simp_all add: stop_enrollment_row_def)
  then have ok1: "drip_ok ?a" by (simp add: enrollment_step_def)
  let ?b = "stop_below ?mine now reason ?a"
  have keys: "lane_keys ?b = lane_keys ?a"
    by (simp add: lane_keys_def lanes_below comp_def if_distrib cong: if_cong)
  have "agrees j ?a ?b" if "j \<noteq> k" for j
  proof -
    have "lanes_of j ?b = lanes_of j ?a"
      unfolding lanes_of_def lanes_below
    proof (rule filter_map_same)
      fix l assume l: "l \<in> set (lanes ?a)"
      show "(if lane_pk l \<in> set (below_ids ?mine ?a) then l\<lparr>lane_status := L_Stopped\<rparr> else l) = l \<or>
        \<not> lane_enrollment l = j \<and> \<not> lane_enrollment (if lane_pk l \<in> set (below_ids ?mine ?a) then l\<lparr>lane_status := L_Stopped\<rparr> else l) = j"
      proof (cases "lane_pk l \<in> set (below_ids ?mine ?a)")
        case True
        then have "lane_enrollment l = k"
          using pk_determines [OF drip_okD(1) [OF ok1] l] by (auto simp: below_ids_def)
        then show ?thesis using that by simp
      qed simp
    qed
    moreover have "sees (lane_pk l) ?a ?b" if "l \<in> set (lanes_of j ?a)" for l
      using stop_below_sees [OF ok1] that \<open>j \<noteq> k\<close> by (simp add: lanes_of_def)
    ultimately show ?thesis by (simp add: agrees_def same_base_def)
  qed
  then have "enrollment_step k ?a ?b" using stop_below_ok [OF ok1] keys stop_below_rows by (simp add: enrollment_step_def)
  moreover have "b = a \<or> b = ?b"
    using run by (auto simp: stop_enrollment_for_reason_def Let_def split: if_splits)
  ultimately show ?thesis using enrollment_step_trans [OF first] enrollment_step_refl [OF ok] by blast
qed

lemma stop_now_step: "stop_now ap k reason now a = Inr b \<Longrightarrow> drip_ok a \<Longrightarrow> enrollment_step k a b"
  by (auto simp: stop_now_def enrollment_step_refl dest: stop_step split: if_splits)

lemma set_enrollment_step:
  "drip_ok a \<Longrightarrow> (\<And>e. enr_pk (f e) = enr_pk e) \<Longrightarrow> enrollment_step k a (set_enrollment k f a)"
  unfolding set_enrollment_def by (rule edit_enrollments_step) simp_all

lemma enrollment_step_ok: "enrollment_step k a b \<Longrightarrow> drip_ok b" by (simp add: enrollment_step_def)

lemma ordered_lanes:
  assumes "drip_ok a"
  shows "distinct (map lane_pk (sort_key lane_order (lanes_of k a)))"
    and "\<And>l. l \<in> set (sort_key lane_order (lanes_of k a)) \<Longrightarrow>
      keyed l a \<and> lane_enrollment l = k \<and> normal_lane l = l \<and> l \<in> set (lanes_of k a)"
proof -
  have "distinct (lanes_of k a)" "inj_on lane_pk (set (lanes_of k a))"
    using drip_okD(1) [OF assms] by (auto simp: lanes_of_def distinct_map intro: inj_on_subset)
  then show "distinct (map lane_pk (sort_key lane_order (lanes_of k a)))" by (simp add: distinct_map)
  fix l assume "l \<in> set (sort_key lane_order (lanes_of k a))"
  then have l: "l \<in> set (lanes a)" "lane_enrollment l = k" "l \<in> set (lanes_of k a)" by (simp_all add: lanes_of_def)
  have "keyed l a" using pk_determines [OF drip_okD(1) [OF assms] _ l(1)] by (fastforce simp: keyed_def lane_keys_def)
  then show "keyed l a \<and> lane_enrollment l = k \<and> normal_lane l = l \<and> l \<in> set (lanes_of k a)"
    using l drip_okD(4) [OF assms] by blast
qed

lemma hold_enrollment_step:
  assumes "hold_enrollment env now ap e ls act detail a = Inr (ds, b)" and "drip_ok a"
    and "\<And>l. l \<in> set ls \<Longrightarrow> keyed l a \<and> lane_enrollment l = k"
  shows "enrollment_step k a b"
  using assms hold_lanes_step by (fastforce simp: hold_enrollment_def)

lemma run_enrollment_step:
  assumes run: "run_enrollment env now ap e ls a = Inr (ds, b)" and ok: "drip_ok a"
    and ls: "\<And>l. l \<in> set ls \<Longrightarrow> keyed l a \<and> lane_enrollment l = enr_pk e"
  shows "enrollment_step (enr_pk e) a b"
proof -
  obtain ds0 sts reason c where r: "run_lanes env now ap e ls a = Inr ((ds0, sts, reason), c)"
    using run by (auto simp: run_enrollment_def)
  have s: "enrollment_step (enr_pk e) a c" by (rule run_lanes_step [OF r ok ls])
  note ok1 = enrollment_step_ok [OF s]
  have "b = c \<or> stop_now ap (enr_pk e) reason now c = Inr b \<or>
      (\<exists>f. b = set_enrollment (enr_pk e) f c \<and> (\<forall>x. enr_pk (f x) = enr_pk x))"
    using run r by (auto simp: run_enrollment_def split: if_splits)
  then have "enrollment_step (enr_pk e) c b"
    using enrollment_step_refl [OF ok1] stop_now_step [OF _ ok1] set_enrollment_step [OF ok1] by blast
  then show ?thesis by (rule enrollment_step_trans [OF s])
qed

lemma reconcile_enrollment_step:
  assumes run: "reconcile_enrollment env now ap k a = Inr (ds, b)" and ok: "drip_ok a"
  shows "enrollment_step k a b"
proof -
  obtain e where e: "lock_enrollment_graph k a = Inr e" using run by (auto simp: reconcile_enrollment_def)
  then have ek: "enr_pk e = k" by (auto simp: lock_enrollment_graph_def dest: get_row_Inr)
  let ?ls = "sort_key lane_order (lanes_of k a)"
  note ls = ordered_lanes [OF ok, where k = k]
  have "b = a \<or> stop_now ap k (stop_reason_now env e a) now a = Inr b \<or>
      (\<exists>act detail. hold_enrollment env now ap e ?ls act detail a = Inr (ds, b)) \<or> run_enrollment env now ap e ?ls a = Inr (ds, b)"
    using run by (auto simp: reconcile_enrollment_def e Let_def lanes_of_def split: if_splits option.splits)
  moreover have "enrollment_step k a b" if "hold_enrollment env now ap e ?ls act detail a = Inr (ds, b)" for act detail
    by (rule hold_enrollment_step [OF that ok]) (use ls(2) in blast)
  moreover have "enrollment_step (enr_pk e) a b" if "run_enrollment env now ap e ?ls a = Inr (ds, b)"
    by (rule run_enrollment_step [OF that ok]) (use ls(2) ek in blast)
  ultimately show ?thesis
    using enrollment_step_refl [OF ok] stop_now_step [OF _ ok] ek by blast
qed

lemma hold_enrollment_announced:
  assumes run: "hold_enrollment env now True e ls act detail a = Inr (ds, a')" and ok: "drip_ok a" and dist: "distinct (map lane_pk ls)"
    and ls: "\<And>l. l \<in> set ls \<Longrightarrow> sees (lane_pk l) a b" and act: "announced_action False act = act"
  shows "hold_enrollment env now False e ls act detail b = Inr (map announce ds, b)"
  using run hold_lanes_announced [OF _ ok dist ls] by (auto simp: hold_enrollment_def announce_enrollment act)

lemma run_enrollment_announced:
  assumes run: "run_enrollment env now True e ls a = Inr (ds, a')" and ok: "drip_ok a" and dist: "distinct (map lane_pk ls)"
    and ls: "\<And>l. l \<in> set ls \<Longrightarrow> sees (lane_pk l) a b \<and> keyed l a \<and> normal_lane l = l"
  shows "run_enrollment env now False e ls b = Inr (map announce ds, b)"
proof -
  obtain ds0 sts reason c where r: "run_lanes env now True e ls a = Inr ((ds0, sts, reason), c)"
    using run by (auto simp: run_enrollment_def)
  from run_lanes_announced [OF r ok dist ls] obtain sts' where
    "run_lanes env now False e ls b = Inr ((map announce ds0, sts', reason), b)"
    "list_all (\<lambda>s. s = L_Completed) sts' = list_all (\<lambda>s. s = L_Completed) sts" by blast
  then show ?thesis using run r
    by (auto simp: run_enrollment_def stop_now_def announce_enrollment announced_enrollment split: if_splits)
qed

lemma reconcile_enrollment_announced:
  assumes run: "reconcile_enrollment env now True k a = Inr (ds, a')" and ok: "drip_ok a" and ag: "agrees k a b"
  shows "reconcile_enrollment env now False k b = Inr (map announce ds, b)"
proof -
  obtain e where e: "lock_enrollment_graph k a = Inr e" "lock_enrollment_graph k b = Inr e"
    using run lock_agrees [OF ag] by (auto simp: reconcile_enrollment_def)
  let ?ls = "sort_key lane_order (lanes_of k a)"
  note ls = ordered_lanes [OF ok, where k = k]
  have lb: "lanes_of k b = lanes_of k a" and base: "campaigns b = campaigns a" "messages a = messages b"
    and sees: "l \<in> set ?ls \<Longrightarrow> sees (lane_pk l) a b" for l
    using ag by (simp_all add: agrees_def same_base_def)
  note reason = stop_reason_messages [OF base(2), of env e]
  show ?thesis
  proof (cases "stop_reason_now env e b \<noteq> ''''")
    case True
    then show ?thesis using run reason
      by (auto simp: reconcile_enrollment_def e Let_def stop_now_def announce_enrollment announced_enrollment)
  next
    case no_stop: False
    show ?thesis
    proof (cases "lane_channel ` set ?ls \<noteq> {Linkedin_lane, Gmail_lane}")
      case True
      then show ?thesis using run reason no_stop
        by (auto simp: reconcile_enrollment_def e Let_def lanes_of_def [symmetric] lb announce_enrollment announced_enrollment)
    next
      case False
      then obtain st where st: "map_of (campaigns a) (enr_campaign e) = Some st"
        and body: "(if st \<noteq> ''active'' then hold_enrollment env now True e ?ls ''campaign_inactive'' (''campaign is '' @ st) a
          else if enr_status e = E_Paused then hold_enrollment env now True e ?ls ''paused'' ''enrollment is paused'' a
          else run_enrollment env now True e ?ls a) = Inr (ds, a')"
        using run reason no_stop by (auto simp: reconcile_enrollment_def e Let_def lanes_of_def [symmetric] split: option.splits)
      have "(if st \<noteq> ''active'' then hold_enrollment env now False e ?ls ''campaign_inactive'' (''campaign is '' @ st) b
          else if enr_status e = E_Paused then hold_enrollment env now False e ?ls ''paused'' ''enrollment is paused'' b
          else run_enrollment env now False e ?ls b) = Inr (map announce ds, b)"
        using body hold_enrollment_announced [OF _ ok ls(1) sees] run_enrollment_announced [OF _ ok ls(1)] sees ls(2)
        by (auto simp: announced_enrollment split: if_splits)
      then show ?thesis using no_stop False st
        by (simp add: reconcile_enrollment_def e Let_def lanes_of_def [symmetric] lb base(1))
    qed
  qed
qed

section \<open>The pass\<close>

lemma reconcile_all_announced:
  assumes "reconcile_all env now True ks a = Inr (ds, a')" and "drip_ok a" and "distinct ks" and "\<And>k. k \<in> set ks \<Longrightarrow> agrees k a b"
  shows "reconcile_all env now False ks b = Inr (map announce ds, b) \<and> drip_ok a'"
  using assms
proof (induction ks arbitrary: a ds)
  case Nil
  then show ?case by simp
next
  case (Cons k ks)
  obtain d1 c d2 where x: "reconcile_enrollment env now True k a = Inr (d1, c)" and r: "reconcile_all env now True ks c = Inr (d2, a')"
    and ds: "ds = d1 @ d2" using Cons.prems(1) by auto
  have s: "enrollment_step k a c" by (rule reconcile_enrollment_step [OF x Cons.prems(2)])
  have "agrees j c b" if "j \<in> set ks" for j
  proof -
    have "j \<noteq> k" using that Cons.prems(3) by auto
    then have "agrees j a c" using s by (simp add: enrollment_step_def)
    then show ?thesis using Cons.prems(4) [of j] that agrees_sym agrees_trans by (meson list.set_intros(2))
  qed
  then have "reconcile_all env now False ks b = Inr (map announce d2, b) \<and> drip_ok a'"
    using Cons.IH [OF r enrollment_step_ok [OF s]] Cons.prems(3) by simp
  then show ?case using reconcile_enrollment_announced [OF x Cons.prems(2) Cons.prems(4)] ds by simp
qed

text \<open>
  C14: a listing announces the pass. When the applying pass of the drip campaigns runs to its end, the listing
  (\<open>apply=False\<close>) of the same tables at the same time gives the same decisions in the same order, each in
  its announced form (\<open>would_materialize\<close> for \<open>materialized\<close> and so on), and it writes nothing.
\<close>

theorem preview_announces_pass:
  assumes "drip_ok db" and "distinct (map enr_pk (enrollments db))" and "reconcile_drips env now True campaign db = Inr (ds, db')"
  shows "reconcile_drips env now False campaign db = Inr (map announce ds, db)"
proof -
  let ?mine = "filter (\<lambda>e. nonterminal_enrollment e \<and> (case campaign of None \<Rightarrow> True | Some c \<Rightarrow> enr_campaign e = c)) (enrollments db)"
  have "distinct (sort (map enr_pk ?mine))" using assms(2) by (auto simp: distinct_map intro: inj_on_subset)
  moreover obtain b where run: "reconcile_all env now True (sort (map enr_pk ?mine)) db = Inr (ds, b)"
    using assms(3) by (auto simp: reconcile_drips_def Let_def)
  ultimately have "reconcile_all env now False (sort (map enr_pk ?mine)) db = Inr (map announce ds, db)"
    using reconcile_all_announced [OF run assms(1), of db] by simp
  then show ?thesis by (simp add: reconcile_drips_def)
qed

text \<open>
  An enrollment whose two lanes are handed over, with a due first step on LinkedIn and a finished task on
  Gmail that left its delivery queued.
\<close>

definition sample_handoff :: handoff_evaluation where
  "sample_handoff = \<lparr>eligible = True, hand_reason = ''done'', completed_at = None, wait_status = L_Waiting_current,
     eval_evidence = [], eval_thread_id = '''', eval_thread_subject = ''''\<rparr>"

definition sample_drip_env :: drip_env where
  "sample_drip_env =
     \<lparr>evaluate_handoff = (\<lambda>_. sample_handoff),
      facts = \<lparr>disqualified = (\<lambda>_. False), suppression = (\<lambda>_. None), has_meeting = (\<lambda>_. False)\<rparr>,
      normalize_due = (\<lambda>t _. t), render_step = (\<lambda>l steps i subject. Inr ('''', step_body (steps ! i)))\<rparr>"

definition sample_manifest :: manifest where
  "sample_manifest = [(''founders'', [\<lparr>theme_key = ''intro'', theme_senders = [(''eracle'',
     [(Linkedin_lane, [\<lparr>step_delay = 5, step_subject = '''', step_body = ''hi''\<rparr>]),
      (Gmail_lane, [\<lparr>step_delay = 5, step_subject = ''s'', step_body = ''hi''\<rparr>])])]\<rparr>])]"

definition sample_pass :: drip_db where
  "sample_pass = sample_drips\<lparr>deliveries := [sample_delivery 21 12 31],
     tasks := [retire_task 26 '''' (drip_task (sample_delivery 21 12 31) (sample_lane 12 1 Gmail_lane) 25 31)],
     enrollments := [sample_enrollment 1 7], versions := [(1, sample_manifest)], messages := []\<rparr>"

lemma sample_pass_runs:
  "case reconcile_drips sample_drip_env 100 True None sample_pass of
     Inl _ \<Rightarrow> False
   | Inr (ds, db) \<Rightarrow> map dec_action ds = [''detached_terminal_task'', ''rematerialized_task'', ''materialized''] \<and>
       length (deliveries db) = 2 \<and> map task_status (tasks db) = [COMPLETED, PENDING, PENDING]"
  by code_simp

lemma sample_pass_ok: "drip_ok sample_pass" "distinct (map enr_pk (enrollments sample_pass))"
  by (simp_all add: drip_ok_def one_to_one_def sample_pass_def sample_defs retire_task_def normal_lane_def) code_simp

theorem preview_announces_pass_witness:
  "\<exists>ds db. reconcile_drips sample_drip_env 100 True None sample_pass = Inr (ds, db) \<and>
     map dec_action ds = [''detached_terminal_task'', ''rematerialized_task'', ''materialized''] \<and>
     reconcile_drips sample_drip_env 100 False None sample_pass = Inr (map announce ds, sample_pass)"
  using sample_pass_runs preview_announces_pass [OF sample_pass_ok]
  by (cases "reconcile_drips sample_drip_env 100 True None sample_pass") force+

end
