(* ===== verification/Drip_Attempts.thy ===== *)
theory Drip_Attempts
  imports Drip_Reconcile
begin

text \<open>
  The attempts to send a drip delivery (\<open>DripDeliveryAttempt\<close> of \<open>drip/models.py\<close>), the locked rows that an
  executor works on (\<open>lock_delivery_graph\<close> of \<open>ownership.py\<close>), and the updates of single rows. An executor
  commits a few transactions; each is a function on the whole state, and an error leaves the state as it was. The
  account of a delivery is normalised when its row is created, so that saving the row again leaves it.
\<close>

section \<open>State\<close>

datatype attempt_outcome = Reserved | Att_sent | Not_submitted | Att_unclear

record drip_attempt =
  att_pk :: int
  att_delivery :: int
  attempt_number :: nat
  submission_attempted_at :: "int option"
  finished_at :: "int option"
  att_outcome :: attempt_outcome
  diagnostic_detail :: string

text \<open>\<open>recorded_actions\<close> are the campaigns of the follow-up actions in the sender's action log.\<close>

record runtime =
  drip :: drip_db
  attempts :: "drip_attempt list"
  att_seq :: int
  msg_seq :: int
  recorded_actions :: "int list"

section \<open>Texts\<close>

fun lane_text :: "lane_status \<Rightarrow> string" where
  "lane_text L_Waiting_current = ''waiting_current''" | "lane_text L_Waiting_connection = ''waiting_connection''"
| "lane_text L_Active = ''active''" | "lane_text L_Paused = ''paused''" | "lane_text L_Stopped = ''stopped''"
| "lane_text L_Completed = ''completed''"

fun enrollment_text :: "enrollment_status \<Rightarrow> string" where
  "enrollment_text E_Waiting = ''waiting''" | "enrollment_text E_Active = ''active''"
| "enrollment_text E_Paused = ''paused''" | "enrollment_text E_Stopped = ''stopped''"
| "enrollment_text E_Completed = ''completed''"

section \<open>Rows\<close>

definition on_drip :: "(drip_db \<Rightarrow> drip_db) \<Rightarrow> runtime \<Rightarrow> runtime" where
  "on_drip f rt = rt\<lparr>drip := f (drip rt)\<rparr>"

definition edit_delivery :: "int \<Rightarrow> (drip_delivery \<Rightarrow> drip_delivery) \<Rightarrow> drip_db \<Rightarrow> drip_db" where
  "edit_delivery k f db = db\<lparr>deliveries := map (\<lambda>d. if dlv_pk d = k then f d else d) (deliveries db)\<rparr>"

definition edit_lane :: "int \<Rightarrow> (drip_lane \<Rightarrow> drip_lane) \<Rightarrow> drip_db \<Rightarrow> drip_db" where
  "edit_lane k f db = db\<lparr>lanes := map (\<lambda>l. if lane_pk l = k then normal_lane (f l) else l) (lanes db)\<rparr>"

definition edit_attempt :: "int \<Rightarrow> (drip_attempt \<Rightarrow> drip_attempt) \<Rightarrow> runtime \<Rightarrow> runtime" where
  "edit_attempt k f rt = rt\<lparr>attempts := map (\<lambda>a. if att_pk a = k then f a else a) (attempts rt)\<rparr>"

definition add_attempt :: "int \<Rightarrow> runtime \<Rightarrow> runtime" where
  "add_attempt k rt =
     (let numbers = map attempt_number (filter (\<lambda>a. att_delivery a = k) (attempts rt))
      in rt\<lparr>attempts := attempts rt @ [\<lparr>att_pk = att_seq rt + 1, att_delivery = k,
            attempt_number = foldr max numbers 0 + 1, submission_attempted_at = None, finished_at = None,
            att_outcome = Reserved, diagnostic_detail = ''''\<rparr>], att_seq := att_seq rt + 1\<rparr>)"

definition finish_attempt :: "attempt_outcome \<Rightarrow> string \<Rightarrow> int \<Rightarrow> drip_attempt \<Rightarrow> drip_attempt" where
  "finish_attempt out detail now a = a\<lparr>att_outcome := out, finished_at := Some now, diagnostic_detail := detail\<rparr>"

definition set_delivery_status :: "drip_status \<Rightarrow> drip_delivery \<Rightarrow> drip_delivery" where
  "set_delivery_status st d = d\<lparr>dlv_status := st\<rparr>"

definition detach_delivery :: "drip_status \<Rightarrow> drip_delivery \<Rightarrow> drip_delivery" where
  "detach_delivery st d = d\<lparr>dlv_status := st, current_task := None\<rparr>"

definition set_lane_status :: "lane_status \<Rightarrow> drip_lane \<Rightarrow> drip_lane" where
  "set_lane_status st l = l\<lparr>lane_status := st\<rparr>"

definition edit_task :: "int \<Rightarrow> (task \<Rightarrow> bool) \<Rightarrow> (task \<Rightarrow> task) \<Rightarrow> drip_db \<Rightarrow> drip_db" where
  "edit_task k P f db = db\<lparr>tasks := map (\<lambda>t. if task_pk t = k \<and> P t then f t else t) (tasks db)\<rparr>"

definition open_attempt :: "drip_attempt \<Rightarrow> bool" where
  "open_attempt a \<longleftrightarrow> att_outcome a = Reserved \<and> finished_at a = None"

section \<open>The locked graph\<close>

record graph =
  g_enrollment :: drip_enrollment
  g_lane :: drip_lane
  g_delivery :: drip_delivery

definition lock_delivery_graph :: "int \<Rightarrow> drip_db \<Rightarrow> (drip_error, graph) result" where
  "lock_delivery_graph k db =
     bind_result (get_row dlv_pk ''DripDelivery'' (deliveries db) k) (\<lambda>d.
     bind_result (get_row lane_pk ''DripLane'' (lanes db) (dlv_lane d)) (\<lambda>l.
     bind_result (lock_enrollment_graph (lane_enrollment l) db) (\<lambda>e.
       Inr \<lparr>g_enrollment = e, g_lane = l, g_delivery = d\<rparr>)))"

definition lock_attempt :: "int \<Rightarrow> int \<Rightarrow> runtime \<Rightarrow> (drip_error, drip_attempt) result" where
  "lock_attempt k delivery rt =
     get_row att_pk ''DripDeliveryAttempt'' (filter (\<lambda>a. att_delivery a = delivery) (attempts rt)) k"

definition lock_task :: "int \<Rightarrow> drip_db \<Rightarrow> (drip_error, task) result" where
  "lock_task k db = get_row task_pk ''Task'' (tasks db) k"

definition campaign_status :: "drip_enrollment \<Rightarrow> drip_db \<Rightarrow> string" where
  "campaign_status e db = (case map_of (campaigns db) (enr_campaign e) of None \<Rightarrow> '''' | Some st \<Rightarrow> st)"

definition controls_active :: "graph \<Rightarrow> drip_db \<Rightarrow> bool" where
  "controls_active g db \<longleftrightarrow> campaign_status (g_enrollment g) db = ''active'' \<and>
     enr_status (g_enrollment g) = E_Active \<and> lane_status (g_lane g) = L_Active"

definition controls_stopped :: "graph \<Rightarrow> bool" where
  "controls_stopped g \<longleftrightarrow> lane_status (g_lane g) \<in> {L_Stopped, L_Completed} \<or>
     enr_status (g_enrollment g) \<in> {E_Stopped, E_Completed}"

text \<open>A transaction that raises is rolled back; the error reaches the caller.\<close>

definition commit :: "runtime \<Rightarrow> (drip_error, 'a \<times> runtime) result \<Rightarrow> (drip_error, 'a) result \<times> runtime" where
  "commit rt r = (case r of Inl e \<Rightarrow> (Inl e, rt) | Inr (x, rt') \<Rightarrow> (Inr x, rt'))"

end
