(* ===== verification/Drip_Ledger.thy ===== *)
theory Drip_Ledger
  imports Drip_Preview Drip_Attempts
begin

text \<open>
  The ledger of the attempts: which attempts block a delivery, what a delivery's row and its task say of
  them, and how a change of one row keeps that. The executors and the passes are proved against it.
\<close>

section \<open>The ledger\<close>

definition submitted :: "drip_attempt \<Rightarrow> bool" where
  "submitted a \<longleftrightarrow> submission_attempted_at a \<noteq> None"

definition blocking :: "drip_attempt \<Rightarrow> bool" where
  "blocking a \<longleftrightarrow> open_attempt a \<or> submitted a"

definition blockers :: "int \<Rightarrow> drip_attempt list \<Rightarrow> drip_attempt list" where
  "blockers k as = filter (\<lambda>a. att_delivery a = k \<and> blocking a) as"

text \<open>A task that a worker may still start: claimable, or claimed and not yet started.\<close>

definition live :: "int list \<Rightarrow> task list \<Rightarrow> int \<Rightarrow> bool" where
  "live cl ts k \<longleftrightarrow> k \<in> set cl \<or> (\<exists>t \<in> set ts. task_pk t = k \<and> task_status t = PENDING)"

definition waiting_delivery :: "drip_delivery \<Rightarrow> bool" where
  "waiting_delivery d \<longleftrightarrow> dlv_status d \<in> {D_Planned, D_Queued, D_Stopped}"

definition status_agrees :: "drip_status \<Rightarrow> drip_attempt list \<Rightarrow> bool" where
  "status_agrees st as \<longleftrightarrow>
     (\<forall>a \<in> set as. (open_attempt a \<longrightarrow> st \<in> {D_Sending, D_Stopped}) \<and>
        (submitted a \<longrightarrow> st \<in> {D_Sending, D_Stopped, D_Sent, D_Unclear}) \<and>
        (att_outcome a = Att_sent \<longrightarrow> st = D_Sent)) \<and>
     (st = D_Sent \<longrightarrow> (\<exists>a \<in> set as. submitted a \<and> att_outcome a = Att_sent))"

definition startable_task :: "int list \<Rightarrow> task list \<Rightarrow> drip_delivery \<Rightarrow> bool" where
  "startable_task cl ts d \<longleftrightarrow> (case current_task d of None \<Rightarrow> False | Some k \<Rightarrow> live cl ts k)"

definition book :: "int list \<Rightarrow> task list \<Rightarrow> drip_attempt list \<Rightarrow> drip_delivery \<Rightarrow> bool" where
  "book cl ts as d \<longleftrightarrow> length as \<le> 1 \<and> status_agrees (dlv_status d) as \<and>
     (startable_task cl ts d \<longrightarrow> as = [] \<and> waiting_delivery d)"

definition attempt_ok :: "runtime \<Rightarrow> drip_attempt \<Rightarrow> bool" where
  "attempt_ok rt a \<longleftrightarrow> att_pk a \<le> att_seq rt \<and> att_delivery a \<le> dlv_seq (drip rt) \<and>
     (att_outcome a = Reserved \<longleftrightarrow> finished_at a = None) \<and> (att_outcome a = Att_sent \<longrightarrow> submitted a)"

definition books_ok :: "int list \<Rightarrow> runtime \<Rightarrow> bool" where
  "books_ok cl rt \<longleftrightarrow> drip_ok (drip rt) \<and> distinct (map att_pk (attempts rt)) \<and>
     (\<forall>a \<in> set (attempts rt). attempt_ok rt a) \<and> (\<forall>k \<in> set cl. k \<le> task_seq (drip rt)) \<and>
     (\<forall>d \<in> set (deliveries (drip rt)). book cl (tasks (drip rt)) (blockers (dlv_pk d) (attempts rt)) d)"

lemma books_okD:
  assumes "books_ok cl rt"
  shows "drip_ok (drip rt)" and "distinct (map att_pk (attempts rt))" and "\<And>a. a \<in> set (attempts rt) \<Longrightarrow> attempt_ok rt a"
    and "\<And>k. k \<in> set cl \<Longrightarrow> k \<le> task_seq (drip rt)"
    and "\<And>d. d \<in> set (deliveries (drip rt)) \<Longrightarrow> book cl (tasks (drip rt)) (blockers (dlv_pk d) (attempts rt)) d"
  using assms unfolding books_ok_def by blast+

lemma books_okI:
  assumes "drip_ok (drip rt)" and "distinct (map att_pk (attempts rt))" and "\<And>a. a \<in> set (attempts rt) \<Longrightarrow> attempt_ok rt a"
    and "\<And>k. k \<in> set cl \<Longrightarrow> k \<le> task_seq (drip rt)"
    and "\<And>d. d \<in> set (deliveries (drip rt)) \<Longrightarrow> book cl (tasks (drip rt)) (blockers (dlv_pk d) (attempts rt)) d"
  shows "books_ok cl rt"
  using assms unfolding books_ok_def by blast

text \<open>The message counter and the action log are not part of it.\<close>

lemma books_ok_cong:
  "drip rt' = drip rt \<Longrightarrow> attempts rt' = attempts rt \<Longrightarrow> att_seq rt' = att_seq rt \<Longrightarrow> books_ok cl rt' = books_ok cl rt"
  by (simp add: books_ok_def attempt_ok_def)

lemma submitted_le:
  assumes "books_ok cl rt" and "d \<in> set (deliveries (drip rt))"
  shows "length (filter (\<lambda>a. att_delivery a = dlv_pk d \<and> submitted a) (attempts rt)) \<le> 1"
proof -
  have "filter (\<lambda>a. att_delivery a = dlv_pk d \<and> submitted a) (attempts rt) = filter submitted (blockers (dlv_pk d) (attempts rt))"
    by (auto simp: blockers_def blocking_def intro: filter_cong)
  moreover have "length (blockers (dlv_pk d) (attempts rt)) \<le> 1" using books_okD(5) [OF assms] by (simp add: book_def)
  ultimately show ?thesis using le_trans [OF length_filter_le] by metis
qed

section \<open>Quiet changes\<close>

definition quiet :: "drip_db \<Rightarrow> drip_db \<Rightarrow> bool" where
  "quiet a b \<longleftrightarrow> drip_ok b \<and> rows_step a b"

lemma quiet_refl: "drip_ok a \<Longrightarrow> quiet a a" by (simp add: quiet_def)

lemma quiet_trans: "quiet a b \<Longrightarrow> quiet b c \<Longrightarrow> quiet a c"
  by (auto simp: quiet_def intro: rows_step_trans)

lemma quiet_ok: "quiet a b \<Longrightarrow> drip_ok b" by (simp add: quiet_def)

lemma live_quiet:
  assumes q: "rows_step a b" and k: "k \<le> task_seq a" and l: "live cl (tasks b) k"
  shows "live cl (tasks a) k"
  using l unfolding live_def
proof
  assume "\<exists>t \<in> set (tasks b). task_pk t = k \<and> task_status t = PENDING"
  then obtain t where "t \<in> set (tasks b)" "task_pk t = k" "task_status t = PENDING" by blast
  moreover from this have "task_origin a t" using q by (simp add: rows_step_def)
  ultimately show "k \<in> set cl \<or> (\<exists>t \<in> set (tasks a). task_pk t = k \<and> task_status t = PENDING)"
    using k by (auto simp: task_origin_def)
qed simp

lemma blockers_closed:
  assumes "book cl ts as d" and "dlv_status d \<in> {D_Planned, D_Queued, D_Failed}" and "\<forall>a \<in> set as. blocking a"
  shows "as = []"
  using assms by (cases as) (auto simp: book_def status_agrees_def blocking_def)

lemma blockers_blocking: "\<forall>a \<in> set (blockers k as). blocking a" by (simp add: blockers_def)

lemma book_waiting: "waiting_delivery d \<Longrightarrow> book cl ts [] d"
  by (auto simp: book_def status_agrees_def waiting_delivery_def)

lemma startable_quiet:
  assumes q: "rows_step a b" and ok: "drip_ok a" and d: "d \<in> set (deliveries a)" "current_task d' = current_task d"
    and s: "startable_task cl (tasks b) d'"
  shows "startable_task cl (tasks a) d"
proof (cases "current_task d")
  case None
  then show ?thesis using s d(2) by (simp add: startable_task_def)
next
  case (Some k)
  then have "k \<le> task_seq a" by (rule drip_ok_task_le [OF ok d(1)])
  then show ?thesis using live_quiet [OF q] s d(2) Some by (simp add: startable_task_def)
qed

lemma book_quiet:
  assumes book: "book cl (tasks a) as d" and all: "\<forall>x \<in> set as. blocking x" and q: "rows_step a b" and ok: "drip_ok a"
    and d: "d \<in> set (deliveries a)" and o: "d' = d \<or> shifted (task_seq a) d d'"
  shows "book cl (tasks b) as d'"
  using o
proof
  assume "d' = d"
  then show ?thesis using book startable_quiet [OF q ok d, of d'] by (auto simp: book_def)
next
  assume s: "shifted (task_seq a) d d'"
  show ?thesis
  proof (cases "dlv_status d = D_Sending")
    case True
    then have "dlv_status d' = D_Stopped" "current_task d' = current_task d" using s by (auto simp: shifted_def)
    then show ?thesis using book startable_quiet [OF q ok d, of d'] True
      by (auto simp: book_def status_agrees_def waiting_delivery_def)
  next
    case False
    then have "dlv_status d \<in> {D_Planned, D_Queued, D_Failed}" "waiting_delivery d'"
      using s by (auto simp: shifted_def waiting_delivery_def)
    then show ?thesis using blockers_closed [OF book _ all] book_waiting by simp
  qed
qed

lemma ledger_quiet:
  assumes ok: "books_ok cl rt" and q: "quiet (drip rt) db"
  shows "books_ok cl (rt\<lparr>drip := db\<rparr>)"
proof (rule books_okI)
  have rows: "rows_step (drip rt) db" and okb: "drip_ok db" using q by (simp_all add: quiet_def)
  show "drip_ok (drip (rt\<lparr>drip := db\<rparr>))" using okb by simp
  show "distinct (map att_pk (attempts (rt\<lparr>drip := db\<rparr>)))" using books_okD(2) [OF ok] by simp
  show "attempt_ok (rt\<lparr>drip := db\<rparr>) a" if "a \<in> set (attempts (rt\<lparr>drip := db\<rparr>))" for a
    using that books_okD(3) [OF ok, of a] rows by (auto simp: attempt_ok_def rows_step_def)
  show "k \<le> task_seq (drip (rt\<lparr>drip := db\<rparr>))" if "k \<in> set cl" for k
    using that books_okD(4) [OF ok, of k] rows by (auto simp: rows_step_def)
  fix d assume "d \<in> set (deliveries (drip (rt\<lparr>drip := db\<rparr>)))"
  then have "delivery_origin (drip rt) d" using rows by (simp add: rows_step_def)
  then consider x where "x \<in> set (deliveries (drip rt))" "dlv_pk x = dlv_pk d" "d = x \<or> shifted (task_seq (drip rt)) x d"
    | "dlv_seq (drip rt) < dlv_pk d" "waiting_delivery d"
    unfolding delivery_origin_def waiting_delivery_def by blast
  then have "book cl (tasks db) (blockers (dlv_pk d) (attempts rt)) d"
  proof cases
    case 1
    then show ?thesis
      using book_quiet [OF books_okD(5) [OF ok 1(1)] blockers_blocking rows books_okD(1) [OF ok] 1(1,3)] by simp
  next
    case 2
    have "blockers (dlv_pk d) (attempts rt) = []"
      using books_okD(3) [OF ok] 2(1) by (fastforce simp: blockers_def attempt_ok_def filter_empty_conv)
    then show ?thesis using book_waiting [OF 2(2)] by simp
  qed
  then show "book cl (tasks (drip (rt\<lparr>drip := db\<rparr>))) (blockers (dlv_pk d) (attempts (rt\<lparr>drip := db\<rparr>))) d" by simp
qed

section \<open>Changes of one row\<close>

lemma edit_delivery_frame [simp]:
  "lanes (edit_delivery k f db) = lanes db" "tasks (edit_delivery k f db) = tasks db" "messages (edit_delivery k f db) = messages db"
  "enrollments (edit_delivery k f db) = enrollments db" "dlv_seq (edit_delivery k f db) = dlv_seq db"
  "task_seq (edit_delivery k f db) = task_seq db"
  by (simp_all add: edit_delivery_def)

lemma edit_lane_frame [simp]:
  "deliveries (edit_lane k f db) = deliveries db" "tasks (edit_lane k f db) = tasks db" "messages (edit_lane k f db) = messages db"
  "enrollments (edit_lane k f db) = enrollments db" "dlv_seq (edit_lane k f db) = dlv_seq db" "task_seq (edit_lane k f db) = task_seq db"
  by (simp_all add: edit_lane_def)

lemma edit_task_frame [simp]:
  "deliveries (edit_task k P f db) = deliveries db" "lanes (edit_task k P f db) = lanes db" "messages (edit_task k P f db) = messages db"
  "enrollments (edit_task k P f db) = enrollments db" "dlv_seq (edit_task k P f db) = dlv_seq db" "task_seq (edit_task k P f db) = task_seq db"
  by (simp_all add: edit_task_def)

lemma edit_attempt_frame [simp]:
  "drip (edit_attempt k f rt) = drip rt" "att_seq (edit_attempt k f rt) = att_seq rt"
  "edit_attempt k f (rt\<lparr>drip := db\<rparr>) = (edit_attempt k f rt)\<lparr>drip := db\<rparr>"
  "attempts (on_drip g rt) = attempts rt" "att_seq (on_drip g rt) = att_seq rt" "drip (on_drip g rt) = g (drip rt)"
  by (simp_all add: edit_attempt_def on_drip_def)

lemma edit_lane_quiet:
  assumes ok: "drip_ok a" and f: "\<And>l. lane_pk (f l) = lane_pk l"
  shows "quiet a (edit_lane k f a)"
proof -
  have "map lane_pk (lanes (edit_lane k f a)) = map lane_pk (lanes a)" using f by (simp add: edit_lane_def)
  moreover have "normal_lane l = l" if "l \<in> set (lanes (edit_lane k f a))" for l
    using that drip_okD(4) [OF ok] by (auto simp: edit_lane_def)
  ultimately have "drip_ok (edit_lane k f a)" using ok by (simp add: drip_ok_def)
  then show ?thesis by (simp add: quiet_def rows_step_same)
qed

lemma edit_task_ok:
  assumes ok: "drip_ok a" and f: "\<And>t. task_pk (f t) = task_pk t"
  shows "drip_ok (edit_task k P f a)"
proof -
  have pks: "map task_pk (tasks (edit_task k P f a)) = map task_pk (tasks a)" using f by (simp add: edit_task_def)
  then have "task_pk ` set (tasks (edit_task k P f a)) = task_pk ` set (tasks a)" by (metis set_map)
  moreover have "task_pk t \<le> task_seq a" if "t \<in> set (tasks (edit_task k P f a))" for t
    using that f drip_okD(6) [OF ok] by (auto simp: edit_task_def)
  ultimately show ?thesis using ok pks by (simp add: drip_ok_def)
qed

lemma edit_task_quiet:
  assumes ok: "drip_ok a" and f: "\<And>t. task_pk (f t) = task_pk t" "\<And>t. task_status (f t) = PENDING \<Longrightarrow> task_status t = PENDING"
  shows "quiet a (edit_task k P f a)"
proof -
  have "task_origin a t" if "t \<in> set (tasks (edit_task k P f a))" for t
    using that f unfolding task_origin_def edit_task_def by force
  then have "rows_step a (edit_task k P f a)" by (intro rows_stepI) (simp_all add: delivery_kept)
  then show ?thesis using edit_task_ok [OF ok f(1)] by (simp add: quiet_def)
qed

lemma edit_delivery_ok:
  assumes ok: "drip_ok a" and f: "\<And>d. dlv_pk (f d) = dlv_pk d" "\<And>d. current_task (f d) \<in> {current_task d, None}"
  shows "drip_ok (edit_delivery k f a)"
proof (rule drip_okI)
  let ?b = "edit_delivery k f a"
  have mem: "\<exists>y \<in> set (deliveries a). dlv_pk x = dlv_pk y \<and> current_task x \<in> {current_task y, None}" if "x \<in> set (deliveries ?b)" for x
    using that f unfolding edit_delivery_def by fastforce
  have pks: "map dlv_pk (deliveries ?b) = map dlv_pk (deliveries a)" using f(1) by (simp add: edit_delivery_def)
  then show "distinct (map dlv_pk (deliveries ?b))" using drip_okD(2) [OF ok] by simp
  show "one_to_one (deliveries ?b)"
  proof (rule one_to_oneI)
    fix x y t assume x: "x \<in> set (deliveries ?b)" and y: "y \<in> set (deliveries ?b)" and t: "current_task x = Some t" "current_task y = Some t"
    obtain x' y' where "x' \<in> set (deliveries a)" "dlv_pk x = dlv_pk x'" "current_task x' = Some t"
        "y' \<in> set (deliveries a)" "dlv_pk y = dlv_pk y'" "current_task y' = Some t"
      using mem [OF x] mem [OF y] t by auto
    then show "dlv_pk x = dlv_pk y" using one_to_oneD [OF drip_okD(3) [OF ok], of x' y' t] by simp
  qed
  fix x assume x: "x \<in> set (deliveries ?b)"
  then show "dlv_pk x \<le> dlv_seq ?b" using mem [OF x] drip_okD(5) [OF ok] by auto
  fix t assume "current_task x = Some t"
  then show "t \<in> task_pk ` set (tasks ?b)" using mem [OF x] drip_okD(7) [OF ok] by auto
qed (use drip_okD [OF ok] in simp_all)

lemma blockers_edit:
  assumes dist: "distinct (map att_pk as)" and a: "a \<in> set as" and g: "\<And>x. att_delivery (g x) = att_delivery x"
  shows "k \<noteq> att_delivery a \<Longrightarrow> blockers k (map (\<lambda>x. if att_pk x = att_pk a then g x else x) as) = blockers k as"
    and "blockers (att_delivery a) as = [a] \<Longrightarrow>
      blockers (att_delivery a) (map (\<lambda>x. if att_pk x = att_pk a then g x else x) as) = (if blocking (g a) then [g a] else [])"
proof -
  have same: "x = a" if "x \<in> set as" "att_pk x = att_pk a" for x using pk_determines [OF dist that(1) a that(2)] .
  show "blockers k (map (\<lambda>x. if att_pk x = att_pk a then g x else x) as) = blockers k as" if "k \<noteq> att_delivery a"
    unfolding blockers_def by (rule filter_map_same) (use same g that in auto)
  assume one: "blockers (att_delivery a) as = [a]"
  let ?P = "\<lambda>x. att_delivery x = att_delivery a \<and> blocking x"
  let ?h = "\<lambda>x. if att_pk x = att_pk a then g x else x"
  have dist2: "distinct as" using dist by (simp add: distinct_map)
  obtain ys zs where as: "as = ys @ a # zs" using a by (auto simp: in_set_conv_decomp)
  have "a \<in> set (blockers (att_delivery a) as)" using one by simp
  then have pa: "?P a" unfolding blockers_def by simp
  have "filter ?P ys @ a # filter ?P zs = [a]" using one pa unfolding blockers_def as by simp
  then have "length (filter ?P ys @ a # filter ?P zs) = 1" by simp
  then have "filter ?P ys = [] \<and> filter ?P zs = []" by simp
  moreover have "att_pk a \<notin> att_pk ` set ys" "att_pk a \<notin> att_pk ` set zs" using dist unfolding as by simp_all
  then have "map ?h ys = ys" "map ?h zs = zs" by (auto simp: image_iff intro!: map_idI)
  ultimately show "blockers (att_delivery a) (map ?h as) = (if blocking (g a) then [g a] else [])"
    using g [of a] by (simp add: as blockers_def)
qed

text \<open>One attempt and the row of its delivery change together.\<close>

lemma ledger_edit:
  assumes ok: "books_ok cl rt" and a: "a \<in> set (attempts rt)" and d: "d \<in> set (deliveries (drip rt))" "dlv_pk d = att_delivery a"
    and g: "\<And>x. att_delivery (g x) = att_delivery x" "\<And>x. att_pk (g x) = att_pk x" "attempt_ok rt (g a)"
    and f: "\<And>x. dlv_pk (f x) = dlv_pk x" "\<And>x. current_task (f x) \<in> {current_task x, None}"
    and blocks: "blockers (att_delivery a) (attempts rt) = [a]"
    and agrees: "status_agrees (dlv_status (f d)) (if blocking (g a) then [g a] else [])"
  shows "books_ok cl (on_drip (edit_delivery (dlv_pk d) f) (edit_attempt (att_pk a) g rt))"
proof (rule books_okI)
  let ?rt = "on_drip (edit_delivery (dlv_pk d) f) (edit_attempt (att_pk a) g rt)"
  have base: "drip_ok (drip rt)" "distinct (map att_pk (attempts rt))" using books_okD [OF ok] by simp_all
  have same_a: "x = a" if "x \<in> set (attempts rt)" "att_pk x = att_pk a" for x using pk_determines [OF base(2) that(1) a that(2)] .
  have same_d: "x = d" if "x \<in> set (deliveries (drip rt))" "dlv_pk x = dlv_pk d" for x
    using pk_determines [OF drip_okD(2) [OF base(1)] that(1) d(1) that(2)] .
  have att: "attempts ?rt = map (\<lambda>x. if att_pk x = att_pk a then g x else x) (attempts rt)" by (simp add: edit_attempt_def)
  show "drip_ok (drip ?rt)" using edit_delivery_ok [OF base(1) f] by simp
  show "distinct (map att_pk (attempts ?rt))" using base(2) g(2) unfolding att by (simp add: comp_def if_distrib cong: if_cong)
  show "attempt_ok ?rt x" if x: "x \<in> set (attempts ?rt)" for x
  proof -
    obtain y where "y \<in> set (attempts rt)" "x = (if att_pk y = att_pk a then g y else y)" using x unfolding att by auto
    then have "attempt_ok rt x" using g(3) books_okD(3) [OF ok] same_a by (cases "att_pk y = att_pk a") auto
    then show ?thesis by (simp add: attempt_ok_def)
  qed
  show "k \<le> task_seq (drip ?rt)" if "k \<in> set cl" for k using books_okD(4) [OF ok that] by simp
  fix x assume "x \<in> set (deliveries (drip ?rt))"
  then obtain y where y: "y \<in> set (deliveries (drip rt))" "x = (if dlv_pk y = dlv_pk d then f y else y)"
    by (auto simp: edit_delivery_def)
  note bk = books_okD(5) [OF ok y(1)]
  show "book cl (tasks (drip ?rt)) (blockers (dlv_pk x) (attempts ?rt)) x"
  proof (cases "dlv_pk y = dlv_pk d")
    case True
    then have yd: "y = d" "x = f d" using same_d y by auto
    have "\<not> startable_task cl (tasks (drip rt)) d" using bk blocks d(2) by (auto simp: book_def yd)
    then have "\<not> startable_task cl (tasks (drip rt)) (f d)" using f(2) [of d] by (auto simp: startable_task_def)
    moreover have "blockers (dlv_pk x) (attempts ?rt) = (if blocking (g a) then [g a] else [])"
      using blockers_edit(2) [OF base(2) a g(1) blocks] f(1) d(2) yd unfolding att by simp
    ultimately show ?thesis using agrees yd by (simp add: book_def)
  next
    case False
    then have "blockers (dlv_pk x) (attempts ?rt) = blockers (dlv_pk y) (attempts rt)"
      using blockers_edit(1) [OF base(2) a g(1), of "dlv_pk y"] y d(2) unfolding att by simp
    then show ?thesis using bk False y by simp
  qed
qed

lemma edit_delivery_id: "on_drip (edit_delivery k (\<lambda>d. d)) rt = rt"
  by (simp add: on_drip_def edit_delivery_def cong: if_cong)

lemma ledger_edit_attempt:
  assumes "books_ok cl rt" and "a \<in> set (attempts rt)" and "d \<in> set (deliveries (drip rt))" "dlv_pk d = att_delivery a"
    and "\<And>x. att_delivery (g x) = att_delivery x" "\<And>x. att_pk (g x) = att_pk x" "attempt_ok rt (g a)"
    and "blockers (att_delivery a) (attempts rt) = [a]"
    and "status_agrees (dlv_status d) (if blocking (g a) then [g a] else [])"
  shows "books_ok cl (edit_attempt (att_pk a) g rt)"
  using ledger_edit [OF assms(1-7), of "\<lambda>d. d"] assms(8,9) by (simp add: edit_delivery_id)

text \<open>The row of a delivery that nothing blocks changes alone.\<close>

lemma ledger_edit_delivery:
  assumes ok: "books_ok cl rt" and d: "d \<in> set (deliveries (drip rt))"
    and f: "\<And>x. dlv_pk (f x) = dlv_pk x" "\<And>x. current_task (f x) \<in> {current_task x, None}"
    and book: "book cl (tasks (drip rt)) (blockers (dlv_pk d) (attempts rt)) (f d)"
  shows "books_ok cl (on_drip (edit_delivery (dlv_pk d) f) rt)"
proof (rule books_okI)
  let ?rt = "on_drip (edit_delivery (dlv_pk d) f) rt"
  have base: "drip_ok (drip rt)" using books_okD [OF ok] by simp
  show "drip_ok (drip ?rt)" using edit_delivery_ok [OF base f] by simp
  show "distinct (map att_pk (attempts ?rt))" using books_okD(2) [OF ok] by simp
  show "attempt_ok ?rt x" if "x \<in> set (attempts ?rt)" for x using books_okD(3) [OF ok] that by (simp add: attempt_ok_def)
  show "k \<le> task_seq (drip ?rt)" if "k \<in> set cl" for k using books_okD(4) [OF ok that] by simp
  fix x assume "x \<in> set (deliveries (drip ?rt))"
  then obtain y where y: "y \<in> set (deliveries (drip rt))" "x = (if dlv_pk y = dlv_pk d then f y else y)"
    by (auto simp: edit_delivery_def)
  show "book cl (tasks (drip ?rt)) (blockers (dlv_pk x) (attempts ?rt)) x"
  proof (cases "dlv_pk y = dlv_pk d")
    case True
    then have "y = d" using pk_determines [OF drip_okD(2) [OF base] y(1) d] by simp
    then show ?thesis using book f(1) y by simp
  next
    case False
    then show ?thesis using y books_okD(5) [OF ok y(1)] by simp
  qed
qed

section \<open>The locked rows\<close>

lemma lock_graphD:
  assumes "lock_delivery_graph k db = Inr g"
  shows "g_delivery g \<in> set (deliveries db)" and "dlv_pk (g_delivery g) = k" and "g_lane g \<in> set (lanes db)"
    and "lane_pk (g_lane g) = dlv_lane (g_delivery g)" and "g_enrollment g \<in> set (enrollments db)"
    and "enr_pk (g_enrollment g) = lane_enrollment (g_lane g)"
  using assms unfolding lock_delivery_graph_def lock_enrollment_graph_def by (auto dest!: get_row_Inr)

lemma lock_attemptD:
  assumes "lock_attempt p k rt = Inr a"
  shows "a \<in> set (attempts rt)" and "att_pk a = p" and "att_delivery a = k"
  using assms unfolding lock_attempt_def by (auto dest!: get_row_Inr)

lemma lock_taskD: "lock_task k db = Inr t \<Longrightarrow> t \<in> set (tasks db) \<and> task_pk t = k"
  unfolding lock_task_def by (rule get_row_Inr)

lemma blockers_one:
  assumes "books_ok cl rt" and "d \<in> set (deliveries (drip rt))" and "a \<in> set (attempts rt)" "att_delivery a = dlv_pk d" "blocking a"
  shows "blockers (dlv_pk d) (attempts rt) = [a]"
proof -
  have "a \<in> set (blockers (dlv_pk d) (attempts rt))" using assms(3-5) by (simp add: blockers_def)
  moreover have "length (blockers (dlv_pk d) (attempts rt)) \<le> 1" using books_okD(5) [OF assms(1,2)] by (simp add: book_def)
  ultimately show ?thesis by (cases "blockers (dlv_pk d) (attempts rt)") auto
qed

lemma startable_free:
  assumes "books_ok cl rt" and "d \<in> set (deliveries (drip rt))" and "current_task d = Some k" and "live cl (tasks (drip rt)) k"
  shows "blockers (dlv_pk d) (attempts rt) = []" and "waiting_delivery d"
  using books_okD(5) [OF assms(1,2)] assms(3,4) by (simp_all add: book_def startable_task_def)

lemma status_of_blocker:
  assumes "books_ok cl rt" and "d \<in> set (deliveries (drip rt))" and "a \<in> set (attempts rt)" "att_delivery a = dlv_pk d"
  shows "open_attempt a \<Longrightarrow> dlv_status d \<in> {D_Sending, D_Stopped}"
    and "submitted a \<Longrightarrow> dlv_status d \<in> {D_Sending, D_Stopped, D_Sent, D_Unclear}"
proof -
  have agrees: "status_agrees (dlv_status d) (blockers (dlv_pk d) (attempts rt))"
    using books_okD(5) [OF assms(1,2)] by (simp add: book_def)
  show "dlv_status d \<in> {D_Sending, D_Stopped}" if "open_attempt a"
    using agrees assms(3,4) that by (auto simp: status_agrees_def blockers_def blocking_def)
  show "dlv_status d \<in> {D_Sending, D_Stopped, D_Sent, D_Unclear}" if "submitted a"
    using agrees assms(3,4) that by (auto simp: status_agrees_def blockers_def blocking_def)
qed

section \<open>What the executors do to the ledger\<close>

definition closes :: "drip_attempt \<Rightarrow> string \<Rightarrow> int \<Rightarrow> runtime \<Rightarrow> runtime" where
  "closes a detail now rt = edit_attempt (att_pk a) (finish_attempt Not_submitted detail now) rt"

lemma finish_attempt_fields [simp]:
  "att_pk (finish_attempt out detail now a) = att_pk a" "att_delivery (finish_attempt out detail now a) = att_delivery a"
  "submitted (finish_attempt out detail now a) = submitted a" "open_attempt (finish_attempt out detail now a) = False"
  "att_outcome (finish_attempt out detail now a) = out" "blocking (finish_attempt out detail now a) = submitted a"
  by (simp_all add: finish_attempt_def submitted_def open_attempt_def blocking_def)

lemma finished_ok:
  "attempt_ok rt a \<Longrightarrow> out \<noteq> Reserved \<Longrightarrow> (out = Att_sent \<Longrightarrow> submitted a) \<Longrightarrow> attempt_ok rt (finish_attempt out detail now a)"
  by (simp add: attempt_ok_def finish_attempt_def submitted_def)

lemma ledger_close:
  assumes ok: "books_ok cl rt" and d: "d \<in> set (deliveries (drip rt))" and a: "a \<in> set (attempts rt)" "att_delivery a = dlv_pk d"
    and o: "open_attempt a" "\<not> submitted a"
  shows "books_ok cl (closes a detail now rt)" and "blockers (dlv_pk d) (attempts (closes a detail now rt)) = []"
proof -
  have one: "blockers (dlv_pk d) (attempts rt) = [a]" by (rule blockers_one [OF ok d a]) (simp add: blocking_def o)
  have "attempt_ok rt (finish_attempt Not_submitted detail now a)" by (rule finished_ok [OF books_okD(3) [OF ok a(1)]]) simp_all
  moreover have "dlv_status d \<in> {D_Sending, D_Stopped}" by (rule status_of_blocker(1) [OF ok d a o(1)])
  ultimately show "books_ok cl (closes a detail now rt)"
    unfolding closes_def using one a o
    by (intro ledger_edit_attempt [OF ok a(1) d]) (auto simp: status_agrees_def)
  have "blockers (dlv_pk d) (attempts (edit_attempt (att_pk a) (finish_attempt Not_submitted detail now) rt)) =
      (if blocking (finish_attempt Not_submitted detail now a) then [finish_attempt Not_submitted detail now a] else [])"
    using blockers_edit(2) [OF books_okD(2) [OF ok] a(1), of "finish_attempt Not_submitted detail now"] one a(2)
    unfolding edit_attempt_def by simp
  then show "blockers (dlv_pk d) (attempts (closes a detail now rt)) = []" using o(2) by (simp add: closes_def)
qed

lemma ledger_release:
  assumes ok: "books_ok cl rt" and d: "d \<in> set (deliveries (drip rt))" "blockers (dlv_pk d) (attempts rt) = []"
    and f: "\<And>x. dlv_pk (f x) = dlv_pk x" "\<And>x. current_task (f x) \<in> {current_task x, None}" "waiting_delivery (f d)"
  shows "books_ok cl (on_drip (edit_delivery (dlv_pk d) f) rt)"
  using ledger_edit_delivery [OF ok d(1) f(1,2)] book_waiting [OF f(3)] d(2) by simp

lemma ledger_on_drip:
  assumes "books_ok cl rt" and "quiet (drip rt) (f (drip rt))"
  shows "books_ok cl (on_drip f rt)"
  using ledger_quiet [OF assms] by (simp add: on_drip_def)

text \<open>The end of an attempt that crossed the submit boundary, or whose state is not known.\<close>

lemma ledger_finish:
  assumes ok: "books_ok cl rt" and d: "d \<in> set (deliveries (drip rt))" and a: "a \<in> set (attempts rt)" "att_delivery a = dlv_pk d"
    and o: "open_attempt a" and out: "out \<noteq> Reserved"
    and f: "\<And>x. dlv_pk (f x) = dlv_pk x" "\<And>x. current_task (f x) \<in> {current_task x, None}"
    and st: "dlv_status (f d) = D_Unclear \<and> out \<noteq> Att_sent \<or> dlv_status (f d) = D_Sent \<and> submitted a \<and> out = Att_sent"
  shows "books_ok cl (on_drip (edit_delivery (dlv_pk d) f) (edit_attempt (att_pk a) (finish_attempt out detail now) rt))"
proof (rule ledger_edit [OF ok a(1) d a(2) [symmetric]])
  show "blockers (att_delivery a) (attempts rt) = [a]"
    using blockers_one [OF ok d a] o a(2) by (simp add: blocking_def)
  show "attempt_ok rt (finish_attempt out detail now a)" by (rule finished_ok [OF books_okD(3) [OF ok a(1)] out]) (use st in blast)
  show "status_agrees (dlv_status (f d))
      (if blocking (finish_attempt out detail now a) then [finish_attempt out detail now a] else [])"
    using st by (auto simp: status_agrees_def)
qed (use f in simp_all)

lemma ledger_stamp:
  assumes ok: "books_ok cl rt" and d: "d \<in> set (deliveries (drip rt))" and a: "a \<in> set (attempts rt)" "att_delivery a = dlv_pk d"
    and o: "open_attempt a"
  shows "books_ok cl (edit_attempt (att_pk a) (\<lambda>a. a\<lparr>submission_attempted_at := Some now\<rparr>) rt)"
proof (rule ledger_edit_attempt [OF ok a(1) d a(2) [symmetric]])
  show "blockers (att_delivery a) (attempts rt) = [a]"
    using blockers_one [OF ok d a] o a(2) by (simp add: blocking_def)
  show "attempt_ok rt (a\<lparr>submission_attempted_at := Some now\<rparr>)" using books_okD(3) [OF ok a(1)] by (simp add: attempt_ok_def submitted_def)
  show "status_agrees (dlv_status d)
     (if blocking (a\<lparr>submission_attempted_at := Some now\<rparr>) then [a\<lparr>submission_attempted_at := Some now\<rparr>] else [])"
    using status_of_blocker(1) [OF ok d a o] o by (auto simp: status_agrees_def blocking_def open_attempt_def submitted_def)
qed simp_all

text \<open>The reservation: its task is running and no longer waits to be started.\<close>

lemma add_attempt_frame [simp]:
  "drip (add_attempt k rt) = drip rt" "att_seq (add_attempt k rt) = att_seq rt + 1"
  by (simp_all add: add_attempt_def Let_def)

definition reserved_row :: "int \<Rightarrow> runtime \<Rightarrow> drip_attempt" where
  "reserved_row k rt = last (attempts (add_attempt k rt))"

lemma attempts_add: "attempts (add_attempt k rt) = attempts rt @ [reserved_row k rt]"
  by (simp add: reserved_row_def add_attempt_def Let_def)

lemma reserved_row_fields [simp]:
  "att_pk (reserved_row k rt) = att_seq rt + 1" "att_delivery (reserved_row k rt) = k" "open_attempt (reserved_row k rt)"
  "\<not> submitted (reserved_row k rt)" "blocking (reserved_row k rt)" "att_outcome (reserved_row k rt) = Reserved"
  "finished_at (reserved_row k rt) = None"
  by (simp_all add: reserved_row_def add_attempt_def Let_def open_attempt_def submitted_def blocking_def)

lemma set_status_fields [simp]:
  "dlv_pk (set_delivery_status st d) = dlv_pk d" "current_task (set_delivery_status st d) = current_task d"
  "dlv_status (set_delivery_status st d) = st" "dlv_pk (detach_delivery st d) = dlv_pk d"
  "current_task (detach_delivery st d) = None" "dlv_status (detach_delivery st d) = st"
  by (simp_all add: set_delivery_status_def detach_delivery_def)

lemma running_not_pending:
  assumes "drip_ok db" and "t \<in> set (tasks db)" and "task_status t \<noteq> PENDING" and "x \<in> set (tasks db)" and "task_pk x = task_pk t"
  shows "task_status x \<noteq> PENDING"
  using pk_determines [OF drip_okD(8) [OF assms(1)] assms(4,2,5)] assms(3) by simp

lemma ledger_reserve:
  assumes ok: "books_ok cl rt" and d: "d \<in> set (deliveries (drip rt))" "blockers (dlv_pk d) (attempts rt) = []"
    and t: "t \<in> set (tasks (drip rt))" "task_status t \<noteq> PENDING" "current_task d = Some (task_pk t)"
  shows "books_ok (removeAll (task_pk t) cl) (on_drip (edit_delivery (dlv_pk d) (set_delivery_status D_Sending)) (add_attempt (dlv_pk d) rt))"
    (is "books_ok ?cl ?rt")
proof (rule books_okI)
  let ?r = "reserved_row (dlv_pk d) rt"
  have base: "drip_ok (drip rt)" using books_okD [OF ok] by simp
  have att: "attempts ?rt = attempts rt @ [?r]" by (simp add: attempts_add)
  show "drip_ok (drip ?rt)" using edit_delivery_ok [OF base, of "set_delivery_status D_Sending"] by simp
  have "att_seq rt + 1 \<notin> att_pk ` set (attempts rt)" using books_okD(3) [OF ok] by (force simp: attempt_ok_def)
  then show "distinct (map att_pk (attempts ?rt))" using books_okD(2) [OF ok] unfolding att by simp
  have "dlv_pk d \<le> dlv_seq (drip rt)" by (rule drip_okD(5) [OF base d(1)])
  then show "attempt_ok ?rt x" if "x \<in> set (attempts ?rt)" for x
    using that books_okD(3) [OF ok, of x] unfolding att by (auto simp: attempt_ok_def)
  show "k \<le> task_seq (drip ?rt)" if "k \<in> set ?cl" for k using books_okD(4) [OF ok] that by simp
  fix x assume "x \<in> set (deliveries (drip ?rt))"
  then obtain y where y: "y \<in> set (deliveries (drip rt))" "x = (if dlv_pk y = dlv_pk d then set_delivery_status D_Sending y else y)"
    by (auto simp: edit_delivery_def)
  show "book ?cl (tasks (drip ?rt)) (blockers (dlv_pk x) (attempts ?rt)) x"
  proof (cases "dlv_pk y = dlv_pk d")
    case True
    then have x: "x = set_delivery_status D_Sending d"
      using pk_determines [OF drip_okD(2) [OF base] y(1) d(1)] y(2) by simp
    have "blockers (dlv_pk x) (attempts ?rt) = [?r]" using d(2) unfolding x att by (simp add: blockers_def)
    moreover have "\<not> live ?cl (tasks (drip rt)) (task_pk t)"
      using running_not_pending [OF base t(1,2)] by (auto simp: live_def)
    ultimately show ?thesis using t(3) by (simp add: x book_def status_agrees_def startable_task_def)
  next
    case False
    then have "blockers (dlv_pk x) (attempts ?rt) = blockers (dlv_pk y) (attempts rt)"
      using y(2) unfolding att by (simp add: blockers_def)
    moreover have "startable_task ?cl (tasks (drip rt)) y \<Longrightarrow> startable_task cl (tasks (drip rt)) y"
      by (auto simp: startable_task_def live_def split: option.splits)
    ultimately show ?thesis using False y books_okD(5) [OF ok y(1)] by (auto simp: book_def)
  qed
qed

lemma ledger_fewer_claims: "books_ok cl rt \<Longrightarrow> books_ok (removeAll k cl) rt"
  unfolding books_ok_def book_def by (auto simp: startable_task_def live_def split: option.splits)

text \<open>A change of the task of one delivery that nothing blocks, such as putting it back to the queue.\<close>

lemma ledger_edit_task:
  assumes ok: "books_ok cl rt" and d: "d \<in> set (deliveries (drip rt))" "current_task d = Some k"
    and free: "blockers (dlv_pk d) (attempts rt) = []" "waiting_delivery d" and f: "\<And>t. task_pk (f t) = task_pk t"
  shows "books_ok cl (on_drip (edit_task k P f) rt)"
proof (rule books_okI)
  let ?rt = "on_drip (edit_task k P f) rt"
  have base: "drip_ok (drip rt)" using books_okD [OF ok] by simp
  show "drip_ok (drip ?rt)" using edit_task_ok [OF base f] by simp
  show "distinct (map att_pk (attempts ?rt))" using books_okD(2) [OF ok] by simp
  show "attempt_ok ?rt x" if "x \<in> set (attempts ?rt)" for x using books_okD(3) [OF ok] that by (simp add: attempt_ok_def)
  show "i \<le> task_seq (drip ?rt)" if "i \<in> set cl" for i using books_okD(4) [OF ok that] by simp
  fix x assume "x \<in> set (deliveries (drip ?rt))"
  then have x: "x \<in> set (deliveries (drip rt))" by simp
  show "book cl (tasks (drip ?rt)) (blockers (dlv_pk x) (attempts ?rt)) x"
  proof (cases "dlv_pk x = dlv_pk d")
    case True
    then have "x = d" using pk_determines [OF drip_okD(2) [OF base] x d(1)] by simp
    then show ?thesis using free book_waiting by simp
  next
    case False
    have "startable_task cl (tasks (drip rt)) x" if s: "startable_task cl (tasks (drip ?rt)) x"
    proof (cases "current_task x")
      case None
      then show ?thesis using s by (simp add: startable_task_def)
    next
      case (Some i)
      have "i \<noteq> k" using False one_to_oneD [OF drip_okD(3) [OF base] x d(1)] Some d(2) by blast
      moreover from s Some have "live cl (tasks (drip ?rt)) i" by (simp add: startable_task_def)
      ultimately have "live cl (tasks (drip rt)) i" using f by (auto simp: live_def edit_task_def split: if_splits)
      then show ?thesis using Some by (simp add: startable_task_def)
    qed
    then show ?thesis using books_okD(5) [OF ok x] by (auto simp: book_def)
  qed
qed

end
