(* ===== verification/Drip_Linkedin.thy ===== *)
theory Drip_Linkedin
  imports Drip_Attempts Copy_Text
begin

text \<open>
  The LinkedIn executor (\<open>drip/tasks/linkedin.py\<close>): the reservation of a delivery, the guard that is checked
  there and again right before the click, the end of an attempt, and the recovery of a stale one. The page
  is an argument, and so is what other services answer: the identity of the recipient, the proofs of a
  connection and the quota. Media of a delivery are not modelled.
\<close>

section \<open>Inputs\<close>

record outreach_campaign =
  outreach_pk :: int
  outreach_active :: bool
  outreach_user :: int

record linkedin_session =
  profile_username :: string
  profile_active :: bool
  profile_user :: int
  session_campaign :: "int option"
  quota_left :: bool

record send_env =
  send_facts :: lead_facts
  session :: linkedin_session
  outreach :: "outreach_campaign list"
  connection_proofs :: "int \<Rightarrow> string \<Rightarrow> bool \<Rightarrow> int list"
  identity_errors :: "int \<Rightarrow> string \<Rightarrow> string \<Rightarrow> string list"

record reservation =
  res_delivery :: int
  res_attempt :: int
  res_urn :: string
  res_recipient :: string
  res_body :: string
  res_campaign :: int

record guard_failure =
  fail_detail :: string
  retryable :: bool
  waiting_connection :: bool
  fail_hold :: bool

datatype stale_recovery = NOOP | PLANNED | REQUEUED | UNCLEAR

section \<open>The payload\<close>

text \<open>\<open>int()\<close> of a JSON value.\<close>

fun int_digits :: "bool \<Rightarrow> int \<Rightarrow> string \<Rightarrow> int option" where
  "int_digits after_digit acc [] = (if after_digit then Some acc else None)"
| "int_digits after_digit acc (c # s) =
     (let n = of_char c :: nat in
      if 48 \<le> n \<and> n \<le> 57 then int_digits True (10 * acc + int n - 48) s
      else if c = CHR ''_'' \<and> after_digit then int_digits False acc s
      else None)"

definition int_of_text :: "string \<Rightarrow> int option" where
  "int_of_text s =
     (case strip s of
        [] \<Rightarrow> None
      | c # t \<Rightarrow>
          if c = CHR ''-'' then map_option uminus (int_digits False 0 t)
          else if c = CHR ''+'' then int_digits False 0 t
          else int_digits False 0 (c # t))"

fun int_of_json :: "json \<Rightarrow> (drip_error, int) result" where
  "int_of_json (JInt n) = Inr n"
| "int_of_json (JFloat (Finite q)) = Inr (if 0 \<le> q then \<lfloor>q\<rfloor> else \<lceil>q\<rceil>)"
| "int_of_json (JFloat NaN) = Inl (Drip_ValueError ''delivery_id must be an integer'')"
| "int_of_json (JFloat _) = Inl (Drip_ValueError ''OverflowError'')"
| "int_of_json (JStr s) =
     (case int_of_text s of None \<Rightarrow> Inl (Drip_ValueError ''delivery_id must be an integer'') | Some n \<Rightarrow> Inr n)"
| "int_of_json _ = Inl (Drip_ValueError ''delivery_id must be an integer'')"

definition payload_delivery_id :: "task \<Rightarrow> (drip_error, int) result" where
  "payload_delivery_id t =
     bind_result (int_of_json (json_get (task_payload t) ''delivery_id'')) (\<lambda>n.
       if n \<le> 0 then Inl (Drip_ValueError ''delivery_id must be positive'') else Inr n)"

section \<open>The session\<close>

definition session_operator :: "linkedin_session \<Rightarrow> string" where
  "session_operator s = resolve_operator (Some (profile_username s))"

definition active_action_campaign :: "send_env \<Rightarrow> string \<Rightarrow> int option" where
  "active_action_campaign env operator =
     (case session_campaign (session env) of
        None \<Rightarrow> None
      | Some k \<Rightarrow>
          if \<not> profile_active (session env) \<or> session_operator (session env) \<noteq> operator then None
          else map_option outreach_pk (List.find (\<lambda>c. outreach_pk c = k \<and> outreach_active c \<and>
                 outreach_user c = profile_user (session env)) (outreach env)))"

definition deal_proves_connection :: "send_env \<Rightarrow> drip_enrollment \<Rightarrow> drip_lane \<Rightarrow> bool" where
  "deal_proves_connection env e l \<longleftrightarrow>
     connection_proofs env (enr_lead e) (lane_operator l) (current_sequence_status l = Seq_Completed) \<noteq> []"

section \<open>Predecessors and timing\<close>

definition manifest_themes :: "drip_enrollment \<Rightarrow> drip_db \<Rightarrow> (drip_error, drip_theme list) result" where
  "manifest_themes e db =
     (case map_of (versions db) (enr_version e) of
        None \<Rightarrow> Inl (Drip_DoesNotExist ''DripCampaignVersion'')
      | Some m \<Rightarrow>
          (case map_of m (frozen_icp e) of
             None \<Rightarrow> Inl (Drip_ValueError ''invalid frozen manifest routing'')
           | Some ts \<Rightarrow> Inr ts))"

definition channel_steps :: "drip_theme list \<Rightarrow> nat \<Rightarrow> string \<Rightarrow> drip_channel \<Rightarrow> drip_step list option" where
  "channel_steps themes k operator channel =
     (if length themes \<le> k then None
      else case map_of (theme_senders (themes ! k)) operator of
        None \<Rightarrow> None
      | Some block \<Rightarrow>
          (case map_of block channel of None \<Rightarrow> None | Some [] \<Rightarrow> None | Some steps \<Rightarrow> Some steps))"

definition linkedin_steps :: "drip_theme list \<Rightarrow> nat \<Rightarrow> string \<Rightarrow> drip_step list option" where
  "linkedin_steps themes k operator = channel_steps themes k operator Linkedin_lane"

definition existing_step_row :: "drip_lane \<Rightarrow> nat \<Rightarrow> drip_db \<Rightarrow> nat \<Rightarrow> nat \<Rightarrow> drip_delivery option" where
  "existing_step_row l bound db k i =
     List.find (\<lambda>d. dlv_theme_index d = k \<and> dlv_step_index d = i)
       (rev (filter (\<lambda>d. dlv_lane d = lane_pk l \<and> dlv_theme_index d \<le> bound) (deliveries db)))"

definition step_sent :: "drip_lane \<Rightarrow> nat \<Rightarrow> drip_db \<Rightarrow> nat \<Rightarrow> nat \<Rightarrow> bool" where
  "step_sent l bound db k i \<longleftrightarrow>
     (case existing_step_row l bound db k i of
        None \<Rightarrow> False
      | Some d \<Rightarrow> dlv_status d = D_Sent \<and> dlv_sent_at d \<noteq> None)"

definition earlier_themes_sent :: "drip_theme list \<Rightarrow> drip_lane \<Rightarrow> nat \<Rightarrow> drip_db \<Rightarrow> bool" where
  "earlier_themes_sent themes l k db \<longleftrightarrow>
     list_all (\<lambda>j. case linkedin_steps themes j (lane_operator l) of
        None \<Rightarrow> True
      | Some steps \<Rightarrow> list_all (step_sent l k db j) [0..<length steps]) [0..<k]"

definition manifest_due :: "drip_step list \<Rightarrow> drip_lane \<Rightarrow> drip_delivery \<Rightarrow> drip_db \<Rightarrow> int option" where
  "manifest_due steps l d db =
     map_option (\<lambda>anchor. anchor + step_delay (steps ! dlv_step_index d))
       (if dlv_step_index d = 0 then theme_started_at l
        else Option.bind (existing_step_row l (dlv_theme_index d) db (dlv_theme_index d) (dlv_step_index d - 1)) dlv_sent_at)"

definition timing_reason :: "drip_delivery \<Rightarrow> drip_lane \<Rightarrow> drip_enrollment \<Rightarrow> int \<Rightarrow> drip_db \<Rightarrow> (drip_error, string) result" where
  "timing_reason d l e now db =
     bind_result (manifest_themes e db) (\<lambda>themes.
       let k = dlv_theme_index d in
       if length themes \<le> k then Inr ''delivery theme index is outside the frozen manifest''
       else if theme_key (themes ! k) \<noteq> dlv_theme_key d then Inr ''delivery theme key does not match the frozen manifest''
       else if current_theme_index l \<noteq> k \<or> current_theme_key l \<noteq> dlv_theme_key d then
         Inr ''delivery is not the lane's exact current theme''
       else case linkedin_steps themes k (lane_operator l) of
         None \<Rightarrow> Inr ''delivery step is not in the frozen LinkedIn rendition''
       | Some steps \<Rightarrow>
           if length steps \<le> dlv_step_index d then Inr ''delivery step is not in the frozen LinkedIn rendition''
           else if \<not> earlier_themes_sent themes l k db then Inr ''an earlier LinkedIn theme is not complete''
           else if \<not> list_all (step_sent l k db k) [0..<dlv_step_index d] then Inr ''the exact prior LinkedIn step is not sent''
           else case manifest_due steps l d db of
             None \<Rightarrow> Inr ''lane theme start time is missing''
           | Some at_time \<Rightarrow>
               if now < dlv_scheduled_at d \<or> now < at_time then Inr ''delivery is not due from its previous successful send''
               else Inr '''')"

section \<open>The guard\<close>

fun comma_list :: "string list \<Rightarrow> string" where
  "comma_list [] = ''''"
| "comma_list [x] = x"
| "comma_list (x # y # ys) = x @ '', '' @ comma_list (y # ys)"

definition plain_failure :: "string \<Rightarrow> guard_failure" where
  "plain_failure s = \<lparr>fail_detail = s, retryable = False, waiting_connection = False, fail_hold = False\<rparr>"

definition hold_failure :: "string \<Rightarrow> guard_failure" where
  "hold_failure s = (plain_failure s)\<lparr>fail_hold := True\<rparr>"

definition retry_failure :: "string \<Rightarrow> guard_failure" where
  "retry_failure s = (plain_failure s)\<lparr>retryable := True\<rparr>"

text \<open>Who sends and to whom: the first half of the guard.\<close>

definition ownership_failure ::
  "send_env \<Rightarrow> task \<Rightarrow> graph \<Rightarrow> string \<Rightarrow> string \<Rightarrow> guard_failure option" where
  "ownership_failure env t g urn recipient =
     (let d = g_delivery g; l = g_lane g; e = g_enrollment g;
          errs = identity_errors env (enr_lead e) (recipient_identity l) (member_urn l) in
      if \<not> payload_operator_is (lane_operator l) t \<or> session_operator (session env) \<noteq> lane_operator l then
        Some (plain_failure ''frozen LinkedIn operator does not match the claimed task and session'')
      else if dlv_account d \<noteq> provider_account l \<or> provider_account l \<noteq> casefold (lane_operator l) \<or>
              sender_identity l \<noteq> casefold (lane_operator l) then
        Some (plain_failure ''frozen LinkedIn sender ownership drifted'')
      else if errs \<noteq> [] then Some (plain_failure (''frozen LinkedIn identity is invalid: '' @ comma_list errs))
      else if urn \<noteq> '''' \<and> urn \<noteq> member_urn l then
        Some (plain_failure ''frozen LinkedIn member URN changed after reservation'')
      else if recipient \<noteq> '''' \<and> recipient \<noteq> recipient_identity l then
        Some (plain_failure ''frozen LinkedIn recipient URL changed after reservation'')
      else None)"

definition control_failure :: "graph \<Rightarrow> drip_db \<Rightarrow> guard_failure option" where
  "control_failure g db =
     (if campaign_status (g_enrollment g) db \<noteq> ''active'' then Some (hold_failure ''drip campaign is not active'')
      else if enr_status (g_enrollment g) \<noteq> E_Active then
        Some (hold_failure (''drip enrollment is '' @ enrollment_text (enr_status (g_enrollment g))))
      else if lane_status (g_lane g) \<noteq> L_Active then
        Some (hold_failure (''LinkedIn lane is '' @ lane_text (lane_status (g_lane g))))
      else None)"

text \<open>Whether the message may go now: the second half.\<close>

definition readiness_failure :: "send_env \<Rightarrow> graph \<Rightarrow> int \<Rightarrow> drip_db \<Rightarrow> (drip_error, guard_failure option) result" where
  "readiness_failure env g now db =
     (let d = g_delivery g; l = g_lane g; e = g_enrollment g in
      if handed_off_at l = None then Inr (Some (plain_failure ''LinkedIn lane has not been handed off''))
      else if current_sequence_status l \<notin> {Seq_Completed, Seq_Not_applicable} then
        Inr (Some (plain_failure ''current LinkedIn sequence is not complete''))
      else if strip (dlv_body d) = '''' then Inl (Drip_ValueError ''empty frozen body'')
      else if active_action_campaign env (lane_operator l) = None then
        Inr (Some (hold_failure ''no active sender-owned outreach Campaign is available''))
      else if \<not> deal_proves_connection env e l then
        Inr (Some ((plain_failure ''no sender-owned connected Deal proves LinkedIn messaging eligibility'')
          \<lparr>waiting_connection := True\<rparr>))
      else bind_result (timing_reason d l e now db) (\<lambda>reason.
        if reason \<noteq> '''' then Inr (Some (retry_failure reason))
        else if \<not> quota_left (session env) then Inr (Some (retry_failure ''LinkedIn follow-up quota is exhausted''))
        else Inr None))"

definition execution_guard ::
  "send_env \<Rightarrow> task \<Rightarrow> graph \<Rightarrow> int \<Rightarrow> drip_status \<Rightarrow> string \<Rightarrow> string \<Rightarrow> drip_db
     \<Rightarrow> (drip_error, guard_failure option) result" where
  "execution_guard env t g now expected urn recipient db =
     (let d = g_delivery g in
      if task_type t \<noteq> DRIP_LINKEDIN then Inl (Drip_ValueError ''not a drip_linkedin task'')
      else if task_status t \<noteq> RUNNING then Inl (Drip_ValueError ''was not claimed'')
      else if current_task d \<noteq> Some (task_pk t) then Inl (Drip_ValueError ''is not linked to claimed Task'')
      else if dlv_status d \<noteq> expected then Inr (Some (plain_failure (''delivery state changed to '' @ status_text (dlv_status d))))
      else case ownership_failure env t g urn recipient of
        Some f \<Rightarrow> Inr (Some f)
      | None \<Rightarrow>
          (case control_failure g db of
             Some f \<Rightarrow> Inr (Some f)
           | None \<Rightarrow>
               if lane_channel (g_lane g) \<noteq> Linkedin_lane then Inl (Drip_ValueError ''does not belong to LinkedIn'')
               else readiness_failure env g now db))"

section \<open>Stops and releases\<close>

definition starts_with :: "string \<Rightarrow> string \<Rightarrow> bool" where
  "starts_with p s \<longleftrightarrow> take (length p) s = p"

definition stop_code :: "string \<Rightarrow> string" where
  "stop_code reason =
     (if starts_with ''Lead disqualified'' reason then ''lead_disqualified''
      else if starts_with ''Suppression:'' reason then ''outreach_suppressed''
      else if starts_with ''Meeting exists'' reason then ''persisted_meeting''
      else if starts_with ''Lead replied'' reason then ''inbound_reply''
      else ''automation_stop'')"

definition stoppable :: "int list \<Rightarrow> drip_delivery \<Rightarrow> bool" where
  "stoppable ids d \<longleftrightarrow> dlv_lane d \<in> set ids \<and> dlv_status d \<in> {D_Planned, D_Queued, D_Sending}"

definition stop_enrollment_locked :: "int \<Rightarrow> string \<Rightarrow> int \<Rightarrow> drip_db \<Rightarrow> drip_db" where
  "stop_enrollment_locked k reason now db =
     (let db = set_enrollment k (\<lambda>e. e\<lparr>enr_status := E_Stopped, stopped_at := Some now, stop_reason := stop_code reason,
            stop_detail := reason\<rparr>) db;
          ids = map lane_pk (filter (\<lambda>l. lane_enrollment l = k) (lanes db));
          db = db\<lparr>lanes := map (\<lambda>l. if lane_pk l \<in> set ids \<and> nonterminal_lane l then set_lane_status L_Stopped l else l) (lanes db)\<rparr>;
          task_ids = List.map_filter current_task (filter (stoppable ids) (deliveries db));
          db = db\<lparr>deliveries := map (\<lambda>d. if stoppable ids d then set_delivery_status D_Stopped d else d) (deliveries db)\<rparr>
      in retire_tasks task_ids now reason db)"

definition release_for_guard :: "graph \<Rightarrow> guard_failure \<Rightarrow> drip_db \<Rightarrow> drip_db" where
  "release_for_guard g f db =
     (let k = dlv_pk (g_delivery g); l = lane_pk (g_lane g) in
      if controls_stopped g then edit_delivery k (detach_delivery D_Stopped) db
      else edit_delivery k (detach_delivery D_Planned)
        (if waiting_connection f then edit_lane l (set_lane_status L_Waiting_connection) db
         else if retryable f \<or> fail_hold f then db
         else edit_lane l (set_lane_status L_Paused) db))"

section \<open>Reservation\<close>

definition reserve_locked :: "send_env \<Rightarrow> graph \<Rightarrow> runtime \<Rightarrow> (drip_error, reservation option \<times> runtime) result" where
  "reserve_locked env g rt =
     (let d = g_delivery g; l = g_lane g; k = dlv_pk d in
      if list_ex (\<lambda>a. att_delivery a = k \<and> open_attempt a) (attempts rt) then
        Inl (Drip_ValueError ''already has unfinished attempt'')
      else case active_action_campaign env (lane_operator l) of
        None \<Rightarrow> Inl (Drip_ValueError ''active sender-owned outreach Campaign disappeared during reservation'')
      | Some c \<Rightarrow> Inr (Some \<lparr>res_delivery = k, res_attempt = att_seq rt + 1, res_urn = member_urn l,
            res_recipient = recipient_identity l, res_body = dlv_body d, res_campaign = c\<rparr>,
          on_drip (edit_delivery k (set_delivery_status D_Sending)) (add_attempt k rt)))"

definition reserve_delivery :: "send_env \<Rightarrow> int \<Rightarrow> task \<Rightarrow> runtime \<Rightarrow> (drip_error, reservation option \<times> runtime) result" where
  "reserve_delivery env now t rt =
     bind_result (payload_delivery_id t) (\<lambda>k.
     bind_result (lock_delivery_graph k (drip rt)) (\<lambda>g.
     bind_result (lock_task (task_pk t) (drip rt)) (\<lambda>locked.
       let e = g_enrollment g; reason = lead_automation_stop_reason (send_facts env) (enr_lead e) (drip rt) in
       if reason \<noteq> '''' then Inr (None, on_drip (stop_enrollment_locked (enr_pk e) reason now) rt)
       else bind_result (execution_guard env locked g now D_Queued '''' '''' (drip rt)) (\<lambda>failure.
         case failure of
           Some f \<Rightarrow> Inr (None, on_drip (release_for_guard g f) rt)
         | None \<Rightarrow> reserve_locked env g rt))))"

section \<open>The submit boundary\<close>

text \<open>The callback before the click: the reason to abort, empty when the boundary is stamped.\<close>

definition submission_callback ::
  "send_env \<Rightarrow> int \<Rightarrow> int \<Rightarrow> reservation \<Rightarrow> runtime \<Rightarrow> (drip_error, string \<times> runtime) result" where
  "submission_callback env now task_id r rt =
     bind_result (lock_delivery_graph (res_delivery r) (drip rt)) (\<lambda>g.
     bind_result (lock_attempt (res_attempt r) (res_delivery r) rt) (\<lambda>a.
     bind_result (lock_task task_id (drip rt)) (\<lambda>t.
       if \<not> open_attempt a \<or> submission_attempted_at a \<noteq> None then
         Inr (''delivery attempt is no longer reserved at submit boundary'', rt)
       else
         let e = g_enrollment g; reason = lead_automation_stop_reason (send_facts env) (enr_lead e) (drip rt);
             close_attempt = (\<lambda>detail. edit_attempt (att_pk a) (finish_attempt Not_submitted detail now)) in
         if reason \<noteq> '''' then
           Inr (reason, on_drip (stop_enrollment_locked (enr_pk e) reason now) (close_attempt reason rt))
         else bind_result (execution_guard env t g now D_Sending (res_urn r) (res_recipient r) (drip rt)) (\<lambda>failure.
           case failure of
             Some f \<Rightarrow> Inr (fail_detail f, on_drip (release_for_guard g f) (close_attempt (fail_detail f) rt))
           | None \<Rightarrow> Inr ('''', edit_attempt (att_pk a) (\<lambda>a. a\<lparr>submission_attempted_at := Some now\<rparr>) rt)))))"

section \<open>The end of an attempt\<close>

definition advance_lane :: "nat \<Rightarrow> string \<Rightarrow> lane_status \<Rightarrow> int \<Rightarrow> drip_lane \<Rightarrow> drip_lane" where
  "advance_lane k key st now l =
     l\<lparr>lane_status := st, current_theme_index := k, current_theme_key := key, theme_started_at := Some now\<rparr>"

definition advance_lane_after_success :: "graph \<Rightarrow> int \<Rightarrow> drip_db \<Rightarrow> (drip_error, drip_db) result" where
  "advance_lane_after_success g now db =
     (let d = g_delivery g; l = g_lane g; op = lane_operator l in
      bind_result (manifest_themes (g_enrollment g) db) (\<lambda>themes.
        case linkedin_steps themes (dlv_theme_index d) op of
          None \<Rightarrow> Inl (Drip_ValueError ''sent delivery is outside the frozen LinkedIn rendition'')
        | Some steps \<Rightarrow>
            if length steps \<le> dlv_step_index d then
              Inl (Drip_ValueError ''sent delivery is outside the frozen LinkedIn rendition'')
            else if dlv_step_index d + 1 < length steps then Inr db
            else case List.find (\<lambda>j. linkedin_steps themes j op \<noteq> None) [dlv_theme_index d + 1..<length themes] of
              Some j \<Rightarrow> Inr (edit_lane (lane_pk l) (advance_lane j (theme_key (themes ! j)) L_Active now) db)
            | None \<Rightarrow> Inr (edit_lane (lane_pk l) (advance_lane (length themes) '''' L_Completed now) db)))"

definition drip_external_id :: "int \<Rightarrow> string" where
  "drip_external_id k = ''drip-linkedin:'' @ str_int k"

text \<open>\<open>get_or_create\<close> of the outbound message; an existing one must be this delivery's.\<close>

definition outbound_message_row :: "graph \<Rightarrow> runtime \<Rightarrow> (drip_error, int \<times> runtime) result" where
  "outbound_message_row g rt =
     (let d = g_delivery g; lead = enr_lead (g_enrollment g); ext = drip_external_id (dlv_pk d); db = drip rt in
      case List.find (\<lambda>m. msg_source m = ''linkedin'' \<and> msg_external m = ext) (messages db) of
        Some m \<Rightarrow>
          if msg_lead m \<noteq> lead \<or> msg_inbound m \<or> msg_body m \<noteq> dlv_body d then
            Inl (Drip_ValueError ''drip Message identity collision'')
          else Inr (msg_pk m, rt)
      | None \<Rightarrow> Inr (msg_seq rt + 1, rt\<lparr>drip := db\<lparr>messages := messages db @ [\<lparr>msg_pk = msg_seq rt + 1, msg_lead = lead,
            msg_source = ''linkedin'', msg_inbound = False, msg_external = ext, msg_body = dlv_body d,
            msg_automation_key = ''''\<rparr>]\<rparr>,
            msg_seq := msg_seq rt + 1\<rparr>))"

definition mark_sent :: "int \<Rightarrow> int \<Rightarrow> drip_delivery \<Rightarrow> drip_delivery" where
  "mark_sent now m d = d\<lparr>dlv_status := D_Sent, dlv_sent_at := Some now, outbound_message := Some m\<rparr>"

definition finish_sent_recorded ::
  "send_env \<Rightarrow> int \<Rightarrow> reservation \<Rightarrow> graph \<Rightarrow> drip_attempt \<Rightarrow> runtime \<Rightarrow> (drip_error, runtime) result" where
  "finish_sent_recorded env now r g a rt =
     bind_result (outbound_message_row g rt) (\<lambda>(m, rt).
       if res_campaign r \<notin> set (map outreach_pk (outreach env)) then Inl (Drip_DoesNotExist ''Campaign'')
       else
         let e = g_enrollment g; l = g_lane g;
             rt = edit_attempt (att_pk a) (finish_attempt Att_sent '''' now) (rt\<lparr>recorded_actions := recorded_actions rt @ [res_campaign r]\<rparr>);
             rt = on_drip (edit_delivery (dlv_pk (g_delivery g)) (mark_sent now m)) rt;
             reason = lead_automation_stop_reason (send_facts env) (enr_lead e) (drip rt) in
         if reason \<noteq> '''' then Inr (on_drip (stop_enrollment_locked (enr_pk e) reason now) rt)
         else if enr_status e = E_Active \<and> lane_status l = L_Active then
           bind_result (advance_lane_after_success g now (drip rt)) (\<lambda>db. Inr (rt\<lparr>drip := db\<rparr>))
         else Inr rt)"

definition finish_sent :: "send_env \<Rightarrow> int \<Rightarrow> int \<Rightarrow> reservation \<Rightarrow> runtime \<Rightarrow> (drip_error, runtime) result" where
  "finish_sent env now task_id r rt =
     bind_result (lock_delivery_graph (res_delivery r) (drip rt)) (\<lambda>g.
     bind_result (lock_attempt (res_attempt r) (res_delivery r) rt) (\<lambda>a.
     bind_result (lock_task task_id (drip rt)) (\<lambda>_.
       let d = g_delivery g in
       if dlv_status d = D_Sent then Inr rt
       else if dlv_status d \<noteq> D_Sending \<or> current_task d \<noteq> Some task_id \<or> \<not> open_attempt a then
         Inl (Drip_ValueError ''drip LinkedIn send confirmation no longer owns the delivery'')
       else if submission_attempted_at a = None then
         Inr (on_drip (edit_lane (lane_pk (g_lane g)) (set_lane_status L_Paused) \<circ> edit_delivery (dlv_pk d) (set_delivery_status D_Unclear))
           (edit_attempt (att_pk a)
             (finish_attempt Att_unclear ''send reported success without a committed submit boundary'' now) rt))
       else finish_sent_recorded env now r g a rt)))"

definition finish_unclear_locked :: "graph \<Rightarrow> drip_attempt \<Rightarrow> string \<Rightarrow> int \<Rightarrow> runtime \<Rightarrow> runtime" where
  "finish_unclear_locked g a detail now rt =
     on_drip (\<lambda>db. let db = edit_delivery (dlv_pk (g_delivery g)) (set_delivery_status D_Unclear) db in
         if nonterminal_lane (g_lane g) then edit_lane (lane_pk (g_lane g)) (set_lane_status L_Paused) db else db)
       (edit_attempt (att_pk a) (finish_attempt Att_unclear detail now) rt)"

text \<open>
  The end of an attempt that did not reach the click; \<open>pauses\<close> is the variant for a frozen asset that
  is missing or changed, which also pauses the lane.
\<close>

definition finish_unsubmitted ::
  "bool \<Rightarrow> string \<Rightarrow> int \<Rightarrow> reservation \<Rightarrow> string \<Rightarrow> runtime \<Rightarrow> (drip_error, runtime) result" where
  "finish_unsubmitted pauses late now r detail rt =
     bind_result (lock_delivery_graph (res_delivery r) (drip rt)) (\<lambda>g.
     bind_result (lock_attempt (res_attempt r) (res_delivery r) rt) (\<lambda>a.
       if \<not> open_attempt a then Inr rt
       else if submission_attempted_at a \<noteq> None then Inr (finish_unclear_locked g a (late @ detail) now rt)
       else
         let st = (if controls_stopped g then D_Stopped else D_Planned);
             rt = edit_attempt (att_pk a) (finish_attempt Not_submitted detail now) rt;
             rt = on_drip (edit_delivery (dlv_pk (g_delivery g)) (detach_delivery st)) rt
         in Inr (if pauses \<and> \<not> controls_stopped g \<and> nonterminal_lane (g_lane g)
              then on_drip (edit_lane (lane_pk (g_lane g)) (set_lane_status L_Paused)) rt else rt)))"

definition finish_pre_submit_failure :: "int \<Rightarrow> reservation \<Rightarrow> string \<Rightarrow> runtime \<Rightarrow> (drip_error, runtime) result" where
  "finish_pre_submit_failure = finish_unsubmitted False ''pre-submit failure reported after submit boundary: ''"

definition finish_media_hold :: "int \<Rightarrow> reservation \<Rightarrow> string \<Rightarrow> runtime \<Rightarrow> (drip_error, runtime) result" where
  "finish_media_hold = finish_unsubmitted True ''media validation failed after submit boundary: ''"

definition finish_unclear :: "int \<Rightarrow> reservation \<Rightarrow> string \<Rightarrow> runtime \<Rightarrow> (drip_error, runtime) result" where
  "finish_unclear now r detail rt =
     bind_result (lock_delivery_graph (res_delivery r) (drip rt)) (\<lambda>g.
     bind_result (lock_attempt (res_attempt r) (res_delivery r) rt) (\<lambda>a.
       Inr (if \<not> open_attempt a then rt else finish_unclear_locked g a detail now rt)))"

section \<open>The message page\<close>

text \<open>
  \<open>send_direct_message_once\<close> (\<open>linkedin/actions/message.py\<close>): what the page does is given by how it fares up
  to the click and at the click. An expected error of the browser is a result, any other one is raised.
\<close>

datatype page_event = Page_ok | Page_refused string | Page_error string | Page_raise string

record page =
  page_compose :: page_event
  page_click :: page_event

datatype message_result = Message_sent | Pre_submit_failed string | Message_unclear string

definition valid_member_urn :: "string \<Rightarrow> bool" where
  "valid_member_urn s \<longleftrightarrow>
     (let rest = drop 19 (strip s)
      in starts_with ''urn:li:fsd_profile:'' (strip s) \<and> rest \<noteq> [] \<and>
         list_all (\<lambda>c. let n = of_char c :: nat in
           48 \<le> n \<and> n \<le> 57 \<or> 65 \<le> n \<and> n \<le> 90 \<or> 97 \<le> n \<and> n \<le> 122 \<or> c = CHR ''_'' \<or> c = CHR ''-'') rest)"

fun error_detail :: "drip_error \<Rightarrow> string" where
  "error_detail Drip_KeyError = ''KeyError: ''"
| "error_detail (Drip_ValueError s) = ''ValueError: '' @ take 900 s"
| "error_detail (Drip_ValidationError s) = ''ValidationError: '' @ take 900 s"
| "error_detail (Drip_DoesNotExist s) = ''DoesNotExist: '' @ take 900 s"
| "error_detail (Drip_RenderError s) = ''DripRenderError: '' @ take 900 s"
| "error_detail (Drip_MailError s) = s @ '': ''"

definition after_boundary :: "page \<Rightarrow> (drip_error, message_result) result" where
  "after_boundary pg =
     (case page_click pg of
        Page_ok \<Rightarrow> Inr Message_sent
      | Page_refused s \<Rightarrow> Inr (Message_unclear s)
      | Page_error s \<Rightarrow> Inr (Message_unclear s)
      | Page_raise s \<Rightarrow> Inl (Drip_ValueError s))"

text \<open>The callback is a transaction of its own: an empty reason lets the click through.\<close>

definition send_direct_message_once ::
  "page \<Rightarrow> string \<Rightarrow> ('s \<Rightarrow> (drip_error, string) result \<times> 's) \<Rightarrow> 's \<Rightarrow> (drip_error, message_result) result \<times> 's" where
  "send_direct_message_once pg urn on_submit_attempt s =
     (if \<not> valid_member_urn urn then
        (Inr (Pre_submit_failed ''Refusing direct message without an exact fsd_profile member URN''), s)
      else case page_compose pg of
        Page_refused x \<Rightarrow> (Inr (Pre_submit_failed x), s)
      | Page_error x \<Rightarrow> (Inr (Pre_submit_failed x), s)
      | Page_raise x \<Rightarrow> (Inl (Drip_ValueError x), s)
      | Page_ok \<Rightarrow>
          (case on_submit_attempt s of
             (Inl e, s) \<Rightarrow> (Inl e, s)
           | (Inr reason, s) \<Rightarrow>
               if reason \<noteq> '''' then (Inr (Pre_submit_failed reason), s) else (after_boundary pg, s)))"

section \<open>The handler\<close>

text \<open>Each transaction reads the clock, the session and the facts of its own moment.\<close>

type_synonym moment = "send_env \<times> int"

definition run_callback :: "moment \<Rightarrow> int \<Rightarrow> reservation \<Rightarrow> runtime \<Rightarrow> (drip_error, string) result \<times> runtime" where
  "run_callback m task_id r rt = commit rt (submission_callback (fst m) (snd m) task_id r rt)"

definition commit_unit :: "runtime \<Rightarrow> (drip_error, runtime) result \<Rightarrow> (drip_error, unit) result \<times> runtime" where
  "commit_unit rt r = (case r of Inl e \<Rightarrow> (Inl e, rt) | Inr rt' \<Rightarrow> (Inr (), rt'))"

text \<open>An unexpected exception is recorded by what was committed at the click, and raised again.\<close>

definition finish_raised :: "int \<Rightarrow> reservation \<Rightarrow> drip_error \<Rightarrow> runtime \<Rightarrow> (drip_error, unit) result \<times> runtime" where
  "finish_raised now r e rt =
     (case get_row att_pk ''DripDeliveryAttempt'' (attempts rt) (res_attempt r) of
        Inl e' \<Rightarrow> (Inl e', rt)
      | Inr a \<Rightarrow>
          (case commit_unit rt (if submission_attempted_at a = None then finish_pre_submit_failure now r (error_detail e) rt
                                else finish_unclear now r (error_detail e) rt) of
             (Inl e', rt) \<Rightarrow> (Inl e', rt)
           | (Inr _, rt) \<Rightarrow> (Inl e, rt)))"

definition finish_result ::
  "moment \<Rightarrow> int \<Rightarrow> reservation \<Rightarrow> (drip_error, message_result) result \<Rightarrow> runtime \<Rightarrow> (drip_error, unit) result \<times> runtime" where
  "finish_result m task_id r res rt =
     (case res of
        Inl e \<Rightarrow> finish_raised (snd m) r e rt
      | Inr Message_sent \<Rightarrow> commit_unit rt (finish_sent (fst m) (snd m) task_id r rt)
      | Inr (Pre_submit_failed s) \<Rightarrow> commit_unit rt (finish_pre_submit_failure (snd m) r s rt)
      | Inr (Message_unclear s) \<Rightarrow> commit_unit rt (finish_unclear (snd m) r s rt))"

definition handle_drip_linkedin ::
  "moment \<Rightarrow> moment \<Rightarrow> moment \<Rightarrow> page \<Rightarrow> task \<Rightarrow> runtime \<Rightarrow> (drip_error, unit) result \<times> runtime" where
  "handle_drip_linkedin m1 m2 m3 pg t rt =
     (case commit rt (reserve_delivery (fst m1) (snd m1) t rt) of
        (Inl e, rt) \<Rightarrow> (Inl e, rt)
      | (Inr None, rt) \<Rightarrow> (Inr (), rt)
      | (Inr (Some r), rt) \<Rightarrow>
          (case send_direct_message_once pg (res_urn r) (run_callback m2 (task_pk t) r) rt of
             (res, rt) \<Rightarrow> finish_result m3 (task_pk t) r res rt))"

section \<open>Recovery\<close>

definition retire_recovered_task :: "drip_delivery \<Rightarrow> int \<Rightarrow> string \<Rightarrow> drip_db \<Rightarrow> drip_db" where
  "retire_recovered_task d now detail db =
     (case current_task d of
        None \<Rightarrow> db
      | Some k \<Rightarrow> edit_task k (\<lambda>t. task_status t \<in> {PENDING, RUNNING}) (retire_task now detail) db)"

definition requeue_task :: "task \<Rightarrow> task" where
  "requeue_task t = t\<lparr>task_status := PENDING, task_started_at := None, task_completed_at := None, task_error := ''''\<rparr>"

text \<open>The delivery of an attempt that never reached the click goes back to where it may be sent again.\<close>

definition recover_unsubmitted :: "graph \<Rightarrow> int \<Rightarrow> drip_db \<Rightarrow> (drip_error, stale_recovery \<times> drip_db) result" where
  "recover_unsubmitted g now db =
     (let d = g_delivery g; k = dlv_pk d in
      if \<not> controls_active g db then
        (let db = edit_delivery k (detach_delivery D_Planned) db
         in Inr (PLANNED, case current_task d of
              None \<Rightarrow> db
            | Some tid \<Rightarrow> edit_task tid (\<lambda>t. task_status t \<in> {PENDING, RUNNING, FAILED})
                (retire_task now ''Drip controls inactive during stale recovery'') db))
      else case current_task d of
        None \<Rightarrow> Inr (PLANNED, edit_delivery k (set_delivery_status D_Planned) db)
      | Some tid \<Rightarrow>
          bind_result (lock_task tid db) (\<lambda>t.
            if task_status t \<in> {RUNNING, FAILED} then
              Inr (REQUEUED, edit_delivery k (set_delivery_status D_Queued) (edit_task tid (\<lambda>_. True) requeue_task db))
            else if task_status t \<noteq> PENDING then Inr (PLANNED, edit_delivery k (detach_delivery D_Planned) db)
            else Inr (REQUEUED, edit_delivery k (set_delivery_status D_Queued) db)))"

definition recover_stale_linkedin_delivery :: "int \<Rightarrow> int \<Rightarrow> runtime \<Rightarrow> (drip_error, stale_recovery \<times> runtime) result" where
  "recover_stale_linkedin_delivery now k rt =
     bind_result (lock_delivery_graph k (drip rt)) (\<lambda>g.
       let d = g_delivery g; l = g_lane g in
       if lane_channel l \<noteq> Linkedin_lane then Inl (Drip_ValueError ''is not LinkedIn'')
       else if dlv_status d \<noteq> D_Sending then Inr (NOOP, rt)
       else case filter (\<lambda>a. att_delivery a = k \<and> open_attempt a) (attempts rt) of
         [a] \<Rightarrow>
           if submission_attempted_at a \<noteq> None then
             Inr (UNCLEAR, on_drip (retire_recovered_task d now ''LinkedIn delivery paused: submission outcome unclear'')
               (finish_unclear_locked g a ''stale worker after committed LinkedIn submit boundary'' now rt))
           else
             let rt = edit_attempt (att_pk a)
                   (finish_attempt Not_submitted ''stale worker recovered before LinkedIn submit boundary'' now) rt
             in bind_result (recover_unsubmitted g now (drip rt)) (\<lambda>(res, db). Inr (res, rt\<lparr>drip := db\<rparr>))
       | _ \<Rightarrow>
           Inr (UNCLEAR, on_drip (\<lambda>db.
             let db = edit_delivery k (set_delivery_status D_Unclear) db;
                 db = (if nonterminal_lane l then edit_lane (lane_pk l) (set_lane_status L_Paused) db else db)
             in retire_recovered_task d now ''invalid stale attempt ledger'' db) rt))"

definition recover_stale_linkedin_task :: "int \<Rightarrow> int \<Rightarrow> runtime \<Rightarrow> (drip_error, stale_recovery \<times> runtime) result" where
  "recover_stale_linkedin_task now k rt =
     bind_result (get_row task_pk ''Task'' (filter (\<lambda>t. task_type t = DRIP_LINKEDIN) (tasks (drip rt))) k) (\<lambda>t.
     bind_result (payload_delivery_id t) (\<lambda>d. recover_stale_linkedin_delivery now d rt))"

end
