(* ===== verification/Drip_Controls.thy ===== *)
theory Drip_Controls
  imports Drip_Attempts
begin

text \<open>
  The controls of an operator over the drip campaigns (the actions of \<open>drip/admin.py\<close>): campaigns, enrollments and
  lanes are paused, resumed and stopped, and what is queued below them is put back or stopped. Each action is
  one transaction; its result is the number of changed rows, the number of retired tasks and the new tables.
\<close>

section \<open>Pending tasks\<close>

definition task_of_any :: "drip_delivery list \<Rightarrow> task \<Rightarrow> bool" where
  "task_of_any ds t \<longleftrightarrow> list_ex (\<lambda>d. current_task d = Some (task_pk t)) ds"

definition pending_task_ids :: "int list \<Rightarrow> drip_db \<Rightarrow> int list" where
  "pending_task_ids lane_ids db =
     map task_pk (filter (\<lambda>t. task_of_any (filter (\<lambda>d. dlv_lane d \<in> set lane_ids) (deliveries db)) t \<and> task_status t = PENDING) (tasks db))"

definition waiting_status :: "drip_status \<Rightarrow> bool" where
  "waiting_status st \<longleftrightarrow> st = D_Planned \<or> st = D_Queued"

text \<open>One delivery: a stop ends a waiting one, and one whose task was pending lets go of it.\<close>

definition retire_delivery :: "bool \<Rightarrow> int list \<Rightarrow> drip_delivery \<Rightarrow> drip_delivery" where
  "retire_delivery stops ids d =
     (let st = dlv_status d;
          d' = (if stops \<and> waiting_status st then d\<lparr>dlv_status := D_Stopped\<rparr> else d) in
      case current_task d of
        None \<Rightarrow> d'
      | Some k \<Rightarrow>
          if k \<notin> set ids then d'
          else d'\<lparr>current_task := None, dlv_status := (if \<not> stops \<and> waiting_status st then D_Planned else dlv_status d')\<rparr>)"

definition retire_pending_tasks ::
  "bool \<Rightarrow> int list \<Rightarrow> int \<Rightarrow> string \<Rightarrow> drip_db \<Rightarrow> nat \<times> drip_db" where
  "retire_pending_tasks stops lane_ids now reason db =
     (let ids = pending_task_ids lane_ids db; db = retire_tasks ids now reason db
      in (card (set ids),
          db\<lparr>deliveries := map (\<lambda>d. if dlv_lane d \<in> set lane_ids then retire_delivery stops ids d else d) (deliveries db)\<rparr>))"

section \<open>Rows\<close>

definition lanes_of_enrollments :: "(int \<Rightarrow> bool) \<Rightarrow> drip_db \<Rightarrow> int list" where
  "lanes_of_enrollments mine db = map lane_pk (filter (\<lambda>l. mine (lane_enrollment l)) (lanes db))"

definition change_lanes :: "(drip_lane \<Rightarrow> bool) \<Rightarrow> (drip_lane \<Rightarrow> lane_status) \<Rightarrow> drip_db \<Rightarrow> drip_db" where
  "change_lanes P f db = db\<lparr>lanes := map (\<lambda>l. if P l then normal_lane (set_lane_status (f l) l) else l) (lanes db)\<rparr>"

definition change_enrollments :: "(drip_enrollment \<Rightarrow> bool) \<Rightarrow> (drip_enrollment \<Rightarrow> drip_enrollment) \<Rightarrow> drip_db \<Rightarrow> drip_db" where
  "change_enrollments P f db = db\<lparr>enrollments := map (\<lambda>e. if P e then f e else e) (enrollments db)\<rparr>"

definition has_lane :: "drip_db \<Rightarrow> drip_enrollment \<Rightarrow> bool" where
  "has_lane db e \<longleftrightarrow> list_ex (\<lambda>l. lane_enrollment l = enr_pk e) (lanes db)"

section \<open>Campaigns\<close>

definition pause_campaigns :: "int list \<Rightarrow> int \<Rightarrow> drip_db \<Rightarrow> nat \<times> nat \<times> drip_db" where
  "pause_campaigns sel now db =
     (let active = filter (\<lambda>(k, st). k \<in> set sel \<and> st = ''active'') (campaigns db);
          enr = map enr_pk (filter (\<lambda>e. enr_campaign e \<in> fst ` set active) (enrollments db));
          ids = lanes_of_enrollments (\<lambda>k. k \<in> set enr) db;
          (retired, db) = retire_pending_tasks False ids now ''Drip campaign paused in Admin'' db
      in (length active, retired,
          db\<lparr>campaigns := map (\<lambda>(k, st). (k, if k \<in> set sel \<and> st = ''active'' then ''paused'' else st)) (campaigns db)\<rparr>))"

text \<open>\<open>has_version\<close>: the campaign has an active version, a column that nothing else here reads.\<close>

definition resume_campaigns :: "(int \<Rightarrow> bool) \<Rightarrow> int list \<Rightarrow> drip_db \<Rightarrow> nat \<times> nat \<times> drip_db" where
  "resume_campaigns has_version sel db =
     (let resumable = (\<lambda>(k, st). k \<in> set sel \<and> st = ''paused'' \<and> has_version k)
      in (length (filter resumable (campaigns db)), 0,
          db\<lparr>campaigns := map (\<lambda>c. if resumable c then (fst c, ''active'') else c) (campaigns db)\<rparr>))"

section \<open>Enrollments\<close>

definition pause_enrollments :: "int list \<Rightarrow> int \<Rightarrow> drip_db \<Rightarrow> nat \<times> nat \<times> drip_db" where
  "pause_enrollments sel now db =
     (let ids = lanes_of_enrollments (\<lambda>k. k \<in> set sel) db;
          P = (\<lambda>e. enr_pk e \<in> set sel \<and> has_lane db e \<and> enr_status e \<in> {E_Waiting, E_Active});
          n = length (filter P (enrollments db));
          db = change_enrollments P (\<lambda>e. e\<lparr>enr_status := E_Paused\<rparr>) db;
          (retired, db) = retire_pending_tasks False ids now ''Drip enrollment paused in Admin'' db
      in (n, retired, db))"

definition has_waiting_lane :: "drip_db \<Rightarrow> drip_enrollment \<Rightarrow> bool" where
  "has_waiting_lane db e \<longleftrightarrow>
     list_ex (\<lambda>l. lane_enrollment l = enr_pk e \<and> lane_status l \<in> {L_Waiting_current, L_Waiting_connection}) (lanes db)"

definition resume_enrollments :: "int list \<Rightarrow> drip_db \<Rightarrow> nat \<times> nat \<times> drip_db" where
  "resume_enrollments sel db =
     (let P = (\<lambda>e. enr_pk e \<in> set sel \<and> has_lane db e \<and> enr_status e = E_Paused)
      in (length (filter P (enrollments db)), 0,
          change_enrollments P (\<lambda>e. e\<lparr>enr_status := (if has_waiting_lane db e then E_Waiting else E_Active)\<rparr>) db))"

definition admin_stop :: "string \<Rightarrow> int \<Rightarrow> drip_enrollment \<Rightarrow> drip_enrollment" where
  "admin_stop user now e =
     e\<lparr>enr_status := E_Stopped, stopped_at := Some now, stop_reason := ''admin_stop'', stop_detail := ''Stopped in Admin by '' @ user\<rparr>"

definition stop_enrollments :: "string \<Rightarrow> int list \<Rightarrow> int \<Rightarrow> drip_db \<Rightarrow> nat \<times> nat \<times> drip_db" where
  "stop_enrollments user sel now db =
     (let ids = lanes_of_enrollments (\<lambda>k. k \<in> set sel) db;
          P = (\<lambda>e. enr_pk e \<in> set sel \<and> has_lane db e \<and> enr_status e \<notin> {E_Stopped, E_Completed});
          n = length (filter P (enrollments db));
          db = change_enrollments P (admin_stop user now) db;
          db = change_lanes (\<lambda>l. lane_enrollment l \<in> set sel \<and> nonterminal_lane l) (\<lambda>_. L_Stopped) db;
          (retired, db) = retire_pending_tasks True ids now ''Stopped by drip Admin'' db
      in (n, retired, db))"

section \<open>Lanes\<close>

definition lanes_with :: "lane_status \<Rightarrow> int list \<Rightarrow> drip_db \<Rightarrow> int list" where
  "lanes_with st sel db = map lane_pk (filter (\<lambda>l. lane_pk l \<in> set sel \<and> lane_status l = st) (lanes db))"

definition pause_lanes :: "int list \<Rightarrow> int \<Rightarrow> drip_db \<Rightarrow> nat \<times> nat \<times> drip_db" where
  "pause_lanes sel now db =
     (let P = (\<lambda>l. lane_pk l \<in> set sel \<and> lane_status l \<in> {L_Waiting_current, L_Waiting_connection, L_Active});
          n = length (filter P (lanes db));
          db = change_lanes P (\<lambda>_. L_Paused) db;
          ids = lanes_with L_Paused sel db;
          (retired, db) = retire_pending_tasks False ids now ''Drip lane paused in Admin'' db
      in (n, retired, db))"

definition unclear_lane :: "drip_db \<Rightarrow> int \<Rightarrow> bool" where
  "unclear_lane db k \<longleftrightarrow> list_ex (\<lambda>d. dlv_lane d = k \<and> dlv_status d = D_Unclear) (deliveries db)"

text \<open>The parent of a lane that lets it run; an unknown one is a \<open>KeyError\<close> that the foreign keys rule out.\<close>

definition parent_open :: "drip_db \<Rightarrow> drip_lane \<Rightarrow> bool" where
  "parent_open db l \<longleftrightarrow>
     list_ex (\<lambda>e. enr_pk e = lane_enrollment l \<and> enr_status e \<in> {E_Waiting, E_Active} \<and> campaign_status e db = ''active'') (enrollments db)"

definition resume_lanes :: "int list \<Rightarrow> drip_db \<Rightarrow> nat \<times> nat \<times> drip_db" where
  "resume_lanes sel db =
     (let P = (\<lambda>l. lane_pk l \<in> set sel \<and> lane_status l = L_Paused \<and> \<not> unclear_lane db (lane_pk l) \<and> parent_open db l)
      in (length (filter P (lanes db)), 0,
          change_lanes P (\<lambda>l. if handed_off_at l \<noteq> None then L_Active else L_Waiting_current) db))"

definition takeover_reason :: "string \<Rightarrow> string" where
  "takeover_reason user = ''Drip lane stopped in Admin by '' @ user @ '' for human takeover''"

definition takeover_lanes :: "string \<Rightarrow> int list \<Rightarrow> int \<Rightarrow> drip_db \<Rightarrow> nat \<times> nat \<times> drip_db" where
  "takeover_lanes user sel now db =
     (let P = (\<lambda>l. lane_pk l \<in> set sel \<and> nonterminal_lane l);
          n = length (filter P (lanes db));
          db = change_lanes P (\<lambda>_. L_Stopped) db;
          ids = lanes_with L_Stopped sel db;
          (retired, db) = retire_pending_tasks True ids now (takeover_reason user) db
      in (n, retired, db))"

section \<open>All controls\<close>

datatype control =
    Pause_campaigns "int list"
  | Resume_campaigns "int \<Rightarrow> bool" "int list"
  | Pause_enrollments "int list"
  | Resume_enrollments "int list"
  | Stop_enrollments string "int list"
  | Pause_lanes "int list"
  | Resume_lanes "int list"
  | Stop_lanes string "int list"

fun run_control :: "control \<Rightarrow> int \<Rightarrow> drip_db \<Rightarrow> nat \<times> nat \<times> drip_db" where
  "run_control (Pause_campaigns sel) now db = pause_campaigns sel now db"
| "run_control (Resume_campaigns v sel) now db = resume_campaigns v sel db"
| "run_control (Pause_enrollments sel) now db = pause_enrollments sel now db"
| "run_control (Resume_enrollments sel) now db = resume_enrollments sel db"
| "run_control (Stop_enrollments user sel) now db = stop_enrollments user sel now db"
| "run_control (Pause_lanes sel) now db = pause_lanes sel now db"
| "run_control (Resume_lanes sel) now db = resume_lanes sel db"
| "run_control (Stop_lanes user sel) now db = takeover_lanes user sel now db"

definition controlled :: "control \<Rightarrow> int \<Rightarrow> drip_db \<Rightarrow> drip_db" where
  "controlled c now db = snd (snd (run_control c now db))"

end
