(* ===== verification/Drip_Quiet.thy ===== *)
theory Drip_Quiet
  imports Drip_Ledger Drip_Linkedin Drip_Controls
begin

text \<open>
  What passes, stops and the controls of an operator do to the ledger: none of them lets a delivery that has been
  tried, or is being tried, wait for a worker again.
\<close>

section \<open>Passes and stops are quiet\<close>

lemma enrollment_step_quiet: "enrollment_step k a b \<Longrightarrow> quiet a b"
  by (simp add: enrollment_step_def quiet_def)

lemma stop_quiet: "stop_enrollment_for_reason k reason now a = Inr (r, b) \<Longrightarrow> drip_ok a \<Longrightarrow> quiet a b"
  by (rule enrollment_step_quiet [OF stop_step])

lemma quiet_same:
  "drip_ok b \<Longrightarrow> deliveries b = deliveries a \<Longrightarrow> tasks b = tasks a \<Longrightarrow> dlv_seq b = dlv_seq a \<Longrightarrow> task_seq b = task_seq a \<Longrightarrow> quiet a b"
  by (simp add: quiet_def rows_step_same)

lemma reconcile_all_quiet:
  "reconcile_all env now ap ks a = Inr (ds, b) \<Longrightarrow> drip_ok a \<Longrightarrow> quiet a b"
proof (induction ks arbitrary: a ds)
  case Nil
  then show ?case by (simp add: quiet_refl)
next
  case (Cons k ks)
  then obtain c ds1 ds2 where c: "reconcile_enrollment env now ap k a = Inr (ds1, c)" "reconcile_all env now ap ks c = Inr (ds2, b)"
    by auto
  have q: "quiet a c" using reconcile_enrollment_step [OF c(1) Cons.prems(2)] by (rule enrollment_step_quiet)
  then show ?case using Cons.IH [OF c(2) quiet_ok [OF q]] quiet_trans by blast
qed

lemma reconcile_quiet:
  assumes run: "reconcile_drips env now ap campaign a = Inr (ds, b)" and ok: "drip_ok a"
  shows "quiet a b"
proof -
  obtain c where c: "reconcile_all env now ap (sort (map enr_pk (filter (\<lambda>e. nonterminal_enrollment e \<and>
        (case campaign of None \<Rightarrow> True | Some c \<Rightarrow> enr_campaign e = c)) (enrollments a)))) a = Inr (ds, c)"
    and b: "b = c \<or> b = c\<lparr>workflow_runs := workflow_runs c @ [(card (dec_enrollment ` set ds), length ds)]\<rparr>"
    using run by (auto simp: reconcile_drips_def Let_def split: if_splits)
  have q: "quiet a c" by (rule reconcile_all_quiet [OF c ok])
  then have "drip_ok (c\<lparr>workflow_runs := w\<rparr>)" for w using quiet_ok [OF q] by (simp add: drip_ok_def)
  then have "quiet c (c\<lparr>workflow_runs := w\<rparr>)" for w by (intro quiet_same) simp_all
  then show ?thesis using b q quiet_trans by blast
qed

lemma edit_enrollments_ok: "drip_ok a \<Longrightarrow> drip_ok (a\<lparr>enrollments := es\<rparr>)"
  by (simp add: drip_ok_def)

lemma inbound_quiet:
  assumes run: "stop_for_inbound_message k now a = Inr (n, b)" and ok: "drip_ok a"
  shows "quiet a b"
proof -
  have "b = a \<or> (\<exists>m. b = stop_open_of_lead m now a)"
    using run unfolding stop_for_inbound_message_def by (auto split: option.splits if_splits)
  moreover have "quiet a (stop_open_of_lead m now a)" for m
  proof -
    have "quiet a (a\<lparr>enrollments := es\<rparr>)" for es by (rule quiet_same) (simp_all add: ok edit_enrollments_ok)
    moreover have "quiet c (stop_below mine t reason c)" if "drip_ok c" for mine t reason c
      using stop_below_ok [OF that] stop_below_rows by (simp add: quiet_def)
    ultimately show ?thesis unfolding stop_open_of_lead_def Let_def using quiet_trans quiet_ok by blast
  qed
  ultimately show ?thesis using quiet_refl [OF ok] by blast
qed

lemma set_lane_status_normal: "normal_lane l = l \<Longrightarrow> normal_lane (set_lane_status st l) = set_lane_status st l"
proof -
  assume n: "normal_lane l = l"
  have "normal_lane (set_lane_status st l) = set_lane_status st (normal_lane l)"
    by (simp add: set_lane_status_def normal_lane_def)
  then show ?thesis using n by simp
qed

lemma map_lanes_quiet:
  assumes ok: "drip_ok a" and f: "\<And>l. lane_pk (f l) = lane_pk l" "\<And>l. normal_lane l = l \<Longrightarrow> normal_lane (f l) = f l"
  shows "quiet a (a\<lparr>lanes := map f (lanes a)\<rparr>)"
proof (rule quiet_same)
  have "lane_pk \<circ> f = lane_pk" using f(1) by auto
  then show "drip_ok (a\<lparr>lanes := map f (lanes a)\<rparr>)" using ok f(2) by (simp add: drip_ok_def)
qed simp_all

lemma map_deliveries_quiet:
  assumes ok: "drip_ok a" and f: "\<And>d. f d = d \<or> f d = set_delivery_status D_Stopped d \<and> dlv_status d \<in> {D_Planned, D_Queued, D_Sending}"
  shows "quiet a (a\<lparr>deliveries := map f (deliveries a)\<rparr>)" (is "quiet a ?b")
proof -
  have keep: "dlv_pk (f d) = dlv_pk d" "current_task (f d) = current_task d" for d using f [of d] by auto
  have "dlv_pk \<circ> f = dlv_pk" using keep by auto
  moreover have "one_to_one (map f (deliveries a))"
  proof (rule one_to_oneI)
    fix x y t assume "x \<in> set (map f (deliveries a))" "y \<in> set (map f (deliveries a))" "current_task x = Some t" "current_task y = Some t"
    then obtain x' y' where x: "x' \<in> set (deliveries a)" "current_task x' = Some t" "dlv_pk x = dlv_pk x'"
      and y: "y' \<in> set (deliveries a)" "current_task y' = Some t" "dlv_pk y = dlv_pk y'" using keep by auto
    show "dlv_pk x = dlv_pk y" using one_to_oneD [OF drip_okD(3) [OF ok] x(1) y(1) x(2) y(2)] x(3) y(3) by simp
  qed
  ultimately have "drip_ok ?b" using ok keep by (simp add: drip_ok_def)
  moreover have "delivery_origin a x" if x: "x \<in> set (deliveries ?b)" for x
  proof -
    obtain d where "d \<in> set (deliveries a)" "x = f d" using x by auto
    then show ?thesis using f [of d] keep [of d] unfolding delivery_origin_def shifted_def by force
  qed
  ultimately show ?thesis unfolding quiet_def by (intro conjI rows_stepI) (simp_all add: task_kept)
qed

lemma map_tasks_quiet:
  assumes ok: "drip_ok a" and f: "\<And>t. task_pk (f t) = task_pk t" "\<And>t. task_status (f t) = PENDING \<Longrightarrow> task_status t = PENDING"
  shows "quiet a (a\<lparr>tasks := map f (tasks a)\<rparr>)" (is "quiet a ?b")
proof -
  have pks: "task_pk \<circ> f = task_pk" using f by auto
  have "task_pk ` set (tasks ?b) = task_pk ` set (tasks a)" by (simp add: image_image f(1))
  then have "drip_ok ?b" using ok pks f(1) by (simp add: drip_ok_def)
  moreover have "task_origin a t" if "t \<in> set (tasks ?b)" for t using that f unfolding task_origin_def by fastforce
  ultimately show ?thesis unfolding quiet_def by (intro conjI rows_stepI) (simp_all add: delivery_kept)
qed

lemma retire_tasks_quiet: "drip_ok a \<Longrightarrow> quiet a (retire_tasks ids now reason a)"
  unfolding retire_tasks_def by (rule map_tasks_quiet) (auto simp: retire_task_def split: if_splits)

lemma locked_stop_quiet:
  assumes ok: "drip_ok a"
  shows "quiet a (stop_enrollment_locked k reason now a)"
proof -
  let ?e = "\<lambda>e. e\<lparr>enr_status := E_Stopped, stopped_at := Some now, stop_reason := stop_code reason, stop_detail := reason\<rparr>"
  let ?a = "set_enrollment k ?e a"
  let ?ids = "map lane_pk (filter (\<lambda>l. lane_enrollment l = k) (lanes ?a))"
  let ?b = "?a\<lparr>lanes := map (\<lambda>l. if lane_pk l \<in> set ?ids \<and> nonterminal_lane l then set_lane_status L_Stopped l else l) (lanes ?a)\<rparr>"
  let ?c = "?b\<lparr>deliveries := map (\<lambda>d. if stoppable ?ids d then set_delivery_status D_Stopped d else d) (deliveries ?b)\<rparr>"
  have qa: "quiet a ?a" using set_enrollment_step [OF ok, of ?e k] by (simp add: enrollment_step_quiet)
  have qb: "quiet ?a ?b"
    by (rule map_lanes_quiet [OF quiet_ok [OF qa]]) (simp_all add: set_lane_status_normal, simp add: set_lane_status_def)
  have qc: "quiet ?b ?c" by (rule map_deliveries_quiet [OF quiet_ok [OF qb]]) (auto simp: stoppable_def)
  have "quiet ?c (retire_tasks ts now reason ?c)" for ts by (rule retire_tasks_quiet [OF quiet_ok [OF qc]])
  then show ?thesis unfolding stop_enrollment_locked_def Let_def using qa qb qc quiet_trans by blast
qed

lemma locked_stop_ledger: "books_ok cl rt \<Longrightarrow> books_ok cl (on_drip (stop_enrollment_locked k reason now) rt)"
  by (rule ledger_on_drip) (simp_all add: locked_stop_quiet books_okD(1))

lemma lane_status_ledger: "books_ok cl rt \<Longrightarrow> books_ok cl (on_drip (edit_lane k (set_lane_status st)) rt)"
  by (rule ledger_on_drip) (simp_all add: edit_lane_quiet books_okD(1) set_lane_status_def)

section \<open>The controls\<close>

lemma map_deliveries_shift:
  assumes ok: "drip_ok a" and f: "\<And>d. dlv_pk (f d) = dlv_pk d" "\<And>d. current_task (f d) = current_task d \<or> current_task (f d) = None"
    and shift: "\<And>d. f d = d \<or> waiting_status (dlv_status d) \<and> dlv_status (f d) \<in> {D_Planned, D_Queued, D_Stopped}"
  shows "quiet a (a\<lparr>deliveries := map f (deliveries a)\<rparr>)" (is "quiet a ?b")
proof -
  have "dlv_pk \<circ> f = dlv_pk" using f(1) by auto
  moreover have "one_to_one (map f (deliveries a))"
  proof (rule one_to_oneI)
    fix x y t assume "x \<in> set (map f (deliveries a))" "y \<in> set (map f (deliveries a))" "current_task x = Some t" "current_task y = Some t"
    then obtain x' y' where x: "x' \<in> set (deliveries a)" "current_task x' = Some t" "dlv_pk x = dlv_pk x'"
      and y: "y' \<in> set (deliveries a)" "current_task y' = Some t" "dlv_pk y = dlv_pk y'" using f by (auto; metis option.distinct(1))
    show "dlv_pk x = dlv_pk y" using one_to_oneD [OF drip_okD(3) [OF ok] x(1) y(1) x(2) y(2)] x(3) y(3) by simp
  qed
  moreover have "k \<in> task_pk ` set (tasks a)" if "d \<in> set (deliveries a)" "current_task (f d) = Some k" for d k
    using f(2) [of d] that ok by (auto simp: drip_ok_def)
  ultimately have "drip_ok ?b" using ok f(1) by (simp add: drip_ok_def)
  moreover have "delivery_origin a x" if x: "x \<in> set (deliveries ?b)" for x
  proof -
    obtain d where d: "d \<in> set (deliveries a)" "x = f d" using x by auto
    have "f d = d \<or> shifted (task_seq a) d (f d)" using shift [of d] f(2) [of d] by (auto simp: shifted_def waiting_status_def)
    then show ?thesis using d f(1) [of d] unfolding delivery_origin_def by force
  qed
  ultimately show ?thesis unfolding quiet_def by (intro conjI rows_stepI) (simp_all add: task_kept)
qed

text \<open>A delivery that lets go of its task has none that a worker could start.\<close>

lemma ledger_detach:
  assumes ok: "books_ok cl rt" and g: "\<And>d. g d = d \<or> g d = d\<lparr>current_task := None\<rparr>"
  shows "books_ok cl (on_drip (\<lambda>db. db\<lparr>deliveries := map g (deliveries db)\<rparr>) rt)" (is "books_ok cl ?rt")
proof (rule books_okI)
  have keep: "dlv_pk (g d) = dlv_pk d" "dlv_status (g d) = dlv_status d" "current_task (g d) = current_task d \<or> current_task (g d) = None" for d
    using g [of d] by auto
  have okd: "drip_ok (drip rt)" by (rule books_okD(1) [OF ok])
  have pks: "dlv_pk \<circ> g = dlv_pk" using keep by auto
  have "one_to_one (map g (deliveries (drip rt)))"
  proof (rule one_to_oneI)
    fix x y t assume "x \<in> set (map g (deliveries (drip rt)))" "y \<in> set (map g (deliveries (drip rt)))" "current_task x = Some t" "current_task y = Some t"
    then obtain x' y' where x: "x' \<in> set (deliveries (drip rt))" "current_task x' = Some t" "dlv_pk x = dlv_pk x'"
      and y: "y' \<in> set (deliveries (drip rt))" "current_task y' = Some t" "dlv_pk y = dlv_pk y'"
      using keep by (auto; metis option.distinct(1))
    show "dlv_pk x = dlv_pk y" using one_to_oneD [OF drip_okD(3) [OF okd] x(1) y(1) x(2) y(2)] x(3) y(3) by simp
  qed
  moreover have "k \<in> task_pk ` set (tasks (drip rt))" if "d \<in> set (deliveries (drip rt))" "current_task (g d) = Some k" for d k
    using keep(3) [of d] that okd by (auto simp: drip_ok_def)
  ultimately show "drip_ok (drip ?rt)" using okd keep(1) pks by (simp add: drip_ok_def on_drip_def)
  show "distinct (map att_pk (attempts ?rt))" using books_okD(2) [OF ok] by simp
  show "attempt_ok ?rt x" if "x \<in> set (attempts ?rt)" for x using books_okD(3) [OF ok] that by (simp add: attempt_ok_def on_drip_def)
  show "k \<le> task_seq (drip ?rt)" if "k \<in> set cl" for k using books_okD(4) [OF ok that] by (simp add: on_drip_def)
  fix x assume "x \<in> set (deliveries (drip ?rt))"
  then obtain d where d: "d \<in> set (deliveries (drip rt))" "x = g d" by (auto simp: on_drip_def)
  have "startable_task cl (tasks (drip rt)) (g d) \<Longrightarrow> startable_task cl (tasks (drip rt)) d"
    using keep(3) [of d] by (auto simp: startable_task_def)
  then show "book cl (tasks (drip ?rt)) (blockers (dlv_pk x) (attempts ?rt)) x"
    using books_okD(5) [OF ok d(1)] d(2) keep [of d] by (auto simp: book_def waiting_delivery_def on_drip_def)
qed

definition let_go :: "int list \<Rightarrow> drip_delivery \<Rightarrow> drip_delivery" where
  "let_go ids d = (case current_task d of None \<Rightarrow> d | Some k \<Rightarrow> if k \<in> set ids then d\<lparr>current_task := None\<rparr> else d)"

lemma let_go_cases: "let_go ids d = d \<or> let_go ids d = d\<lparr>current_task := None\<rparr>"
  by (cases "current_task d") (simp_all add: let_go_def)

lemma retire_delivery_fields [simp]:
  "dlv_pk (retire_delivery stops ids d) = dlv_pk d" "dlv_lane (retire_delivery stops ids d) = dlv_lane d"
  by (cases "current_task d"; simp add: retire_delivery_def Let_def)+

lemma retire_delivery_task: "current_task (retire_delivery stops ids d) = current_task d \<or> current_task (retire_delivery stops ids d) = None"
  by (cases "current_task d"; simp add: retire_delivery_def Let_def)

lemma retire_delivery_status:
  "dlv_status (retire_delivery stops ids d) =
     (if \<not> waiting_status (dlv_status d) then dlv_status d else if stops then D_Stopped
      else if \<exists>k \<in> set ids. current_task d = Some k then D_Planned else dlv_status d)"
  by (cases "current_task d") (simp_all add: retire_delivery_def Let_def)

lemma retire_delivery_split:
  "retire_delivery stops ids d = let_go ids (if waiting_status (dlv_status d) then retire_delivery stops ids d else d)"
  by (cases "current_task d"; cases "waiting_status (dlv_status d)") (simp_all add: retire_delivery_def let_go_def Let_def)

lemma retire_pending_ledger:
  assumes ok: "books_ok cl rt"
  shows "books_ok cl (on_drip (\<lambda>db. snd (retire_pending_tasks stops lane_ids now reason db)) rt)"
proof -
  let ?ids = "pending_task_ids lane_ids (drip rt)" and ?mine = "\<lambda>d. dlv_lane d \<in> set lane_ids"
  let ?shift = "\<lambda>d. if ?mine d \<and> waiting_status (dlv_status d) then retire_delivery stops ?ids d else d"
  let ?go = "\<lambda>d. if ?mine d then let_go ?ids d else d"
  let ?a = "retire_tasks ?ids now reason (drip rt)"
  let ?b = "?a\<lparr>deliveries := map ?shift (deliveries ?a)\<rparr>"
  have qa: "quiet (drip rt) ?a" by (rule retire_tasks_quiet [OF books_okD(1) [OF ok]])
  have qb: "quiet ?a ?b"
    by (rule map_deliveries_shift [OF quiet_ok [OF qa]])
      (use retire_delivery_task in \<open>auto simp: retire_delivery_status waiting_status_def\<close>)
  have okb: "books_ok cl (rt\<lparr>drip := ?b\<rparr>)" by (rule ledger_quiet [OF ok quiet_trans [OF qa qb]])
  have "books_ok cl (on_drip (\<lambda>db. db\<lparr>deliveries := map ?go (deliveries db)\<rparr>) (rt\<lparr>drip := ?b\<rparr>))"
    by (rule ledger_detach [OF okb]) (use let_go_cases in auto)
  moreover have "?go (?shift d) = (if ?mine d then retire_delivery stops ?ids d else d)" for d
    using retire_delivery_split [of stops ?ids d] by auto
  ultimately show ?thesis by (simp add: on_drip_def retire_pending_tasks_def Let_def comp_def)
qed

lemma change_lanes_quiet: "drip_ok a \<Longrightarrow> quiet a (change_lanes P f a)"
  unfolding change_lanes_def
  by (rule map_lanes_quiet) (simp_all add: set_lane_status_normal, simp_all add: set_lane_status_def normal_lane_def)

lemma change_enrollments_quiet: "drip_ok a \<Longrightarrow> quiet a (change_enrollments P f a)"
  unfolding change_enrollments_def by (rule quiet_same) (simp_all add: edit_enrollments_ok)

lemma change_campaigns_quiet: "drip_ok a \<Longrightarrow> quiet a (a\<lparr>campaigns := cs\<rparr>)"
  by (rule quiet_same) (simp_all add: drip_ok_def)

lemma controlled_ledger:
  assumes ok: "books_ok cl rt"
  shows "books_ok cl (on_drip (controlled c now) rt)"
proof -
  have lanes: "books_ok cl (on_drip (change_lanes P f) r)" if "books_ok cl r" for P f r
    by (rule ledger_on_drip [where f = "change_lanes P f", OF that change_lanes_quiet [OF books_okD(1) [OF that]]])
  have enrs: "books_ok cl (on_drip (change_enrollments P f) r)" if "books_ok cl r" for P f r
    by (rule ledger_on_drip [where f = "change_enrollments P f", OF that change_enrollments_quiet [OF books_okD(1) [OF that]]])
  have camps: "books_ok cl (on_drip (\<lambda>a. a\<lparr>campaigns := cs\<rparr>) r)" if "books_ok cl r" for cs r
    by (rule ledger_on_drip [where f = "\<lambda>a. a\<lparr>campaigns := cs\<rparr>", OF that change_campaigns_quiet [OF books_okD(1) [OF that]]])
  note retire = retire_pending_ledger
  show ?thesis
  proof (cases c)
    case (Pause_campaigns sel)
    show ?thesis unfolding Pause_campaigns controlled_def run_control.simps pause_campaigns_def Let_def
      using camps [OF retire [OF ok]] by (simp add: on_drip_def case_prod_beta)
  next
    case (Resume_campaigns v sel)
    show ?thesis unfolding Resume_campaigns controlled_def run_control.simps resume_campaigns_def Let_def
      using camps [OF ok] by (simp add: on_drip_def)
  next
    case (Pause_enrollments sel)
    show ?thesis unfolding Pause_enrollments controlled_def run_control.simps pause_enrollments_def Let_def
      using retire [OF enrs [OF ok]] by (simp add: on_drip_def case_prod_beta)
  next
    case (Resume_enrollments sel)
    show ?thesis unfolding Resume_enrollments controlled_def run_control.simps resume_enrollments_def Let_def
      using enrs [OF ok] by (simp add: on_drip_def)
  next
    case (Stop_enrollments user sel)
    show ?thesis unfolding Stop_enrollments controlled_def run_control.simps stop_enrollments_def Let_def
      using retire [OF lanes [OF enrs [OF ok]]] by (simp add: on_drip_def case_prod_beta)
  next
    case (Pause_lanes sel)
    show ?thesis unfolding Pause_lanes controlled_def run_control.simps pause_lanes_def Let_def
      using retire [OF lanes [OF ok]] by (simp add: on_drip_def case_prod_beta)
  next
    case (Resume_lanes sel)
    show ?thesis unfolding Resume_lanes controlled_def run_control.simps resume_lanes_def Let_def
      using lanes [OF ok] by (simp add: on_drip_def)
  next
    case (Stop_lanes user sel)
    show ?thesis unfolding Stop_lanes controlled_def run_control.simps takeover_lanes_def Let_def
      using retire [OF lanes [OF ok]] by (simp add: on_drip_def case_prod_beta)
  qed
qed

end
