(* ===== verification/Gmail_Client.thy ===== *)
theory Gmail_Client
  imports Copy_Text Task_Queue
begin

text \<open>
  The Gmail client (\<open>gmail/auth.py\<close>, \<open>gmail/delivery.py\<close>, \<open>gmail/client.py\<close>): the mailboxes of the operators,
  the permit that binds a send to one claimed task and one exact text, and the send itself. What the
  provider answers is an argument; so is the digest of a message (SHA-256 of its canonical JSON).
\<close>

section \<open>Mailboxes\<close>

record mailbox =
  gmail_account :: string
  send_as :: string
  reply_to :: string

definition GMAIL_OPERATOR_MAPPING :: "(string \<times> mailbox) list" where
  "GMAIL_OPERATOR_MAPPING =
     [(''Arian'', \<lparr>gmail_account = ''arian_boundera'', send_as = ''ariant@getboundera.com'', reply_to = ''ariant@boundera.io''\<rparr>),
      (''Athena'', \<lparr>gmail_account = ''eddy_boundera'', send_as = ''athena@getboundera.com'', reply_to = ''athena@boundera.io''\<rparr>),
      (''Leili'', \<lparr>gmail_account = ''arian_boundera'', send_as = ''leili@getboundera.com'', reply_to = ''leili@boundera.io''\<rparr>),
      (''Chuka'', \<lparr>gmail_account = ''eddy_boundera'', send_as = ''eddy@getboundera.com'', reply_to = ''eddy@boundera.io''\<rparr>),
      (''Eddy'', \<lparr>gmail_account = ''eddy_boundera'', send_as = ''eddy@getboundera.com'', reply_to = ''eddy@boundera.io''\<rparr>)]"

text \<open>The keys of the configured accounts; another key is a \<open>ValueError\<close>.\<close>

definition GMAIL_ACCOUNTS :: "string list" where
  "GMAIL_ACCOUNTS = [''arian_boundera'', ''eddy_boundera'']"

definition operators_for_account :: "string \<Rightarrow> string list option" where
  "operators_for_account account =
     (if account \<notin> set GMAIL_ACCOUNTS then None
      else Some (map fst (filter (\<lambda>(_, m). gmail_account m = account) GMAIL_OPERATOR_MAPPING)))"

datatype 'e mail_error =
    Enrichment string
  | Request_failed string
  | Unauthorized string
  | Bad_value string
  | From_callback 'e

section \<open>Identifiers\<close>

definition scoped_gmail_id :: "string \<Rightarrow> string \<Rightarrow> string option" where
  "scoped_gmail_id account provider_id =
     (let a = strip account; r = strip provider_id; scoped = a @ '':'' @ r in
      if a = '''' \<or> r = '''' \<or> 200 < length scoped then None else Some scoped)"

text \<open>The regular expression of a provider's Message-ID: \<open><local@domain>\<close> without blanks, brackets or another at sign.\<close>

definition id_char :: "char \<Rightarrow> bool" where
  "id_char c \<longleftrightarrow> c \<noteq> CHR ''<'' \<and> c \<noteq> CHR ''>'' \<and> c \<noteq> CHR ''@'' \<and> \<not> py_space c"

definition rfc_form :: "string \<Rightarrow> bool" where
  "rfc_form s =
     (case s of
        [] \<Rightarrow> False
      | c # t \<Rightarrow>
          c = CHR ''<'' \<and>
          (case dropWhile id_char t of
             [] \<Rightarrow> False
           | a # u \<Rightarrow>
               takeWhile id_char t \<noteq> [] \<and> a = CHR ''@'' \<and> takeWhile id_char u \<noteq> [] \<and> dropWhile id_char u = ''>''))"

definition validated_provider_rfc_message_id :: "string \<Rightarrow> string option" where
  "validated_provider_rfc_message_id value = (if rfc_form (strip value) then Some (strip value) else None)"

definition strip_brackets :: "string \<Rightarrow> string" where
  "strip_brackets s =
     (let edge = (\<lambda>c. c = CHR ''<'' \<or> c = CHR ''>'') in rev (dropWhile edge (rev (dropWhile edge s))))"

definition normalized_rfc_message_id :: "(string \<Rightarrow> string) \<Rightarrow> string \<Rightarrow> string \<Rightarrow> string option" where
  "normalized_rfc_message_id make_msgid value domain =
     (let m = (if strip value \<noteq> '''' then strip value else make_msgid domain) in
      if CHR 0x0D \<in> set m \<or> CHR 0x0A \<in> set m then None
      else if m \<noteq> '''' \<and> hd m = CHR ''<'' \<and> last m = CHR ''>'' then Some m
      else Some (''<'' @ strip_brackets m @ ''>''))"

text \<open>\<open>rsplit("@", 1)[-1]\<close>: the text after the last at sign.\<close>

definition domain_of :: "string \<Rightarrow> string" where
  "domain_of s = rev (takeWhile (\<lambda>c. c \<noteq> CHR ''@'') (rev s))"

section \<open>Permits\<close>

record message_content =
  content_operator :: string
  content_account :: string
  content_to :: string
  content_subject :: string
  content_body :: string
  content_thread :: string
  content_reply :: string
  content_references :: "string list"
  content_rfc :: string

definition clean_references :: "string list \<Rightarrow> string list" where
  "clean_references refs = filter (\<lambda>r. r \<noteq> '''') (map strip refs)"

definition fingerprint_content :: "message_content \<Rightarrow> message_content" where
  "fingerprint_content c =
     c\<lparr>content_operator := strip (content_operator c), content_account := casefold (strip (content_account c)),
       content_to := casefold (strip (content_to c)), content_thread := strip (content_thread c),
       content_reply := strip (content_reply c), content_references := clean_references (content_references c),
       content_rfc := strip (content_rfc c)\<rparr>"

record permit =
  permit_task :: int
  permit_task_type :: task_type
  permit_fingerprint :: string
  permit_used :: bool

text \<open>The task as the worker holds it, and the stored one: its row is read again.\<close>

definition issue_gmail_delivery_permit ::
  "(message_content \<Rightarrow> string) \<Rightarrow> task list \<Rightarrow> task \<Rightarrow> message_content \<Rightarrow> ('e mail_error, permit) result" where
  "issue_gmail_delivery_permit digest rows t c =
     (case List.find (\<lambda>r. task_pk r = task_pk t) rows of
        None \<Rightarrow> Inl (Unauthorized ''Gmail delivery Task no longer exists'')
      | Some row \<Rightarrow>
          let operator = strip (content_operator c) in
          if task_status t \<noteq> RUNNING \<or> task_status row \<noteq> RUNNING then
            Inl (Unauthorized ''Gmail delivery requires an already-claimed running Task'')
          else if task_type t \<notin> {GMAIL_FOLLOW_UP, DRIP_GMAIL} \<or> task_type row \<notin> {GMAIL_FOLLOW_UP, DRIP_GMAIL} then
            Inl (Unauthorized ''Gmail delivery Task is not an automated Gmail lane'')
          else if task_type t \<noteq> task_type row then Inl (Unauthorized ''Gmail delivery Task type changed'')
          else if operator = '''' \<or> \<not> payload_operator_is operator row then
            Inl (Unauthorized ''Gmail delivery operator does not own the claimed Task'')
          else
            (case map_of GMAIL_OPERATOR_MAPPING operator of
               None \<Rightarrow> Inl (Unauthorized ''Gmail delivery account does not match the claimed Task operator'')
             | Some m \<Rightarrow>
                 if gmail_account m \<noteq> content_account c then
                   Inl (Unauthorized ''Gmail delivery account does not match the claimed Task operator'')
                 else Inr \<lparr>permit_task = task_pk t, permit_task_type = task_type t,
                   permit_fingerprint = digest (fingerprint_content (c\<lparr>content_operator := operator\<rparr>)), permit_used = False\<rparr>))"

definition consume_gmail_delivery_permit ::
  "(message_content \<Rightarrow> string) \<Rightarrow> permit option \<Rightarrow> message_content \<Rightarrow> ('e mail_error, permit) result" where
  "consume_gmail_delivery_permit digest p c =
     (case p of
        None \<Rightarrow> Inl (Unauthorized ''Direct Gmail sends are disabled; a claimed automation Task is required'')
      | Some p \<Rightarrow>
          if permit_used p then Inl (Unauthorized ''Gmail delivery permit was already used'')
          else if digest (fingerprint_content c) \<noteq> permit_fingerprint p then
            Inl (Unauthorized ''Gmail delivery content does not match its claimed Task permit'')
          else Inr (p\<lparr>permit_used := True\<rparr>))"

section \<open>The client\<close>

record send_as_alias =
  alias_email :: string
  alias_default :: bool
  alias_status :: string

record stored_header =
  header_name :: string
  header_value :: string

record stored_message =
  stored_id :: string
  stored_thread :: string
  stored_headers :: "stored_header list"

text \<open>What the provider answers; a failed request is a text. \<open>credentials\<close> is the state of an account's token.\<close>

record provider =
  credentials :: "string \<Rightarrow> (string, unit) result"
  alias_reply :: "(string, send_as_alias list) result"
  send_reply :: "(string, string \<times> string) result"
  metadata_reply :: "string \<Rightarrow> (string, stored_message) result"

record gmail_client =
  client_operator :: string
  client_account :: string
  client_send_as :: string
  client_reply_to :: string

record gmail_result =
  result_message_id :: string
  result_thread_id :: string
  result_rfc :: string

definition gmail_client_for :: "provider \<Rightarrow> string \<Rightarrow> ('e mail_error, gmail_client) result" where
  "gmail_client_for svc operator =
     (case map_of GMAIL_OPERATOR_MAPPING operator of
        None \<Rightarrow> Inl (Enrichment ''No Gmail mapping configured'')
      | Some m \<Rightarrow>
          (case credentials svc (gmail_account m) of
             Inl e \<Rightarrow> Inl (Enrichment e)
           | Inr _ \<Rightarrow> Inr \<lparr>client_operator = operator, client_account = gmail_account m,
               client_send_as = casefold (send_as m), client_reply_to = casefold (reply_to m)\<rparr>))"

definition send_as_aliases :: "send_as_alias list \<Rightarrow> (string \<times> send_as_alias) list" where
  "send_as_aliases items = rev (map (\<lambda>a. (casefold (strip (alias_email a)), a)) (filter (\<lambda>a. alias_email a \<noteq> '''') items))"

definition alias_verified :: "send_as_alias list \<Rightarrow> string \<Rightarrow> bool" where
  "alias_verified items address =
     (case map_of (send_as_aliases items) address of
        None \<Rightarrow> False
      | Some a \<Rightarrow> alias_default a \<or> casefold (alias_status a) \<in> {''accepted'', ''verified''})"

definition validate_send_as :: "provider \<Rightarrow> gmail_client \<Rightarrow> ('e mail_error, unit) result" where
  "validate_send_as svc client =
     (case alias_reply svc of
        Inl e \<Rightarrow> Inl (Request_failed e)
      | Inr items \<Rightarrow>
          if \<not> alias_verified items (client_send_as client) then Inl (Enrichment ''no verified send-as alias'')
          else if \<not> alias_verified items (client_reply_to client) then Inl (Enrichment ''no verified reply-to alias'')
          else Inr ())"

definition provider_rfc_message_id :: "provider \<Rightarrow> string \<Rightarrow> string \<Rightarrow> ('e mail_error, string) result" where
  "provider_rfc_message_id svc message_id thread_id =
     (case metadata_reply svc message_id of
        Inl e \<Rightarrow> Inl (Enrichment e)
      | Inr s \<Rightarrow>
          let values = map (\<lambda>h. strip (header_value h))
                (filter (\<lambda>h. casefold (strip (header_name h)) = ''message-id'') (stored_headers s)) in
          if stored_id s \<noteq> message_id then Inl (Enrichment ''Gmail sent-message metadata returned another message'')
          else if stored_thread s \<noteq> thread_id then Inl (Enrichment ''Gmail sent-message metadata returned another thread'')
          else case values of
            [v] \<Rightarrow>
              if v = '''' then Inl (Enrichment ''Gmail sent message needs exactly one RFC Message-ID header'')
              else (case validated_provider_rfc_message_id v of
                None \<Rightarrow> Inl (Enrichment ''Gmail returned an invalid RFC Message-ID header'')
              | Some m \<Rightarrow> Inr m)
          | _ \<Rightarrow> Inl (Enrichment ''Gmail sent message needs exactly one RFC Message-ID header''))"

text \<open>What follows the request: the identifiers and the header that the provider stored.\<close>

definition read_result :: "provider \<Rightarrow> string \<Rightarrow> ('e mail_error, gmail_result) result" where
  "read_result svc reply_thread =
     (case send_reply svc of
        Inl e \<Rightarrow> Inl (Enrichment e)
      | Inr (m, th) \<Rightarrow>
          if m = '''' \<or> th = '''' then Inl (Enrichment ''Gmail send returned incomplete identifiers'')
          else if reply_thread \<noteq> '''' \<and> th \<noteq> reply_thread then
            Inl (Enrichment ''Gmail continued message returned an unexpected thread ID'')
          else bind_result (provider_rfc_message_id svc m th) (\<lambda>r.
            Inr \<lparr>result_message_id = m, result_thread_id = th, result_rfc = r\<rparr>))"

text \<open>A header of an \<open>EmailMessage\<close> must be one line: \<open>len(value.splitlines()) <= 1\<close>.\<close>

definition line_end :: "char \<Rightarrow> bool" where
  "line_end c \<longleftrightarrow> (let n = of_char c :: nat in 10 \<le> n \<and> n \<le> 13 \<or> 28 \<le> n \<and> n \<le> 30 \<or> n = 133)"

definition one_header_line :: "string \<Rightarrow> bool" where
  "one_header_line s \<longleftrightarrow>
     (case dropWhile (\<lambda>c. \<not> line_end c) s of
        [] \<Rightarrow> True
      | c # t \<Rightarrow> t = [] \<or> c = CHR 0x0D \<and> t = [CHR 0x0A])"

fun joined :: "string list \<Rightarrow> string" where
  "joined [] = ''''"
| "joined [x] = x"
| "joined (x # y # ys) = x @ '' '' @ joined (y # ys)"

definition header_values :: "gmail_client \<Rightarrow> message_content \<Rightarrow> string \<Rightarrow> string list" where
  "header_values client c message_id =
     [content_to c, client_send_as client, client_reply_to client, content_subject c, message_id] @
     (if content_thread c = '''' then []
      else [content_reply c, joined (if content_references c = [] then [content_reply c] else content_references c)])"

text \<open>Everything before the submit callback.\<close>

definition prepare_message ::
  "(message_content \<Rightarrow> string) \<Rightarrow> (string \<Rightarrow> string) \<Rightarrow> provider \<Rightarrow> gmail_client \<Rightarrow> permit option \<Rightarrow> message_content
     \<Rightarrow> ('e mail_error, permit) result" where
  "prepare_message digest make_msgid svc client p c =
     (let c = c\<lparr>content_operator := client_operator client, content_account := client_account client,
            content_thread := strip (content_thread c), content_reply := strip (content_reply c),
            content_references := clean_references (content_references c)\<rparr> in
      bind_result (consume_gmail_delivery_permit digest p c) (\<lambda>p.
      bind_result (validate_send_as svc client) (\<lambda>_.
        if (content_thread c \<noteq> '''') \<noteq> (content_reply c \<noteq> '''') then
          Inl (Bad_value ''Gmail thread continuation requires both thread_id and in_reply_to'')
        else case normalized_rfc_message_id make_msgid (content_rfc c) (domain_of (client_send_as client)) of
          None \<Rightarrow> Inl (Bad_value ''RFC Message-ID cannot contain a newline'')
        | Some message_id \<Rightarrow>
            if \<not> list_all one_header_line (header_values client c message_id) then
              Inl (Bad_value ''Header values may not contain linefeed or carriage return characters'')
            else Inr p)))"

definition send_message ::
  "(message_content \<Rightarrow> string) \<Rightarrow> (string \<Rightarrow> string) \<Rightarrow> provider \<Rightarrow> gmail_client \<Rightarrow> permit option \<Rightarrow> message_content
     \<Rightarrow> ('s \<Rightarrow> ('e, unit) result \<times> 's) \<Rightarrow> 's \<Rightarrow> ('e mail_error, gmail_result) result \<times> 's" where
  "send_message digest make_msgid svc client p c on_submit_attempt s =
     (case prepare_message digest make_msgid svc client p c of
        Inl e \<Rightarrow> (Inl e, s)
      | Inr _ \<Rightarrow>
          (case on_submit_attempt s of
             (Inl e, s) \<Rightarrow> (Inl (From_callback e), s)
           | (Inr _, s) \<Rightarrow> (read_result svc (strip (content_thread c)), s)))"

end
