(* ===== verification/Drip_Gmail.thy ===== *)
theory Drip_Gmail
  imports Drip_Attempts Gmail_Client
begin

text \<open>
  The Gmail executor (\<open>drip/tasks/gmail.py\<close>): the reservation of a delivery with its thread and its tracked
  link, the stamp before the request, the end of an attempt, and the recovery of a stale task.
\<close>

section \<open>Inputs\<close>

record tracked_link =
  link_delivery :: int
  reference :: string
  link_key :: string
  destination_url :: string
  attributed_url :: string

text \<open>\<open>link_clean\<close> is the check of a URL against its reference, \<open>hex_digest\<close> is SHA-256 in hex.\<close>

record mail_env =
  mail_facts :: lead_facts
  lead_email :: "int \<Rightarrow> string"
  tracked_links :: "tracked_link list"
  link_clean :: "tracked_link \<Rightarrow> bool"
  hex_digest :: "string \<Rightarrow> string"

record mail_reservation =
  mres_delivery :: int
  mres_attempt :: int
  mres_task :: int
  mres_lead :: int
  mres_operator :: string
  mres_account :: string
  mres_send_as :: string
  mres_reply_to :: string
  mres_recipient :: string
  mres_subject :: string
  mres_body :: string
  mres_thread :: string
  mres_in_reply_to :: string
  mres_references :: "string list"
  mres_rfc :: string
  mres_links :: "tracked_link list"

section \<open>The payload\<close>

definition gmail_payload_delivery_id :: "task \<Rightarrow> (drip_error, int) result" where
  "gmail_payload_delivery_id t =
     (case json_get (task_payload t) ''delivery_id'' of
        JInt n \<Rightarrow> if n \<le> 0 then Inl (Drip_ValueError ''delivery_id must be positive'') else Inr n
      | _ \<Rightarrow> Inl (Drip_ValueError ''delivery_id must be an integer''))"

definition payload_operator :: "task \<Rightarrow> (drip_error, string) result" where
  "payload_operator t =
     (case json_get (task_payload t) ''operator'' of
        JStr s \<Rightarrow> Inr (strip s)
      | v \<Rightarrow> if truthy v then Inl (Drip_ValueError ''AttributeError'') else Inr '''')"

definition stable_rfc_message_id :: "mail_env \<Rightarrow> int \<Rightarrow> string \<Rightarrow> string" where
  "stable_rfc_message_id env k alias =
     ''<openoutreach-drip-'' @ take 32 (hex_digest env (''drip_gmail:'' @ str_int k)) @ ''@'' @ domain_of alias @ ''>''"

section \<open>Threads\<close>

fun words :: "string \<Rightarrow> string \<Rightarrow> string list" where
  "words acc [] = (if acc = [] then [] else [rev acc])"
| "words acc (c # s) = (if py_space c then (if acc = [] then words [] s else rev acc # words [] s) else words (c # acc) s)"

definition reference_of :: "json \<Rightarrow> (drip_error, string list) result" where
  "reference_of v =
     (case v of
        JStr s \<Rightarrow>
          if strip s = '''' then Inr []
          else (case validated_provider_rfc_message_id (strip s) of
            None \<Rightarrow> Inl (Drip_ValueError ''Gmail References metadata contains an invalid Message-ID'')
          | Some _ \<Rightarrow> Inr [strip s])
      | _ \<Rightarrow> Inl (Drip_ValueError ''Gmail References metadata contains a non-string value''))"

definition add_reference :: "string list \<Rightarrow> string \<Rightarrow> string list" where
  "add_reference refs r = (if r \<in> set refs then refs else refs @ [r])"

definition reference_ids :: "json \<Rightarrow> (drip_error, string list) result" where
  "reference_ids v =
     bind_result
       (case v of
          JNull \<Rightarrow> Inr []
        | JStr s \<Rightarrow> Inr (map JStr (words [] s))
        | JList xs \<Rightarrow> Inr xs
        | _ \<Rightarrow> Inl (Drip_ValueError ''Gmail References metadata must be a string or list''))
       (\<lambda>candidates. bind_result (map_result reference_of candidates) (\<lambda>rs. Inr (foldl add_reference [] (concat rs))))"

definition rfc_or_error :: "string \<Rightarrow> (drip_error, string) result" where
  "rfc_or_error s =
     (case validated_provider_rfc_message_id s of
        None \<Rightarrow> Inl (Drip_ValueError ''not a valid RFC Message-ID'')
      | Some m \<Rightarrow> Inr m)"

text \<open>\<open>str(evidence.get(k) or "")\<close>. The text of a float, a list or a dict is no account, alias, thread or Message-ID.\<close>

definition evidence_text :: "(string \<times> json) list \<Rightarrow> string \<Rightarrow> string option" where
  "evidence_text ev k =
     (case json_get ev k of
        JStr s \<Rightarrow> Some s
      | JInt n \<Rightarrow> Some (if n = 0 then '''' else str_int n)
      | JBool b \<Rightarrow> Some (if b then ''True'' else '''')
      | v \<Rightarrow> if truthy v then None else Some '''')"

record thread_context =
  ctx_thread :: string
  ctx_subject :: string
  ctx_parent :: string
  ctx_references :: "string list"

text \<open>The latest delivery that the lane sent, apart from this one.\<close>

definition previous_sent :: "drip_lane \<Rightarrow> drip_delivery \<Rightarrow> drip_db \<Rightarrow> drip_delivery option" where
  "previous_sent l d db =
     (case sort_key (\<lambda>x. (case dlv_sent_at x of None \<Rightarrow> (0 :: nat, 0) | Some t \<Rightarrow> (1, - t), - dlv_pk x))
        (filter (\<lambda>x. dlv_lane x = lane_pk l \<and> dlv_status x = D_Sent \<and> dlv_pk x \<noteq> dlv_pk d) (deliveries db)) of
        [] \<Rightarrow> None
      | x # _ \<Rightarrow> Some x)"

definition step_row :: "drip_lane \<Rightarrow> nat \<Rightarrow> nat \<Rightarrow> drip_db \<Rightarrow> drip_delivery option" where
  "step_row l k i db = List.find (\<lambda>x. dlv_lane x = lane_pk l \<and> dlv_theme_index x = k \<and> dlv_step_index x = i) (deliveries db)"

definition predecessor_error :: "drip_lane \<Rightarrow> drip_delivery \<Rightarrow> drip_db \<Rightarrow> string" where
  "predecessor_error l d db =
     (if dlv_step_index d = 0 then ''''
      else case step_row l (dlv_theme_index d) (dlv_step_index d - 1) db of
        None \<Rightarrow> ''lacks its successful same-theme predecessor''
      | Some p \<Rightarrow>
          (case dlv_sent_at p of
             None \<Rightarrow> ''lacks its successful same-theme predecessor''
           | Some t \<Rightarrow>
               if dlv_status p \<noteq> D_Sent then ''lacks its successful same-theme predecessor''
               else if dlv_scheduled_at d < t then ''is scheduled before its predecessor sent''
               else case previous_sent l d db of
                 None \<Rightarrow> ''predecessor is not the lane's latest send''
               | Some x \<Rightarrow> if dlv_pk x \<noteq> dlv_pk p then ''predecessor is not the lane's latest send'' else ''''))"

definition continued_thread :: "drip_lane \<Rightarrow> drip_delivery \<Rightarrow> (drip_error, thread_context) result" where
  "continued_thread l p =
     (let th = strip (gmail_thread_id l); subject = strip (gmail_thread_subject l) in
      if th = '''' \<or> subject = '''' then Inl (Drip_ValueError ''history has no owned lane thread binding'')
      else if dlv_account p \<noteq> provider_account l then Inl (Drip_ValueError ''Prior delivery belongs to another mailbox'')
      else if provider_thread_id p \<noteq> th then Inl (Drip_ValueError ''Prior delivery belongs to another thread'')
      else bind_result (rfc_or_error (rfc_message_id p)) (\<lambda>parent.
        bind_result (reference_ids (JStr (rfc_references p))) (\<lambda>refs.
          Inr \<lparr>ctx_thread = th, ctx_subject = subject, ctx_parent = parent, ctx_references = add_reference refs parent\<rparr>)))"

definition inherited_thread :: "drip_lane \<Rightarrow> (drip_error, thread_context) result" where
  "inherited_thread l =
     (let th = strip (gmail_thread_id l); subject = strip (gmail_thread_subject l); ev = handoff_evidence l;
          says = (\<lambda>k. map_option strip (evidence_text ev k)) in
      if subject = '''' then Inl (Drip_ValueError ''Inherited Gmail thread has no original subject'')
      else if map_option casefold (says ''gmail_account'') \<noteq> Some (provider_account l) then
        Inl (Drip_ValueError ''Inherited evidence names another mailbox'')
      else if map_option casefold (says ''send_as'') \<noteq> Some (sender_identity l) then
        Inl (Drip_ValueError ''Inherited evidence names another Send-As alias'')
      else if says ''gmail_thread_id'' \<noteq> Some th then Inl (Drip_ValueError ''Inherited evidence does not match the lane'')
      else bind_result (case evidence_text ev ''last_rfc_message_id'' of
            None \<Rightarrow> Inl (Drip_ValueError ''not a valid RFC Message-ID'') | Some s \<Rightarrow> rfc_or_error s) (\<lambda>parent.
        bind_result (reference_ids (json_get ev ''references'')) (\<lambda>refs.
          if parent \<notin> set refs then Inl (Drip_ValueError ''Inherited References omit the final current message'')
          else Inr \<lparr>ctx_thread = th, ctx_subject = subject, ctx_parent = parent, ctx_references = refs\<rparr>)))"

definition delivery_thread_context :: "drip_delivery \<Rightarrow> drip_lane \<Rightarrow> drip_db \<Rightarrow> (drip_error, thread_context) result" where
  "delivery_thread_context d l db =
     (if predecessor_error l d db \<noteq> '''' then Inl (Drip_ValueError (predecessor_error l d db))
      else case previous_sent l d db of
        Some p \<Rightarrow> continued_thread l p
      | None \<Rightarrow>
          if strip (gmail_thread_id l) \<noteq> '''' then inherited_thread l
          else if current_sequence_status l \<noteq> Seq_Not_applicable then
            Inl (Drip_ValueError ''cannot open a new thread without reviewed not-applicable handoff'')
          else if strip (dlv_subject d) = '''' then Inl (Drip_ValueError ''The first Gmail delivery requires a frozen subject'')
          else Inr \<lparr>ctx_thread = '''', ctx_subject = strip (dlv_subject d), ctx_parent = '''', ctx_references = []\<rparr>)"

section \<open>Timing\<close>

definition sent_row :: "drip_delivery option \<Rightarrow> bool" where
  "sent_row r \<longleftrightarrow> (case r of None \<Rightarrow> False | Some d \<Rightarrow> dlv_status d = D_Sent \<and> dlv_sent_at d \<noteq> None)"

definition lane_row :: "drip_lane \<Rightarrow> drip_db \<Rightarrow> nat \<Rightarrow> nat \<Rightarrow> drip_delivery option" where
  "lane_row l db k i =
     List.find (\<lambda>d. dlv_lane d = lane_pk l \<and> dlv_theme_index d = k \<and> dlv_step_index d = i) (rev (deliveries db))"

text \<open>The loop over the earlier themes: a sender that a theme does not name is a \<open>KeyError\<close>.\<close>

fun earlier_gmail_themes :: "drip_lane \<Rightarrow> drip_db \<Rightarrow> nat \<Rightarrow> drip_theme list \<Rightarrow> (drip_error, unit) result" where
  "earlier_gmail_themes l db j [] = Inr ()"
| "earlier_gmail_themes l db j (theme # rest) =
     (case map_of (theme_senders theme) (lane_operator l) of
        None \<Rightarrow> Inl Drip_KeyError
      | Some block \<Rightarrow>
          let steps = (case map_of block Gmail_lane of None \<Rightarrow> [] | Some steps \<Rightarrow> steps) in
          if list_all (\<lambda>i. sent_row (lane_row l db j i)) [0..<length steps] then earlier_gmail_themes l db (Suc j) rest
          else Inl (Drip_ValueError ''An earlier Gmail theme is not complete''))"

definition gmail_manifest_due_at :: "drip_delivery \<Rightarrow> drip_lane \<Rightarrow> drip_enrollment \<Rightarrow> drip_db \<Rightarrow> (drip_error, int) result" where
  "gmail_manifest_due_at d l e db =
     (let outside = Inl (Drip_ValueError ''delivery is outside its frozen manifest''); k = dlv_theme_index d; i = dlv_step_index d in
      case map_of (versions db) (enr_version e) of
        None \<Rightarrow> Inl (Drip_DoesNotExist ''DripCampaignVersion'')
      | Some m \<Rightarrow>
      (case map_of m (frozen_icp e) of
        None \<Rightarrow> outside
      | Some themes \<Rightarrow>
          if length themes \<le> k then outside
          else case Option.bind (map_of (theme_senders (themes ! k)) (lane_operator l)) (\<lambda>b. map_of b Gmail_lane) of
            None \<Rightarrow> outside
          | Some steps \<Rightarrow>
              if theme_key (themes ! k) \<noteq> dlv_theme_key d then Inl (Drip_ValueError ''theme key drifted from its manifest'')
              else if length steps \<le> i then Inl (Drip_ValueError ''step is outside its frozen rendition'')
              else bind_result (earlier_gmail_themes l db 0 (take k themes)) (\<lambda>_.
                bind_result
                  (if i = 0 then
                     (case theme_started_at l of None \<Rightarrow> Inl (Drip_ValueError ''lane has no theme timing anchor'') | Some t \<Rightarrow> Inr t)
                   else
                     (case lane_row l db k (i - 1) of
                        None \<Rightarrow> Inl (Drip_ValueError ''lacks its successful predecessor'')
                      | Some p \<Rightarrow>
                          (case dlv_sent_at p of
                             None \<Rightarrow> Inl (Drip_ValueError ''lacks its successful predecessor'')
                           | Some t \<Rightarrow> if dlv_status p \<noteq> D_Sent then Inl (Drip_ValueError ''lacks its successful predecessor'') else Inr t)))
                  (\<lambda>anchor. Inr (anchor + step_delay (steps ! i))))))"

section \<open>Tracked links\<close>

definition token_char :: "char \<Rightarrow> bool" where
  "token_char c \<longleftrightarrow>
     (let n = of_char c :: nat in 48 \<le> n \<and> n \<le> 57 \<or> 65 \<le> n \<and> n \<le> 90 \<or> 97 \<le> n \<and> n \<le> 122 \<or> c = CHR ''_'' \<or> c = CHR ''-'')"

text \<open>\<open>finditer\<close> of \<open>ref=(oo_[A-Za-z0-9_-]*)\<close>; the fuel is the length of the text, of which each round drops a character.\<close>

fun references_from :: "nat \<Rightarrow> string \<Rightarrow> string list" where
  "references_from 0 s = []"
| "references_from (Suc n) s =
     (case s of
        [] \<Rightarrow> []
      | c # t \<Rightarrow>
          if take 7 s = ''ref=oo_'' then
            (''oo_'' @ takeWhile token_char (drop 7 s)) # references_from n (dropWhile token_char (drop 7 s))
          else references_from n t)"

definition reserved_references_in_text :: "string \<Rightarrow> string list" where
  "reserved_references_in_text s = references_from (length s) s"

text \<open>\<open>str.count\<close> of a non-empty text: occurrences that do not overlap.\<close>

fun count_from :: "nat \<Rightarrow> string \<Rightarrow> string \<Rightarrow> nat" where
  "count_from 0 p s = 0"
| "count_from (Suc n) p s =
     (case s of
        [] \<Rightarrow> 0
      | c # t \<Rightarrow> if take (length p) s = p then Suc (count_from n p (drop (length p) s)) else count_from n p t)"

definition tracked_link_evidence :: "mail_env \<Rightarrow> drip_delivery \<Rightarrow> (drip_error, tracked_link list) result" where
  "tracked_link_evidence env d =
     (let links = filter (\<lambda>x. link_delivery x = dlv_pk d) (tracked_links env);
          refs = reserved_references_in_text (dlv_body d) in
      case links of
        [] \<Rightarrow> if refs \<noteq> [] then Inl (Drip_ValueError ''body contains an unexpected tracked-link reference'') else Inr []
      | [x] \<Rightarrow>
          if \<not> link_clean env x then Inl (Drip_ValueError ''tracked-link ledger is invalid'')
          else if count_from (length (dlv_body d)) (attributed_url x) (dlv_body d) \<noteq> 1 then
            Inl (Drip_ValueError ''tracked URL must occur exactly once in the frozen body'')
          else if refs \<noteq> [reference x] then Inl (Drip_ValueError ''body references do not match the tracked-link ledger'')
          else Inr [x]
      | _ \<Rightarrow> Inl (Drip_ValueError ''delivery has more than one tracked link''))"

section \<open>Reservation\<close>

definition terminal_delivery :: "drip_delivery \<Rightarrow> bool" where
  "terminal_delivery d \<longleftrightarrow> dlv_status d \<in> {D_Sent, D_Stopped, D_Unclear, D_Failed}"

definition release_without_attempt :: "drip_delivery \<Rightarrow> int \<Rightarrow> string \<Rightarrow> drip_db \<Rightarrow> drip_db" where
  "release_without_attempt d task_id reason db =
     edit_task task_id (\<lambda>_. True) (\<lambda>t. t\<lparr>task_error := reason\<rparr>)
       (if dlv_status d = D_Queued then edit_delivery (dlv_pk d) (detach_delivery D_Planned) db else db)"

text \<open>Who owns the delivery: the reasons for which a claimed task is refused.\<close>

definition gmail_ownership_error :: "mail_env \<Rightarrow> task \<Rightarrow> string \<Rightarrow> graph \<Rightarrow> int \<Rightarrow> string" where
  "gmail_ownership_error env t operator g now =
     (let d = g_delivery g; l = g_lane g in
      if dlv_status d \<noteq> D_Queued then ''delivery is not queued''
      else if lane_channel l \<noteq> Gmail_lane then ''Task references a non-Gmail lane''
      else if operator = '''' \<or> operator \<noteq> lane_operator l then ''Task operator does not own its lane''
      else case map_of GMAIL_OPERATOR_MAPPING operator of
        None \<Rightarrow> ''No Gmail mapping configured for operator''
      | Some m \<Rightarrow>
          let account = casefold (strip (gmail_account m)); alias = casefold (strip (send_as m));
              recipient = casefold (strip (recipient_identity l)) in
          if provider_account l \<noteq> account \<or> dlv_account d \<noteq> account then ''delivery is assigned to another mailbox''
          else if sender_identity l \<noteq> alias then ''lane is assigned to another Send-As alias''
          else if recipient = '''' \<or> recipient \<noteq> casefold (strip (lead_email env (enr_lead (g_enrollment g)))) then
            ''recipient no longer matches the enrolled Lead''
          else if dlv_theme_index d \<noteq> current_theme_index l \<or> dlv_theme_key d \<noteq> current_theme_key l then
            ''delivery is not for the lane's current theme''
          else if now < dlv_scheduled_at d then ''delivery is not due''
          else '''')"

definition gmail_inactive_reason :: "graph \<Rightarrow> drip_db \<Rightarrow> string" where
  "gmail_inactive_reason g db =
     (if campaign_status (g_enrollment g) db \<noteq> ''active'' then ''Drip campaign is '' @ campaign_status (g_enrollment g) db
      else if enr_status (g_enrollment g) \<noteq> E_Active then
        ''Drip enrollment is '' @ enrollment_text (enr_status (g_enrollment g))
      else if lane_status (g_lane g) \<noteq> L_Active then
        ''Drip Gmail lane is '' @ lane_text (lane_status (g_lane g))
      else '''')"

definition mail_reservation_of ::
  "mail_env \<Rightarrow> int \<Rightarrow> string \<Rightarrow> graph \<Rightarrow> mailbox \<Rightarrow> thread_context \<Rightarrow> tracked_link list \<Rightarrow> int \<Rightarrow> mail_reservation" where
  "mail_reservation_of env task_id operator g m ctx links attempt =
     (let d = g_delivery g; alias = casefold (strip (send_as m)) in
      \<lparr>mres_delivery = dlv_pk d, mres_attempt = attempt, mres_task = task_id, mres_lead = enr_lead (g_enrollment g),
       mres_operator = operator, mres_account = casefold (strip (gmail_account m)), mres_send_as = alias,
       mres_reply_to = casefold (strip (reply_to m)), mres_recipient = casefold (strip (recipient_identity (g_lane g))),
       mres_subject = ctx_subject ctx, mres_body = dlv_body d, mres_thread = ctx_thread ctx,
       mres_in_reply_to = ctx_parent ctx, mres_references = ctx_references ctx,
       mres_rfc = stable_rfc_message_id env (dlv_pk d) alias, mres_links = links\<rparr>)"

definition reserve_mail_locked ::
  "mail_env \<Rightarrow> int \<Rightarrow> string \<Rightarrow> graph \<Rightarrow> runtime \<Rightarrow> (drip_error, mail_reservation option \<times> runtime) result" where
  "reserve_mail_locked env task_id operator g rt =
     (let d = g_delivery g in
      case map_of GMAIL_OPERATOR_MAPPING operator of
        None \<Rightarrow> Inl (Drip_ValueError ''No Gmail mapping configured for operator'')
      | Some m \<Rightarrow>
          bind_result (tracked_link_evidence env d) (\<lambda>links.
          bind_result (delivery_thread_context d (g_lane g) (drip rt)) (\<lambda>ctx.
            Inr (Some (mail_reservation_of env task_id operator g m ctx links (att_seq rt + 1)),
              on_drip (edit_delivery (dlv_pk d) (set_delivery_status D_Sending)) (add_attempt (dlv_pk d) rt)))))"

text \<open>What is left once the task owns the delivery: the controls, the due time, the stop, the reservation.\<close>

definition reserve_mail_owned ::
  "mail_env \<Rightarrow> int \<Rightarrow> int \<Rightarrow> string \<Rightarrow> graph \<Rightarrow> runtime \<Rightarrow> (drip_error, mail_reservation option \<times> runtime) result" where
  "reserve_mail_owned env now task_id operator g rt =
     (let d = g_delivery g; l = g_lane g; e = g_enrollment g; inactive = gmail_inactive_reason g (drip rt);
          release = (\<lambda>reason db. release_without_attempt d task_id reason db) in
      if inactive = '''' \<and> (handed_off_at l = None \<or> theme_started_at l = None) then
        Inl (Drip_ValueError ''Active Drip Gmail lane lacks handoff timing anchors'')
      else if inactive \<noteq> '''' then Inr (None, on_drip (release inactive) rt)
      else bind_result (gmail_manifest_due_at d l e (drip rt)) (\<lambda>at_time.
        if now < at_time then
          Inr (None, on_drip (\<lambda>db. release ''Drip Gmail delivery is not due from its successful predecessor''
            (edit_delivery (dlv_pk d) (\<lambda>d. d\<lparr>dlv_scheduled_at := max (dlv_scheduled_at d) at_time\<rparr>) db)) rt)
        else
          let reason = lead_automation_stop_reason (mail_facts env) (enr_lead e) (drip rt) in
          if reason \<noteq> '''' then
            bind_result (stop_enrollment_for_reason (enr_pk e) reason now (drip rt)) (\<lambda>(_, db). Inr (None, rt\<lparr>drip := db\<rparr>))
          else reserve_mail_locked env task_id operator g rt))"

definition reserve_attempt :: "mail_env \<Rightarrow> int \<Rightarrow> task \<Rightarrow> runtime \<Rightarrow> (drip_error, mail_reservation option \<times> runtime) result" where
  "reserve_attempt env now t rt =
     (if task_type t \<noteq> DRIP_GMAIL then Inl (Drip_ValueError ''another Task type'')
      else if task_status t \<noteq> RUNNING then Inl (Drip_ValueError ''requires an already-claimed running Task'')
      else
        bind_result (gmail_payload_delivery_id t) (\<lambda>k.
        bind_result (payload_operator t) (\<lambda>operator.
        bind_result (lock_delivery_graph k (drip rt)) (\<lambda>g.
        bind_result (lock_task (task_pk t) (drip rt)) (\<lambda>locked.
          let d = g_delivery g; err = gmail_ownership_error env locked operator g now in
          if task_type locked \<noteq> DRIP_GMAIL then Inl (Drip_ValueError ''another Task type'')
          else if task_status locked \<noteq> RUNNING then Inl (Drip_ValueError ''requires an already-claimed running Task'')
          else if current_task d \<noteq> Some (task_pk locked) then Inl (Drip_ValueError ''Task does not own the referenced delivery'')
          else if terminal_delivery d then Inr (None, rt)
          else if err \<noteq> '''' then Inl (Drip_ValueError err)
          else reserve_mail_owned env now (task_pk locked) operator g rt)))))"

section \<open>The stamp\<close>

definition stamp_submission_attempt :: "mail_env \<Rightarrow> int \<Rightarrow> mail_reservation \<Rightarrow> runtime \<Rightarrow> (drip_error, runtime) result" where
  "stamp_submission_attempt env now r rt =
     bind_result (lock_delivery_graph (mres_delivery r) (drip rt)) (\<lambda>g.
     bind_result (lock_attempt (mres_attempt r) (mres_delivery r) rt) (\<lambda>a.
     bind_result (lock_task (mres_task r) (drip rt)) (\<lambda>t.
       let d = g_delivery g; l = g_lane g; e = g_enrollment g;
           reason = lead_automation_stop_reason (mail_facts env) (enr_lead e) (drip rt) in
       if task_status t \<noteq> RUNNING \<or> current_task d \<noteq> Some (task_pk t) \<or> dlv_status d \<noteq> D_Sending \<or>
          att_outcome a \<noteq> Reserved \<or> submission_attempted_at a \<noteq> None then
         Inl (Drip_ValueError ''submission ownership changed after reservation'')
       else if \<not> controls_active g (drip rt) then Inl (Drip_ValueError ''state stopped or paused before submission'')
       else if lane_operator l \<noteq> mres_operator r \<or> provider_account l \<noteq> mres_account r \<or>
               sender_identity l \<noteq> mres_send_as r \<or> recipient_identity l \<noteq> mres_recipient r then
         Inl (Drip_ValueError ''lane ownership changed before submission'')
       else if reason \<noteq> '''' then Inl (Drip_ValueError (''Drip Gmail stopped before submission: '' @ reason))
       else Inr (edit_attempt (att_pk a) (\<lambda>a. a\<lparr>submission_attempted_at := Some now\<rparr>) rt))))"

section \<open>The end of an attempt\<close>

definition one_line :: "string \<Rightarrow> string" where
  "one_line s = strip (map (\<lambda>c. if c = CHR 0x0D \<or> c = CHR 0x0A then CHR '' '' else c) s)"

fun diagnostic_detail_of :: "drip_error \<Rightarrow> string" where
  "diagnostic_detail_of Drip_KeyError = ''KeyError''"
| "diagnostic_detail_of (Drip_ValueError s) = take 1000 (''ValueError: '' @ one_line s)"
| "diagnostic_detail_of (Drip_ValidationError _) = ''ValidationError''"
| "diagnostic_detail_of (Drip_DoesNotExist _) = ''DoesNotExist''"
| "diagnostic_detail_of (Drip_RenderError _) = ''DripRenderError''"
| "diagnostic_detail_of (Drip_MailError name) = name"

text \<open>A failure before the stamp frees the delivery; after it the outcome is unclear.\<close>

definition release_failed :: "mail_env \<Rightarrow> int \<Rightarrow> graph \<Rightarrow> drip_db \<Rightarrow> (drip_error, drip_db) result" where
  "release_failed env now g db =
     (let d = g_delivery g; e = g_enrollment g; reason = lead_automation_stop_reason (mail_facts env) (enr_lead e) db;
          terminal = (enr_status e = E_Stopped \<or> lane_status (g_lane g) = L_Stopped \<or> reason \<noteq> '''') in
      if dlv_status d \<noteq> D_Sending then Inr db
      else bind_result
        (if reason \<noteq> '''' \<and> enr_status e \<noteq> E_Stopped
         then bind_result (stop_enrollment_for_reason (enr_pk e) reason now db) (\<lambda>(_, db). Inr db) else Inr db)
        (\<lambda>db. Inr (edit_delivery (dlv_pk d) (detach_delivery (if terminal then D_Stopped else D_Planned)) db)))"

definition mark_unclear :: "graph \<Rightarrow> drip_db \<Rightarrow> drip_db" where
  "mark_unclear g db =
     (let db = edit_delivery (dlv_pk (g_delivery g)) (set_delivery_status D_Unclear) db
      in if lane_status (g_lane g) = L_Active then edit_lane (lane_pk (g_lane g)) (set_lane_status L_Paused) db else db)"

definition record_failure :: "mail_env \<Rightarrow> int \<Rightarrow> mail_reservation \<Rightarrow> drip_error \<Rightarrow> runtime \<Rightarrow> (drip_error, runtime) result" where
  "record_failure env now r e rt =
     bind_result (lock_delivery_graph (mres_delivery r) (drip rt)) (\<lambda>g.
     bind_result (lock_attempt (mres_attempt r) (mres_delivery r) rt) (\<lambda>a.
       if att_outcome a \<noteq> Reserved then Inr rt
       else if submission_attempted_at a = None then
         bind_result (release_failed env now g (drip rt)) (\<lambda>db.
           Inr (edit_attempt (att_pk a) (finish_attempt Not_submitted (diagnostic_detail_of e) now) (rt\<lparr>drip := db\<rparr>)))
       else Inr (on_drip (mark_unclear g)
              (edit_attempt (att_pk a) (finish_attempt Att_unclear (diagnostic_detail_of e) now) rt))))"

definition mail_automation_key :: "int \<Rightarrow> string" where
  "mail_automation_key k = ''drip_gmail:delivery:'' @ str_int k"

text \<open>\<open>get_or_create\<close> of the outbound message; an existing one of the same lead is taken over.\<close>

definition gmail_message_row :: "graph \<Rightarrow> string \<Rightarrow> string \<Rightarrow> runtime \<Rightarrow> (drip_error, int \<times> runtime) result" where
  "gmail_message_row g ext body rt =
     (let lead = enr_lead (g_enrollment g); key = mail_automation_key (dlv_pk (g_delivery g)); db = drip rt in
      case List.find (\<lambda>m. msg_source m = ''gmail'' \<and> msg_external m = ext) (messages db) of
        Some m \<Rightarrow>
          if msg_lead m \<noteq> lead then Inl (Drip_ValueError ''Gmail provider message ID belongs to another Lead'')
          else if msg_automation_key m \<noteq> '''' \<and> msg_automation_key m \<noteq> key then
            Inl (Drip_ValueError ''Gmail provider message ID belongs to another delivery'')
          else Inr (msg_pk m, rt\<lparr>drip := db\<lparr>messages := map (\<lambda>x. if msg_pk x = msg_pk m
            then x\<lparr>msg_inbound := False, msg_body := body, msg_automation_key := key\<rparr> else x) (messages db)\<rparr>\<rparr>)
      | None \<Rightarrow> Inr (msg_seq rt + 1, rt\<lparr>drip := db\<lparr>messages := messages db @ [\<lparr>msg_pk = msg_seq rt + 1, msg_lead = lead,
            msg_source = ''gmail'', msg_inbound = False, msg_external = ext, msg_body = body,
            msg_automation_key = key\<rparr>]\<rparr>, msg_seq := msg_seq rt + 1\<rparr>))"

definition mark_mail_sent :: "int \<Rightarrow> int \<Rightarrow> mail_reservation \<Rightarrow> gmail_result \<Rightarrow> drip_delivery \<Rightarrow> drip_delivery" where
  "mark_mail_sent now m r res d =
     d\<lparr>dlv_status := D_Sent, dlv_sent_at := Some now, outbound_message := Some m,
       provider_message_id := result_message_id res, provider_thread_id := result_thread_id res,
       rfc_message_id := result_rfc res, rfc_references := joined (mres_references r)\<rparr>"

definition bind_thread :: "mail_reservation \<Rightarrow> gmail_result \<Rightarrow> graph \<Rightarrow> drip_db \<Rightarrow> drip_db" where
  "bind_thread r res g db =
     (if gmail_thread_id (g_lane g) = '''' then
        edit_lane (lane_pk (g_lane g))
          (\<lambda>l. l\<lparr>gmail_thread_id := result_thread_id res, gmail_thread_subject := mres_subject r\<rparr>) db
      else db)"

definition record_success :: "int \<Rightarrow> mail_reservation \<Rightarrow> gmail_result \<Rightarrow> runtime \<Rightarrow> (drip_error, runtime) result" where
  "record_success now r res rt =
     bind_result (lock_delivery_graph (mres_delivery r) (drip rt)) (\<lambda>g.
     bind_result (lock_attempt (mres_attempt r) (mres_delivery r) rt) (\<lambda>a.
       let d = g_delivery g; l = g_lane g in
       if dlv_status d \<noteq> D_Sending \<or> current_task d \<noteq> Some (mres_task r) \<or> att_outcome a \<noteq> Reserved \<or>
          submission_attempted_at a = None then
         Inl (Drip_ValueError ''Drip Gmail success cannot finalize changed delivery state'')
       else if validated_provider_rfc_message_id (result_rfc res) = None then
         Inl (Drip_ValueError ''Gmail returned an invalid RFC Message-ID'')
       else if mres_thread r \<noteq> '''' \<and> result_thread_id res \<noteq> mres_thread r then
         Inl (Drip_ValueError ''Gmail returned another thread for a continuation'')
       else if gmail_thread_id l \<noteq> '''' \<and> gmail_thread_id l \<noteq> result_thread_id res then
         Inl (Drip_ValueError ''Gmail result does not match the lane thread'')
       else case (scoped_gmail_id (mres_account r) (result_message_id res), scoped_gmail_id (mres_account r) (result_thread_id res)) of
         (Some ext, Some _) \<Rightarrow>
           bind_result (gmail_message_row g ext (mres_body r) rt) (\<lambda>(m, rt).
             Inr (on_drip (edit_delivery (dlv_pk d) (mark_mail_sent now m r res) \<circ> bind_thread r res g)
               (edit_attempt (att_pk a) (finish_attempt Att_sent '''' now) rt)))
       | _ \<Rightarrow> Inl (Drip_ValueError ''scoped Gmail identifier'')))"

section \<open>The handler\<close>

fun mail_exception :: "drip_error mail_error \<Rightarrow> drip_error" where
  "mail_exception (Enrichment _) = Drip_MailError ''EnrichmentError''"
| "mail_exception (Request_failed _) = Drip_MailError ''HttpError''"
| "mail_exception (Unauthorized _) = Drip_MailError ''GmailDeliveryAuthorizationError''"
| "mail_exception (Bad_value s) = Drip_ValueError s"
| "mail_exception (From_callback e) = e"

definition content_of :: "mail_reservation \<Rightarrow> message_content" where
  "content_of r =
     \<lparr>content_operator = mres_operator r, content_account = mres_account r, content_to = mres_recipient r,
      content_subject = mres_subject r, content_body = mres_body r, content_thread = mres_thread r,
      content_reply = mres_in_reply_to r, content_references = mres_references r, content_rfc = mres_rfc r\<rparr>"

definition commit_stamp :: "mail_env \<times> int \<Rightarrow> mail_reservation \<Rightarrow> runtime \<Rightarrow> (drip_error, unit) result \<times> runtime" where
  "commit_stamp m r rt =
     (case stamp_submission_attempt (fst m) (snd m) r rt of Inl e \<Rightarrow> (Inl e, rt) | Inr rt' \<Rightarrow> (Inr (), rt'))"

definition send_reserved ::
  "(message_content \<Rightarrow> string) \<Rightarrow> (string \<Rightarrow> string) \<Rightarrow> provider \<Rightarrow> mail_env \<times> int \<Rightarrow> task \<Rightarrow> mail_reservation \<Rightarrow> runtime
     \<Rightarrow> (drip_error, gmail_result) result \<times> runtime" where
  "send_reserved digest make_msgid svc m t r rt =
     (case bind_result (issue_gmail_delivery_permit digest (tasks (drip rt)) t (content_of r)) (\<lambda>p.
             bind_result (gmail_client_for svc (mres_operator r)) (\<lambda>c. Inr (p, c))) of
        Inl e \<Rightarrow> (Inl (mail_exception e), rt)
      | Inr (p, c) \<Rightarrow>
          if client_account c \<noteq> mres_account r \<or> client_send_as c \<noteq> mres_send_as r \<or> client_reply_to c \<noteq> mres_reply_to r then
            (Inl (Drip_ValueError ''Resolved Gmail client does not match delivery ownership''), rt)
          else
            (case send_message digest make_msgid svc c (Some p) (content_of r) (commit_stamp m r) rt of
               (Inl e, rt) \<Rightarrow> (Inl (mail_exception e), rt)
             | (Inr res, rt) \<Rightarrow> (Inr res, rt)))"

definition handle_drip_gmail ::
  "(message_content \<Rightarrow> string) \<Rightarrow> (string \<Rightarrow> string) \<Rightarrow> provider \<Rightarrow> mail_env \<times> int \<Rightarrow> mail_env \<times> int \<Rightarrow> mail_env \<times> int
     \<Rightarrow> task \<Rightarrow> runtime \<Rightarrow> (drip_error, unit) result \<times> runtime" where
  "handle_drip_gmail digest make_msgid svc m1 m2 m3 t rt =
     (case commit rt (reserve_attempt (fst m1) (snd m1) t rt) of
        (Inl e, rt) \<Rightarrow> (Inl e, rt)
      | (Inr None, rt) \<Rightarrow> (Inr (), rt)
      | (Inr (Some r), rt) \<Rightarrow>
          (case send_reserved digest make_msgid svc m2 t r rt of
             (sent, rt) \<Rightarrow>
               let failed = (\<lambda>e. case record_failure (fst m3) (snd m3) r e rt of Inl e' \<Rightarrow> (Inl e', rt) | Inr rt' \<Rightarrow> (Inl e, rt')) in
               (case sent of
                  Inl e \<Rightarrow> failed e
                | Inr res \<Rightarrow> (case record_success (snd m3) r res rt of Inl e \<Rightarrow> failed e | Inr rt' \<Rightarrow> (Inr (), rt')))))"

section \<open>Recovery\<close>

definition fail_mail_task :: "string \<Rightarrow> task \<Rightarrow> task" where
  "fail_mail_task detail t = t\<lparr>task_status := FAILED, task_error := detail\<rparr>"

definition requeue_mail_task :: "task \<Rightarrow> task" where
  "requeue_mail_task t = t\<lparr>task_status := PENDING, task_started_at := None, task_completed_at := None, task_error := ''''\<rparr>"

definition latest_reserved :: "int \<Rightarrow> runtime \<Rightarrow> drip_attempt option" where
  "latest_reserved k rt =
     (case sort_key (\<lambda>a. - int (attempt_number a)) (filter (\<lambda>a. att_delivery a = k \<and> att_outcome a = Reserved) (attempts rt)) of
        [] \<Rightarrow> None
      | a # _ \<Rightarrow> Some a)"

text \<open>The task of a delivery that is still marked as being sent.\<close>

definition recover_sending :: "int \<Rightarrow> int \<Rightarrow> graph \<Rightarrow> drip_attempt option \<Rightarrow> runtime \<Rightarrow> runtime" where
  "recover_sending now task_id g a rt =
     (let k = dlv_pk (g_delivery g); set_task = (\<lambda>f. edit_task task_id (\<lambda>_. True) f) in
      case a of
        None \<Rightarrow> on_drip (set_task (fail_mail_task ''Gmail stale recovery found an invalid attempt ledger'') \<circ> mark_unclear g) rt
      | Some a \<Rightarrow>
          if finished_at a \<noteq> None then
            on_drip (set_task (fail_mail_task ''Gmail stale recovery found an invalid attempt ledger'') \<circ> mark_unclear g) rt
          else if submission_attempted_at a \<noteq> None then
            on_drip (set_task (fail_mail_task ''Gmail submission outcome is unclear after worker restart'') \<circ> mark_unclear g)
              (edit_attempt (att_pk a) (finish_attempt Att_unclear ''Worker stopped after Gmail submission began'' now) rt)
          else
            let rt = edit_attempt (att_pk a) (finish_attempt Not_submitted ''Worker stopped before Gmail submission began'' now) rt in
            if \<not> controls_active g (drip rt) then
              on_drip (set_task (retire_task now ''Drip controls inactive during stale recovery'') \<circ>
                edit_delivery k (detach_delivery D_Planned)) rt
            else on_drip (set_task requeue_mail_task \<circ> edit_delivery k (set_delivery_status D_Queued)) rt)"

definition recover_stale_drip_gmail_task :: "int \<Rightarrow> int \<Rightarrow> runtime \<Rightarrow> (drip_error, bool \<times> runtime) result" where
  "recover_stale_drip_gmail_task now task_id rt =
     (case List.find (\<lambda>t. task_pk t = task_id) (tasks (drip rt)) of
        None \<Rightarrow> Inr (False, rt)
      | Some t \<Rightarrow>
          let set_task = (\<lambda>f. on_drip (edit_task task_id (\<lambda>_. True) f) rt) in
          if task_type t \<noteq> DRIP_GMAIL \<or> task_status t \<noteq> RUNNING then Inr (False, rt)
          else bind_result (gmail_payload_delivery_id t) (\<lambda>k.
            if k \<notin> dlv_pk ` set (deliveries (drip rt)) then
              Inr (True, set_task (fail_mail_task ''Stale drip Gmail Task lost delivery ownership''))
            else bind_result (lock_delivery_graph k (drip rt)) (\<lambda>g.
              let d = g_delivery g in
              if current_task d \<noteq> Some task_id then Inr (True, set_task (fail_mail_task ''Stale drip Gmail Task lost delivery ownership''))
              else if dlv_status d = D_Sending then Inr (True, recover_sending now task_id g (latest_reserved k rt) rt)
              else if terminal_delivery d then
                Inr (True, set_task (retire_task now ''Delivery reached terminal state before stale recovery''))
              else Inr (True, set_task (fail_mail_task (''Cannot recover delivery state '' @ status_text (dlv_status d)))))))"

end
