(* ===== verification/Drip_Machine.thy ===== *)
theory Drip_Machine
  imports Drip_Quiet Drip_Gmail
begin

text \<open>
  The drip campaigns at work: passes, stops, claims and the executors of both channels, in any order. A
  message of a delivery is submitted at most once, and only while nothing speaks against it.
\<close>

section \<open>The LinkedIn executor\<close>

lemma on_drip_comp: "on_drip f (on_drip g rt) = on_drip (\<lambda>db. f (g db)) rt" by (simp add: on_drip_def)

lemma set_lane_status_pk [simp]: "lane_pk (set_lane_status st l) = lane_pk l"
  by (simp add: set_lane_status_def)

lemma lane_status_quiet: "drip_ok a \<Longrightarrow> quiet a (edit_lane k (set_lane_status st) a)"
  by (rule edit_lane_quiet) simp_all

lemma release_guard_ledger:
  assumes ok: "books_ok cl rt" and d: "g_delivery g \<in> set (deliveries (drip rt))" "blockers (dlv_pk (g_delivery g)) (attempts rt) = []"
  shows "books_ok cl (on_drip (release_for_guard g f) rt)"
proof -
  let ?k = "dlv_pk (g_delivery g)"
  have go: "books_ok cl (on_drip (\<lambda>db. edit_delivery ?k (detach_delivery st) (h db)) rt)"
    if st: "st \<in> {D_Planned, D_Stopped}" and h: "quiet (drip rt) (h (drip rt))" "deliveries (h (drip rt)) = deliveries (drip rt)" for st h
  proof -
    have "books_ok cl (on_drip h rt)" by (rule ledger_on_drip [where f = h, OF ok h(1)])
    then have "books_ok cl (on_drip (edit_delivery ?k (detach_delivery st)) (on_drip h rt))"
      by (rule ledger_release) (use d h(2) st in \<open>auto simp: waiting_delivery_def\<close>)
    then show ?thesis by (simp add: on_drip_comp)
  qed
  note lane = lane_status_quiet [OF books_okD(1) [OF ok], of "lane_pk (g_lane g)"] and same = quiet_refl [OF books_okD(1) [OF ok]]
  show ?thesis
    unfolding release_for_guard_def Let_def
    using go [of D_Stopped "\<lambda>db. db"] go [of D_Planned "\<lambda>db. db"] go [of D_Planned "edit_lane (lane_pk (g_lane g)) (set_lane_status L_Waiting_connection)"]
      go [of D_Planned "edit_lane (lane_pk (g_lane g)) (set_lane_status L_Paused)"] lane same
    by (cases "controls_stopped g"; cases "waiting_connection f"; cases "retryable f \<or> fail_hold f"; simp)
qed

lemma guard_owned:
  assumes "execution_guard env t g now expected urn recipient db = Inr x"
  shows "current_task (g_delivery g) = Some (task_pk t)" and "task_status t = RUNNING" and "task_type t = DRIP_LINKEDIN"
  using assms by (auto simp: execution_guard_def Let_def split: if_splits)

lemma reserve_locked_ledger:
  assumes run: "reserve_locked env g rt = Inr (r, rt')" and ok: "books_ok cl rt" and d: "g_delivery g \<in> set (deliveries (drip rt))"
    and free: "blockers (dlv_pk (g_delivery g)) (attempts rt) = []"
    and t: "t \<in> set (tasks (drip rt))" "task_status t \<noteq> PENDING" "current_task (g_delivery g) = Some (task_pk t)"
  shows "books_ok (removeAll (task_pk t) cl) rt'"
proof -
  have "rt' = on_drip (edit_delivery (dlv_pk (g_delivery g)) (set_delivery_status D_Sending)) (add_attempt (dlv_pk (g_delivery g)) rt)"
    using run by (auto simp: reserve_locked_def Let_def split: if_splits option.splits)
  then show ?thesis using ledger_reserve [OF ok d free t] by simp
qed

lemma reserve_cases:
  assumes "reserve_delivery env now t rt = Inr (r, rt')"
  obtains k g locked where "payload_delivery_id t = Inr k" "lock_delivery_graph k (drip rt) = Inr g"
      "lock_task (task_pk t) (drip rt) = Inr locked"
      "rt' = on_drip (stop_enrollment_locked (enr_pk (g_enrollment g))
          (lead_automation_stop_reason (send_facts env) (enr_lead (g_enrollment g)) (drip rt)) now) rt \<or>
       (\<exists>f. execution_guard env locked g now D_Queued '''' '''' (drip rt) = Inr (Some f) \<and>
          rt' = on_drip (release_for_guard g f) rt) \<or>
       (execution_guard env locked g now D_Queued '''' '''' (drip rt) = Inr None \<and> reserve_locked env g rt = Inr (r, rt'))"
proof -
  obtain k g locked where "payload_delivery_id t = Inr k" "lock_delivery_graph k (drip rt) = Inr g"
      "lock_task (task_pk t) (drip rt) = Inr locked"
    using assms by (auto simp: reserve_delivery_def)
  with assms show ?thesis by (intro that [of k g locked]) (auto simp: reserve_delivery_def Let_def split: if_splits option.splits)
qed

lemma reserve_ledger:
  assumes run: "reserve_delivery env now t rt = Inr (r, rt')" and ok: "books_ok cl rt" and cl: "task_pk t \<in> set cl"
  shows "books_ok (removeAll (task_pk t) cl) rt'"
  using run
proof (rule reserve_cases)
  fix k locked and g :: graph
  let ?reason = "lead_automation_stop_reason (send_facts env) (enr_lead (g_enrollment g)) (drip rt)"
  let ?guard = "execution_guard env locked g now D_Queued '''' '''' (drip rt)"
  assume g: "lock_delivery_graph k (drip rt) = Inr g" and l: "lock_task (task_pk t) (drip rt) = Inr locked"
    and result: "rt' = on_drip (stop_enrollment_locked (enr_pk (g_enrollment g)) ?reason now) rt \<or>
      (\<exists>f. ?guard = Inr (Some f) \<and> rt' = on_drip (release_for_guard g f) rt) \<or>
      (?guard = Inr None \<and> reserve_locked env g rt = Inr (r, rt'))"
  note d = lock_graphD(1) [OF g] and t = lock_taskD [OF l]
  have free: "blockers (dlv_pk (g_delivery g)) (attempts rt) = []" if "?guard = Inr x" for x
    using guard_owned(1) [OF that] t cl by (intro startable_free(1) [OF ok d]) (auto simp: live_def)
  from result show ?thesis
  proof (elim disjE exE conjE)
    assume "rt' = on_drip (stop_enrollment_locked (enr_pk (g_enrollment g)) ?reason now) rt"
    then show ?thesis
      using ledger_fewer_claims [OF locked_stop_ledger [OF ok]] by simp
  next
    fix f assume "?guard = Inr (Some f)" "rt' = on_drip (release_for_guard g f) rt"
    then show ?thesis using ledger_fewer_claims [OF release_guard_ledger [OF ok d free]] by simp
  next
    assume guard: "?guard = Inr None" and "reserve_locked env g rt = Inr (r, rt')"
    then show ?thesis
      using reserve_locked_ledger [OF _ ok d free [OF guard], of env r rt' locked] guard_owned(1,2) [OF guard] t by simp
  qed
qed

text \<open>The attempt that a callback or the end of a send works on.\<close>

lemma callback_cases:
  assumes "submission_callback env now k r rt = Inr (reason, rt')"
  obtains g a t where "lock_delivery_graph (res_delivery r) (drip rt) = Inr g" "lock_attempt (res_attempt r) (res_delivery r) rt = Inr a"
      "lock_task k (drip rt) = Inr t"
      "rt' = rt \<or> (open_attempt a \<and> \<not> submitted a \<and>
        (rt' = on_drip (stop_enrollment_locked (enr_pk (g_enrollment g)) reason now) (closes a reason now rt) \<or>
         (\<exists>f. execution_guard env t g now D_Sending (res_urn r) (res_recipient r) (drip rt) = Inr (Some f) \<and>
            rt' = on_drip (release_for_guard g f) (closes a (fail_detail f) now rt)) \<or>
         (execution_guard env t g now D_Sending (res_urn r) (res_recipient r) (drip rt) = Inr None \<and>
            lead_automation_stop_reason (send_facts env) (enr_lead (g_enrollment g)) (drip rt) = '''' \<and>
            rt' = edit_attempt (att_pk a) (\<lambda>a. a\<lparr>submission_attempted_at := Some now\<rparr>) rt)))"
proof -
  obtain g a t where "lock_delivery_graph (res_delivery r) (drip rt) = Inr g" "lock_attempt (res_attempt r) (res_delivery r) rt = Inr a"
      "lock_task k (drip rt) = Inr t"
    using assms by (auto simp: submission_callback_def)
  with assms show ?thesis
    by (intro that [of g a t]) (auto simp: submission_callback_def Let_def closes_def submitted_def split: if_splits option.splits)
qed

lemma callback_ledger:
  assumes run: "submission_callback env now k r rt = Inr (reason, rt')" and ok: "books_ok cl rt"
  shows "books_ok cl rt'"
  using run
proof (rule callback_cases)
  fix a t and g :: graph
  assume g: "lock_delivery_graph (res_delivery r) (drip rt) = Inr g" and a: "lock_attempt (res_attempt r) (res_delivery r) rt = Inr a"
    and result: "rt' = rt \<or> (open_attempt a \<and> \<not> submitted a \<and>
        (rt' = on_drip (stop_enrollment_locked (enr_pk (g_enrollment g)) reason now) (closes a reason now rt) \<or>
         (\<exists>f. execution_guard env t g now D_Sending (res_urn r) (res_recipient r) (drip rt) = Inr (Some f) \<and>
            rt' = on_drip (release_for_guard g f) (closes a (fail_detail f) now rt)) \<or>
         (execution_guard env t g now D_Sending (res_urn r) (res_recipient r) (drip rt) = Inr None \<and>
            lead_automation_stop_reason (send_facts env) (enr_lead (g_enrollment g)) (drip rt) = '''' \<and>
            rt' = edit_attempt (att_pk a) (\<lambda>a. a\<lparr>submission_attempted_at := Some now\<rparr>) rt)))"
  note d = lock_graphD(1,2) [OF g] and am = lock_attemptD [OF a]
  have ad: "att_delivery a = dlv_pk (g_delivery g)" using d am by simp
  note close = ledger_close [OF ok d(1) am(1) ad]
  have same: "drip (closes a s now rt) = drip rt" for s by (simp add: closes_def)
  from result show ?thesis
  proof (elim disjE conjE exE)
    assume "rt' = rt"
    then show ?thesis using ok by simp
  next
    assume o: "open_attempt a" "\<not> submitted a"
      and "rt' = on_drip (stop_enrollment_locked (enr_pk (g_enrollment g)) reason now) (closes a reason now rt)"
    then show ?thesis using locked_stop_ledger [OF close(1) [OF o]] by simp
  next
    fix f assume o: "open_attempt a" "\<not> submitted a" and "rt' = on_drip (release_for_guard g f) (closes a (fail_detail f) now rt)"
    then show ?thesis using release_guard_ledger [OF close(1) [OF o] _ close(2) [OF o]] d(1) same by simp
  next
    assume "open_attempt a" "rt' = edit_attempt (att_pk a) (\<lambda>a. a\<lparr>submission_attempted_at := Some now\<rparr>) rt"
    then show ?thesis using ledger_stamp [OF ok d(1) am(1) ad] by simp
  qed
qed

lemma finish_unclear_locked_ledger:
  assumes ok: "books_ok cl rt" and d: "g_delivery g \<in> set (deliveries (drip rt))"
    and a: "a \<in> set (attempts rt)" "att_delivery a = dlv_pk (g_delivery g)" "open_attempt a"
  shows "books_ok cl (finish_unclear_locked g a detail now rt)"
proof -
  let ?rt = "on_drip (edit_delivery (dlv_pk (g_delivery g)) (set_delivery_status D_Unclear))
    (edit_attempt (att_pk a) (finish_attempt Att_unclear detail now) rt)"
  have "books_ok cl ?rt" by (rule ledger_finish [OF ok d a]) simp_all
  moreover have "finish_unclear_locked g a detail now rt =
      (if nonterminal_lane (g_lane g) then on_drip (edit_lane (lane_pk (g_lane g)) (set_lane_status L_Paused)) ?rt else ?rt)"
    by (simp add: finish_unclear_locked_def on_drip_def Let_def)
  ultimately show ?thesis using lane_status_ledger by simp
qed

lemma unsubmitted_ledger:
  assumes run: "finish_unsubmitted pauses late now r detail rt = Inr rt'" and ok: "books_ok cl rt"
  shows "books_ok cl rt'"
proof -
  obtain g a where g: "lock_delivery_graph (res_delivery r) (drip rt) = Inr g" and a: "lock_attempt (res_attempt r) (res_delivery r) rt = Inr a"
    using run by (auto simp: finish_unsubmitted_def)
  note d = lock_graphD(1,2) [OF g] and am = lock_attemptD [OF a]
  have ad: "att_delivery a = dlv_pk (g_delivery g)" using d am by simp
  consider "rt' = rt" | "open_attempt a" "rt' = finish_unclear_locked g a (late @ detail) now rt"
    | st where "open_attempt a" "\<not> submitted a" "st \<in> {D_Stopped, D_Planned}"
      "rt' = on_drip (edit_delivery (dlv_pk (g_delivery g)) (detach_delivery st)) (closes a detail now rt) \<or>
       rt' = on_drip (edit_lane (lane_pk (g_lane g)) (set_lane_status L_Paused))
         (on_drip (edit_delivery (dlv_pk (g_delivery g)) (detach_delivery st)) (closes a detail now rt))"
    using run unfolding finish_unsubmitted_def g a closes_def submitted_def by (auto simp: Let_def split: if_splits)
  then show ?thesis
  proof cases
    case 1
    then show ?thesis using ok by simp
  next
    case 2
    then show ?thesis using finish_unclear_locked_ledger [OF ok d(1) am(1) ad] by simp
  next
    case (3 st)
    note close = ledger_close [OF ok d(1) am(1) ad 3(1,2), of detail now]
    have "books_ok cl (on_drip (edit_delivery (dlv_pk (g_delivery g)) (detach_delivery st)) (closes a detail now rt))"
      by (rule ledger_release [OF close(1) _ close(2)]) (use d 3(3) in \<open>auto simp: closes_def waiting_delivery_def\<close>)
    then show ?thesis using 3(4) lane_status_ledger by auto
  qed
qed

lemma unclear_ledger:
  assumes run: "finish_unclear now r detail rt = Inr rt'" and ok: "books_ok cl rt"
  shows "books_ok cl rt'"
proof -
  obtain g a where g: "lock_delivery_graph (res_delivery r) (drip rt) = Inr g" and a: "lock_attempt (res_attempt r) (res_delivery r) rt = Inr a"
    and rt': "rt' = (if \<not> open_attempt a then rt else finish_unclear_locked g a detail now rt)"
    using run by (auto simp: finish_unclear_def)
  note d = lock_graphD(1,2) [OF g] and am = lock_attemptD [OF a]
  show ?thesis using ok finish_unclear_locked_ledger [OF ok d(1) am(1)] d am unfolding rt' by simp
qed

lemma messages_ledger:
  assumes ok: "books_ok cl rt"
  shows "books_ok cl (rt\<lparr>drip := (drip rt)\<lparr>messages := ms\<rparr>\<rparr>)"
proof (rule ledger_quiet [OF ok], rule quiet_same)
  show "drip_ok ((drip rt)\<lparr>messages := ms\<rparr>)" using books_okD(1) [OF ok] by (simp add: drip_ok_def)
qed simp_all

lemma outbound_row_ledger:
  assumes run: "outbound_message_row g rt = Inr (m, rt')" and ok: "books_ok cl rt"
  shows "books_ok cl rt'" and "deliveries (drip rt') = deliveries (drip rt)" and "attempts rt' = attempts rt"
proof -
  consider "rt' = rt" | ms where "rt' = rt\<lparr>drip := (drip rt)\<lparr>messages := ms\<rparr>, msg_seq := msg_seq rt + 1\<rparr>"
    using run by (auto simp: outbound_message_row_def Let_def split: option.splits if_splits)
  then have "books_ok cl rt' \<and> deliveries (drip rt') = deliveries (drip rt) \<and> attempts rt' = attempts rt"
  proof cases
    case 1
    then show ?thesis using ok by simp
  next
    case (2 ms)
    have "books_ok cl rt' = books_ok cl (rt\<lparr>drip := (drip rt)\<lparr>messages := ms\<rparr>\<rparr>)" unfolding 2 by (rule books_ok_cong) simp_all
    then show ?thesis using messages_ledger [OF ok] 2 by simp
  qed
  then show "books_ok cl rt'" "deliveries (drip rt') = deliveries (drip rt)" "attempts rt' = attempts rt" by simp_all
qed

lemma advance_quiet:
  assumes run: "advance_lane_after_success g now db = Inr db'" and ok: "drip_ok db"
  shows "quiet db db'"
proof -
  have "db' = db \<or> (\<exists>k key st. db' = edit_lane (lane_pk (g_lane g)) (advance_lane k key st now) db)"
    using run by (auto simp: advance_lane_after_success_def Let_def split: option.splits if_splits)
  moreover have "quiet db (edit_lane p (advance_lane k key st now) db)" for p k key st
    by (rule edit_lane_quiet [OF ok]) (simp add: advance_lane_def)
  ultimately show ?thesis using quiet_refl [OF ok] by auto
qed

lemma sent_recorded_ledger:
  assumes run: "finish_sent_recorded env now r g a rt = Inr rt'" and ok: "books_ok cl rt"
    and d: "g_delivery g \<in> set (deliveries (drip rt))"
    and a: "a \<in> set (attempts rt)" "att_delivery a = dlv_pk (g_delivery g)" "open_attempt a" "submitted a"
  shows "books_ok cl rt'"
proof -
  obtain m rt1 where m: "outbound_message_row g rt = Inr (m, rt1)" using run by (auto simp: finish_sent_recorded_def)
  note row = outbound_row_ledger [OF m ok]
  define rt2 where "rt2 = rt1\<lparr>recorded_actions := recorded_actions rt1 @ [res_campaign r]\<rparr>"
  have ok2: "books_ok cl rt2" using row(1) books_ok_cong [of rt2 rt1] by (simp add: rt2_def)
  define rt3 where "rt3 = on_drip (edit_delivery (dlv_pk (g_delivery g)) (mark_sent now m))
    (edit_attempt (att_pk a) (finish_attempt Att_sent '''' now) rt2)"
  have ok3: "books_ok cl rt3"
    unfolding rt3_def
    by (rule ledger_finish [OF ok2]) (use d a row in \<open>auto simp: rt2_def mark_sent_def\<close>)
  have "(\<exists>reason. rt' = on_drip (stop_enrollment_locked (enr_pk (g_enrollment g)) reason now) rt3) \<or> rt' = rt3 \<or>
      (\<exists>db. advance_lane_after_success g now (drip rt3) = Inr db \<and> rt' = rt3\<lparr>drip := db\<rparr>)"
    using run m unfolding finish_sent_recorded_def rt3_def rt2_def by (auto simp: Let_def split: if_splits)
  then show ?thesis
    using ok3 locked_stop_ledger [OF ok3] ledger_quiet [OF ok3 advance_quiet [OF _ books_okD(1) [OF ok3]]] by blast
qed

lemma sent_ledger:
  assumes run: "finish_sent env now k r rt = Inr rt'" and ok: "books_ok cl rt"
  shows "books_ok cl rt'"
proof -
  obtain g a where g: "lock_delivery_graph (res_delivery r) (drip rt) = Inr g" and a: "lock_attempt (res_attempt r) (res_delivery r) rt = Inr a"
    using run by (auto simp: finish_sent_def)
  note d = lock_graphD(1,2) [OF g] and am = lock_attemptD [OF a]
  have ad: "att_delivery a = dlv_pk (g_delivery g)" using d am by simp
  let ?detail = "''send reported success without a committed submit boundary''"
  let ?rt = "on_drip (edit_delivery (dlv_pk (g_delivery g)) (set_delivery_status D_Unclear))
    (edit_attempt (att_pk a) (finish_attempt Att_unclear ?detail now) rt)"
  consider "rt' = rt" | "open_attempt a" "rt' = on_drip (edit_lane (lane_pk (g_lane g)) (set_lane_status L_Paused)) ?rt"
    | "open_attempt a" "submitted a" "finish_sent_recorded env now r g a rt = Inr rt'"
    using run unfolding finish_sent_def g a submitted_def by (auto simp: Let_def comp_def on_drip_def split: if_splits)
  then show ?thesis
  proof cases
    case 1
    then show ?thesis using ok by simp
  next
    case 2
    have "books_ok cl ?rt" by (rule ledger_finish [OF ok d(1) am(1) ad 2(1)]) simp_all
    then show ?thesis using lane_status_ledger 2(2) by simp
  next
    case 3
    then show ?thesis using sent_recorded_ledger [OF 3(3) ok d(1) am(1) ad] by simp
  qed
qed

section \<open>Recovery of a LinkedIn delivery\<close>

lemma retire_quiet: "drip_ok a \<Longrightarrow> quiet a (edit_task k P (retire_task now detail) a)"
  by (rule edit_task_quiet) (simp_all add: retire_task_def)

lemma retire_ledger: "books_ok cl rt \<Longrightarrow> books_ok cl (on_drip (edit_task k P (retire_task now detail)) rt)"
  by (rule ledger_on_drip) (simp_all add: retire_quiet books_okD(1))

lemma retire_recovered_ledger: "books_ok cl rt \<Longrightarrow> books_ok cl (on_drip (retire_recovered_task d now detail) rt)"
  using retire_ledger by (simp add: retire_recovered_task_def on_drip_def split: option.splits)

lemma edit_commute: "edit_delivery k f (edit_task i P g db) = edit_task i P g (edit_delivery k f db)"
  by (simp add: edit_delivery_def edit_task_def)

lemma requeue_ledger:
  assumes ok: "books_ok cl rt" and d: "d \<in> set (deliveries (drip rt))" "current_task d = Some k"
    and free: "blockers (dlv_pk d) (attempts rt) = []" and g: "\<And>t. task_pk (g t) = task_pk t"
  shows "books_ok cl (on_drip (\<lambda>db. edit_task k P g (edit_delivery (dlv_pk d) (set_delivery_status D_Queued) db)) rt)"
proof -
  let ?f = "set_delivery_status D_Queued"
  have one: "books_ok cl (on_drip (edit_delivery (dlv_pk d) ?f) rt)"
    by (rule ledger_release [OF ok d(1) free]) (simp_all add: waiting_delivery_def)
  have mem: "?f d \<in> set (deliveries (drip (on_drip (edit_delivery (dlv_pk d) ?f) rt)))" using d(1) by (auto simp: edit_delivery_def)
  have "books_ok cl (on_drip (edit_task k P g) (on_drip (edit_delivery (dlv_pk d) ?f) rt))"
    by (rule ledger_edit_task [OF one mem]) (use d(2) free g in \<open>simp_all add: waiting_delivery_def\<close>)
  then show ?thesis by (simp add: on_drip_comp)
qed

lemma recover_unsubmitted_ledger:
  assumes run: "recover_unsubmitted g now (drip rt) = Inr (res, db)" and ok: "books_ok cl rt"
    and d: "g_delivery g \<in> set (deliveries (drip rt))" "blockers (dlv_pk (g_delivery g)) (attempts rt) = []"
  shows "books_ok cl (rt\<lparr>drip := db\<rparr>)"
proof -
  let ?k = "dlv_pk (g_delivery g)"
  have release: "books_ok cl (on_drip (edit_delivery ?k f) rt)"
    if "\<And>x. dlv_pk (f x) = dlv_pk x" "\<And>x. current_task (f x) \<in> {current_task x, None}" "waiting_delivery (f (g_delivery g))" for f
    by (rule ledger_release [OF ok d that])
  consider st where "st \<in> {D_Planned, D_Queued}" "db = edit_delivery ?k (set_delivery_status st) (drip rt)"
    | "db = edit_delivery ?k (detach_delivery D_Planned) (drip rt)"
    | i P detail where "db = edit_task i P (retire_task now detail) (edit_delivery ?k (detach_delivery D_Planned) (drip rt))"
    | i where "current_task (g_delivery g) = Some i"
      "db = edit_task i (\<lambda>_. True) requeue_task (edit_delivery ?k (set_delivery_status D_Queued) (drip rt))"
    using run unfolding recover_unsubmitted_def Let_def
    by (auto simp: edit_commute lock_task_def split: if_splits option.splits)
  then show ?thesis
  proof cases
    case (1 st)
    then show ?thesis using release [of "set_delivery_status st"] by (auto simp: on_drip_def waiting_delivery_def)
  next
    case 2
    then show ?thesis using release [of "detach_delivery D_Planned"] by (auto simp: on_drip_def waiting_delivery_def)
  next
    case (3 i P detail)
    have "books_ok cl (on_drip (edit_task i P (retire_task now detail)) (on_drip (edit_delivery ?k (detach_delivery D_Planned)) rt))"
      by (rule retire_ledger, rule release) (simp_all add: waiting_delivery_def)
    then show ?thesis using 3 by (simp add: on_drip_def)
  next
    case (4 i)
    have "books_ok cl (on_drip (\<lambda>db. edit_task i (\<lambda>_. True) requeue_task (edit_delivery ?k (set_delivery_status D_Queued) db)) rt)"
      by (rule requeue_ledger [OF ok d(1) 4(1) d(2)]) (simp add: requeue_task_def)
    then show ?thesis using 4(2) by (simp add: on_drip_def)
  qed
qed

text \<open>A delivery that is being sent without an open attempt: nothing is known of it.\<close>

lemma ledger_unclear:
  assumes ok: "books_ok cl rt" and d: "d \<in> set (deliveries (drip rt))" "dlv_status d = D_Sending"
    and none: "\<And>a. a \<in> set (attempts rt) \<Longrightarrow> att_delivery a = dlv_pk d \<Longrightarrow> \<not> open_attempt a"
  shows "books_ok cl (on_drip (edit_delivery (dlv_pk d) (set_delivery_status D_Unclear)) rt)"
proof (rule ledger_edit_delivery [OF ok d(1)])
  have b: "book cl (tasks (drip rt)) (blockers (dlv_pk d) (attempts rt)) d" by (rule books_okD(5) [OF ok d(1)])
  have "\<not> startable_task cl (tasks (drip rt)) d" using b d(2) by (auto simp: book_def waiting_delivery_def)
  then have "\<not> startable_task cl (tasks (drip rt)) (set_delivery_status D_Unclear d)" by (simp add: startable_task_def)
  moreover have "status_agrees D_Unclear (blockers (dlv_pk d) (attempts rt))"
    using none b d(2) by (auto simp: status_agrees_def blockers_def book_def)
  ultimately show "book cl (tasks (drip rt)) (blockers (dlv_pk d) (attempts rt)) (set_delivery_status D_Unclear d)"
    using b by (simp add: book_def)
qed simp_all

lemma open_of_delivery:
  assumes ok: "books_ok cl rt" and d: "d \<in> set (deliveries (drip rt))"
  shows "length (filter (\<lambda>a. att_delivery a = dlv_pk d \<and> open_attempt a) (attempts rt)) \<le> 1"
proof -
  have "filter (\<lambda>a. att_delivery a = dlv_pk d \<and> open_attempt a) (attempts rt) = filter open_attempt (blockers (dlv_pk d) (attempts rt))"
    by (auto simp: blockers_def blocking_def intro: filter_cong)
  moreover have "length (blockers (dlv_pk d) (attempts rt)) \<le> 1" using books_okD(5) [OF ok d] by (simp add: book_def)
  ultimately show ?thesis using le_trans [OF length_filter_le] by metis
qed

lemma recover_cases:
  assumes run: "recover_stale_linkedin_delivery now k rt = Inr (res, rt')" and ok: "books_ok cl rt"
  obtains (Noop) g where "lock_delivery_graph k (drip rt) = Inr g" "dlv_status (g_delivery g) \<noteq> D_Sending" "res = NOOP" "rt' = rt"
  | (Submitted) g a detail where "lock_delivery_graph k (drip rt) = Inr g" "dlv_status (g_delivery g) = D_Sending"
      "a \<in> set (attempts rt)" "att_delivery a = k" "open_attempt a" "submitted a" "res = UNCLEAR"
      "rt' = on_drip (retire_recovered_task (g_delivery g) now ''LinkedIn delivery paused: submission outcome unclear'')
        (finish_unclear_locked g a detail now rt)"
  | (Unsubmitted) g a detail db where "lock_delivery_graph k (drip rt) = Inr g" "dlv_status (g_delivery g) = D_Sending"
      "a \<in> set (attempts rt)" "att_delivery a = k" "open_attempt a" "\<not> submitted a"
      "recover_unsubmitted g now (drip rt) = Inr (res, db)" "rt' = (closes a detail now rt)\<lparr>drip := db\<rparr>"
  | (Lost) g where "lock_delivery_graph k (drip rt) = Inr g" "dlv_status (g_delivery g) = D_Sending" "res = UNCLEAR"
      "\<And>a. a \<in> set (attempts rt) \<Longrightarrow> att_delivery a = k \<Longrightarrow> \<not> open_attempt a"
      "rt' = on_drip (retire_recovered_task (g_delivery g) now ''invalid stale attempt ledger'')
        (on_drip (\<lambda>db. if nonterminal_lane (g_lane g) then edit_lane (lane_pk (g_lane g)) (set_lane_status L_Paused) db else db)
          (on_drip (edit_delivery k (set_delivery_status D_Unclear)) rt))"
proof -
  obtain g where g: "lock_delivery_graph k (drip rt) = Inr g" using run by (auto simp: recover_stale_linkedin_delivery_def)
  note d = lock_graphD(1,2) [OF g]
  let ?open = "filter (\<lambda>a. att_delivery a = k \<and> open_attempt a) (attempts rt)"
  have len: "length ?open \<le> 1" using open_of_delivery [OF ok d(1)] d(2) by simp
  show ?thesis
  proof (cases "dlv_status (g_delivery g) = D_Sending")
    case False
    then show ?thesis using run g Noop by (auto simp: recover_stale_linkedin_delivery_def Let_def split: if_splits)
  next
    case sending: True
    have chan: "lane_channel (g_lane g) = Linkedin_lane"
      using run g by (auto simp: recover_stale_linkedin_delivery_def Let_def split: if_splits)
    show ?thesis
    proof (cases ?open)
      case Nil
      then have "\<not> open_attempt a" if "a \<in> set (attempts rt)" "att_delivery a = k" for a
        using that by (auto simp: filter_empty_conv)
      moreover have "res = UNCLEAR \<and> rt' = on_drip (retire_recovered_task (g_delivery g) now ''invalid stale attempt ledger'')
          (on_drip (\<lambda>db. if nonterminal_lane (g_lane g) then edit_lane (lane_pk (g_lane g)) (set_lane_status L_Paused) db else db)
            (on_drip (edit_delivery k (set_delivery_status D_Unclear)) rt))"
        using run g sending chan Nil by (auto simp: recover_stale_linkedin_delivery_def Let_def on_drip_def)
      ultimately show ?thesis using Lost [OF g sending] by blast
    next
      case (Cons a as)
      then have one: "?open = [a]" using len by simp
      then have "a \<in> set ?open" by simp
      then have a: "a \<in> set (attempts rt)" "att_delivery a = k" "open_attempt a" by auto
      show ?thesis
      proof (cases "submitted a")
        case True
        then have "res = UNCLEAR" "rt' = on_drip (retire_recovered_task (g_delivery g) now
              ''LinkedIn delivery paused: submission outcome unclear'')
            (finish_unclear_locked g a ''stale worker after committed LinkedIn submit boundary'' now rt)"
          using run g sending chan one by (auto simp: recover_stale_linkedin_delivery_def Let_def submitted_def)
        then show ?thesis using Submitted [OF g sending a True] by blast
      next
        case False
        then obtain db where "recover_unsubmitted g now (drip rt) = Inr (res, db)"
            "rt' = (closes a ''stale worker recovered before LinkedIn submit boundary'' now rt)\<lparr>drip := db\<rparr>"
          using run g sending chan one by (auto simp: recover_stale_linkedin_delivery_def Let_def submitted_def closes_def)
        then show ?thesis using Unsubmitted [OF g sending a False] by blast
      qed
    qed
  qed
qed

lemma recover_ledger:
  assumes run: "recover_stale_linkedin_delivery now k rt = Inr (res, rt')" and ok: "books_ok cl rt"
  shows "books_ok cl rt'"
  using run ok
proof (cases rule: recover_cases)
  case (Noop g)
  then show ?thesis using ok by simp
next
  case (Submitted g a detail)
  note d = lock_graphD(1,2) [OF Submitted(1)]
  have "books_ok cl (finish_unclear_locked g a detail now rt)"
    by (rule finish_unclear_locked_ledger [OF ok d(1) Submitted(3)]) (use d Submitted in simp_all)
  then show ?thesis using retire_recovered_ledger Submitted(8) by simp
next
  case (Unsubmitted g a detail db)
  note d = lock_graphD(1,2) [OF Unsubmitted(1)]
  have ad: "att_delivery a = dlv_pk (g_delivery g)" using d Unsubmitted by simp
  note close = ledger_close [OF ok d(1) Unsubmitted(3) ad Unsubmitted(5,6), of detail now]
  have "books_ok cl ((closes a detail now rt)\<lparr>drip := db\<rparr>)"
    by (rule recover_unsubmitted_ledger [OF _ close(1) _ close(2)]) (use d Unsubmitted(7) in \<open>simp_all add: closes_def\<close>)
  then show ?thesis using Unsubmitted(8) by simp
next
  case (Lost g)
  note d = lock_graphD(1,2) [OF Lost(1)]
  have one: "books_ok cl (on_drip (edit_delivery (dlv_pk (g_delivery g)) (set_delivery_status D_Unclear)) rt)"
    by (rule ledger_unclear [OF ok d(1) Lost(2)]) (use d Lost(4) in simp)
  then have "books_ok cl (on_drip (\<lambda>db. if nonterminal_lane (g_lane g) then edit_lane (lane_pk (g_lane g)) (set_lane_status L_Paused) db
      else db) (on_drip (edit_delivery (dlv_pk (g_delivery g)) (set_delivery_status D_Unclear)) rt))"
    using lane_status_ledger [OF one] by (simp add: on_drip_def)
  then show ?thesis using retire_recovered_ledger d(2) Lost(5) by simp
qed

section \<open>The Gmail executor\<close>

lemma error_task_ledger:
  "books_ok cl rt \<Longrightarrow> (\<And>t. task_pk (f t) = task_pk t) \<Longrightarrow> (\<And>t. task_status (f t) = PENDING \<Longrightarrow> task_status t = PENDING) \<Longrightarrow>
     books_ok cl (on_drip (edit_task k P f) rt)"
  by (rule ledger_on_drip) (simp_all add: edit_task_quiet books_okD(1))

lemma release_mail_ledger:
  assumes ok: "books_ok cl rt" and d: "d \<in> set (deliveries (drip rt))" "blockers (dlv_pk d) (attempts rt) = []"
  shows "books_ok cl (on_drip (release_without_attempt d k reason) rt)"
proof -
  let ?rt = "on_drip (\<lambda>db. if dlv_status d = D_Queued then edit_delivery (dlv_pk d) (detach_delivery D_Planned) db else db) rt"
  have "books_ok cl (on_drip (edit_delivery (dlv_pk d) (detach_delivery D_Planned)) rt)"
    by (rule ledger_release [OF ok d]) (simp_all add: waiting_delivery_def)
  then have "books_ok cl ?rt" using ok by (simp add: on_drip_def)
  then have "books_ok cl (on_drip (edit_task k (\<lambda>_. True) (\<lambda>t. t\<lparr>task_error := reason\<rparr>)) ?rt)"
    by (rule error_task_ledger) simp_all
  then show ?thesis by (simp add: release_without_attempt_def on_drip_def)
qed

lemma stop_ledger:
  assumes "stop_enrollment_for_reason k reason now (drip rt) = Inr (x, db)" and "books_ok cl rt"
  shows "books_ok cl (rt\<lparr>drip := db\<rparr>)"
  by (rule ledger_quiet [OF assms(2) stop_quiet [OF assms(1) books_okD(1) [OF assms(2)]]])

text \<open>The reservation: a claimed task that is refused, released, stopped or reserved.\<close>

lemma mail_reserve_cases:
  assumes "reserve_attempt env now t rt = Inr (r, rt')"
  obtains (Skipped) locked where "lock_task (task_pk t) (drip rt) = Inr locked" "rt' = rt" "r = None"
  | (Owned) k g locked operator where "gmail_payload_delivery_id t = Inr k" "lock_delivery_graph k (drip rt) = Inr g"
      "lock_task (task_pk t) (drip rt) = Inr locked" "task_status locked = RUNNING" "current_task (g_delivery g) = Some (task_pk t)"
      "dlv_status (g_delivery g) = D_Queued" "reserve_mail_owned env now (task_pk t) operator g rt = Inr (r, rt')"
proof -
  obtain k operator g locked where x: "gmail_payload_delivery_id t = Inr k" "payload_operator t = Inr operator"
      "lock_delivery_graph k (drip rt) = Inr g" "lock_task (task_pk t) (drip rt) = Inr locked"
    using assms by (auto simp: reserve_attempt_def split: if_splits)
  have pk: "task_pk locked = task_pk t" using lock_taskD [OF x(4)] by simp
  let ?d = "g_delivery g" and ?err = "gmail_ownership_error env locked operator g now"
  have run: "task_status locked = RUNNING" "current_task ?d = Some (task_pk t)"
      "terminal_delivery ?d \<and> r = None \<and> rt' = rt \<or>
       \<not> terminal_delivery ?d \<and> ?err = '''' \<and> reserve_mail_owned env now (task_pk t) operator g rt = Inr (r, rt')"
    using assms x pk by (auto simp: reserve_attempt_def Let_def split: if_splits)
  from run(3) show ?thesis
  proof
    assume "terminal_delivery ?d \<and> r = None \<and> rt' = rt"
    then show ?thesis using Skipped x(4) by blast
  next
    assume o: "\<not> terminal_delivery ?d \<and> ?err = '''' \<and> reserve_mail_owned env now (task_pk t) operator g rt = Inr (r, rt')"
    then have "dlv_status ?d = D_Queued" by (simp add: gmail_ownership_error_def Let_def split: if_splits)
    then show ?thesis using Owned [OF x(1,3,4) run(1,2)] o by blast
  qed
qed

lemma reserve_mail_locked_cases:
  assumes "reserve_mail_locked env k operator g rt = Inr (r, rt')"
  shows "rt' = on_drip (edit_delivery (dlv_pk (g_delivery g)) (set_delivery_status D_Sending)) (add_attempt (dlv_pk (g_delivery g)) rt)"
  using assms by (auto simp: reserve_mail_locked_def Let_def split: option.splits)

lemma mail_reserve_ledger:
  assumes run: "reserve_attempt env now t rt = Inr (r, rt')" and ok: "books_ok cl rt" and cl: "task_pk t \<in> set cl"
  shows "books_ok (removeAll (task_pk t) cl) rt'"
  using run
proof (cases rule: mail_reserve_cases)
  case (Skipped locked)
  then show ?thesis using ledger_fewer_claims [OF ok] by simp
next
  case (Owned k g locked operator)
  note d = lock_graphD(1) [OF Owned(2)] and t = lock_taskD [OF Owned(3)]
  have free: "blockers (dlv_pk (g_delivery g)) (attempts rt) = []"
    using cl by (intro startable_free(1) [OF ok d Owned(5)]) (simp add: live_def)
  let ?late = "\<lambda>at_time. edit_delivery (dlv_pk (g_delivery g)) (\<lambda>d. d\<lparr>dlv_scheduled_at := max (dlv_scheduled_at d) at_time\<rparr>)"
  consider reason where "rt' = on_drip (release_without_attempt (g_delivery g) (task_pk t) reason) rt"
    | reason at_time where "rt' = on_drip (release_without_attempt (g_delivery g) (task_pk t) reason) (on_drip (?late at_time) rt)"
    | reason x db where "stop_enrollment_for_reason (enr_pk (g_enrollment g)) reason now (drip rt) = Inr (x, db)" "rt' = rt\<lparr>drip := db\<rparr>"
    | "reserve_mail_locked env (task_pk t) operator g rt = Inr (r, rt')"
    using Owned(7) unfolding reserve_mail_owned_def
    by (auto simp: Let_def on_drip_def split: if_splits)
  then have "books_ok (removeAll (task_pk t) cl) rt' \<or> books_ok cl rt'"
  proof cases
    case (1 reason)
    then show ?thesis using release_mail_ledger [OF ok d free] by simp
  next
    case (2 reason at_time)
    have one: "books_ok cl (on_drip (?late at_time) rt)"
      by (rule ledger_release [OF ok d free]) (simp_all add: waiting_delivery_def Owned(6))
    let ?f = "\<lambda>db. if dlv_status (g_delivery g) = D_Queued
      then edit_delivery (dlv_pk (g_delivery g)) (detach_delivery D_Planned) db else db"
    let ?d = "(g_delivery g)\<lparr>dlv_scheduled_at := max (dlv_scheduled_at (g_delivery g)) at_time\<rparr>"
    have mem: "?d \<in> set (deliveries (drip (on_drip (?late at_time) rt)))" using d by (auto simp: edit_delivery_def)
    have "books_ok cl (on_drip (release_without_attempt ?d (task_pk t) reason) (on_drip (?late at_time) rt))"
      by (rule release_mail_ledger [OF one mem]) (simp add: free)
    moreover have "release_without_attempt ?d (task_pk t) reason = release_without_attempt (g_delivery g) (task_pk t) reason"
      by (simp add: fun_eq_iff release_without_attempt_def)
    ultimately show ?thesis using 2 by simp
  next
    case (3 reason x db)
    then show ?thesis using stop_ledger [OF 3(1) ok] by simp
  next
    case 4
    show ?thesis unfolding reserve_mail_locked_cases [OF 4]
      using ledger_reserve [OF ok d free, of locked] t Owned(4,5) by simp
  qed
  then show ?thesis using ledger_fewer_claims by auto
qed

lemma stamp_cases:
  assumes "stamp_submission_attempt env now r rt = Inr rt'"
  obtains g a t where "lock_delivery_graph (mres_delivery r) (drip rt) = Inr g" "lock_attempt (mres_attempt r) (mres_delivery r) rt = Inr a"
      "lock_task (mres_task r) (drip rt) = Inr t" "att_outcome a = Reserved" "\<not> submitted a" "dlv_status (g_delivery g) = D_Sending"
      "controls_active g (drip rt)" "lead_automation_stop_reason (mail_facts env) (enr_lead (g_enrollment g)) (drip rt) = ''''"
      "rt' = edit_attempt (att_pk a) (\<lambda>a. a\<lparr>submission_attempted_at := Some now\<rparr>) rt"
proof -
  obtain g a t where "lock_delivery_graph (mres_delivery r) (drip rt) = Inr g" "lock_attempt (mres_attempt r) (mres_delivery r) rt = Inr a"
      "lock_task (mres_task r) (drip rt) = Inr t"
    using assms by (auto simp: stamp_submission_attempt_def)
  with assms show ?thesis
    by (intro that [of g a t]) (auto simp: stamp_submission_attempt_def Let_def submitted_def split: if_splits)
qed

lemma reserved_open: "books_ok cl rt \<Longrightarrow> a \<in> set (attempts rt) \<Longrightarrow> att_outcome a = Reserved \<Longrightarrow> open_attempt a"
  using books_okD(3) by (fastforce simp: attempt_ok_def open_attempt_def)

lemma stamp_ledger:
  assumes run: "stamp_submission_attempt env now r rt = Inr rt'" and ok: "books_ok cl rt"
  shows "books_ok cl rt'"
  using run
proof (rule stamp_cases)
  fix a and g :: graph
  assume g: "lock_delivery_graph (mres_delivery r) (drip rt) = Inr g" and a: "lock_attempt (mres_attempt r) (mres_delivery r) rt = Inr a"
    and o: "att_outcome a = Reserved" and rt': "rt' = edit_attempt (att_pk a) (\<lambda>a. a\<lparr>submission_attempted_at := Some now\<rparr>) rt"
  note d = lock_graphD(1,2) [OF g] and am = lock_attemptD [OF a]
  show ?thesis unfolding rt' by (rule ledger_stamp [OF ok d(1) am(1)]) (use d am reserved_open [OF ok am(1) o] in simp_all)
qed

lemma mark_unclear_ledger:
  assumes ok: "books_ok cl rt" and d: "g_delivery g \<in> set (deliveries (drip rt))"
    and a: "a \<in> set (attempts rt)" "att_delivery a = dlv_pk (g_delivery g)" "open_attempt a"
  shows "books_ok cl (on_drip (mark_unclear g) (edit_attempt (att_pk a) (finish_attempt Att_unclear detail now) rt))"
proof -
  let ?rt = "on_drip (edit_delivery (dlv_pk (g_delivery g)) (set_delivery_status D_Unclear))
    (edit_attempt (att_pk a) (finish_attempt Att_unclear detail now) rt)"
  have "books_ok cl ?rt" by (rule ledger_finish [OF ok d a]) simp_all
  moreover have "on_drip (mark_unclear g) (edit_attempt (att_pk a) (finish_attempt Att_unclear detail now) rt) =
      (if lane_status (g_lane g) = L_Active then on_drip (edit_lane (lane_pk (g_lane g)) (set_lane_status L_Paused)) ?rt else ?rt)"
    by (simp add: mark_unclear_def on_drip_def Let_def)
  ultimately show ?thesis using lane_status_ledger by simp
qed

lemma release_failed_ledger:
  assumes run: "release_failed env now g (drip rt) = Inr db" and ok: "books_ok cl rt"
    and d: "g_delivery g \<in> set (deliveries (drip rt))" "blockers (dlv_pk (g_delivery g)) (attempts rt) = []"
  shows "books_ok cl (rt\<lparr>drip := db\<rparr>)"
proof (cases "dlv_status (g_delivery g) = D_Sending")
  case False
  then have "db = drip rt" using run by (simp add: release_failed_def Let_def)
  then show ?thesis using ok by simp
next
  case sending: True
  obtain db1 st where one: "db1 = drip rt \<or> (\<exists>reason x. stop_enrollment_for_reason (enr_pk (g_enrollment g)) reason now (drip rt) = Inr (x, db1))"
    and st: "st \<in> {D_Stopped, D_Planned}" and db: "db = edit_delivery (dlv_pk (g_delivery g)) (detach_delivery st) db1"
    using run sending unfolding release_failed_def by (auto simp: Let_def split: if_splits)
  have ok1: "books_ok cl (rt\<lparr>drip := db1\<rparr>)" using one stop_ledger [OF _ ok] ok by auto
  have q: "quiet (drip rt) db1" using one stop_quiet quiet_refl books_okD(1) [OF ok] by blast
  have keep: "\<exists>x \<in> set (deliveries db1). dlv_pk x = dlv_pk (g_delivery g)"
  proof (cases "db1 = drip rt")
    case True
    then show ?thesis using d(1) by auto
  next
    case False
    then obtain reason x where "stop_enrollment_for_reason (enr_pk (g_enrollment g)) reason now (drip rt) = Inr (x, db1)" using one by blast
    then have "map dlv_pk (deliveries db1) = map dlv_pk (deliveries (drip rt))"
      by (auto simp: stop_enrollment_for_reason_def Let_def deliveries_below split: if_splits)
    then have "dlv_pk ` set (deliveries db1) = dlv_pk ` set (deliveries (drip rt))" by (metis set_map)
    then show ?thesis using d(1) by (metis imageE imageI)
  qed
  then obtain x where x: "x \<in> set (deliveries db1)" "dlv_pk x = dlv_pk (g_delivery g)" by blast
  have "books_ok cl (on_drip (edit_delivery (dlv_pk x) (detach_delivery st)) (rt\<lparr>drip := db1\<rparr>))"
    by (rule ledger_release [OF ok1]) (use x d(2) st in \<open>auto simp: waiting_delivery_def\<close>)
  then show ?thesis using x(2) db by (simp add: on_drip_def)
qed

lemma record_failure_ledger:
  assumes run: "record_failure env now r e rt = Inr rt'" and ok: "books_ok cl rt"
  shows "books_ok cl rt'"
proof -
  obtain g a where g: "lock_delivery_graph (mres_delivery r) (drip rt) = Inr g" and a: "lock_attempt (mres_attempt r) (mres_delivery r) rt = Inr a"
    using run by (auto simp: record_failure_def)
  note d = lock_graphD(1,2) [OF g] and am = lock_attemptD [OF a]
  have ad: "att_delivery a = dlv_pk (g_delivery g)" using d am by simp
  consider "rt' = rt"
    | db where "att_outcome a = Reserved" "\<not> submitted a" "release_failed env now g (drip rt) = Inr db"
      "rt' = (closes a (diagnostic_detail_of e) now rt)\<lparr>drip := db\<rparr>"
    | "att_outcome a = Reserved" "rt' = on_drip (mark_unclear g)
        (edit_attempt (att_pk a) (finish_attempt Att_unclear (diagnostic_detail_of e) now) rt)"
    using run unfolding record_failure_def g a submitted_def closes_def by (auto simp: Let_def split: if_splits)
  then show ?thesis
  proof cases
    case 1
    then show ?thesis using ok by simp
  next
    case (2 db)
    note close = ledger_close [OF ok d(1) am(1) ad reserved_open [OF ok am(1) 2(1)] 2(2), of "diagnostic_detail_of e" now]
    have "books_ok cl ((closes a (diagnostic_detail_of e) now rt)\<lparr>drip := db\<rparr>)"
      by (rule release_failed_ledger [OF _ close(1) _ close(2)]) (use d 2(3) in \<open>simp_all add: closes_def\<close>)
    then show ?thesis using 2(4) by simp
  next
    case 3
    then show ?thesis using mark_unclear_ledger [OF ok d(1) am(1) ad reserved_open [OF ok am(1) 3(1)]] by simp
  qed
qed

lemma mail_row_ledger:
  assumes run: "gmail_message_row g ext body rt = Inr (m, rt')" and ok: "books_ok cl rt"
  shows "books_ok cl rt'" and "deliveries (drip rt') = deliveries (drip rt)" and "attempts rt' = attempts rt"
proof -
  obtain ms n where rt': "rt' = rt\<lparr>drip := (drip rt)\<lparr>messages := ms\<rparr>, msg_seq := n\<rparr>"
  proof (cases "List.find (\<lambda>m. msg_source m = ''gmail'' \<and> msg_external m = ext) (messages (drip rt))")
    case None
    then show ?thesis using run that by (auto simp: gmail_message_row_def Let_def)
  next
    case (Some x)
    then show ?thesis using run that [where n = "msg_seq rt"] by (auto simp: gmail_message_row_def Let_def split: if_splits)
  qed
  have "books_ok cl rt' = books_ok cl (rt\<lparr>drip := (drip rt)\<lparr>messages := ms\<rparr>\<rparr>)" unfolding rt' by (rule books_ok_cong) simp_all
  then show "books_ok cl rt'" using messages_ledger [OF ok] by simp
  show "deliveries (drip rt') = deliveries (drip rt)" "attempts rt' = attempts rt" by (simp_all add: rt')
qed

lemma record_success_ledger:
  assumes run: "record_success now r res rt = Inr rt'" and ok: "books_ok cl rt"
  shows "books_ok cl rt'"
proof -
  obtain g a where g: "lock_delivery_graph (mres_delivery r) (drip rt) = Inr g" and a: "lock_attempt (mres_attempt r) (mres_delivery r) rt = Inr a"
    using run by (auto simp: record_success_def)
  note d = lock_graphD(1,2) [OF g] and am = lock_attemptD [OF a]
  obtain ext m rt1 where o: "att_outcome a = Reserved" "submitted a" and m: "gmail_message_row g ext (mres_body r) rt = Inr (m, rt1)"
    and rt': "rt' = on_drip (edit_delivery (dlv_pk (g_delivery g)) (mark_mail_sent now m r res) \<circ> bind_thread r res g)
        (edit_attempt (att_pk a) (finish_attempt Att_sent '''' now) rt1)"
    using run unfolding record_success_def g a submitted_def by (auto simp: Let_def split: if_splits option.splits)
  note row = mail_row_ledger [OF m ok]
  have q: "quiet (drip rt1) (bind_thread r res g (drip rt1))"
    using books_okD(1) [OF row(1)] by (auto simp: bind_thread_def quiet_refl intro: edit_lane_quiet)
  have two: "books_ok cl (on_drip (bind_thread r res g) rt1)" by (rule ledger_on_drip [where f = "bind_thread r res g", OF row(1) q])
  have keep: "deliveries (bind_thread r res g db) = deliveries db" for db by (simp add: bind_thread_def)
  have "books_ok cl (on_drip (edit_delivery (dlv_pk (g_delivery g)) (mark_mail_sent now m r res))
      (edit_attempt (att_pk a) (finish_attempt Att_sent '''' now) (on_drip (bind_thread r res g) rt1)))"
    by (rule ledger_finish [OF two])
      (use d am row keep o reserved_open [OF ok am(1) o(1)] in \<open>auto simp: mark_mail_sent_def\<close>)
  moreover have "rt' = on_drip (edit_delivery (dlv_pk (g_delivery g)) (mark_mail_sent now m r res))
      (edit_attempt (att_pk a) (finish_attempt Att_sent '''' now) (on_drip (bind_thread r res g) rt1))"
    unfolding rt' by (simp add: on_drip_def)
  ultimately show ?thesis by simp
qed

section \<open>Recovery of a Gmail task\<close>

lemma fail_mail_ledger: "books_ok cl rt \<Longrightarrow> books_ok cl (on_drip (edit_task k P (fail_mail_task detail)) rt)"
  by (rule error_task_ledger) (simp_all add: fail_mail_task_def)

definition reserved_of :: "int \<Rightarrow> runtime \<Rightarrow> drip_attempt list" where
  "reserved_of k rt = sort_key (\<lambda>a. - int (attempt_number a)) (filter (\<lambda>a. att_delivery a = k \<and> att_outcome a = Reserved) (attempts rt))"

lemma reserved_of_set: "a \<in> set (reserved_of k rt) \<longleftrightarrow> a \<in> set (attempts rt) \<and> att_delivery a = k \<and> att_outcome a = Reserved"
  by (simp add: reserved_of_def)

lemma latest_reserved_hd: "latest_reserved k rt = (case reserved_of k rt of [] \<Rightarrow> None | a # _ \<Rightarrow> Some a)"
  by (simp add: latest_reserved_def reserved_of_def)

lemma latest_reserved_Some:
  assumes "latest_reserved k rt = Some a"
  shows "a \<in> set (attempts rt)" and "att_delivery a = k" and "att_outcome a = Reserved"
proof -
  obtain rest where "reserved_of k rt = a # rest" using assms unfolding latest_reserved_hd by (auto split: list.splits)
  then have "a \<in> set (reserved_of k rt)" by simp
  then show "a \<in> set (attempts rt)" "att_delivery a = k" "att_outcome a = Reserved" unfolding reserved_of_set by simp_all
qed

lemma latest_reserved_None:
  assumes none: "latest_reserved k rt = None" and a: "a \<in> set (attempts rt)" "att_delivery a = k"
  shows "\<not> open_attempt a"
proof
  assume "open_attempt a"
  then have "a \<in> set (reserved_of k rt)" using a by (simp add: reserved_of_set open_attempt_def)
  then show False using none unfolding latest_reserved_hd by (auto split: list.splits)
qed

lemma mark_lost_ledger:
  assumes ok: "books_ok cl rt" and d: "g_delivery g \<in> set (deliveries (drip rt))" "dlv_status (g_delivery g) = D_Sending"
    and none: "\<And>a. a \<in> set (attempts rt) \<Longrightarrow> att_delivery a = dlv_pk (g_delivery g) \<Longrightarrow> \<not> open_attempt a"
  shows "books_ok cl (on_drip (mark_unclear g) rt)"
proof -
  let ?rt = "on_drip (edit_delivery (dlv_pk (g_delivery g)) (set_delivery_status D_Unclear)) rt"
  have "books_ok cl ?rt" by (rule ledger_unclear [OF ok d none])
  moreover have "on_drip (mark_unclear g) rt =
      (if lane_status (g_lane g) = L_Active then on_drip (edit_lane (lane_pk (g_lane g)) (set_lane_status L_Paused)) ?rt else ?rt)"
    by (simp add: mark_unclear_def on_drip_def Let_def)
  ultimately show ?thesis using lane_status_ledger by simp
qed

lemma recover_sending_ledger:
  assumes ok: "books_ok cl rt" and d: "g_delivery g \<in> set (deliveries (drip rt))" "dlv_status (g_delivery g) = D_Sending"
    and t: "current_task (g_delivery g) = Some k"
  shows "books_ok cl (recover_sending now k g (latest_reserved (dlv_pk (g_delivery g)) rt) rt)"
proof (cases "latest_reserved (dlv_pk (g_delivery g)) rt")
  case None
  have "books_ok cl (on_drip (mark_unclear g) rt)" by (rule mark_lost_ledger [OF ok d latest_reserved_None [OF None]])
  from fail_mail_ledger [OF this] show ?thesis by (simp add: None recover_sending_def Let_def on_drip_def)
next
  case (Some a)
  note am = latest_reserved_Some [OF Some]
  have o: "open_attempt a" "finished_at a = None"
    using reserved_open [OF ok am(1,3)] by (simp_all add: open_attempt_def)
  show ?thesis
  proof (cases "submitted a")
    case True
    have "books_ok cl (on_drip (mark_unclear g) (edit_attempt (att_pk a)
        (finish_attempt Att_unclear ''Worker stopped after Gmail submission began'' now) rt))"
      by (rule mark_unclear_ledger [OF ok d(1) am(1,2) o(1)])
    from fail_mail_ledger [OF this] show ?thesis using True o(2)
      by (auto simp add: Some recover_sending_def Let_def on_drip_def submitted_def)
  next
    case False
    let ?rt = "closes a ''Worker stopped before Gmail submission began'' now rt"
    note close = ledger_close [OF ok d(1) am(1,2) o(1) False, of "''Worker stopped before Gmail submission began''" now]
    have d2: "g_delivery g \<in> set (deliveries (drip ?rt))" using d(1) by (simp add: closes_def)
    show ?thesis
    proof (cases "controls_active g (drip rt)")
      case True
      have "books_ok cl (on_drip (\<lambda>db. edit_task k (\<lambda>_. True) requeue_mail_task
          (edit_delivery (dlv_pk (g_delivery g)) (set_delivery_status D_Queued) db)) ?rt)"
        by (rule requeue_ledger [OF close(1) d2 t close(2)]) (simp add: requeue_mail_task_def)
      then show ?thesis using True False o(2)
        by (simp add: Some recover_sending_def Let_def on_drip_def submitted_def closes_def)
    next
      case inactive: False
      have "books_ok cl (on_drip (edit_delivery (dlv_pk (g_delivery g)) (detach_delivery D_Planned)) ?rt)"
        by (rule ledger_release [OF close(1) d2 close(2)]) (simp_all add: waiting_delivery_def)
      then have "books_ok cl (on_drip (edit_task k (\<lambda>_. True) (retire_task now ''Drip controls inactive during stale recovery''))
          (on_drip (edit_delivery (dlv_pk (g_delivery g)) (detach_delivery D_Planned)) ?rt))" by (rule retire_ledger)
      then show ?thesis using inactive False o(2)
        by (simp add: Some recover_sending_def Let_def on_drip_def submitted_def closes_def)
    qed
  qed
qed

lemma mail_recover_cases:
  assumes "recover_stale_drip_gmail_task now k rt = Inr (res, rt')"
  obtains (Other) "rt' = rt" "res = False"
  | (Retired) f where "rt' = on_drip (edit_task k (\<lambda>_. True) f) rt" "f = retire_task now ''Delivery reached terminal state before stale recovery'' \<or>
      (\<exists>detail. f = fail_mail_task detail)"
  | (Sending) i g where "lock_delivery_graph i (drip rt) = Inr g" "current_task (g_delivery g) = Some k"
      "dlv_status (g_delivery g) = D_Sending" "rt' = recover_sending now k g (latest_reserved i rt) rt" "res = True"
proof (cases "List.find (\<lambda>t. task_pk t = k) (tasks (drip rt))")
  case None
  then show ?thesis using assms Other by (simp add: recover_stale_drip_gmail_task_def)
next
  case (Some t)
  show ?thesis
  proof (cases "task_type t \<noteq> DRIP_GMAIL \<or> task_status t \<noteq> RUNNING")
    case True
    then show ?thesis using assms Other Some by (simp add: recover_stale_drip_gmail_task_def)
  next
    case False
    then obtain i where i: "gmail_payload_delivery_id t = Inr i" using assms Some by (auto simp: recover_stale_drip_gmail_task_def)
    note eq = assms [unfolded recover_stale_drip_gmail_task_def Some option.case Let_def if_not_P [OF False] i bind_result_simps]
    show ?thesis
    proof (cases "i \<in> dlv_pk ` set (deliveries (drip rt))")
      case False
      then have "rt' = on_drip (edit_task k (\<lambda>_. True) (fail_mail_task ''Stale drip Gmail Task lost delivery ownership'')) rt"
        using eq by simp
      then show ?thesis using Retired by blast
    next
      case True
      then have known: "\<not> i \<notin> dlv_pk ` set (deliveries (drip rt))" by simp
      note eq1 = eq [unfolded if_not_P [OF known]]
      then obtain g where g: "lock_delivery_graph i (drip rt) = Inr g" by auto
      note eq2 = eq1 [unfolded g bind_result_simps]
      consider detail where "rt' = on_drip (edit_task k (\<lambda>_. True) (fail_mail_task detail)) rt"
        | "rt' = on_drip (edit_task k (\<lambda>_. True) (retire_task now ''Delivery reached terminal state before stale recovery'')) rt"
        | "current_task (g_delivery g) = Some k" "dlv_status (g_delivery g) = D_Sending"
          "rt' = recover_sending now k g (latest_reserved i rt) rt" "res = True"
        using eq2 by (auto split: if_splits)
      then show ?thesis using Retired Sending [OF g] by cases blast+
    qed
  qed
qed

lemma mail_recover_ledger:
  assumes run: "recover_stale_drip_gmail_task now k rt = Inr (res, rt')" and ok: "books_ok cl rt"
  shows "books_ok cl rt'"
  using run
proof (cases rule: mail_recover_cases)
  case Other
  then show ?thesis using ok by simp
next
  case (Retired f)
  then show ?thesis using retire_ledger [OF ok] fail_mail_ledger [OF ok] by auto
next
  case (Sending i g)
  note d = lock_graphD(1,2) [OF Sending(1)]
  have "books_ok cl (recover_sending now k g (latest_reserved (dlv_pk (g_delivery g)) rt) rt)"
    by (rule recover_sending_ledger [OF ok d(1) Sending(3,2)])
  then show ?thesis using Sending(4) d(2) by simp
qed

section \<open>The machine\<close>

text \<open>
  The state is the runtime with the claims whose handler has not yet run. A worker claims a pending task,
  its handler reserves once for that claim; what follows may be cut off and interleaved at will, so the
  callback, the ends and the recoveries are steps that may happen at any time, of any reservation. A step
  whose transaction raises changes nothing. \<open>Elsewhere\<close> is what other code may do: it leaves deliveries
  and attempts alone and makes no task of a delivery pending.
\<close>

type_synonym drip_state = "runtime \<times> int list"

definition claim_task :: "int \<Rightarrow> task \<Rightarrow> task" where
  "claim_task now t = t\<lparr>task_status := RUNNING, task_started_at := Some now\<rparr>"

definition elsewhere :: "runtime \<Rightarrow> runtime \<Rightarrow> bool" where
  "elsewhere rt rt' \<longleftrightarrow> attempts rt' = attempts rt \<and> att_seq rt' = att_seq rt \<and>
     deliveries (drip rt') = deliveries (drip rt) \<and> dlv_seq (drip rt') = dlv_seq (drip rt) \<and>
     task_seq (drip rt) \<le> task_seq (drip rt') \<and> drip_ok (drip rt') \<and> (\<forall>t \<in> set (tasks (drip rt')). task_origin (drip rt) t)"

inductive drip_step :: "drip_state \<Rightarrow> drip_state \<Rightarrow> bool" where
  Pass: "reconcile_drips env now True campaign (drip rt) = Inr (ds, db) \<Longrightarrow> drip_step (rt, cl) (rt\<lparr>drip := db\<rparr>, cl)"
| Stop: "stop_enrollment_for_reason k reason now (drip rt) = Inr (b, db) \<Longrightarrow> drip_step (rt, cl) (rt\<lparr>drip := db\<rparr>, cl)"
| Inbound: "stop_for_inbound_message k now (drip rt) = Inr (n, db) \<Longrightarrow> drip_step (rt, cl) (rt\<lparr>drip := db\<rparr>, cl)"
| Claim: "t \<in> set (tasks (drip rt)) \<Longrightarrow> task_status t = PENDING \<Longrightarrow>
    drip_step (rt, cl) (on_drip (edit_task (task_pk t) (\<lambda>t. task_status t = PENDING) (claim_task now)) rt, task_pk t # cl)"
| Reserve: "task_pk t \<in> set cl \<Longrightarrow> reserve_delivery env now t rt = Inr (r, rt') \<Longrightarrow> drip_step (rt, cl) (rt', removeAll (task_pk t) cl)"
| Refused: "drip_step (rt, cl) (rt, removeAll k cl)"
| Submit: "submission_callback env now k r rt = Inr (reason, rt') \<Longrightarrow> drip_step (rt, cl) (rt', cl)"
| Finish_sent: "finish_sent env now k r rt = Inr rt' \<Longrightarrow> drip_step (rt, cl) (rt', cl)"
| Finish_unsubmitted: "finish_unsubmitted pauses late now r detail rt = Inr rt' \<Longrightarrow> drip_step (rt, cl) (rt', cl)"
| Finish_unclear: "finish_unclear now r detail rt = Inr rt' \<Longrightarrow> drip_step (rt, cl) (rt', cl)"
| Recover: "recover_stale_linkedin_delivery now k rt = Inr (res, rt') \<Longrightarrow> drip_step (rt, cl) (rt', cl)"
| Mail_reserve: "task_pk t \<in> set cl \<Longrightarrow> reserve_attempt menv now t rt = Inr (mr, rt') \<Longrightarrow> drip_step (rt, cl) (rt', removeAll (task_pk t) cl)"
| Mail_stamp: "stamp_submission_attempt menv now m rt = Inr rt' \<Longrightarrow> drip_step (rt, cl) (rt', cl)"
| Mail_success: "record_success now m res' rt = Inr rt' \<Longrightarrow> drip_step (rt, cl) (rt', cl)"
| Mail_failure: "record_failure menv now m e rt = Inr rt' \<Longrightarrow> drip_step (rt, cl) (rt', cl)"
| Mail_recover: "recover_stale_drip_gmail_task now k rt = Inr (b, rt') \<Longrightarrow> drip_step (rt, cl) (rt', cl)"
| Control: "drip_step (rt, cl) (on_drip (controlled c now) rt, cl)"
| Elsewhere: "elsewhere rt rt' \<Longrightarrow> drip_step (rt, cl) (rt', cl)"

lemma claim_ledger:
  assumes ok: "books_ok cl rt" and t: "t \<in> set (tasks (drip rt))" "task_status t = PENDING"
  shows "books_ok (task_pk t # cl) (on_drip (edit_task (task_pk t) (\<lambda>t. task_status t = PENDING) (claim_task now)) rt)" (is "books_ok ?cl ?rt")
proof (rule books_okI)
  have "drip_ok (drip rt)" by (rule books_okD(1) [OF ok])
  then show "drip_ok (drip ?rt)" by (simp add: edit_task_ok claim_task_def)
  show "distinct (map att_pk (attempts ?rt))" using books_okD(2) [OF ok] by simp
  show "attempt_ok ?rt x" if "x \<in> set (attempts ?rt)" for x using books_okD(3) [OF ok] that by (simp add: attempt_ok_def)
  show "i \<le> task_seq (drip ?rt)" if "i \<in> set ?cl" for i
    using books_okD(4) [OF ok] that drip_okD(6) [OF books_okD(1) [OF ok] t(1)] by auto
  fix x assume "x \<in> set (deliveries (drip ?rt))"
  then have x: "x \<in> set (deliveries (drip rt))" by simp
  have "live cl (tasks (drip rt)) i" if "live ?cl (tasks (drip ?rt)) i" for i
    using that t by (auto simp: live_def edit_task_def claim_task_def split: if_splits)
  then have "startable_task ?cl (tasks (drip ?rt)) x \<Longrightarrow> startable_task cl (tasks (drip rt)) x"
    by (auto simp: startable_task_def split: option.splits)
  then show "book ?cl (tasks (drip ?rt)) (blockers (dlv_pk x) (attempts ?rt)) x" using books_okD(5) [OF ok x] by (auto simp: book_def)
qed

lemma elsewhere_ledger:
  assumes ok: "books_ok cl rt" and e: "elsewhere rt rt'"
  shows "books_ok cl rt'"
proof -
  have "quiet (drip rt) (drip rt')"
    unfolding quiet_def using e by (auto simp: elsewhere_def intro!: rows_stepI delivery_kept)
  then have "books_ok cl (rt\<lparr>drip := drip rt'\<rparr>)" by (rule ledger_quiet [OF ok])
  then show ?thesis using e books_ok_cong [of rt' "rt\<lparr>drip := drip rt'\<rparr>"] by (simp add: elsewhere_def)
qed

lemma drip_step_ledger:
  assumes "drip_step s s'" and "books_ok (snd s) (fst s)"
  shows "books_ok (snd s') (fst s')"
  using assms
proof cases
  case (Pass env now campaign rt ds db cl)
  then show ?thesis using assms(2) ledger_quiet [OF _ reconcile_quiet] books_okD(1) by auto
next
  case (Stop k reason now rt b db cl)
  then show ?thesis using assms(2) stop_ledger by auto
next
  case (Inbound k now rt n db cl)
  then show ?thesis using assms(2) ledger_quiet [OF _ inbound_quiet] books_okD(1) by auto
next
  case (Claim t rt cl now)
  then show ?thesis using assms(2) claim_ledger by simp
next
  case (Reserve t cl env now rt r rt')
  then show ?thesis using assms(2) reserve_ledger by simp
next
  case (Refused rt cl k)
  then show ?thesis using assms(2) ledger_fewer_claims by simp
next
  case (Submit env now k r rt reason rt' cl)
  then show ?thesis using assms(2) callback_ledger by simp
next
  case (Finish_sent env now k r rt rt' cl)
  then show ?thesis using assms(2) sent_ledger by simp
next
  case (Finish_unsubmitted pauses late now r detail rt rt' cl)
  then show ?thesis using assms(2) unsubmitted_ledger by simp
next
  case (Finish_unclear now r detail rt rt' cl)
  then show ?thesis using assms(2) unclear_ledger by simp
next
  case (Recover now k rt res rt' cl)
  then show ?thesis using assms(2) recover_ledger by simp
next
  case (Mail_reserve t cl menv now rt mr rt')
  then show ?thesis using assms(2) mail_reserve_ledger by simp
next
  case (Mail_stamp menv now m rt rt' cl)
  then show ?thesis using assms(2) stamp_ledger by simp
next
  case (Mail_success now m res' rt rt' cl)
  then show ?thesis using assms(2) record_success_ledger by simp
next
  case (Mail_failure menv now m e rt rt' cl)
  then show ?thesis using assms(2) record_failure_ledger by simp
next
  case (Mail_recover now k rt b rt' cl)
  then show ?thesis using assms(2) mail_recover_ledger by simp
next
  case (Control rt cl c now)
  then show ?thesis using assms(2) controlled_ledger by simp
next
  case (Elsewhere rt rt' cl)
  then show ?thesis using assms(2) elsewhere_ledger by simp
qed

end
