(* ===== verification/Drip_Runs.thy ===== *)
theory Drip_Runs
  imports Drip_Machine
begin

text \<open>
  What every run of the drip campaigns keeps: how a step may change the ledger of the attempts, under which
  conditions a message is submitted, and what follows for whole runs.
\<close>

section \<open>The ledger from step to step\<close>

text \<open>The state in which a click or a request may be sent.\<close>

definition clear_to_send :: "int \<Rightarrow> drip_db \<Rightarrow> bool" where
  "clear_to_send k db \<longleftrightarrow>
     (\<exists>g. lock_delivery_graph k db = Inr g \<and> dlv_status (g_delivery g) = D_Sending \<and> controls_active g db \<and>
        \<not> (\<exists>m \<in> set (messages db). human_reply (enr_lead (g_enrollment g)) m))"

inductive attempt_change :: "runtime \<Rightarrow> drip_attempt list \<Rightarrow> bool" for rt where
  Kept: "attempt_change rt (attempts rt)"
| Added: "attempt_change rt (attempts (add_attempt k rt))"
| Ended: "a \<in> set (attempts rt) \<Longrightarrow> open_attempt a \<Longrightarrow> out \<noteq> Reserved \<Longrightarrow>
    attempt_change rt (attempts (edit_attempt (att_pk a) (finish_attempt out detail now) rt))"
| Stamped: "a \<in> set (attempts rt) \<Longrightarrow> open_attempt a \<Longrightarrow> \<not> submitted a \<Longrightarrow> clear_to_send (att_delivery a) (drip rt) \<Longrightarrow>
    attempt_change rt (attempts (edit_attempt (att_pk a) (\<lambda>a. a\<lparr>submission_attempted_at := Some now\<rparr>) rt))"

lemma no_reason_no_reply:
  "lead_automation_stop_reason f lead db = '''' \<Longrightarrow> \<not> (\<exists>m \<in> set (messages db). human_reply lead m)"
  by (auto simp: lead_automation_stop_reason_def split: if_splits option.splits)

lemma guard_passed:
  assumes "execution_guard env t g now D_Sending urn recipient db = Inr None"
  shows "dlv_status (g_delivery g) = D_Sending" and "controls_active g db" and "readiness_failure env g now db = Inr None"
  using assms
  by (auto simp: execution_guard_def control_failure_def controls_active_def Let_def split: if_splits option.splits)

lemma closes_change: "a \<in> set (attempts rt) \<Longrightarrow> open_attempt a \<Longrightarrow> attempt_change rt (attempts (closes a detail now rt))"
  unfolding closes_def by (rule Ended) simp_all

lemma callback_change:
  assumes "submission_callback env now k r rt = Inr (reason, rt')"
  shows "attempt_change rt (attempts rt')"
  using assms
proof (rule callback_cases)
  fix a t and g :: graph
  assume g: "lock_delivery_graph (res_delivery r) (drip rt) = Inr g" and a: "lock_attempt (res_attempt r) (res_delivery r) rt = Inr a"
    and result: "rt' = rt \<or> (open_attempt a \<and> \<not> submitted a \<and>
        (rt' = on_drip (stop_enrollment_locked (enr_pk (g_enrollment g)) reason now) (closes a reason now rt) \<or>
         (\<exists>f. execution_guard env t g now D_Sending (res_urn r) (res_recipient r) (drip rt) = Inr (Some f) \<and>
            rt' = on_drip (release_for_guard g f) (closes a (fail_detail f) now rt)) \<or>
         (execution_guard env t g now D_Sending (res_urn r) (res_recipient r) (drip rt) = Inr None \<and>
            lead_automation_stop_reason (send_facts env) (enr_lead (g_enrollment g)) (drip rt) = '''' \<and>
            rt' = edit_attempt (att_pk a) (\<lambda>a. a\<lparr>submission_attempted_at := Some now\<rparr>) rt)))"
  note am = lock_attemptD [OF a]
  from result show ?thesis
  proof (elim disjE conjE exE)
    assume "rt' = rt"
    then show ?thesis by (simp add: Kept)
  next
    assume "open_attempt a" "rt' = on_drip (stop_enrollment_locked (enr_pk (g_enrollment g)) reason now) (closes a reason now rt)"
    then show ?thesis using closes_change [OF am(1)] by simp
  next
    fix f assume "open_attempt a" "rt' = on_drip (release_for_guard g f) (closes a (fail_detail f) now rt)"
    then show ?thesis using closes_change [OF am(1)] by simp
  next
    assume o: "open_attempt a" "\<not> submitted a" and guard: "execution_guard env t g now D_Sending (res_urn r) (res_recipient r) (drip rt) = Inr None"
      and reason: "lead_automation_stop_reason (send_facts env) (enr_lead (g_enrollment g)) (drip rt) = ''''"
      and rt': "rt' = edit_attempt (att_pk a) (\<lambda>a. a\<lparr>submission_attempted_at := Some now\<rparr>) rt"
    have "clear_to_send (att_delivery a) (drip rt)"
      unfolding clear_to_send_def using g am(3) guard_passed(1,2) [OF guard] no_reason_no_reply [OF reason] by auto
    then show ?thesis unfolding rt' by (rule Stamped [OF am(1) o])
  qed
qed

lemma unclear_locked_change:
  "a \<in> set (attempts rt) \<Longrightarrow> open_attempt a \<Longrightarrow> attempt_change rt (attempts (finish_unclear_locked g a detail now rt))"
  unfolding finish_unclear_locked_def by (simp add: Ended)

lemma unsubmitted_change:
  assumes run: "finish_unsubmitted pauses late now r detail rt = Inr rt'"
  shows "attempt_change rt (attempts rt')"
proof -
  obtain g a where g: "lock_delivery_graph (res_delivery r) (drip rt) = Inr g" and a: "lock_attempt (res_attempt r) (res_delivery r) rt = Inr a"
    using run by (auto simp: finish_unsubmitted_def)
  note am = lock_attemptD [OF a]
  have "rt' = rt \<or> open_attempt a \<and> (attempts rt' = attempts (finish_unclear_locked g a (late @ detail) now rt) \<or>
      attempts rt' = attempts (closes a detail now rt))"
    using run unfolding finish_unsubmitted_def g a closes_def by (auto simp: Let_def split: if_splits)
  then show ?thesis using Kept [of rt] closes_change [OF am(1)] unclear_locked_change [OF am(1)] by auto
qed

lemma unclear_change:
  assumes run: "finish_unclear now r detail rt = Inr rt'"
  shows "attempt_change rt (attempts rt')"
proof -
  obtain g a where a: "lock_attempt (res_attempt r) (res_delivery r) rt = Inr a"
    and rt': "rt' = (if \<not> open_attempt a then rt else finish_unclear_locked g a detail now rt)"
    using run by (auto simp: finish_unclear_def)
  show ?thesis unfolding rt' using Kept [of rt] unclear_locked_change [OF lock_attemptD(1) [OF a]] by simp
qed

lemma sent_change:
  assumes run: "finish_sent env now k r rt = Inr rt'"
  shows "attempt_change rt (attempts rt')"
proof -
  obtain g a where g: "lock_delivery_graph (res_delivery r) (drip rt) = Inr g" and a: "lock_attempt (res_attempt r) (res_delivery r) rt = Inr a"
    using run by (auto simp: finish_sent_def)
  note am = lock_attemptD [OF a]
  let ?detail = "''send reported success without a committed submit boundary''"
  consider "rt' = rt" | "open_attempt a" "attempts rt' = attempts (edit_attempt (att_pk a) (finish_attempt Att_unclear ?detail now) rt)"
    | "open_attempt a" "finish_sent_recorded env now r g a rt = Inr rt'"
    using run unfolding finish_sent_def g a by (auto simp: Let_def split: if_splits)
  then show ?thesis
  proof cases
    case 1
    then show ?thesis by (simp add: Kept)
  next
    case 2
    then show ?thesis using Ended [OF am(1), of Att_unclear ?detail now] by simp
  next
    case 3
    then obtain m rt1 where m: "outbound_message_row g rt = Inr (m, rt1)" by (auto simp: finish_sent_recorded_def)
    have "attempts rt1 = attempts rt"
      using m by (auto simp: outbound_message_row_def Let_def split: option.splits if_splits)
    then have "attempts rt' = attempts (edit_attempt (att_pk a) (finish_attempt Att_sent '''' now) rt)"
      using 3(2) m unfolding finish_sent_recorded_def by (auto simp: Let_def edit_attempt_def split: if_splits)
    then show ?thesis using Ended [OF am(1) 3(1)] by simp
  qed
qed

lemma recover_change:
  assumes run: "recover_stale_linkedin_delivery now k rt = Inr (res, rt')" and ok: "books_ok cl rt"
  shows "attempt_change rt (attempts rt')"
  using run ok
proof (cases rule: recover_cases)
  case (Submitted g a detail)
  then show ?thesis using unclear_locked_change by simp
next
  case (Unsubmitted g a detail db)
  then show ?thesis using closes_change by simp
qed (simp_all add: Kept)

lemma reserve_change:
  assumes "reserve_delivery env now t rt = Inr (r, rt')"
  shows "attempt_change rt (attempts rt')"
  using assms
proof (rule reserve_cases)
  fix k locked and g :: graph
  let ?reason = "lead_automation_stop_reason (send_facts env) (enr_lead (g_enrollment g)) (drip rt)"
  let ?guard = "execution_guard env locked g now D_Queued '''' '''' (drip rt)"
  assume "rt' = on_drip (stop_enrollment_locked (enr_pk (g_enrollment g)) ?reason now) rt \<or>
      (\<exists>f. ?guard = Inr (Some f) \<and> rt' = on_drip (release_for_guard g f) rt) \<or>
      (?guard = Inr None \<and> reserve_locked env g rt = Inr (r, rt'))"
  then have "attempts rt' = attempts rt \<or> (\<exists>k. attempts rt' = attempts (add_attempt k rt))"
    by (auto simp: reserve_locked_def Let_def split: if_splits option.splits)
  then show ?thesis using Kept [of rt] Added by auto
qed

lemma mail_reserve_change:
  assumes run: "reserve_attempt env now t rt = Inr (r, rt')"
  shows "attempt_change rt (attempts rt')"
  using run
proof (cases rule: mail_reserve_cases)
  case (Skipped locked)
  then show ?thesis by (simp add: Kept)
next
  case (Owned k g locked operator)
  then have "attempts rt' = attempts rt \<or> reserve_mail_locked env (task_pk t) operator g rt = Inr (r, rt')"
    unfolding reserve_mail_owned_def by (auto simp: Let_def split: if_splits)
  moreover have "attempts rt' = attempts (add_attempt (dlv_pk (g_delivery g)) rt)"
    if "reserve_mail_locked env (task_pk t) operator g rt = Inr (r, rt')"
    using reserve_mail_locked_cases [OF that] by simp
  ultimately show ?thesis using Kept [of rt] Added [of rt] by metis
qed

lemma stamp_change:
  assumes "stamp_submission_attempt env now r rt = Inr rt'" and ok: "books_ok cl rt"
  shows "attempt_change rt (attempts rt')"
  using assms(1)
proof (rule stamp_cases)
  fix a and g :: graph
  assume g: "lock_delivery_graph (mres_delivery r) (drip rt) = Inr g" and a: "lock_attempt (mres_attempt r) (mres_delivery r) rt = Inr a"
    and o: "att_outcome a = Reserved" "\<not> submitted a" and st: "dlv_status (g_delivery g) = D_Sending" "controls_active g (drip rt)"
    and reason: "lead_automation_stop_reason (mail_facts env) (enr_lead (g_enrollment g)) (drip rt) = ''''"
    and rt': "rt' = edit_attempt (att_pk a) (\<lambda>a. a\<lparr>submission_attempted_at := Some now\<rparr>) rt"
  note am = lock_attemptD [OF a]
  have "clear_to_send (att_delivery a) (drip rt)"
    unfolding clear_to_send_def using g am(3) st no_reason_no_reply [OF reason] by auto
  then show ?thesis unfolding rt' by (rule Stamped [OF am(1) reserved_open [OF ok am(1) o(1)] o(2)])
qed

lemma record_failure_change:
  assumes run: "record_failure env now r e rt = Inr rt'" and ok: "books_ok cl rt"
  shows "attempt_change rt (attempts rt')"
proof -
  obtain g a where g: "lock_delivery_graph (mres_delivery r) (drip rt) = Inr g" and a: "lock_attempt (mres_attempt r) (mres_delivery r) rt = Inr a"
    using run by (auto simp: record_failure_def)
  note am = lock_attemptD [OF a]
  let ?closed = "\<lambda>out. attempts (edit_attempt (att_pk a) (finish_attempt out (diagnostic_detail_of e) now) rt)"
  consider "rt' = rt" | "att_outcome a = Reserved" "attempts rt' = ?closed Not_submitted"
    | "att_outcome a = Reserved" "attempts rt' = ?closed Att_unclear"
    using run unfolding record_failure_def g a by (auto simp: Let_def split: if_splits)
  then show ?thesis
  proof cases
    case 1
    then show ?thesis by (simp add: Kept)
  next
    case 2
    then show ?thesis using Ended [OF am(1) reserved_open [OF ok am(1) 2(1)], of Not_submitted] by simp
  next
    case 3
    then show ?thesis using Ended [OF am(1) reserved_open [OF ok am(1) 3(1)], of Att_unclear] by simp
  qed
qed

lemma record_success_change:
  assumes run: "record_success now r res rt = Inr rt'" and ok: "books_ok cl rt"
  shows "attempt_change rt (attempts rt')"
proof -
  obtain g a where g: "lock_delivery_graph (mres_delivery r) (drip rt) = Inr g" and a: "lock_attempt (mres_attempt r) (mres_delivery r) rt = Inr a"
    using run by (auto simp: record_success_def)
  note am = lock_attemptD [OF a]
  obtain ext m rt1 where o: "att_outcome a = Reserved" and m: "gmail_message_row g ext (mres_body r) rt = Inr (m, rt1)"
    and rt': "attempts rt' = attempts (edit_attempt (att_pk a) (finish_attempt Att_sent '''' now) rt1)"
    using run unfolding record_success_def g a by (auto simp: Let_def split: if_splits option.splits)
  have "attempts rt' = attempts (edit_attempt (att_pk a) (finish_attempt Att_sent '''' now) rt)"
    using rt' mail_row_ledger(3) [OF m ok] by (simp add: edit_attempt_def)
  then show ?thesis using Ended [OF am(1) reserved_open [OF ok am(1) o]] by simp
qed

lemma mail_recover_change:
  assumes run: "recover_stale_drip_gmail_task now k rt = Inr (res, rt')" and ok: "books_ok cl rt"
  shows "attempt_change rt (attempts rt')"
  using run
proof (cases rule: mail_recover_cases)
  case (Sending i g)
  show ?thesis
  proof (cases "latest_reserved i rt")
    case None
    then show ?thesis using Sending(4) by (simp add: recover_sending_def Kept)
  next
    case (Some a)
    note am = latest_reserved_Some [OF Some]
    have "rt' = rt' \<and> (attempts rt' = attempts rt \<or> (\<exists>out detail. out \<noteq> Reserved \<and>
        attempts rt' = attempts (edit_attempt (att_pk a) (finish_attempt out detail now) rt)))"
      using Sending(4) Some by (auto simp: recover_sending_def Let_def)
    then show ?thesis using Kept [of rt] Ended [OF am(1) reserved_open [OF ok am(1,3)]] by auto
  qed
qed (simp_all add: Kept)

lemma drip_step_change:
  assumes "drip_step s s'" and "books_ok (snd s) (fst s)"
  shows "attempt_change (fst s) (attempts (fst s'))"
  using assms
proof cases
  case (Elsewhere rt rt' cl)
  then show ?thesis using Kept [of rt] by (simp add: elsewhere_def)
qed (use Kept assms(2) in \<open>auto intro: reserve_change callback_change sent_change unsubmitted_change unclear_change recover_change
  mail_reserve_change stamp_change record_success_change record_failure_change mail_recover_change\<close>)

section \<open>Runs\<close>

text \<open>No attempt is ever lost, a submission is never taken back, and a finished attempt is final.\<close>

definition ledger_extends :: "drip_attempt list \<Rightarrow> drip_attempt list \<Rightarrow> bool" where
  "ledger_extends as as' \<longleftrightarrow>
     (\<forall>a \<in> set as. \<exists>a' \<in> set as'. att_pk a' = att_pk a \<and> att_delivery a' = att_delivery a \<and>
        (submitted a \<longrightarrow> submission_attempted_at a' = submission_attempted_at a) \<and> (\<not> open_attempt a \<longrightarrow> a' = a))"

lemma ledger_extends_refl [simp]: "ledger_extends as as"
  unfolding ledger_extends_def by blast

lemma ledger_extends_trans:
  assumes "ledger_extends as bs" and "ledger_extends bs cs"
  shows "ledger_extends as cs"
  unfolding ledger_extends_def
proof
  fix a assume "a \<in> set as"
  then obtain b where b: "b \<in> set bs" "att_pk b = att_pk a" "att_delivery b = att_delivery a"
      "submitted a \<longrightarrow> submission_attempted_at b = submission_attempted_at a" "\<not> open_attempt a \<longrightarrow> b = a"
    using assms(1) unfolding ledger_extends_def by blast
  then obtain c where c: "c \<in> set cs" "att_pk c = att_pk b" "att_delivery c = att_delivery b"
      "submitted b \<longrightarrow> submission_attempted_at c = submission_attempted_at b" "\<not> open_attempt b \<longrightarrow> c = b"
    using assms(2) unfolding ledger_extends_def by blast
  then show "\<exists>c \<in> set cs. att_pk c = att_pk a \<and> att_delivery c = att_delivery a \<and>
      (submitted a \<longrightarrow> submission_attempted_at c = submission_attempted_at a) \<and> (\<not> open_attempt a \<longrightarrow> c = a)"
    using b by (intro bexI [of _ c]) (auto simp: submitted_def)
qed

lemma edit_extends:
  assumes dist: "distinct (map att_pk as)" and a: "a \<in> set as" "open_attempt a"
    and f: "\<And>x. att_pk (f x) = att_pk x" "\<And>x. att_delivery (f x) = att_delivery x"
      "submitted a \<Longrightarrow> submission_attempted_at (f a) = submission_attempted_at a"
  shows "ledger_extends as (map (\<lambda>x. if att_pk x = att_pk a then f x else x) as)"
  unfolding ledger_extends_def
proof
  fix x assume x: "x \<in> set as"
  let ?f = "\<lambda>x. if att_pk x = att_pk a then f x else x"
  have "att_pk x = att_pk a \<Longrightarrow> x = a" using pk_determines [OF dist x a(1)] .
  then show "\<exists>y \<in> set (map ?f as). att_pk y = att_pk x \<and> att_delivery y = att_delivery x \<and>
      (submitted x \<longrightarrow> submission_attempted_at y = submission_attempted_at x) \<and> (\<not> open_attempt x \<longrightarrow> y = x)"
    using x a f by (intro bexI [of _ "?f x"]) auto
qed

lemma change_extends:
  assumes "attempt_change rt as" and "distinct (map att_pk (attempts rt))"
  shows "ledger_extends (attempts rt) as"
  using assms(1)
proof cases
  case Kept
  then show ?thesis by simp
next
  case (Added k)
  then show ?thesis by (auto simp: attempts_add ledger_extends_def)
next
  case (Ended a out detail now)
  then show ?thesis
    using edit_extends [OF assms(2) Ended(2,3), of "finish_attempt out detail now"] by (simp add: edit_attempt_def finish_attempt_def)
next
  case (Stamped a now)
  then show ?thesis
    using edit_extends [OF assms(2) Stamped(2,3), of "\<lambda>a. a\<lparr>submission_attempted_at := Some now\<rparr>"] by (simp add: edit_attempt_def)
qed

interpretation drip_run: growing_system drip_step "\<lambda>s. books_ok (snd s) (fst s)"
  "\<lambda>s s'. ledger_extends (attempts (fst s)) (attempts (fst s'))"
proof unfold_locales
  show "books_ok (snd t) (fst t)" if "drip_step s t" "books_ok (snd s) (fst s)" for s t
    by (rule drip_step_ledger [OF that])
  show "ledger_extends (attempts (fst s)) (attempts (fst t))" if "drip_step s t" "books_ok (snd s) (fst s)" for s t
    by (rule change_extends [OF drip_step_change [OF that] books_okD(2) [OF that(2)]])
qed (auto intro: ledger_extends_trans)

lemma newly_submitted:
  assumes "attempt_change rt as" and "distinct (map att_pk (attempts rt))" and "a' \<in> set as" and "submitted a'"
    and "\<forall>a \<in> set (attempts rt). att_pk a = att_pk a' \<longrightarrow> \<not> submitted a"
  shows "clear_to_send (att_delivery a') (drip rt)"
  using assms(1)
proof cases
  case Kept
  then show ?thesis using assms(3-5) by auto
next
  case (Added k)
  then show ?thesis using assms(3-5) by (auto simp: attempts_add)
next
  case (Ended a out detail now)
  then obtain x where "x \<in> set (attempts rt)" "a' = (if att_pk x = att_pk a then finish_attempt out detail now x else x)"
    using assms(3) by (auto simp: edit_attempt_def)
  then show ?thesis using assms(4,5) by (cases "att_pk x = att_pk a") auto
next
  case (Stamped a now)
  then obtain x where x: "x \<in> set (attempts rt)" "a' = (if att_pk x = att_pk a then x\<lparr>submission_attempted_at := Some now\<rparr> else x)"
    using assms(3) by (auto simp: edit_attempt_def)
  show ?thesis
  proof (cases "att_pk x = att_pk a")
    case True
    then have "x = a" using pk_determines [OF assms(2) x(1) Stamped(2)] by simp
    then show ?thesis using Stamped(5) x(2) by simp
  next
    case False
    then show ?thesis using x assms(4,5) by auto
  qed
qed


text \<open>Where a run starts: the tables are well formed, and nothing has been tried yet.\<close>

definition untouched :: "drip_state \<Rightarrow> bool" where
  "untouched s \<longleftrightarrow> drip_ok (drip (fst s)) \<and> attempts (fst s) = [] \<and> snd s = [] \<and>
     list_all waiting_delivery (deliveries (drip (fst s)))"

lemma untouched_books: "untouched s \<Longrightarrow> books_ok (snd s) (fst s)"
  unfolding untouched_def by (intro books_okI) (auto simp: list_all_iff blockers_def intro: book_waiting)

lemma sent_iff:
  assumes ok: "books_ok cl rt" and d: "d \<in> set (deliveries (drip rt))"
  shows "dlv_status d = D_Sent \<longleftrightarrow> (\<exists>a \<in> set (attempts rt). att_delivery a = dlv_pk d \<and> att_outcome a = Att_sent)"
proof -
  have agrees: "status_agrees (dlv_status d) (blockers (dlv_pk d) (attempts rt))"
    using books_okD(5) [OF ok d] by (simp add: book_def)
  have "a \<in> set (blockers (dlv_pk d) (attempts rt))"
    if "a \<in> set (attempts rt)" "att_delivery a = dlv_pk d" "att_outcome a = Att_sent" for a
    using that books_okD(3) [OF ok that(1)] by (simp add: blockers_def blocking_def attempt_ok_def)
  then show ?thesis using agrees by (auto simp: status_agrees_def blockers_def)
qed

definition submissions :: "int \<Rightarrow> runtime \<Rightarrow> drip_attempt list" where
  "submissions k rt = filter (\<lambda>a. att_delivery a = k \<and> submitted a) (attempts rt)"

lemma submitted_status:
  assumes ok: "books_ok cl rt" and d: "d \<in> set (deliveries (drip rt))" and s: "submissions (dlv_pk d) rt \<noteq> []"
  shows "dlv_status d \<in> {D_Sending, D_Stopped, D_Sent, D_Unclear}" and "\<not> startable_task cl (tasks (drip rt)) d"
proof -
  obtain a where a: "a \<in> set (attempts rt)" "att_delivery a = dlv_pk d" "submitted a"
    using s by (auto simp: submissions_def filter_empty_conv)
  show "dlv_status d \<in> {D_Sending, D_Stopped, D_Sent, D_Unclear}" by (rule status_of_blocker(2) [OF ok d a])
  have "blockers (dlv_pk d) (attempts rt) = [a]" by (rule blockers_one [OF ok d a(1,2)]) (simp add: blocking_def a(3))
  then show "\<not> startable_task cl (tasks (drip rt)) d" using books_okD(5) [OF ok d] by (auto simp: book_def)
qed

text \<open>
  C2: a message is submitted at most once. However passes, stops, claims, both executors, crashes, recoveries
  and other code interleave, a delivery has at most one attempt that crossed the submit boundary; once
  it has one, it neither waits to be sent again nor has a task that a worker could start; and it is
  marked as sent exactly when one of its attempts was confirmed.
\<close>

theorem drip_submitted_once:
  assumes "untouched s" and "drip_step\<^sup>*\<^sup>* s s'" and "d \<in> set (deliveries (drip (fst s')))"
  shows "length (submissions (dlv_pk d) (fst s')) \<le> 1 \<and>
    (submissions (dlv_pk d) (fst s') \<noteq> [] \<longrightarrow>
       dlv_status d \<in> {D_Sending, D_Stopped, D_Sent, D_Unclear} \<and> \<not> startable_task (snd s') (tasks (drip (fst s'))) d) \<and>
    (dlv_status d = D_Sent \<longleftrightarrow> (\<exists>a \<in> set (attempts (fst s')). att_delivery a = dlv_pk d \<and> att_outcome a = Att_sent))"
proof -
  have ok: "books_ok (snd s') (fst s')" by (rule drip_run.inv_reach [OF assms(2) untouched_books [OF assms(1)]])
  have "length (submissions (dlv_pk d) (fst s')) \<le> 1" unfolding submissions_def by (rule submitted_le [OF ok assms(3)])
  then show ?thesis using submitted_status [OF ok assms(3)] sent_iff [OF ok assms(3)] by blast
qed

text \<open>
  C12: what was done stays done. In every run from a well-formed ledger no attempt disappears, the time of a
  submission is never taken back, a finished attempt keeps its outcome, and a delivery that was marked
  as sent is marked as sent for ever.
\<close>

theorem drip_ledger_final:
  assumes "untouched s" and "drip_step\<^sup>*\<^sup>* s s1" and "drip_step\<^sup>*\<^sup>* s1 s2"
  shows "ledger_extends (attempts (fst s1)) (attempts (fst s2)) \<and>
    (\<forall>d \<in> set (deliveries (drip (fst s1))). \<forall>d' \<in> set (deliveries (drip (fst s2))).
       dlv_pk d' = dlv_pk d \<and> dlv_status d = D_Sent \<longrightarrow> dlv_status d' = D_Sent)"
proof -
  have ok1: "books_ok (snd s1) (fst s1)" by (rule drip_run.inv_reach [OF assms(2) untouched_books [OF assms(1)]])
  have ok2: "books_ok (snd s2) (fst s2)" by (rule drip_run.inv_reach [OF assms(3) ok1])
  have ext: "ledger_extends (attempts (fst s1)) (attempts (fst s2))" by (rule drip_run.ext_reach [OF assms(3) ok1])
  have "dlv_status d' = D_Sent"
    if d: "d \<in> set (deliveries (drip (fst s1)))" "d' \<in> set (deliveries (drip (fst s2)))" "dlv_pk d' = dlv_pk d" "dlv_status d = D_Sent" for d d'
  proof -
    obtain a where a: "a \<in> set (attempts (fst s1))" "att_delivery a = dlv_pk d" "att_outcome a = Att_sent"
      using sent_iff [OF ok1 d(1)] d(4) by blast
    then have "a \<in> set (attempts (fst s2))" using ext unfolding ledger_extends_def open_attempt_def by force
    then show ?thesis using sent_iff [OF ok2 d(2)] a(2,3) d(3) by auto
  qed
  then show ?thesis using ext by blast
qed

text \<open>
  C6: nothing is submitted against a stop. When a step submits an attempt, then in the state before it the
  delivery is being sent, its campaign, enrollment and lane are all active, and no human reply of its
  lead is stored.
\<close>

theorem submission_guarded:
  assumes "untouched s0" and "drip_step\<^sup>*\<^sup>* s0 s" and "drip_step s s'" and "a' \<in> set (attempts (fst s'))" and "submitted a'"
    and "\<forall>a \<in> set (attempts (fst s)). att_pk a = att_pk a' \<longrightarrow> \<not> submitted a"
  shows "clear_to_send (att_delivery a') (drip (fst s))"
proof -
  have ok: "books_ok (snd s) (fst s)" by (rule drip_run.inv_reach [OF assms(2) untouched_books [OF assms(1)]])
  show ?thesis
    by (rule newly_submitted [OF drip_step_change [OF assms(3) ok] books_okD(2) [OF ok] assms(4-6)])
qed

section \<open>What a submission on LinkedIn proves\<close>

lemma readiness_none:
  assumes "readiness_failure env g now db = Inr None"
  shows "handed_off_at (g_lane g) \<noteq> None" and "quota_left (session env)"
    and "timing_reason (g_delivery g) (g_lane g) (g_enrollment g) now db = Inr ''''"
    and "deal_proves_connection env (g_enrollment g) (g_lane g)"
  using assms by (auto simp: readiness_failure_def Let_def split: if_splits)

lemma timing_clear:
  assumes "timing_reason d l e now db = Inr ''''"
  obtains themes steps at_time where "manifest_themes e db = Inr themes"
      "linkedin_steps themes (dlv_theme_index d) (lane_operator l) = Some steps" "dlv_step_index d < length steps"
      "earlier_themes_sent themes l (dlv_theme_index d) db"
      "list_all (step_sent l (dlv_theme_index d) db (dlv_theme_index d)) [0..<dlv_step_index d]"
      "manifest_due steps l d db = Some at_time" "at_time \<le> now" "dlv_scheduled_at d \<le> now"
proof -
  obtain themes where themes: "manifest_themes e db = Inr themes" using assms by (auto simp: timing_reason_def)
  obtain steps at_time where s: "linkedin_steps themes (dlv_theme_index d) (lane_operator l) = Some steps"
      "manifest_due steps l d db = Some at_time"
    using assms themes by (auto simp: timing_reason_def Let_def split: if_splits option.splits)
  show ?thesis
    using assms themes s by (intro that [OF themes s(1) _ _ _ s(2)]) (auto simp: timing_reason_def Let_def not_less not_le split: if_splits option.splits)
qed

text \<open>A step of a theme that was sent on a lane, read off the rows of the deliveries.\<close>

definition sent_on :: "drip_lane \<Rightarrow> drip_db \<Rightarrow> nat \<Rightarrow> nat \<Rightarrow> int \<Rightarrow> bool" where
  "sent_on l db k i at_time \<longleftrightarrow> (\<exists>d \<in> set (deliveries db). dlv_lane d = lane_pk l \<and> dlv_theme_index d = k \<and>
     dlv_step_index d = i \<and> dlv_status d = D_Sent \<and> dlv_sent_at d = Some at_time)"

text \<open>The steps that the frozen manifest of an enrollment gives a sender on LinkedIn in a theme, none if it has no rendition.\<close>

definition frozen_steps :: "drip_enrollment \<Rightarrow> drip_lane \<Rightarrow> drip_db \<Rightarrow> nat \<Rightarrow> drip_step list" where
  "frozen_steps e l db k =
     (case map_of (versions db) (enr_version e) of None \<Rightarrow> [] | Some m \<Rightarrow>
      (case map_of m (frozen_icp e) of None \<Rightarrow> [] | Some themes \<Rightarrow>
       if length themes \<le> k then []
       else case map_of (theme_senders (themes ! k)) (lane_operator l) of None \<Rightarrow> [] | Some block \<Rightarrow>
         (case map_of block Linkedin_lane of None \<Rightarrow> [] | Some steps \<Rightarrow> steps)))"

lemma existing_row_sent:
  assumes "existing_step_row l b db k i = Some d" and "dlv_status d = D_Sent" and "dlv_sent_at d = Some at_time"
  shows "sent_on l db k i at_time"
  using find_Some_iff_mem [OF assms(1) [unfolded existing_step_row_def]] assms(2,3) unfolding sent_on_def by auto

lemma step_sent_on: "step_sent l b db k i \<Longrightarrow> \<exists>at_time. sent_on l db k i at_time"
  unfolding step_sent_def by (auto split: option.splits intro: existing_row_sent)

lemma frozen_steps_manifest:
  assumes "manifest_themes e db = Inr themes"
  shows "frozen_steps e l db k = (case linkedin_steps themes k (lane_operator l) of None \<Rightarrow> [] | Some steps \<Rightarrow> steps)"
  using assms
  by (auto simp: frozen_steps_def manifest_themes_def linkedin_steps_def channel_steps_def split: option.splits list.splits)

lemma timing_facts:
  assumes "timing_reason d l e now db = Inr ''''"
  shows "dlv_step_index d < length (frozen_steps e l db (dlv_theme_index d))"
    and "j < dlv_theme_index d \<Longrightarrow> i < length (frozen_steps e l db j) \<Longrightarrow> \<exists>at_time. sent_on l db j i at_time"
    and "i < dlv_step_index d \<Longrightarrow> \<exists>at_time. sent_on l db (dlv_theme_index d) i at_time"
    and "\<exists>anchor. (if dlv_step_index d = 0 then theme_started_at l = Some anchor
        else sent_on l db (dlv_theme_index d) (dlv_step_index d - 1) anchor) \<and>
      anchor + step_delay (frozen_steps e l db (dlv_theme_index d) ! dlv_step_index d) \<le> now"
    and "dlv_scheduled_at d \<le> now"
proof -
  let ?k = "dlv_theme_index d"
  obtain themes steps at_time where themes: "manifest_themes e db = Inr themes"
    and steps: "linkedin_steps themes ?k (lane_operator l) = Some steps" "dlv_step_index d < length steps"
    and earlier: "earlier_themes_sent themes l ?k db" and prior: "list_all (step_sent l ?k db ?k) [0..<dlv_step_index d]"
    and due: "manifest_due steps l d db = Some at_time" "at_time \<le> now" "dlv_scheduled_at d \<le> now"
    by (rule timing_clear [OF assms])
  note frozen = frozen_steps_manifest [OF themes]
  have now: "frozen_steps e l db ?k = steps" by (simp add: frozen steps)
  show "dlv_step_index d < length (frozen_steps e l db ?k)" "dlv_scheduled_at d \<le> now" using steps(2) due(3) now by simp_all
  show "\<exists>at_time. sent_on l db j i at_time" if "j < ?k" "i < length (frozen_steps e l db j)"
    using earlier that unfolding frozen earlier_themes_sent_def
    by (auto simp: list_all_iff split: option.splits intro!: step_sent_on [where b = "dlv_theme_index d"])
  show before: "\<exists>at_time. sent_on l db ?k i at_time" if "i < dlv_step_index d" for i
    using prior that by (auto simp: list_all_iff intro!: step_sent_on)
  show "\<exists>anchor. (if dlv_step_index d = 0 then theme_started_at l = Some anchor
        else sent_on l db ?k (dlv_step_index d - 1) anchor) \<and>
      anchor + step_delay (frozen_steps e l db ?k ! dlv_step_index d) \<le> now"
  proof (cases "dlv_step_index d = 0")
    case True
    then show ?thesis using due(1,2) unfolding now manifest_due_def by auto
  next
    case False
    let ?i = "dlv_step_index d - 1"
    have "step_sent l ?k db ?k ?i" using prior False by (auto simp: list_all_iff)
    then obtain x at_x where x: "existing_step_row l ?k db ?k ?i = Some x" "dlv_status x = D_Sent" "dlv_sent_at x = Some at_x"
      by (auto simp: step_sent_def split: option.splits)
    then have "sent_on l db ?k ?i at_x" by (rule existing_row_sent)
    moreover have "at_time = at_x + step_delay (steps ! dlv_step_index d)" using due(1) x False by (simp add: manifest_due_def)
    ultimately show ?thesis using due(2) False unfolding now by auto
  qed
qed

text \<open>
  C18: messages go out in order. When the callback of the LinkedIn executor submits an attempt, the delivery is a step of
  the lane's frozen manifest; every step of every earlier theme of the manifest has been sent on this lane, and so has every
  earlier step of this theme. The delay of the step has passed since its anchor, which is the start of
  the theme for the first step and the sending of the previous step otherwise; and the delivery's own time has come,
  a connection is proved, and the sender has quota left.
\<close>

theorem submission_in_order:
  assumes "submission_callback env now task r rt = Inr (reason, rt')" and "distinct (map att_pk (attempts rt))"
    and "a' \<in> set (attempts rt')" and "submitted a'"
    and "\<forall>a \<in> set (attempts rt). att_pk a = att_pk a' \<longrightarrow> \<not> submitted a"
  shows "\<exists>d \<in> set (deliveries (drip rt)). \<exists>l \<in> set (lanes (drip rt)). \<exists>e \<in> set (enrollments (drip rt)).
    dlv_pk d = res_delivery r \<and> dlv_lane d = lane_pk l \<and> lane_enrollment l = enr_pk e \<and>
    (let steps = frozen_steps e l (drip rt); k = dlv_theme_index d; i = dlv_step_index d in
       i < length (steps k) \<and>
       (\<forall>j < k. \<forall>n < length (steps j). \<exists>at_time. sent_on l (drip rt) j n at_time) \<and>
       (\<forall>n < i. \<exists>at_time. sent_on l (drip rt) k n at_time) \<and>
       (\<exists>anchor. (if i = 0 then theme_started_at l = Some anchor else sent_on l (drip rt) k (i - 1) anchor) \<and>
          anchor + step_delay (steps k ! i) \<le> now) \<and>
       dlv_scheduled_at d \<le> now \<and>
       connection_proofs env (enr_lead e) (lane_operator l) (current_sequence_status l = Seq_Completed) \<noteq> [] \<and>
       quota_left (session env))"
  using assms(1)
proof (rule callback_cases)
  fix a t and g :: graph
  assume g: "lock_delivery_graph (res_delivery r) (drip rt) = Inr g" and a: "lock_attempt (res_attempt r) (res_delivery r) rt = Inr a"
    and result: "rt' = rt \<or> (open_attempt a \<and> \<not> submitted a \<and>
        (rt' = on_drip (stop_enrollment_locked (enr_pk (g_enrollment g)) reason now) (closes a reason now rt) \<or>
         (\<exists>f. execution_guard env t g now D_Sending (res_urn r) (res_recipient r) (drip rt) = Inr (Some f) \<and>
            rt' = on_drip (release_for_guard g f) (closes a (fail_detail f) now rt)) \<or>
         (execution_guard env t g now D_Sending (res_urn r) (res_recipient r) (drip rt) = Inr None \<and>
            lead_automation_stop_reason (send_facts env) (enr_lead (g_enrollment g)) (drip rt) = '''' \<and>
            rt' = edit_attempt (att_pk a) (\<lambda>a. a\<lparr>submission_attempted_at := Some now\<rparr>) rt)))"
  have kept: "\<not> submitted x" if "x \<in> set (attempts rt)" "a' = x" for x using that assms(5) by auto
  have closed: False if "attempts rt' = attempts (closes a s now rt)" for s
  proof -
    have "a' \<in> set (attempts (closes a s now rt))" using assms(3) unfolding that .
    then obtain x where "x \<in> set (attempts rt)" "a' = (if att_pk x = att_pk a then finish_attempt Not_submitted s now x else x)"
      by (auto simp: closes_def edit_attempt_def)
    then show False using assms(4,5) by (cases "att_pk x = att_pk a") auto
  qed
  have guard: "execution_guard env t g now D_Sending (res_urn r) (res_recipient r) (drip rt) = Inr None"
    using result
  proof (elim disjE conjE exE)
    assume "rt' = rt"
    then show ?thesis using kept assms(3,4) by blast
  next
    assume "rt' = on_drip (stop_enrollment_locked (enr_pk (g_enrollment g)) reason now) (closes a reason now rt)"
    then show ?thesis using closed [of reason] by simp
  next
    fix f assume "rt' = on_drip (release_for_guard g f) (closes a (fail_detail f) now rt)"
    then show ?thesis using closed [of "fail_detail f"] by simp
  qed
  note ready = readiness_none [OF guard_passed(3) [OF guard]] and row = lock_graphD [OF g]
  note facts = timing_facts [OF ready(3)]
  show ?thesis
    unfolding Let_def
    by (intro bexI [OF _ row(1)] bexI [OF _ row(3)] bexI [OF _ row(5)])
      (use row facts ready(2,4) in \<open>auto simp: deal_proves_connection_def\<close>)
qed

section \<open>What a recovery settles\<close>

text \<open>A locked graph follows its rows when they are edited in place.\<close>

lemma lock_graph_map:
  assumes g: "lock_delivery_graph k db = Inr g"
    and l: "lanes db' = map f (lanes db)" "\<And>x. lane_pk (f x) = lane_pk x \<and> lane_enrollment (f x) = lane_enrollment x"
    and d: "deliveries db' = map h (deliveries db)" "\<And>x. dlv_pk (h x) = dlv_pk x \<and> dlv_lane (h x) = dlv_lane x"
    and same: "enrollments db' = enrollments db" "leads db' = leads db"
  shows "lock_delivery_graph k db' = Inr \<lparr>g_enrollment = g_enrollment g, g_lane = f (g_lane g), g_delivery = h (g_delivery g)\<rparr>"
proof -
  have "get_row lane_pk n (map f (lanes db)) i = (case get_row lane_pk n (lanes db) i of Inl e \<Rightarrow> Inl e | Inr r \<Rightarrow> Inr (f r))" for n i
    by (rule get_row_map) (simp add: l)
  moreover have "get_row dlv_pk n (map h (deliveries db)) i = (case get_row dlv_pk n (deliveries db) i of Inl e \<Rightarrow> Inl e | Inr r \<Rightarrow> Inr (h r))" for n i
    by (rule get_row_map) (simp add: d)
  ultimately show ?thesis
    using g by (auto simp: lock_delivery_graph_def lock_enrollment_graph_def l d same)
qed

definition lanes_follow :: "drip_db \<Rightarrow> drip_db \<Rightarrow> bool" where
  "lanes_follow db db' \<longleftrightarrow> enrollments db' = enrollments db \<and> leads db' = leads db \<and>
     (\<exists>f. lanes db' = map f (lanes db) \<and>
        (\<forall>x. lane_pk (f x) = lane_pk x \<and> lane_enrollment (f x) = lane_enrollment x \<and> lane_channel (f x) = lane_channel x))"

lemma lanes_follow_refl: "lanes_follow db db"
  unfolding lanes_follow_def by (intro conjI refl exI [of _ "\<lambda>x. x"]) auto

lemma lanes_follow_same: "enrollments db' = enrollments db \<Longrightarrow> leads db' = leads db \<Longrightarrow> lanes db' = lanes db \<Longrightarrow> lanes_follow db db'"
  unfolding lanes_follow_def by (intro conjI exI [of _ "\<lambda>x. x"]) auto

lemma lanes_follow_edit: "lanes_follow db (edit_lane k (set_lane_status st) db')" if "lanes_follow db db'"
proof -
  obtain f where f: "lanes db' = map f (lanes db)" "\<And>x. lane_pk (f x) = lane_pk x \<and> lane_enrollment (f x) = lane_enrollment x \<and> lane_channel (f x) = lane_channel x"
      "enrollments db' = enrollments db" "leads db' = leads db" using \<open>lanes_follow db db'\<close> unfolding lanes_follow_def by blast
  show ?thesis
    unfolding lanes_follow_def
    by (intro conjI exI [of _ "\<lambda>x. if lane_pk (f x) = k then normal_lane (set_lane_status st (f x)) else f x"])
      (use f in \<open>simp_all add: edit_lane_def set_lane_status_def comp_def\<close>)
qed

text \<open>After the recovery of delivery \<open>k\<close>: what its row says, and that recovering again does nothing.\<close>

definition settled :: "int \<Rightarrow> drip_status \<Rightarrow> runtime \<Rightarrow> bool" where
  "settled k st rt \<longleftrightarrow>
     (\<forall>d \<in> set (deliveries (drip rt)). dlv_pk d = k \<longrightarrow> dlv_status d = st) \<and>
     (\<forall>a \<in> set (attempts rt). att_delivery a = k \<longrightarrow> \<not> open_attempt a) \<and>
     (\<forall>now. recover_stale_linkedin_delivery now k rt = Inr (NOOP, rt))"

lemma settledI:
  assumes g: "lock_delivery_graph k db = Inr g" and chan: "lane_channel (g_lane g) = Linkedin_lane" and lf: "lanes_follow db (drip rt)"
    and d: "deliveries (drip rt) = map (\<lambda>x. if dlv_pk x = k then f x else x) (deliveries db)"
    and f: "\<And>x. dlv_pk (f x) = dlv_pk x \<and> dlv_lane (f x) = dlv_lane x \<and> dlv_status (f x) = st" and st: "st \<noteq> D_Sending"
    and closed: "\<And>a. a \<in> set (attempts rt) \<Longrightarrow> att_delivery a = k \<Longrightarrow> \<not> open_attempt a"
  shows "settled k st rt"
proof -
  obtain h where h: "lanes (drip rt) = map h (lanes db)"
      "\<And>x. lane_pk (h x) = lane_pk x \<and> lane_enrollment (h x) = lane_enrollment x \<and> lane_channel (h x) = lane_channel x"
    and same: "enrollments (drip rt) = enrollments db" "leads (drip rt) = leads db"
    using lf unfolding lanes_follow_def by blast
  let ?f = "\<lambda>x. if dlv_pk x = k then f x else x"
  have lock: "lock_delivery_graph k (drip rt) = Inr \<lparr>g_enrollment = g_enrollment g, g_lane = h (g_lane g), g_delivery = ?f (g_delivery g)\<rparr>"
    by (rule lock_graph_map [OF g h(1) _ d _ same]) (use h(2) f in auto)
  have "recover_stale_linkedin_delivery now k rt = Inr (NOOP, rt)" for now
    using lock h(2) chan f st lock_graphD(2) [OF g] by (simp add: recover_stale_linkedin_delivery_def)
  then show ?thesis unfolding settled_def using d f closed by auto
qed

lemma recover_channel:
  "recover_stale_linkedin_delivery now k rt = Inr (res, rt') \<Longrightarrow> lock_delivery_graph k (drip rt) = Inr g \<Longrightarrow>
     lane_channel (g_lane g) = Linkedin_lane"
  by (auto simp: recover_stale_linkedin_delivery_def Let_def split: if_splits)

lemma edit_frames [simp]:
  "leads (edit_delivery k f db) = leads db" "leads (edit_task k P q db) = leads db" "leads (edit_lane k h db) = leads db"
  "deliveries (retire_recovered_task d now detail db) = deliveries db" "lanes (retire_recovered_task d now detail db) = lanes db"
  "enrollments (retire_recovered_task d now detail db) = enrollments db" "leads (retire_recovered_task d now detail db) = leads db"
  by (simp_all add: edit_delivery_def edit_task_def edit_lane_def retire_recovered_task_def split: option.splits)

lemma set_status_lane [simp]: "dlv_lane (set_delivery_status st d) = dlv_lane d" "dlv_lane (detach_delivery st d) = dlv_lane d"
  by (simp_all add: set_delivery_status_def detach_delivery_def)

lemma lanes_follow_retire: "lanes_follow db db' \<Longrightarrow> lanes_follow db (retire_recovered_task d now detail db')"
  by (simp add: lanes_follow_def)

lemma lanes_follow_delivery: "lanes_follow db (edit_delivery k f db)"
  by (rule lanes_follow_same) simp_all

text \<open>The result of a recovery that put the delivery back.\<close>

lemma recover_unsubmitted_rows:
  assumes "recover_unsubmitted g now db = Inr (res, db')"
  obtains f st where "deliveries db' = map (\<lambda>x. if dlv_pk x = dlv_pk (g_delivery g) then f x else x) (deliveries db)"
    "f = set_delivery_status st \<or> f = detach_delivery st" "res = PLANNED \<and> st = D_Planned \<or> res = REQUEUED \<and> st = D_Queued"
    "lanes_follow db db'"
proof -
  have follow: "lanes_follow db db'"
    using assms unfolding recover_unsubmitted_def Let_def
    by (intro lanes_follow_same) (auto simp: lock_task_def split: if_splits option.splits)
  have "(res = PLANNED \<and> deliveries db' = deliveries (edit_delivery (dlv_pk (g_delivery g)) (detach_delivery D_Planned) db)) \<or>
      (res = PLANNED \<and> deliveries db' = deliveries (edit_delivery (dlv_pk (g_delivery g)) (set_delivery_status D_Planned) db)) \<or>
      (res = REQUEUED \<and> deliveries db' = deliveries (edit_delivery (dlv_pk (g_delivery g)) (set_delivery_status D_Queued) db))"
    using assms unfolding recover_unsubmitted_def Let_def
    by (auto simp: edit_commute split: if_splits option.splits)
  then show ?thesis
    using that [of "detach_delivery D_Planned" D_Planned] that [of "set_delivery_status D_Planned" D_Planned]
      that [of "set_delivery_status D_Queued" D_Queued] follow by (auto simp: edit_delivery_def)
qed

lemma no_blockers:
  assumes "blockers k as = []" and "a \<in> set as" and "att_delivery a = k"
  shows "\<not> open_attempt a" and "\<not> submitted a"
  using assms by (auto simp: blockers_def blocking_def filter_empty_conv)

definition being_sent :: "int \<Rightarrow> runtime \<Rightarrow> bool" where
  "being_sent k rt \<longleftrightarrow> (\<exists>d \<in> set (deliveries (drip rt)). dlv_pk d = k \<and> dlv_status d = D_Sending)"

lemma locked_sending:
  assumes "books_ok cl rt" and "lock_delivery_graph k (drip rt) = Inr g"
  shows "being_sent k rt \<longleftrightarrow> dlv_status (g_delivery g) = D_Sending"
proof -
  note d = lock_graphD(1,2) [OF assms(2)]
  have "inj_on dlv_pk (set (deliveries (drip rt)))" using books_okD(1) [OF assms(1)] by (simp add: drip_ok_def distinct_map)
  then have "x = g_delivery g" if "x \<in> set (deliveries (drip rt))" "dlv_pk x = k" for x
    by (rule inj_onD) (simp_all add: that d)
  then show ?thesis using d unfolding being_sent_def by blast
qed

lemma lone_unsubmitted:
  assumes "books_ok cl rt" and "lock_delivery_graph k (drip rt) = Inr g" and "a \<in> set (attempts rt)" "att_delivery a = k"
    and "open_attempt a" "\<not> submitted a"
  shows "submissions k rt = []"
proof -
  note d = lock_graphD(1,2) [OF assms(2)]
  have one: "blockers k (attempts rt) = [a]"
    using blockers_one [OF assms(1) d(1) assms(3)] assms(4,5) d(2) by (simp add: blocking_def)
  have False if x: "x \<in> set (attempts rt)" "att_delivery x = k" "submitted x" for x
  proof -
    have "x \<in> set (blockers k (attempts rt))" using x by (simp add: blockers_def blocking_def)
    then show False using one assms(6) x(3) by simp
  qed
  then show ?thesis by (auto simp: submissions_def filter_empty_conv)
qed

lemma settles_submitted:
  assumes ok: "books_ok cl rt" and chan: "lane_channel (g_lane g) = Linkedin_lane" and g: "lock_delivery_graph k (drip rt) = Inr g"
    and a: "a \<in> set (attempts rt)" "att_delivery a = k" "open_attempt a"
    and rt': "rt' = on_drip (retire_recovered_task (g_delivery g) now s) (finish_unclear_locked g a detail now rt)"
  shows "settled k D_Unclear rt'"
proof (rule settledI [OF g chan, of rt' "set_delivery_status D_Unclear"])
  note d = lock_graphD(1,2) [OF g]
  have one: "blockers k (attempts rt) = [a]" using blockers_one [OF ok d(1) a(1)] a(2,3) d(2) by (simp add: blocking_def)
  show "\<not> open_attempt x" if x: "x \<in> set (attempts rt')" "att_delivery x = k" for x
  proof -
    obtain y where y: "y \<in> set (attempts rt)" "x = (if att_pk y = att_pk a then finish_attempt Att_unclear detail now y else y)"
      using x(1) unfolding rt' finish_unclear_locked_def by (auto simp: edit_attempt_def)
    show ?thesis
    proof (cases "att_pk y = att_pk a")
      case False
      then have "y \<notin> set (blockers k (attempts rt))" using one by auto
      then show ?thesis using y x(2) False by (simp add: blockers_def blocking_def)
    qed (use y in simp)
  qed
  show "lanes_follow (drip rt) (drip rt')"
    unfolding rt' finish_unclear_locked_def
    by (auto simp: Let_def intro!: lanes_follow_retire lanes_follow_edit lanes_follow_delivery)
  show "deliveries (drip rt') = map (\<lambda>x. if dlv_pk x = k then set_delivery_status D_Unclear x else x) (deliveries (drip rt))"
    unfolding rt' finish_unclear_locked_def d(2) by (simp add: Let_def edit_delivery_def)
qed simp_all

lemma settles_unsubmitted:
  assumes ok: "books_ok cl rt" and chan: "lane_channel (g_lane g) = Linkedin_lane" and g: "lock_delivery_graph k (drip rt) = Inr g"
    and a: "a \<in> set (attempts rt)" "att_delivery a = k" "open_attempt a" "\<not> submitted a"
    and run: "recover_unsubmitted g now (drip rt) = Inr (res, db)" and rt': "rt' = (closes a detail now rt)\<lparr>drip := db\<rparr>"
  shows "\<exists>st. settled k st rt' \<and> (res = PLANNED \<and> st = D_Planned \<or> res = REQUEUED \<and> st = D_Queued) \<and>
    submissions k rt = [] \<and> submissions k rt' = []"
proof -
  note d = lock_graphD(1,2) [OF g]
  have none: "blockers k (attempts rt') = []"
    using ledger_close(2) [OF ok d(1) a(1) _ a(3,4)] a(2) d(2) unfolding rt' by simp
  have subs: "submissions k rt' = []" using no_blockers(2) [OF none] by (auto simp: submissions_def filter_empty_conv)
  from run show ?thesis
  proof (rule recover_unsubmitted_rows)
    fix f st assume rows: "deliveries db = map (\<lambda>x. if dlv_pk x = dlv_pk (g_delivery g) then f x else x) (deliveries (drip rt))"
      and f: "f = set_delivery_status st \<or> f = detach_delivery st" and st: "res = PLANNED \<and> st = D_Planned \<or> res = REQUEUED \<and> st = D_Queued"
      and follow: "lanes_follow (drip rt) db"
    have "settled k st rt'"
    proof (rule settledI [OF g chan, of rt' f])
      show "\<not> open_attempt x" if "x \<in> set (attempts rt')" "att_delivery x = k" for x by (rule no_blockers(1) [OF none that])
    qed (use rt' follow rows f st d(2) in auto)
    then show ?thesis using st subs lone_unsubmitted [OF ok g a] by blast
  qed
qed

text \<open>
  C10: a recovery settles a stale delivery. The startup recovery of the LinkedIn daemon leaves a delivery alone exactly
  when it is not marked as being sent. A delivery that is becomes planned or queued again only if none of its
  attempts ever crossed the submit boundary, and unclear only if one did or no attempt is open that could say; no
  attempt stays open, and a second recovery finds nothing to do.
\<close>

theorem recovery_settles:
  assumes "untouched s0" and "drip_step\<^sup>*\<^sup>* s0 (rt, cl)" and "recover_stale_linkedin_delivery now k rt = Inr (res, rt')"
  shows "(res = NOOP \<longleftrightarrow> \<not> being_sent k rt) \<and>
    (case res of
      NOOP \<Rightarrow> rt' = rt
    | PLANNED \<Rightarrow> settled k D_Planned rt' \<and> submissions k rt = [] \<and> submissions k rt' = []
    | REQUEUED \<Rightarrow> settled k D_Queued rt' \<and> submissions k rt = [] \<and> submissions k rt' = []
    | UNCLEAR \<Rightarrow> settled k D_Unclear rt' \<and>
        (submissions k rt \<noteq> [] \<or> (\<forall>a \<in> set (attempts rt). att_delivery a = k \<longrightarrow> \<not> open_attempt a)))"
proof -
  have ok: "books_ok cl rt" using drip_run.inv_reach [OF assms(2) untouched_books [OF assms(1)]] by simp
  show ?thesis
    using assms(3) ok
  proof (cases rule: recover_cases)
    case (Noop g)
    then show ?thesis using locked_sending [OF ok] by simp
  next
    case (Submitted g a detail)
    have "submissions k rt \<noteq> []" using Submitted(3,4,6) by (auto simp: submissions_def filter_empty_conv)
    moreover have "settled k D_Unclear rt'"
      by (rule settles_submitted [OF ok recover_channel [OF assms(3) Submitted(1)] Submitted(1,3,4,5,8)])
    ultimately show ?thesis using Submitted(2,7) locked_sending [OF ok Submitted(1)] by simp
  next
    case (Unsubmitted g a detail db)
    from settles_unsubmitted [OF ok recover_channel [OF assms(3) Unsubmitted(1)] Unsubmitted(1,3-8)]
    show ?thesis using Unsubmitted(2) locked_sending [OF ok Unsubmitted(1)] by auto
  next
    case (Lost g)
    note chan = recover_channel [OF assms(3) Lost(1)]
    have "settled k D_Unclear rt'"
    proof (rule settledI [OF Lost(1) chan, of rt' "set_delivery_status D_Unclear"])
      show "lanes_follow (drip rt) (drip rt')"
        unfolding Lost(5) by (auto intro!: lanes_follow_retire lanes_follow_edit lanes_follow_delivery)
      show "deliveries (drip rt') = map (\<lambda>x. if dlv_pk x = k then set_delivery_status D_Unclear x else x) (deliveries (drip rt))"
        unfolding Lost(5) by (simp add: edit_delivery_def)
    qed (use Lost(4,5) in simp_all)
    then show ?thesis using Lost(2,3,4) locked_sending [OF ok Lost(1)] by simp
  qed
qed

section \<open>A run\<close>

text \<open>A handed-over LinkedIn lane with a due delivery that is queued, its pending task, and a page that works.\<close>

definition sample_route :: drip_lane where
  "sample_route = (sample_lane 11 1 Linkedin_lane)\<lparr>provider_account := ''eracle'', sender_identity := ''eracle'',
     member_urn := ''urn:li:fsd_profile:abc''\<rparr>"

definition sample_sends :: drip_db where
  "sample_sends = sample_drips\<lparr>deliveries := [(sample_delivery 21 11 31)\<lparr>dlv_account := ''eracle''\<rparr>], lanes := [sample_route],
     tasks := [drip_task (sample_delivery 21 11 31) sample_route 25 31],
     enrollments := [sample_enrollment 1 7], versions := [(1, sample_manifest)], messages := []\<rparr>"

definition sample_run :: drip_state where
  "sample_run = (\<lparr>drip = sample_sends, attempts = [], att_seq = 0, msg_seq = 0, recorded_actions = []\<rparr>, [])"

definition sample_send_env :: send_env where
  "sample_send_env =
     \<lparr>send_facts = \<lparr>disqualified = (\<lambda>_. False), suppression = (\<lambda>_. None), has_meeting = (\<lambda>_. False)\<rparr>,
      session = \<lparr>profile_username = ''eracle'', profile_active = True, profile_user = 3, session_campaign = Some 9, quota_left = True\<rparr>,
      outreach = [\<lparr>outreach_pk = 9, outreach_active = True, outreach_user = 3\<rparr>],
      connection_proofs = (\<lambda>_ _ _. [1]), identity_errors = (\<lambda>_ _ _. [])\<rparr>"

definition sample_task :: task where
  "sample_task = claim_task 50 (drip_task (sample_delivery 21 11 31) sample_route 25 31)"

definition sample_reservation :: reservation where
  "sample_reservation = \<lparr>res_delivery = 21, res_attempt = 1, res_urn = ''urn:li:fsd_profile:abc'', res_recipient = ''r'',
     res_body = ''hi'', res_campaign = 9\<rparr>"


definition state_of :: "('e, 'a \<times> runtime) result \<Rightarrow> runtime" where
  "state_of x = (case x of Inr (_, rt) \<Rightarrow> rt | Inl _ \<Rightarrow> fst sample_run)"


definition run_claimed :: runtime where
  "run_claimed = on_drip (edit_task 31 (\<lambda>t. task_status t = PENDING) (claim_task 50)) (fst sample_run)"

definition run_reserved :: runtime where
  "run_reserved = state_of (reserve_delivery sample_send_env 51 sample_task run_claimed)"

definition run_submitted :: runtime where
  "run_submitted = state_of (submission_callback sample_send_env 52 31 sample_reservation run_reserved)"

definition run_sent :: runtime where
  "run_sent = (case finish_sent sample_send_env 53 31 sample_reservation run_submitted of Inl _ \<Rightarrow> run_submitted | Inr rt \<Rightarrow> rt)"

lemma run_reserved: "reserve_delivery sample_send_env 51 sample_task run_claimed = Inr (Some sample_reservation, run_reserved)"
  by code_simp

lemma run_submitted: "submission_callback sample_send_env 52 31 sample_reservation run_reserved = Inr ('''', run_submitted)"
  by code_simp

lemma run_sent: "finish_sent sample_send_env 53 31 sample_reservation run_submitted = Inr run_sent"
  by code_simp

lemma run_attempts:
  "attempts run_reserved = [\<lparr>att_pk = 1, att_delivery = 21, attempt_number = 1, submission_attempted_at = None,
     finished_at = None, att_outcome = Reserved, diagnostic_detail = ''''\<rparr>]"
  "attempts run_submitted = [\<lparr>att_pk = 1, att_delivery = 21, attempt_number = 1, submission_attempted_at = Some 52,
     finished_at = None, att_outcome = Reserved, diagnostic_detail = ''''\<rparr>]"
  "attempts run_sent = [\<lparr>att_pk = 1, att_delivery = 21, attempt_number = 1, submission_attempted_at = Some 52,
     finished_at = Some 53, att_outcome = Att_sent, diagnostic_detail = ''''\<rparr>]"
  by code_simp+

lemma sample_untouched: "untouched sample_run"
  by (simp add: untouched_def sample_run_def drip_ok_def one_to_one_def sample_sends_def sample_route_def sample_defs
      normal_lane_def waiting_delivery_def) code_simp

lemma sample_steps:
  "drip_step\<^sup>*\<^sup>* sample_run (run_reserved, [])" "drip_step (run_reserved, []) (run_submitted, [])"
  "drip_step (run_submitted, []) (run_sent, [])" "drip_step sample_run (run_claimed, [31])"
proof -
  let ?t = "drip_task (sample_delivery 21 11 31) sample_route 25 31"
  have t: "?t \<in> set (tasks (drip (fst sample_run)))" "task_status ?t = PENDING" "task_pk ?t = 31"
    by (simp_all add: sample_run_def sample_sends_def drip_task_def)
  show claimed: "drip_step sample_run (run_claimed, [31])"
    using Claim [OF t(1,2), of "[]" 50] t(3) by (simp add: run_claimed_def sample_run_def)
  have "drip_step (run_claimed, [31]) (run_reserved, [])"
    using Reserve [OF _ run_reserved, of "[31]"] t(3) by (simp add: sample_task_def claim_task_def)
  with claimed show "drip_step\<^sup>*\<^sup>* sample_run (run_reserved, [])" by simp
  show "drip_step (run_reserved, []) (run_submitted, [])" by (rule Submit [OF run_submitted])
  show "drip_step (run_submitted, []) (run_sent, [])" by (rule Finish_sent [OF run_sent])
qed

lemma sample_runs:
  "drip_step\<^sup>*\<^sup>* sample_run (run_submitted, [])" "drip_step\<^sup>*\<^sup>* sample_run (run_sent, [])"
  "drip_step\<^sup>*\<^sup>* (run_submitted, []) (run_sent, [])"
  using sample_steps by (meson rtranclp.rtrancl_into_rtrancl rtranclp.rtrancl_refl)+

lemma run_deliveries:
  "map dlv_pk (deliveries (drip run_submitted)) = [21]" "map dlv_status (deliveries (drip run_submitted)) = [D_Sending]"
  "map dlv_pk (deliveries (drip run_sent)) = [21]" "map dlv_status (deliveries (drip run_sent)) = [D_Sent]"
  by code_simp+

theorem drip_submitted_once_witness:
  "untouched sample_run \<and> drip_step\<^sup>*\<^sup>* sample_run (run_sent, []) \<and>
   (\<exists>d \<in> set (deliveries (drip run_sent)). dlv_status d = D_Sent \<and> length (submissions (dlv_pk d) run_sent) = 1 \<and>
      \<not> startable_task [] (tasks (drip run_sent)) d)"
proof -
  obtain d where d: "deliveries (drip run_sent) = [d]" "dlv_pk d = 21" "dlv_status d = D_Sent" using run_deliveries(3,4) by auto
  have "length (submissions (dlv_pk d) run_sent) = 1" by (simp add: submissions_def run_attempts submitted_def d(2))
  then show ?thesis
    using drip_submitted_once [OF sample_untouched sample_runs(2), of d] d sample_untouched sample_runs(2)
    by (auto simp flip: length_0_conv)
qed

theorem drip_ledger_final_witness:
  "untouched sample_run \<and> drip_step\<^sup>*\<^sup>* sample_run (run_submitted, []) \<and> drip_step\<^sup>*\<^sup>* (run_submitted, []) (run_sent, []) \<and>
   ledger_extends (attempts run_submitted) (attempts run_sent) \<and> attempts run_submitted \<noteq> attempts run_sent"
  using drip_ledger_final [OF sample_untouched sample_runs(1,3)] sample_untouched sample_runs(1,3)
    by (auto simp: run_attempts)

theorem submission_guarded_witness:
  "\<exists>a \<in> set (attempts run_submitted). submitted a \<and> att_delivery a = 21 \<and> clear_to_send 21 (drip run_reserved)"
proof -
  obtain a where a: "attempts run_submitted = [a]" "att_delivery a = 21" "submitted a" by (simp add: run_attempts submitted_def)
  have "clear_to_send (att_delivery a) (drip (fst (run_reserved, [] :: int list)))"
    by (rule submission_guarded [OF sample_untouched sample_steps(1,2)]) (use a in \<open>simp_all add: run_attempts submitted_def\<close>)
  then show ?thesis using a by simp
qed

theorem submission_in_order_witness:
  "submission_callback sample_send_env 52 31 sample_reservation run_reserved = Inr ('''', run_submitted) \<and>
   (\<exists>d \<in> set (deliveries (drip run_reserved)). \<exists>l \<in> set (lanes (drip run_reserved)). \<exists>e \<in> set (enrollments (drip run_reserved)).
      dlv_pk d = 21 \<and> dlv_lane d = lane_pk l \<and> dlv_scheduled_at d \<le> 52 \<and>
      dlv_step_index d < length (frozen_steps e l (drip run_reserved) (dlv_theme_index d)))"
proof -
  obtain a where a: "attempts run_submitted = [a]" "submitted a" by (simp add: run_attempts submitted_def)
  have "distinct (map att_pk (attempts run_reserved))" "\<forall>x \<in> set (attempts run_reserved). att_pk x = att_pk a \<longrightarrow> \<not> submitted x"
    by (simp_all add: run_attempts submitted_def)
  from submission_in_order [OF run_submitted this(1) _ a(2) this(2)] a(1) run_submitted show ?thesis
    by (auto simp: Let_def sample_reservation_def)
qed

definition run_recovered :: runtime where
  "run_recovered = state_of (recover_stale_linkedin_delivery 60 21 run_reserved)"

lemma run_recovered: "recover_stale_linkedin_delivery 60 21 run_reserved = Inr (REQUEUED, run_recovered)"
  by code_simp

definition run_lost :: runtime where
  "run_lost = state_of (recover_stale_linkedin_delivery 60 21 run_submitted)"

lemma run_lost: "recover_stale_linkedin_delivery 60 21 run_submitted = Inr (UNCLEAR, run_lost)"
  by code_simp

text \<open>Recovered before the click the delivery is queued again, after it unclear, and once recorded it is left alone.\<close>

theorem recovery_settles_witness:
  "recover_stale_linkedin_delivery 60 21 run_reserved = Inr (REQUEUED, run_recovered) \<and> settled 21 D_Queued run_recovered \<and>
   submissions 21 run_recovered = [] \<and>
   recover_stale_linkedin_delivery 60 21 run_submitted = Inr (UNCLEAR, run_lost) \<and> settled 21 D_Unclear run_lost \<and>
   being_sent 21 run_submitted \<and> \<not> being_sent 21 run_sent"
proof -
  have sent: "recover_stale_linkedin_delivery 60 21 run_sent = Inr (NOOP, run_sent)" by code_simp
  show ?thesis
    using recovery_settles [OF sample_untouched sample_steps(1) run_recovered]
      recovery_settles [OF sample_untouched sample_runs(1) run_lost]
      recovery_settles [OF sample_untouched sample_runs(2) sent] run_recovered run_lost by simp
qed

end
