(* ===== verification/Drip_Handlers.thy ===== *)
theory Drip_Handlers
  imports Drip_Runs
begin

text \<open>
  The handlers of the two executors as a whole (\<open>handle_drip_linkedin\<close>, \<open>handle_drip_gmail\<close>): each call is a
  run of the steps of the drip machine, and what it leaves behind. A LinkedIn and a Gmail message are sent
  from end to end.
\<close>

section \<open>The handlers are runs\<close>

lemma send_once_state:
  assumes "send_direct_message_once pg urn cb s = (res, s')"
  shows "s' = s \<or> s' = snd (cb s)"
  using assms unfolding send_direct_message_once_def
  by (auto split: if_splits page_event.splits prod.splits sum.splits)

lemma send_message_state:
  assumes "send_message digest make_msgid svc c p content cb s = (res, s')"
  shows "s' = s \<or> s' = snd (cb s)"
  using assms unfolding send_message_def Let_def
  by (auto split: if_splits option.splits prod.splits sum.splits)

lemma callback_steps: "drip_step\<^sup>*\<^sup>* (rt, cl) (snd (run_callback m k r rt), cl)"
  by (cases "submission_callback (fst m) (snd m) k r rt")
    (auto simp del: split_paired_All split_paired_Ex simp: run_callback_def commit_def intro!: r_into_rtranclp [of drip_step] Submit)

lemma stamp_steps: "drip_step\<^sup>*\<^sup>* (rt, cl) (snd (commit_stamp m r rt), cl)"
  by (cases "stamp_submission_attempt (fst m) (snd m) r rt") (auto simp: commit_stamp_def intro!: r_into_rtranclp [of drip_step] Mail_stamp)

lemma commit_unit_steps:
  "(\<And>rt'. x = Inr rt' \<Longrightarrow> drip_step (rt, cl) (rt', cl)) \<Longrightarrow> drip_step\<^sup>*\<^sup>* (rt, cl) (snd (commit_unit rt x), cl)"
  by (cases x) (auto simp: commit_unit_def)

lemma finish_raised_state:
  "snd (finish_raised now r e rt) \<in> {rt, snd (commit_unit rt (finish_pre_submit_failure now r (error_detail e) rt)),
     snd (commit_unit rt (finish_unclear now r (error_detail e) rt))}"
  by (simp add: finish_raised_def split_beta split: sum.split)

lemma finish_result_steps: "drip_step\<^sup>*\<^sup>* (rt, cl) (snd (finish_result m k r res rt), cl)"
proof -
  have pre: "drip_step\<^sup>*\<^sup>* (rt, cl) (snd (commit_unit rt (finish_pre_submit_failure now r s rt)), cl)" for s now
    by (rule commit_unit_steps) (auto simp: finish_pre_submit_failure_def intro: Finish_unsubmitted)
  have unclear: "drip_step\<^sup>*\<^sup>* (rt, cl) (snd (commit_unit rt (finish_unclear now r s rt)), cl)" for s now
    by (rule commit_unit_steps) (rule Finish_unclear)
  have sent: "drip_step\<^sup>*\<^sup>* (rt, cl) (snd (commit_unit rt (finish_sent (fst m) (snd m) k r rt)), cl)"
    by (rule commit_unit_steps) (rule Finish_sent)
  have raised: "drip_step\<^sup>*\<^sup>* (rt, cl) (snd (finish_raised now r e rt), cl)" for e now
    using finish_raised_state [of now r e rt] pre [of now _] unclear [of now _] by auto
  show ?thesis using pre unclear sent raised by (auto simp: finish_result_def split: sum.splits message_result.splits)
qed

lemma linkedin_handler_run:
  assumes "task_pk t \<in> set cl"
  shows "drip_step\<^sup>*\<^sup>* (rt, cl) (snd (handle_drip_linkedin m1 m2 m3 pg t rt), removeAll (task_pk t) cl)"
proof -
  let ?cl = "removeAll (task_pk t) cl"
  show "drip_step\<^sup>*\<^sup>* (rt, cl) (snd (handle_drip_linkedin m1 m2 m3 pg t rt), ?cl)"
  proof (cases "reserve_delivery (fst m1) (snd m1) t rt")
    case (Inl e)
    then show ?thesis using Refused [of rt cl] by (auto simp: handle_drip_linkedin_def commit_def)
  next
    case (Inr x)
    obtain r rt1 where x: "x = (r, rt1)" by fastforce
    have first: "drip_step (rt, cl) (rt1, ?cl)" by (rule Reserve [OF assms]) (use Inr x in simp)
    show ?thesis
    proof (cases r)
      case None
      then show ?thesis using Inr x first by (auto simp: handle_drip_linkedin_def commit_def)
    next
      case (Some r)
      obtain res rt2 where send: "send_direct_message_once pg (res_urn r) (run_callback m2 (task_pk t) r) rt1 = (res, rt2)" by fastforce
      have "drip_step\<^sup>*\<^sup>* (rt1, ?cl) (rt2, ?cl)" using send_once_state [OF send] callback_steps [of rt1 ?cl m2 "task_pk t" r] by auto
      moreover have "drip_step\<^sup>*\<^sup>* (rt2, ?cl) (snd (finish_result m3 (task_pk t) r res rt2), ?cl)" by (rule finish_result_steps)
      ultimately show ?thesis using Inr x Some first send
        by (auto simp: handle_drip_linkedin_def commit_def intro: rtranclp_trans converse_rtranclp_into_rtranclp)
    qed
  qed
qed

lemma gmail_handler_run:
  assumes "task_pk t \<in> set cl"
  shows "drip_step\<^sup>*\<^sup>* (rt, cl) (snd (handle_drip_gmail digest make_msgid svc n1 n2 n3 t rt), removeAll (task_pk t) cl)"
proof -
  let ?cl = "removeAll (task_pk t) cl"
  show "drip_step\<^sup>*\<^sup>* (rt, cl) (snd (handle_drip_gmail digest make_msgid svc n1 n2 n3 t rt), ?cl)"
  proof (cases "reserve_attempt (fst n1) (snd n1) t rt")
    case (Inl e)
    then show ?thesis using Refused [of rt cl] by (auto simp: handle_drip_gmail_def commit_def)
  next
    case (Inr x)
    obtain r rt1 where x: "x = (r, rt1)" by fastforce
    have first: "drip_step (rt, cl) (rt1, ?cl)" by (rule Mail_reserve [OF assms]) (use Inr x in simp)
    show ?thesis
    proof (cases r)
      case None
      then show ?thesis using Inr x first by (auto simp: handle_drip_gmail_def commit_def)
    next
      case (Some r)
      obtain res rt2 where send: "send_reserved digest make_msgid svc n2 t r rt1 = (res, rt2)" by fastforce
      have "rt2 = rt1 \<or> rt2 = snd (commit_stamp n2 r rt1)"
        using send unfolding send_reserved_def
        by (auto split: sum.splits prod.splits if_splits dest!: send_message_state)
      then have "drip_step\<^sup>*\<^sup>* (rt1, ?cl) (rt2, ?cl)" using stamp_steps [of rt1 ?cl n2 r] by auto
      moreover have "drip_step\<^sup>*\<^sup>* (rt2, ?cl) (snd (handle_drip_gmail digest make_msgid svc n1 n2 n3 t rt), ?cl)"
        using Inr x Some send
        by (auto simp: handle_drip_gmail_def commit_def Let_def split: sum.splits intro: Mail_success Mail_failure)
      ultimately show ?thesis using first by (auto intro: rtranclp_trans converse_rtranclp_into_rtranclp)
    qed
  qed
qed

text \<open>
  C11: the handlers are runs. Whatever the page and the provider do, whatever the session and the facts are at
  each transaction, and wherever an exception stops it, a whole call of the LinkedIn handler or of the Gmail
  handler for a claimed task is a run of the steps that the other theorems are about, and uses up the claim.
\<close>

theorem handlers_are_runs:
  assumes "task_pk t \<in> set cl" and "task_pk u \<in> set cl"
  shows "drip_step\<^sup>*\<^sup>* (rt, cl) (snd (handle_drip_linkedin m1 m2 m3 pg t rt), removeAll (task_pk t) cl) \<and>
    drip_step\<^sup>*\<^sup>* (qt, cl) (snd (handle_drip_gmail digest make_msgid svc n1 n2 n3 u qt), removeAll (task_pk u) cl)"
  using linkedin_handler_run [OF assms(1)] gmail_handler_run [OF assms(2)] by blast

section \<open>A handler leaves nothing open\<close>

definition open_ids :: "runtime \<Rightarrow> int set" where
  "open_ids rt = att_pk ` set (filter open_attempt (attempts rt))"

lemma attempt_change_opens:
  assumes "attempt_change rt (attempts rt')" and "att_seq rt' = att_seq rt" and "books_ok cl rt'"
  shows "open_ids rt' \<subseteq> open_ids rt"
  using assms(1)
proof cases
  case (Added k)
  then have "reserved_row k rt \<in> set (attempts rt')" by (simp add: attempts_add)
  then have "att_pk (reserved_row k rt) \<le> att_seq rt'" using books_okD(3) [OF assms(3)] unfolding attempt_ok_def by blast
  then show ?thesis using assms(2) by simp
next
  case (Ended a out detail now)
  then show ?thesis by (auto simp: open_ids_def edit_attempt_def open_attempt_def finish_attempt_def)
next
  case (Stamped a now)
  then show ?thesis by (auto simp: open_ids_def edit_attempt_def open_attempt_def image_iff) 
qed (simp add: open_ids_def)

lemma row_seq [simp]: "att_seq (on_drip f rt) = att_seq rt" "att_seq (edit_attempt k h rt) = att_seq rt"
  by (simp_all add: on_drip_def edit_attempt_def)

lemma callback_seq: "submission_callback env now k r rt = Inr (reason, rt') \<Longrightarrow> att_seq rt' = att_seq rt"
  by (erule callback_cases) (auto simp: closes_def)

lemma unclear_seq [simp]: "att_seq (finish_unclear_locked g a detail now rt) = att_seq rt"
  by (simp add: finish_unclear_locked_def)

lemma unclear_finish_seq: "finish_unclear now r detail rt = Inr rt' \<Longrightarrow> att_seq rt' = att_seq rt"
  by (auto simp: finish_unclear_def)

lemma unsubmitted_seq: "finish_unsubmitted pauses late now r detail rt = Inr rt' \<Longrightarrow> att_seq rt' = att_seq rt"
  by (auto simp: finish_unsubmitted_def Let_def split: if_splits)

lemma recorded_seq: "finish_sent_recorded env now r g a rt = Inr rt' \<Longrightarrow> att_seq rt' = att_seq rt"
proof -
  assume run: "finish_sent_recorded env now r g a rt = Inr rt'"
  then obtain m rt1 where m: "outbound_message_row g rt = Inr (m, rt1)" by (auto simp: finish_sent_recorded_def)
  have "att_seq rt1 = att_seq rt" using m by (auto simp: outbound_message_row_def Let_def split: option.splits if_splits)
  then show ?thesis using run m by (auto simp: finish_sent_recorded_def Let_def split: if_splits)
qed

lemma sent_seq: "finish_sent env now k r rt = Inr rt' \<Longrightarrow> att_seq rt' = att_seq rt"
  unfolding finish_sent_def by (auto simp: Let_def dest: recorded_seq split: if_splits)


lemma lock_attempt_unique:
  assumes "lock_attempt k d rt = Inr a" and "distinct (map att_pk (attempts rt))" and "x \<in> set (attempts rt)" and "att_pk x = k"
  shows "x = a"
  using pk_determines [OF assms(2,3) lock_attemptD(1) [OF assms(1)]] lock_attemptD [OF assms(1)] assms(4) by simp

lemma ended_not_open:
  assumes "attempts rt' = attempts (edit_attempt (att_pk a) (finish_attempt out detail now) rt)" and "att_pk a = k"
  shows "k \<notin> open_ids rt'"
proof
  assume "k \<in> open_ids rt'"
  then obtain y where "y \<in> set (attempts rt')" "att_pk y = k" "open_attempt y" unfolding open_ids_def by auto
  then show False unfolding assms(1) assms(2) [symmetric] edit_attempt_def by (auto split: if_splits)
qed

lemma same_not_open:
  assumes "lock_attempt k d rt = Inr a" and "\<not> open_attempt a" and "distinct (map att_pk (attempts rt))"
  shows "k \<notin> open_ids rt"
  using lock_attempt_unique [OF assms(1,3)] assms(2) by (auto simp: open_ids_def)

lemma unclear_closes:
  assumes run: "finish_unclear now r detail rt = Inr rt'" and ok: "books_ok cl rt"
  shows "res_attempt r \<notin> open_ids rt'"
proof -
  obtain g a where a: "lock_attempt (res_attempt r) (res_delivery r) rt = Inr a"
    and rt': "rt' = (if \<not> open_attempt a then rt else finish_unclear_locked g a detail now rt)"
    using run by (auto simp: finish_unclear_def)
  show ?thesis
  proof (cases "open_attempt a")
    case True
    then show ?thesis using rt' ended_not_open [of rt' a Att_unclear detail now rt] lock_attemptD(2) [OF a]
      by (simp add: finish_unclear_locked_def)
  qed (use rt' same_not_open [OF a _ books_okD(2) [OF ok]] in simp)
qed

lemma unsubmitted_closes:
  assumes run: "finish_unsubmitted pauses late now r detail rt = Inr rt'" and ok: "books_ok cl rt"
  shows "res_attempt r \<notin> open_ids rt'"
proof -
  obtain g a where g: "lock_delivery_graph (res_delivery r) (drip rt) = Inr g" and a: "lock_attempt (res_attempt r) (res_delivery r) rt = Inr a"
    using run by (auto simp: finish_unsubmitted_def)
  consider "rt' = rt" "\<not> open_attempt a"
    | "attempts rt' = attempts (edit_attempt (att_pk a) (finish_attempt Att_unclear (late @ detail) now) rt)"
    | "attempts rt' = attempts (edit_attempt (att_pk a) (finish_attempt Not_submitted detail now) rt)"
    using run unfolding finish_unsubmitted_def g a by (auto simp: Let_def finish_unclear_locked_def split: if_splits)
  then show ?thesis
    using same_not_open [OF a _ books_okD(2) [OF ok]] ended_not_open lock_attemptD(2) [OF a] by cases blast+
qed

lemma sent_closes:
  assumes run: "finish_sent env now k r rt = Inr rt'" and ok: "books_ok cl rt"
  shows "res_attempt r \<notin> open_ids rt'"
proof -
  obtain g a where g: "lock_delivery_graph (res_delivery r) (drip rt) = Inr g" and a: "lock_attempt (res_attempt r) (res_delivery r) rt = Inr a"
    using run by (auto simp: finish_sent_def)
  note am = lock_attemptD [OF a]
  consider "rt' = rt" "dlv_status (g_delivery g) = D_Sent"
    | "dlv_status (g_delivery g) \<noteq> D_Sent" "attempts rt' = attempts (edit_attempt (att_pk a)
         (finish_attempt Att_unclear ''send reported success without a committed submit boundary'' now) rt)"
    | "dlv_status (g_delivery g) \<noteq> D_Sent" "finish_sent_recorded env now r g a rt = Inr rt'"
    using run unfolding finish_sent_def g a
    by (cases "dlv_status (g_delivery g) = D_Sent") (auto simp: Let_def split: if_splits)
  then show ?thesis
  proof cases
    case 1
    note d = lock_graphD(1,2) [OF g]
    have "\<not> open_attempt a"
    proof
      assume "open_attempt a"
      then have "a \<in> set (blockers (dlv_pk (g_delivery g)) (attempts rt))"
        using am d(2) by (simp add: blockers_def blocking_def)
      then show False using books_okD(5) [OF ok d(1)] 1(2) \<open>open_attempt a\<close> by (auto simp: book_def status_agrees_def)
    qed
    then show ?thesis using same_not_open [OF a _ books_okD(2) [OF ok]] 1(1) by simp
  next
    case 2
    then show ?thesis using ended_not_open [OF 2(2)] am(2) by blast
  next
    case 3
    then obtain m rt1 where m: "outbound_message_row g rt = Inr (m, rt1)" by (auto simp: finish_sent_recorded_def)
    have "attempts rt1 = attempts rt"
      using m by (auto simp: outbound_message_row_def Let_def split: option.splits if_splits)
    then have "attempts rt' = attempts (edit_attempt (att_pk a) (finish_attempt Att_sent '''' now) rt)"
      using 3(2) m unfolding finish_sent_recorded_def by (auto simp: Let_def edit_attempt_def split: if_splits)
    then show ?thesis using ended_not_open am(2) by blast
  qed
qed


lemma reserve_opens:
  assumes run: "reserve_delivery env now t rt = Inr (r, rt')"
  shows "open_ids rt' \<subseteq> open_ids rt \<union> (case r of None \<Rightarrow> {} | Some r \<Rightarrow> {res_attempt r})"
  using run
proof (rule reserve_cases)
  fix k locked and g :: graph
  let ?reason = "lead_automation_stop_reason (send_facts env) (enr_lead (g_enrollment g)) (drip rt)"
  let ?guard = "execution_guard env locked g now D_Queued '''' '''' (drip rt)"
  assume "rt' = on_drip (stop_enrollment_locked (enr_pk (g_enrollment g)) ?reason now) rt \<or>
      (\<exists>f. ?guard = Inr (Some f) \<and> rt' = on_drip (release_for_guard g f) rt) \<or>
      (?guard = Inr None \<and> reserve_locked env g rt = Inr (r, rt'))"
  then have "attempts rt' = attempts rt \<or>
      (\<exists>k r'. attempts rt' = attempts rt @ [reserved_row k rt] \<and> r = Some r' \<and> res_attempt r' = att_seq rt + 1)"
    by (auto simp: reserve_locked_def attempts_add Let_def split: if_splits option.splits)
  then show ?thesis by (auto simp: open_ids_def)
qed

lemma commit_unit_Inr: "commit_unit rt x = (Inr (), rt') \<longleftrightarrow> x = Inr rt'"
  by (cases x) (auto simp: commit_unit_def)

lemma finish_result_closes:
  assumes run: "finish_result m k r res rt = (Inr (), rt')" and ok: "books_ok cl rt"
  shows "open_ids rt' \<subseteq> open_ids rt - {res_attempt r}"
proof -
  have ok': "books_ok cl rt'"
    using drip_run.inv_reach [OF finish_result_steps [of rt cl m k r res]] run ok by simp
  have "attempt_change rt (attempts rt') \<and> att_seq rt' = att_seq rt \<and> res_attempt r \<notin> open_ids rt'"
  proof (cases res)
    case (Inl e)
    then show ?thesis using run by (auto simp: finish_result_def finish_raised_def split: sum.splits prod.splits)
  next
    case (Inr x)
    show ?thesis
    proof (cases x)
      case Message_sent
      then have "finish_sent (fst m) (snd m) k r rt = Inr rt'" using run Inr by (simp add: finish_result_def commit_unit_Inr)
      then show ?thesis using sent_change sent_seq sent_closes [OF _ ok] by blast
    next
      case (Pre_submit_failed s)
      then have "finish_pre_submit_failure (snd m) r s rt = Inr rt'" using run Inr by (simp add: finish_result_def commit_unit_Inr)
      then show ?thesis
        unfolding finish_pre_submit_failure_def using unsubmitted_change unsubmitted_seq unsubmitted_closes [OF _ ok] by blast
    next
      case (Message_unclear s)
      then have "finish_unclear (snd m) r s rt = Inr rt'" using run Inr by (simp add: finish_result_def commit_unit_Inr)
      then show ?thesis using unclear_change unclear_finish_seq unclear_closes [OF _ ok] by blast
    qed
  qed
  then show ?thesis using attempt_change_opens [OF _ _ ok'] by blast
qed

lemma callback_opens:
  assumes "books_ok cl rt"
  shows "open_ids (snd (run_callback m k r rt)) \<subseteq> open_ids rt"
proof (cases "submission_callback (fst m) (snd m) k r rt")
  case (Inr x)
  then obtain s rt' where x: "submission_callback (fst m) (snd m) k r rt = Inr (s, rt')" by (cases x) auto
  have "books_ok cl rt'" using drip_step_ledger [OF Submit [OF x]] assms by simp
  from attempt_change_opens [OF callback_change [OF x] callback_seq [OF x] this] show ?thesis using x by (simp add: run_callback_def commit_def)
qed (simp add: run_callback_def commit_def)

text \<open>
  C33: a finished handler leaves nothing open. When the LinkedIn handler returns, in any state that a run
  reaches, every attempt it reserved is finished: an attempt that is open afterwards was already open before.
\<close>

theorem handler_settles:
  assumes "untouched s0" and "drip_step\<^sup>*\<^sup>* s0 (rt, cl)" and "task_pk t \<in> set cl"
    and "handle_drip_linkedin m1 m2 m3 pg t rt = (Inr (), rt')"
  shows "open_ids rt' \<subseteq> open_ids rt"
proof -
  have ok: "books_ok cl rt" using drip_run.inv_reach [OF assms(2) untouched_books [OF assms(1)]] by simp
  let ?cl = "removeAll (task_pk t) cl"
  obtain r rt1 where reserve: "reserve_delivery (fst m1) (snd m1) t rt = Inr (r, rt1)"
    using assms(4) by (auto simp: handle_drip_linkedin_def commit_def split: sum.splits)
  note opens = reserve_opens [OF reserve]
  have ok1: "books_ok ?cl rt1" using drip_step_ledger [OF Reserve [OF assms(3) reserve]] ok by simp
  show ?thesis
  proof (cases r)
    case None
    then show ?thesis using assms(4) reserve opens by (auto simp: handle_drip_linkedin_def commit_def)
  next
    case (Some r)
    obtain res rt2 where send: "send_direct_message_once pg (res_urn r) (run_callback m2 (task_pk t) r) rt1 = (res, rt2)" by fastforce
    have rt2: "rt2 = rt1 \<or> rt2 = snd (run_callback m2 (task_pk t) r rt1)" by (rule send_once_state [OF send])
    then have "open_ids rt2 \<subseteq> open_ids rt1" using callback_opens [OF ok1, of m2 "task_pk t" r] by auto
    moreover have "drip_step\<^sup>*\<^sup>* (rt1, ?cl) (rt2, ?cl)" using rt2 callback_steps [of rt1 ?cl m2 "task_pk t" r] by auto
    from drip_run.inv_reach [OF this] ok1 have "books_ok ?cl rt2" by simp
    moreover have "finish_result m3 (task_pk t) r res rt2 = (Inr (), rt')"
      using assms(4) reserve Some send by (simp add: handle_drip_linkedin_def commit_def)
    ultimately show ?thesis using finish_result_closes opens Some by fastforce
  qed
qed

section \<open>Calls\<close>

text \<open>The same enrollment with a due mail of the mailbox of \<open>Arian\<close>.\<close>

definition sample_mail_manifest :: manifest where
  "sample_mail_manifest = [(''founders'', [\<lparr>theme_key = ''intro'', theme_senders = [(''Arian'',
     [(Gmail_lane, [\<lparr>step_delay = 5, step_subject = ''s'', step_body = ''hi''\<rparr>])])]\<rparr>])]"

definition sample_mail_lane :: drip_lane where
  "sample_mail_lane = (sample_lane 12 1 Gmail_lane)\<lparr>lane_operator := ''Arian'', provider_account := ''arian_boundera'',
     sender_identity := ''ariant@getboundera.com'', recipient_identity := ''r@x.io'',
     current_sequence_status := Seq_Not_applicable\<rparr>"

definition sample_mail :: drip_delivery where
  "sample_mail = (sample_delivery 21 12 31)\<lparr>dlv_subject := ''s'', dlv_account := ''arian_boundera''\<rparr>"

definition sample_mail_task :: task where
  "sample_mail_task = (drip_task sample_mail sample_mail_lane 25 31)\<lparr>task_status := RUNNING, task_started_at := Some 50\<rparr>"

definition sample_mails :: runtime where
  "sample_mails = \<lparr>drip = sample_drips\<lparr>deliveries := [sample_mail], lanes := [sample_mail_lane], tasks := [sample_mail_task],
     enrollments := [sample_enrollment 1 7], versions := [(1, sample_mail_manifest)], messages := []\<rparr>,
     attempts = [], att_seq = 0, msg_seq = 0, recorded_actions = []\<rparr>"

definition sample_mail_env :: mail_env where
  "sample_mail_env =
     \<lparr>mail_facts = \<lparr>disqualified = (\<lambda>_. False), suppression = (\<lambda>_. None), has_meeting = (\<lambda>_. False)\<rparr>,
      lead_email = (\<lambda>_. ''r@x.io''), tracked_links = [], link_clean = (\<lambda>_. True), hex_digest = id\<rparr>"

definition sample_provider :: provider where
  "sample_provider =
     \<lparr>credentials = (\<lambda>_. Inr ()), alias_reply = Inr [\<lparr>alias_email = ''ariant@getboundera.com'', alias_default = True, alias_status = ''accepted''\<rparr>,
        \<lparr>alias_email = ''ariant@boundera.io'', alias_default = False, alias_status = ''verified''\<rparr>],
      send_reply = Inr (''m1'', ''t1''),
      metadata_reply = (\<lambda>_. Inr \<lparr>stored_id = ''m1'', stored_thread = ''t1'',
        stored_headers = [\<lparr>header_name = ''Message-ID'', header_value = ''<a@b.c>''\<rparr>]\<rparr>)\<rparr>"

definition sample_mail_run :: "(drip_error, unit) result \<times> runtime" where
  "sample_mail_run = handle_drip_gmail content_body id sample_provider (sample_mail_env, 51) (sample_mail_env, 52) (sample_mail_env, 53)
     sample_mail_task sample_mails"

definition sample_page :: page where
  "sample_page = \<lparr>page_compose = Page_ok, page_click = Page_ok\<rparr>"

definition sample_link_run :: "(drip_error, unit) result \<times> runtime" where
  "sample_link_run = handle_drip_linkedin (sample_send_env, 51) (sample_send_env, 52) (sample_send_env, 53) sample_page sample_task run_claimed"

lemma sample_calls:
  "fst sample_link_run = Inr ()" "map att_outcome (attempts (snd sample_link_run)) = [Att_sent]"
  "fst sample_mail_run = Inr ()" "map att_outcome (attempts (snd sample_mail_run)) = [Att_sent]"
  "task_pk sample_task = 31" "task_pk sample_mail_task = 31"
  by code_simp+

theorem handlers_are_runs_witness:
  "drip_step\<^sup>*\<^sup>* (run_claimed, [31]) (snd sample_link_run, []) \<and> drip_step\<^sup>*\<^sup>* (sample_mails, [31]) (snd sample_mail_run, []) \<and>
   map att_outcome (attempts (snd sample_link_run)) = [Att_sent] \<and> map att_outcome (attempts (snd sample_mail_run)) = [Att_sent]"
  using handlers_are_runs [of sample_task "[31]" sample_mail_task run_claimed "(sample_send_env, 51)" "(sample_send_env, 52)"
      "(sample_send_env, 53)" sample_page sample_mails content_body id sample_provider "(sample_mail_env, 51)" "(sample_mail_env, 52)"
      "(sample_mail_env, 53)"]
  by (simp add: sample_calls sample_link_run_def [symmetric] sample_mail_run_def [symmetric])

theorem handler_settles_witness:
  "sample_link_run = (Inr (), snd sample_link_run) \<and> open_ids (snd sample_link_run) = {} \<and> attempts (snd sample_link_run) \<noteq> []"
proof -
  have claimed: "drip_step\<^sup>*\<^sup>* sample_run (run_claimed, [31])"
    using sample_steps(4) by simp
  have run: "sample_link_run = (Inr (), snd sample_link_run)" using sample_calls(1) by (metis prod.collapse)
  then have "open_ids (snd sample_link_run) \<subseteq> open_ids run_claimed"
    using handler_settles [OF sample_untouched claimed _ run [unfolded sample_link_run_def]] sample_calls(5)
    by (simp add: sample_link_run_def)
  moreover have "open_ids run_claimed = {}" by (simp add: open_ids_def run_claimed_def sample_run_def)
  moreover have "attempts (snd sample_link_run) \<noteq> []" using sample_calls(2) by force
  ultimately show ?thesis using run by simp
qed

section \<open>A stop beside a send\<close>

text \<open>
  C38: a stop by the LinkedIn executor loses a mail that is being sent. It marks every delivery of the enrollment
  that is being sent as stopped, so that, whatever Gmail answered, the success of the mail cannot be
  recorded: the mail has gone out, and no outbound message is stored for it.
\<close>

theorem sibling_stop_loses_mail:
  assumes "drip_ok (drip rt)" and "lock_delivery_graph (mres_delivery r) (drip rt) = Inr g" and "dlv_status (g_delivery g) = D_Sending"
  shows "isl (record_success later r res (on_drip (stop_enrollment_locked (enr_pk (g_enrollment g)) reason now) rt))"
proof -
  let ?k = "enr_pk (g_enrollment g)"
  let ?db = "stop_enrollment_locked ?k reason now (drip rt)"
  let ?ids = "map lane_pk (filter (\<lambda>l. lane_enrollment l = ?k) (lanes (drip rt)))"
  note row = lock_graphD [OF assms(2)]
  have stopped: "dlv_status d = D_Stopped" if d: "d \<in> set (deliveries ?db)" "dlv_pk d = mres_delivery r" for d
  proof -
    obtain y where y: "y \<in> set (deliveries (drip rt))" "d = (if stoppable ?ids y then set_delivery_status D_Stopped y else y)"
      using d(1) by (auto simp: stop_enrollment_locked_def Let_def retire_tasks_def set_enrollment_def)
    then have "dlv_pk y = mres_delivery r" using d(2) by (auto split: if_splits)
    then have "y = g_delivery g" using pk_determines [OF drip_okD(2) [OF assms(1)] y(1) row(1)] row(2) by simp
    moreover have "dlv_lane (g_delivery g) \<in> set ?ids" using row(3,4,6) by (auto intro!: image_eqI [of _ _ "g_lane g"])
    ultimately show ?thesis using y(2) assms(3) by (simp add: stoppable_def)
  qed
  show ?thesis
  proof (cases "lock_delivery_graph (mres_delivery r) ?db")
    case (Inl e)
    then show ?thesis by (simp add: record_success_def on_drip_def)
  next
    case (Inr g')
    have "dlv_status (g_delivery g') = D_Stopped" using stopped lock_graphD(1,2) [OF Inr] by blast
    then show ?thesis using Inr by (cases "lock_attempt (mres_attempt r) (mres_delivery r) rt")
        (simp_all add: record_success_def on_drip_def lock_attempt_def)
  qed
qed

definition run_mailing :: "(drip_error, mail_reservation \<times> runtime) result" where
  "run_mailing = bind_result (reserve_attempt sample_mail_env 51 sample_mail_task sample_mails) (\<lambda>(r, rt).
     case r of
       None \<Rightarrow> Inl Drip_KeyError
     | Some r \<Rightarrow> bind_result (stamp_submission_attempt sample_mail_env 52 r rt) (\<lambda>rt. Inr (r, rt)))"

definition mailing :: runtime where
  "mailing = (case run_mailing of Inl _ \<Rightarrow> sample_mails | Inr (_, rt) \<Rightarrow> rt)"

definition mail_sent :: mail_reservation where
  "mail_sent = (case run_mailing of Inr (r, _) \<Rightarrow> r | Inl _ \<Rightarrow> mail_reservation_of sample_mail_env 31 '''' (projr (lock_delivery_graph 21 (drip sample_mails)))
     \<lparr>gmail_account = '''', send_as = '''', reply_to = ''''\<rparr> \<lparr>ctx_thread = '''', ctx_subject = '''', ctx_parent = '''', ctx_references = []\<rparr> [] 0)"

lemma mailing_state:
  "map dlv_status (deliveries (drip mailing)) = [D_Sending]" "map submitted (attempts mailing) = [True]" "mres_delivery mail_sent = 21"
  "lock_delivery_graph 21 (drip mailing) =
     Inr \<lparr>g_enrollment = sample_enrollment 1 7, g_lane = sample_mail_lane, g_delivery = set_delivery_status D_Sending sample_mail\<rparr>"
  by code_simp+

lemma mailing_drip: "drip mailing = drip sample_mails\<lparr>deliveries := [set_delivery_status D_Sending sample_mail]\<rparr>"
  by code_simp

lemma mailing_ok: "drip_ok (drip mailing)"
  unfolding mailing_drip
  by (simp add: drip_ok_def one_to_one_def sample_mails_def sample_mail_def sample_mail_lane_def sample_mail_task_def sample_defs
      normal_lane_def set_delivery_status_def) code_simp

lemma mailing_failed:
  "case record_failure sample_mail_env 55 mail_sent (Drip_ValueError ''cannot finalize'')
      (on_drip (stop_enrollment_locked 1 ''Lead replied; automation stopped'' 53) mailing) of
     Inl _ \<Rightarrow> False
   | Inr rt \<Rightarrow> map dlv_status (deliveries (drip rt)) = [D_Unclear] \<and> map att_outcome (attempts rt) = [Att_unclear] \<and> messages (drip rt) = []"
  by code_simp

theorem sibling_stop_loses_mail_witness:
  "map submitted (attempts mailing) = [True] \<and>
   isl (record_success 54 mail_sent \<lparr>result_message_id = ''m1'', result_thread_id = ''t1'', result_rfc = ''<a@b.c>''\<rparr>
     (on_drip (stop_enrollment_locked 1 ''Lead replied; automation stopped'' 53) mailing))"
proof -
  let ?g = "\<lparr>g_enrollment = sample_enrollment 1 7, g_lane = sample_mail_lane, g_delivery = set_delivery_status D_Sending sample_mail\<rparr>"
  have "lock_delivery_graph (mres_delivery mail_sent) (drip mailing) = Inr ?g" "enr_pk (sample_enrollment 1 7) = 1"
    using mailing_state(3,4) by (simp_all add: sample_enrollment_def)
  then show ?thesis
    using sibling_stop_loses_mail [OF mailing_ok, of mail_sent ?g 54 _ "''Lead replied; automation stopped''" 53] mailing_state(2)
    by (simp add: set_delivery_status_def)
qed

end
