(* ===== verification/Drip_Takeover.thy ===== *)
theory Drip_Takeover
  imports Drip_Runs
begin

text \<open>
  What the controls of an operator achieve: below a paused or stopped row no message can be submitted and no
  task is pending, and what was stopped stays stopped under every later control.
\<close>

section \<open>What a control leaves of the rows\<close>

definition lane_row_keys :: "drip_db \<Rightarrow> (int \<times> int) list" where
  "lane_row_keys db = map (\<lambda>l. (lane_pk l, lane_enrollment l)) (lanes db)"

lemma retire_pending_frame [simp]:
  "lanes (snd (retire_pending_tasks stops ids now reason db)) = lanes db"
  "enrollments (snd (retire_pending_tasks stops ids now reason db)) = enrollments db"
  "campaigns (snd (retire_pending_tasks stops ids now reason db)) = campaigns db"
  "map dlv_pk (deliveries (snd (retire_pending_tasks stops ids now reason db))) = map dlv_pk (deliveries db)"
  by (simp_all add: retire_pending_tasks_def Let_def retire_tasks_def comp_def)

lemma change_frame [simp]:
  "lanes (change_enrollments Q h db) = lanes db" "enrollments (change_lanes P f db) = enrollments db"
  "campaigns (change_lanes P f db) = campaigns db" "campaigns (change_enrollments Q h db) = campaigns db"
  "deliveries (change_lanes P f db) = deliveries db" "deliveries (change_enrollments Q h db) = deliveries db"
  "tasks (change_lanes P f db) = tasks db" "tasks (change_enrollments Q h db) = tasks db"
  by (simp_all add: change_lanes_def change_enrollments_def)

lemma retire_origin:
  "d \<in> set (deliveries (snd (retire_pending_tasks stops ids now reason db))) \<Longrightarrow>
     \<exists>y \<in> set (deliveries db). d = (if dlv_lane y \<in> set ids then retire_delivery stops (pending_task_ids ids db) y else y)"
  by (auto simp: retire_pending_tasks_def Let_def retire_tasks_def)

lemma retire_stops:
  assumes "d \<in> set (deliveries (snd (retire_pending_tasks True ids now reason db)))" and "dlv_lane d \<in> set ids"
  shows "\<not> waiting_status (dlv_status d)"
proof -
  obtain y where "d = (if dlv_lane y \<in> set ids then retire_delivery True (pending_task_ids ids db) y else y)"
    using retire_origin [OF assms(1)] by blast
  with assms(2) have "d = retire_delivery True (pending_task_ids ids db) y" by (auto split: if_splits)
  then have "dlv_status d = (if waiting_status (dlv_status y) then D_Stopped else dlv_status y)" by (simp add: retire_delivery_status)
  then show ?thesis by (simp add: waiting_status_def)
qed

lemma retire_clears:
  assumes d: "d \<in> set (deliveries (snd (retire_pending_tasks stops ids now reason db)))" "dlv_lane d \<in> set ids" "current_task d = Some (task_pk t)"
    and t: "t \<in> set (tasks (snd (retire_pending_tasks stops ids now reason db)))"
  shows "task_status t \<noteq> PENDING"
proof
  assume pending: "task_status t = PENDING"
  let ?ids = "pending_task_ids ids db"
  obtain x where x: "x \<in> set (deliveries db)" "dlv_lane x \<in> set ids" "current_task x = Some (task_pk t)"
  proof -
    from retire_origin [OF d(1)] obtain y where y: "y \<in> set (deliveries db)"
        "d = (if dlv_lane y \<in> set ids then retire_delivery stops ?ids y else y)" by blast
    then have "dlv_lane y \<in> set ids" "current_task y = Some (task_pk t)"
      using d(2,3) retire_delivery_task [of stops ?ids y] by (auto split: if_splits)
    then show ?thesis using that y(1) by blast
  qed
  obtain u where u: "u \<in> set (tasks db)" "t = (if task_pk u \<in> set ?ids \<and> task_status u = PENDING then retire_task now reason u else u)"
    using t by (auto simp: retire_pending_tasks_def Let_def retire_tasks_def)
  then have "\<not> (task_pk u \<in> set ?ids \<and> task_status u = PENDING)" "t = u" using pending by (auto simp: retire_task_def split: if_splits)
  moreover have "task_pk u \<in> set ?ids" if "task_status u = PENDING" "t = u"
    using that x u(1) by (auto simp: pending_task_ids_def task_of_any_def list_ex_iff)
  ultimately show False using pending by blast
qed


lemma not_clearI:
  assumes "distinct (map dlv_pk (deliveries db))" and "d \<in> set (deliveries db)"
    and "\<And>l e. l \<in> set (lanes db) \<Longrightarrow> lane_pk l = dlv_lane d \<Longrightarrow> e \<in> set (enrollments db) \<Longrightarrow> enr_pk e = lane_enrollment l \<Longrightarrow>
      lane_status l = L_Active \<Longrightarrow> enr_status e = E_Active \<Longrightarrow> campaign_status e db = ''active'' \<Longrightarrow> False"
  shows "\<not> clear_to_send (dlv_pk d) db"
proof
  assume "clear_to_send (dlv_pk d) db"
  then obtain g where g: "lock_delivery_graph (dlv_pk d) db = Inr g" "controls_active g db" unfolding clear_to_send_def by blast
  note row = lock_graphD [OF g(1)]
  have "g_delivery g = d" using pk_determines [OF assms(1) row(1) assms(2) row(2)] .
  then show False using assms(3) [OF row(3) _ row(5,6)] row(4) g(2) by (simp add: controls_active_def)
qed

section \<open>Silence\<close>

text \<open>The lanes that a pause or a stop is about; a finished lane is left as it is.\<close>

fun silenced :: "control \<Rightarrow> drip_db \<Rightarrow> drip_lane \<Rightarrow> bool" where
  "silenced (Pause_campaigns sel) db l \<longleftrightarrow>
     (\<exists>e \<in> set (enrollments db). enr_pk e = lane_enrollment l \<and> enr_campaign e \<in> set sel \<and> campaign_status e db = ''active'')"
| "silenced (Pause_enrollments sel) db l \<longleftrightarrow> lane_enrollment l \<in> set sel"
| "silenced (Stop_enrollments user sel) db l \<longleftrightarrow> lane_enrollment l \<in> set sel"
| "silenced (Pause_lanes sel) db l \<longleftrightarrow> lane_pk l \<in> set sel \<and> nonterminal_lane l"
| "silenced (Stop_lanes user sel) db l \<longleftrightarrow> lane_pk l \<in> set sel \<and> lane_status l \<noteq> L_Completed"
| "silenced (Resume_campaigns v sel) db l \<longleftrightarrow> False"
| "silenced (Resume_enrollments sel) db l \<longleftrightarrow> False"
| "silenced (Resume_lanes sel) db l \<longleftrightarrow> False"

definition silent_lane :: "int \<Rightarrow> drip_db \<Rightarrow> bool" where
  "silent_lane k db \<longleftrightarrow>
     (\<forall>d \<in> set (deliveries db). dlv_lane d = k \<longrightarrow> \<not> clear_to_send (dlv_pk d) db \<and>
        (\<forall>t \<in> set (tasks db). current_task d = Some (task_pk t) \<longrightarrow> task_status t \<noteq> PENDING))"

lemma silent_after_retire:
  fixes a :: drip_db
  assumes "distinct (map dlv_pk (deliveries a))" and k: "k \<in> set ids"
    and out: "\<And>l e. l \<in> set (lanes a) \<Longrightarrow> lane_pk l = k \<Longrightarrow> e \<in> set (enrollments a) \<Longrightarrow> enr_pk e = lane_enrollment l \<Longrightarrow>
      lane_status l = L_Active \<Longrightarrow> enr_status e = E_Active \<Longrightarrow> False"
  shows "silent_lane k (snd (retire_pending_tasks stops ids now reason a))" (is "silent_lane k ?b")
  unfolding silent_lane_def
proof (intro ballI impI conjI)
  fix d assume d: "d \<in> set (deliveries ?b)" "dlv_lane d = k"
  show "\<not> clear_to_send (dlv_pk d) ?b" by (rule not_clearI [OF _ d(1)]) (use assms(1) out d(2) in auto)
  fix t assume t: "t \<in> set (tasks ?b)" "current_task d = Some (task_pk t)"
  show "task_status t \<noteq> PENDING" by (rule retire_clears [OF d(1) _ t(2,1)]) (use d(2) k in simp)
qed

lemma lane_kept:
  assumes "distinct (map lane_pk (lanes db))" and "l \<in> set (lanes db)" and "x \<in> set (lanes (change_lanes P f db))" and "lane_pk x = lane_pk l"
  shows "x = (if P l then normal_lane (set_lane_status (f l) l) else l)"
proof -
  obtain y where y: "y \<in> set (lanes db)" "x = (if P y then normal_lane (set_lane_status (f y) y) else y)"
    using assms(3) by (auto simp: change_lanes_def)
  then have "lane_pk y = lane_pk l" using assms(4) by (auto simp: normal_lane_def set_lane_status_def split: if_splits)
  then show ?thesis using pk_determines [OF assms(1) y(1) assms(2)] y(2) by simp
qed

lemma set_lane_fields [simp]:
  "lane_status (set_lane_status st l) = st" "lane_enrollment (set_lane_status st l) = lane_enrollment l"
  by (simp_all add: set_lane_status_def)

lemma normal_set_status [simp]: "lane_status (normal_lane (set_lane_status st l)) = st" "lane_enrollment (normal_lane (set_lane_status st l)) = lane_enrollment l"
  "lane_pk (normal_lane (set_lane_status st l)) = lane_pk l"
  by (simp_all add: normal_lane_def set_lane_status_def)

lemma change_lanes_pks [simp]: "map lane_pk (lanes (change_lanes P f db)) = map lane_pk (lanes db)"
  by (simp add: change_lanes_def)

lemma in_lanes_with:
  assumes "k \<in> set sel" and "k \<in> set (map lane_pk (lanes db))" and "\<And>x. x \<in> set (lanes db) \<Longrightarrow> lane_pk x = k \<Longrightarrow> lane_status x = st"
  shows "k \<in> set (lanes_with st sel db)"
  using assms by (auto simp: lanes_with_def)

lemma silent_pause_lanes:
  assumes ok: "drip_ok db" and l: "l \<in> set (lanes db)" "silenced (Pause_lanes sel) db l"
  shows "silent_lane (lane_pk l) (controlled (Pause_lanes sel) now db)"
proof -
  let ?P = "\<lambda>l. lane_pk l \<in> set sel \<and> lane_status l \<in> {L_Waiting_current, L_Waiting_connection, L_Active}"
  let ?a = "change_lanes ?P (\<lambda>_. L_Paused) db"
  note row = lane_kept [OF drip_okD(1) [OF ok] l(1), where P = ?P and f = "\<lambda>_. L_Paused"]
  have paused: "lane_status x = L_Paused" if "x \<in> set (lanes ?a)" "lane_pk x = lane_pk l" for x
    using row [OF that] l(2) by (auto simp: nonterminal_lane_def)
  have pk: "lane_pk l \<in> set (map lane_pk (lanes ?a))" unfolding change_lanes_pks using l(1) by simp
  have ids: "lane_pk l \<in> set (lanes_with L_Paused sel ?a)"
    by (rule in_lanes_with [OF _ pk paused]) (use l(2) in simp)
  have "silent_lane (lane_pk l) (snd (retire_pending_tasks False (lanes_with L_Paused sel ?a) now ''Drip lane paused in Admin'' ?a))"
  proof (rule silent_after_retire [OF _ ids])
    show "distinct (map dlv_pk (deliveries ?a))" using drip_okD(2) [OF ok] by simp
    fix x e assume "x \<in> set (lanes ?a)" "lane_pk x = lane_pk l" "lane_status x = L_Active"
    then show False using paused [of x] by simp
  qed
  then show ?thesis by (simp add: controlled_def pause_lanes_def Let_def case_prod_beta)
qed

lemma silent_takeover:
  assumes ok: "drip_ok db" and l: "l \<in> set (lanes db)" "silenced (Stop_lanes user sel) db l"
  shows "silent_lane (lane_pk l) (controlled (Stop_lanes user sel) now db)"
proof -
  let ?P = "\<lambda>l. lane_pk l \<in> set sel \<and> nonterminal_lane l"
  let ?a = "change_lanes ?P (\<lambda>_. L_Stopped) db"
  note row = lane_kept [OF drip_okD(1) [OF ok] l(1), where P = ?P and f = "\<lambda>_. L_Stopped"]
  have stopped: "lane_status x = L_Stopped" if "x \<in> set (lanes ?a)" "lane_pk x = lane_pk l" for x
    using row [OF that] l(2) by (cases "lane_status l") (auto simp: nonterminal_lane_def)
  have pk: "lane_pk l \<in> set (map lane_pk (lanes ?a))" unfolding change_lanes_pks using l(1) by simp
  have ids: "lane_pk l \<in> set (lanes_with L_Stopped sel ?a)"
    by (rule in_lanes_with [OF _ pk stopped]) (use l(2) in simp)
  have "silent_lane (lane_pk l) (snd (retire_pending_tasks True (lanes_with L_Stopped sel ?a) now (takeover_reason user) ?a))"
  proof (rule silent_after_retire [OF _ ids])
    show "distinct (map dlv_pk (deliveries ?a))" using drip_okD(2) [OF ok] by simp
    fix x e assume "x \<in> set (lanes ?a)" "lane_pk x = lane_pk l" "lane_status x = L_Active"
    then show False using stopped [of x] by simp
  qed
  then show ?thesis by (simp add: controlled_def takeover_lanes_def Let_def case_prod_beta)
qed

lemma enrollment_kept:
  "x \<in> set (enrollments (change_enrollments P f db)) \<Longrightarrow> \<exists>e \<in> set (enrollments db). x = (if P e then f e else e)"
  by (auto simp: change_enrollments_def)


lemma silent_pause_enrollments:
  assumes ok: "drip_ok db" and l: "l \<in> set (lanes db)" "lane_enrollment l \<in> set sel"
  shows "silent_lane (lane_pk l) (controlled (Pause_enrollments sel) now db)"
proof -
  let ?P = "\<lambda>e. enr_pk e \<in> set sel \<and> has_lane db e \<and> enr_status e \<in> {E_Waiting, E_Active}"
  let ?a = "change_enrollments ?P (\<lambda>e. e\<lparr>enr_status := E_Paused\<rparr>) db"
  let ?ids = "lanes_of_enrollments (\<lambda>k. k \<in> set sel) db"
  have out: False
    if x: "x \<in> set (lanes ?a)" "lane_pk x = lane_pk l" "e \<in> set (enrollments ?a)" "enr_pk e = lane_enrollment x" "enr_status e = E_Active" for x e
  proof -
    have "x = l" using pk_determines [OF drip_okD(1) [OF ok] _ l(1) x(2)] x(1) by simp
    obtain y where y: "y \<in> set (enrollments db)" "e = (if ?P y then y\<lparr>enr_status := E_Paused\<rparr> else y)" using enrollment_kept [OF x(3)] by blast
    then have "enr_pk y = lane_enrollment l" using x(4) \<open>x = l\<close> by (auto split: if_splits)
    then have "has_lane db y" "enr_pk y \<in> set sel" using l by (auto simp: has_lane_def list_ex_iff)
    then show False using y(2) x(5) by (auto split: if_splits)
  qed
  have "lane_pk l \<in> set ?ids" using l by (auto simp: lanes_of_enrollments_def)
  then have "silent_lane (lane_pk l) (snd (retire_pending_tasks False ?ids now ''Drip enrollment paused in Admin'' ?a))"
    by (intro silent_after_retire) (use drip_okD(2) [OF ok] out in auto)
  then show ?thesis by (simp add: controlled_def pause_enrollments_def Let_def case_prod_beta)
qed

lemma silent_stop_enrollments:
  assumes ok: "drip_ok db" and l: "l \<in> set (lanes db)" "lane_enrollment l \<in> set sel"
  shows "silent_lane (lane_pk l) (controlled (Stop_enrollments user sel) now db)"
proof -
  let ?P = "\<lambda>e. enr_pk e \<in> set sel \<and> has_lane db e \<and> enr_status e \<notin> {E_Stopped, E_Completed}"
  let ?b = "change_enrollments ?P (admin_stop user now) db"
  let ?Q = "\<lambda>l. lane_enrollment l \<in> set sel \<and> nonterminal_lane l"
  let ?a = "change_lanes ?Q (\<lambda>_. L_Stopped) ?b"
  let ?ids = "lanes_of_enrollments (\<lambda>k. k \<in> set sel) db"
  have out: False
    if x: "x \<in> set (lanes ?a)" "lane_pk x = lane_pk l" "e \<in> set (enrollments ?a)" "enr_pk e = lane_enrollment x" "enr_status e = E_Active" for x e
  proof -
    have "lane_enrollment x = lane_enrollment l"
      using lane_kept [where db = ?b and l = l, OF _ _ x(1,2)] drip_okD(1) [OF ok] l(1) by auto
    moreover obtain y where y: "y \<in> set (enrollments db)" "e = (if ?P y then admin_stop user now y else y)"
      using enrollment_kept [of e ?P "admin_stop user now" db] x(3) by auto
    ultimately have "enr_pk y = lane_enrollment l" using x(4) by (auto simp: admin_stop_def split: if_splits)
    then have "has_lane db y" "enr_pk y \<in> set sel" using l by (auto simp: has_lane_def list_ex_iff)
    then show False using y(2) x(5) by (auto simp: admin_stop_def split: if_splits)
  qed
  have "lane_pk l \<in> set ?ids" using l by (auto simp: lanes_of_enrollments_def)
  then have "silent_lane (lane_pk l) (snd (retire_pending_tasks True ?ids now ''Stopped by drip Admin'' ?a))"
    by (intro silent_after_retire) (use drip_okD(2) [OF ok] out in auto)
  then show ?thesis by (simp add: controlled_def stop_enrollments_def Let_def case_prod_beta)
qed

lemma map_of_keyed: "map_of (map (\<lambda>(k, v). (k, f k v)) xs) k = map_option (f k) (map_of xs k)"
  by (induction xs) auto

lemma silent_pause_campaigns:
  assumes ok: "drip_ok db" and enr: "distinct (map enr_pk (enrollments db))"
    and l: "l \<in> set (lanes db)" "silenced (Pause_campaigns sel) db l"
  shows "silent_lane (lane_pk l) (controlled (Pause_campaigns sel) now db)"
proof -
  let ?active = "filter (\<lambda>(k, st). k \<in> set sel \<and> st = ''active'') (campaigns db)"
  let ?enr = "map enr_pk (filter (\<lambda>e. enr_campaign e \<in> fst ` set ?active) (enrollments db))"
  let ?ids = "lanes_of_enrollments (\<lambda>k. k \<in> set ?enr) db"
  let ?b = "snd (retire_pending_tasks False ?ids now ''Drip campaign paused in Admin'' db)"
  let ?c = "?b\<lparr>campaigns := map (\<lambda>(k, st). (k, if k \<in> set sel \<and> st = ''active'' then ''paused'' else st)) (campaigns db)\<rparr>"
  obtain e0 where e0: "e0 \<in> set (enrollments db)" "enr_pk e0 = lane_enrollment l" "enr_campaign e0 \<in> set sel"
      "campaign_status e0 db = ''active''" using l(2) by auto
  have active: "map_of (campaigns db) (enr_campaign e0) = Some ''active''" using e0(4) by (auto simp: campaign_status_def split: option.splits)
  have "(enr_campaign e0, ''active'') \<in> set ?active" using map_of_SomeD [OF active] e0(3) by simp
  then have "lane_enrollment l \<in> set ?enr" using e0(1,2) by force
  then have ids: "lane_pk l \<in> set ?ids" using l(1) by (auto simp: lanes_of_enrollments_def)
  have paused: "campaign_status e0 ?c = ''paused''" using active e0(3) by (simp add: campaign_status_def map_of_keyed)
  have c: "controlled (Pause_campaigns sel) now db = ?c" by (simp add: controlled_def pause_campaigns_def Let_def case_prod_beta)
  show ?thesis unfolding c silent_lane_def
  proof (intro ballI impI conjI)
    fix d assume d: "d \<in> set (deliveries ?c)" "dlv_lane d = lane_pk l"
    show "\<not> clear_to_send (dlv_pk d) ?c"
    proof (rule not_clearI [OF _ d(1)])
      show "distinct (map dlv_pk (deliveries ?c))" using drip_okD(2) [OF ok] by simp
      fix x e assume x: "x \<in> set (lanes ?c)" "lane_pk x = dlv_lane d" "e \<in> set (enrollments ?c)" "enr_pk e = lane_enrollment x"
        and st: "campaign_status e ?c = ''active''"
      have "x = l" using pk_determines [OF drip_okD(1) [OF ok] _ l(1)] x(1,2) d(2) by simp
      then have "e = e0" using pk_determines [OF enr _ e0(1)] x(3,4) e0(2) by simp
      then show False using st paused by simp
    qed
    fix t assume t: "t \<in> set (tasks ?c)" "current_task d = Some (task_pk t)"
    show "task_status t \<noteq> PENDING" by (rule retire_clears [of d False ?ids]) (use d t ids in auto)
  qed
qed

text \<open>
  C17: a paused or stopped lane is silent. When an operator pauses or stops a campaign, an enrollment or a lane,
  then, below it, no delivery can cross the submit boundary any more, on either channel, and none has a task
  that a worker could still claim.
\<close>

theorem control_silences:
  assumes "drip_ok db" and "distinct (map enr_pk (enrollments db))" and "l \<in> set (lanes db)" and "silenced c db l"
  shows "silent_lane (lane_pk l) (controlled c now db)"
  using assms
  by (cases c) (simp_all add: silent_pause_campaigns silent_pause_enrollments silent_stop_enrollments silent_pause_lanes silent_takeover
    del: silenced.simps(1,4,5))


section \<open>Stopped for good\<close>

definition stopped_lane :: "int \<Rightarrow> drip_db \<Rightarrow> bool" where
  "stopped_lane k db \<longleftrightarrow> (\<forall>l \<in> set (lanes db). lane_pk l = k \<longrightarrow> lane_status l = L_Stopped) \<and>
     (\<forall>d \<in> set (deliveries db). dlv_lane d = k \<longrightarrow> \<not> waiting_status (dlv_status d))"

lemma stopped_lane_same: "lanes b = lanes a \<Longrightarrow> deliveries b = deliveries a \<Longrightarrow> stopped_lane k b = stopped_lane k a"
  by (simp add: stopped_lane_def)

lemma stopped_retire: "stopped_lane k a \<Longrightarrow> stopped_lane k (snd (retire_pending_tasks stops ids now reason a))"
  by (auto simp: stopped_lane_def retire_pending_tasks_def Let_def retire_tasks_def retire_delivery_status)

lemma stopped_change: "(\<And>l. P l \<Longrightarrow> lane_status l \<noteq> L_Stopped) \<Longrightarrow> stopped_lane k a \<Longrightarrow> stopped_lane k (change_lanes P f a)"
  by (auto simp: stopped_lane_def change_lanes_def)

lemma stopped_enrollments: "stopped_lane k a \<Longrightarrow> stopped_lane k (change_enrollments P f a)"
  by (subst stopped_lane_same [of _ a]) simp_all

lemma stopped_campaigns: "stopped_lane k a \<Longrightarrow> stopped_lane k (a\<lparr>campaigns := cs\<rparr>)"
  by (subst stopped_lane_same [of _ a]) simp_all

lemma stopped_controlled: "stopped_lane k a \<Longrightarrow> stopped_lane k (controlled c now a)"
  by (cases c)
    (auto simp: controlled_def pause_campaigns_def resume_campaigns_def pause_enrollments_def resume_enrollments_def
      stop_enrollments_def pause_lanes_def resume_lanes_def takeover_lanes_def Let_def case_prod_beta nonterminal_lane_def
      intro!: stopped_retire stopped_change stopped_enrollments stopped_campaigns)

interpretation takeover: latched_machine "\<lambda>(c, now). controlled c now" "\<lambda>_. True" "stopped_lane k" for k
  by unfold_locales (auto intro: stopped_controlled)

text \<open>
  C27: a takeover is final. After an operator stopped a lane for human takeover, no sequence of later controls, in
  particular no resumption of the lane, its enrollment or its campaign, makes the lane run again or
  one of its deliveries wait to be sent.
\<close>

theorem takeover_final:
  assumes "drip_ok db" and "l \<in> set (lanes db)" and "lane_pk l \<in> set sel" and "lane_status l \<noteq> L_Completed"
  shows "stopped_lane (lane_pk l) (fold (\<lambda>(c, now). controlled c now) later (controlled (Stop_lanes user sel) now db))"
proof (rule takeover.latched_run)
  let ?P = "\<lambda>l. lane_pk l \<in> set sel \<and> nonterminal_lane l"
  let ?a = "change_lanes ?P (\<lambda>_. L_Stopped) db"
  have stopped: "lane_status x = L_Stopped" if "x \<in> set (lanes ?a)" "lane_pk x = lane_pk l" for x
    using lane_kept [OF drip_okD(1) [OF assms(1)] assms(2) that] assms(3,4) by (cases "lane_status l") (auto simp: nonterminal_lane_def)
  have pk: "lane_pk l \<in> set (map lane_pk (lanes ?a))" unfolding change_lanes_pks using assms(2) by simp
  have ids: "lane_pk l \<in> set (lanes_with L_Stopped sel ?a)" by (rule in_lanes_with [OF assms(3) pk stopped])
  show "stopped_lane (lane_pk l) (controlled (Stop_lanes user sel) now db)"
    using stopped ids by (auto simp: stopped_lane_def controlled_def takeover_lanes_def Let_def case_prod_beta dest: retire_stops)
qed simp

section \<open>An operator steps in\<close>

lemma sample_sends_ok: "drip_ok sample_sends"
  using sample_untouched by (simp add: untouched_def sample_run_def)

lemma sample_controls:
  "map dlv_status (deliveries (controlled (Pause_lanes [11]) 60 sample_sends)) = [D_Planned]"
  "map task_status (tasks (controlled (Pause_lanes [11]) 60 sample_sends)) = [COMPLETED]"
  "lane_pk sample_route = 11"
  by code_simp+

theorem control_silences_witness:
  "silenced (Pause_lanes [11]) sample_sends sample_route \<and> silent_lane 11 (controlled (Pause_lanes [11]) 60 sample_sends) \<and>
   map dlv_status (deliveries (controlled (Pause_lanes [11]) 60 sample_sends)) = [D_Planned] \<and>
   map task_status (tasks (controlled (Pause_lanes [11]) 60 sample_sends)) = [COMPLETED]"
proof -
  have "silenced (Pause_lanes [11]) sample_sends sample_route" by code_simp
  moreover have "distinct (map enr_pk (enrollments sample_sends))" "sample_route \<in> set (lanes sample_sends)" by (simp_all add: sample_sends_def)
  ultimately show ?thesis using control_silences [OF sample_sends_ok, of sample_route "Pause_lanes [11]" 60] sample_controls by simp
qed

theorem takeover_final_witness:
  "lane_status sample_route = L_Active \<and>
   stopped_lane 11 (fold (\<lambda>(c, now). controlled c now) [(Resume_enrollments [1], 70), (Resume_lanes [11], 71)]
     (controlled (Stop_lanes ''eve'' [11]) 60 sample_sends))"
proof -
  have "lane_status sample_route = L_Active" by (simp add: sample_route_def sample_lane_def)
  moreover have "sample_route \<in> set (lanes sample_sends)" by (simp add: sample_sends_def)
  ultimately show ?thesis
    using takeover_final [OF sample_sends_ok, of sample_route "[11]" "[(Resume_enrollments [1], 70), (Resume_lanes [11], 71)]" "''eve''" 60]
      sample_controls(3) by simp
qed

end
