(* ===== verification/Spec2Isabelle.thy ===== *)
theory Spec2Isabelle
  imports Action_Policy Account_Policy Browser_Recovery Message_Steps Task_Claims Rate_Limits Child_Supervisor Drip_Handlers Drip_Takeover
begin

text \<open>
  OpenOutreach: a verification library for its outreach automation.

  The program runs, for each sender, a daemon that drives a LinkedIn browser session, a supervisor
  that keeps the daemon and its helper processes alive, and services over a shared database: message
  programs with their deliveries, a task queue, ledgers of approved posts, and a CRM that decides
  which accounts need attention. The library models the parts of it that decide something; what a web
  page, a remote service or the operating system answers is an argument of the definitions.

  \<^bold>\<open>Foundations.\<close> \<open>Prelude\<close> holds results (a value or an error, \<open>bind_result\<close>), folds that may fail,
  lemmas on sorted lists and first matches, and the interfaces of the library, as locales:
  \<open>machine\<close> (a step and the invariant it keeps, over runs that are folds of events), \<open>latched_machine\<close>
  (a set of states that no step leaves), and \<open>frozen_world\<close> (a get-or-create operation whose results
  outlast all other events), and, for runs of a step relation, \<open>transition_system\<close> (an invariant) with its extension
  \<open>growing_system\<close> (a record that every step extends), both interpreted by \<open>Drip_Runs\<close>. Each is interpreted on definitions of the code: \<open>machine\<close> by
  \<open>Browser_Recovery\<close>, \<open>Message_World\<close>, \<open>Attempt_Machine\<close> and \<open>Child_Supervisor\<close>, \<open>latched_machine\<close> by
  \<open>Browser_Recovery\<close>, \<open>Rate_Limits\<close>, \<open>Attempt_Machine\<close> and \<open>Post_Workers\<close>, \<open>frozen_world\<close> twice by
  \<open>Message_World\<close>. \<open>Py_Lib\<close>, \<open>Py_Json\<close> and \<open>Py_Format\<close> model the part of Python that the code uses: dates as
  ordinals, decimal text, strings as lists of characters with codes 0 to 255 (so the check for a byte-order
  mark has nothing to find), JSON values with the equality of Python, and \<open>str.format\<close>.

  \<^bold>\<open>CRM policies.\<close> \<open>Action_Policy\<close> is \<open>linkedin/crm_action_policy.py\<close>: the facts of an action and the ladder
  that places it. \<open>Account_Policy\<close> is \<open>linkedin/crm_v2_policy.py\<close>: evidence with its checks, admission of
  an account and its reminder. Their lemmas say exactly when an action is daily, when an account is
  admitted and why, and that every input gives a decision or the documented error.

  \<^bold>\<open>Browser recovery.\<close> \<open>Browser_Recovery\<close> is \<open>linkedin/browser/recovery.py\<close> with its callers in
  \<open>linkedin/daemon.py run_daemon\<close>. A run is a list of loop events; the retries are bounded, a hold is
  latched and notified once.

  \<^bold>\<open>Messages.\<close> \<open>Copy_Text\<close> holds the pure helpers of the copy (\<open>operators.py\<close>, \<open>message_roles.py\<close>,
  \<open>name_utils.py\<close>). \<open>Message_Program\<close> is the first half of \<open>linkedin/message_delivery.py\<close>: the validation of a
  published program, its index, audience routes and variant selection, and the enrollment.
  \<open>Message_Delivery\<close> is the second half with \<open>OutboundDelivery\<close> and \<open>CampaignMessageEnrollment\<close> of
  \<open>linkedin/models.py\<close> (\<open>clean\<close>, \<open>save\<close> and its frozen columns). \<open>Message_World\<close> puts both in a store that other
  requests change too, and shows that what was delivered is frozen; \<open>Message_Steps\<close> follows a sequence to
  its end. The digest of a payload and its canonical JSON are parameters.

  \<^bold>\<open>Tasks.\<close> \<open>Task_Queue\<close> is \<open>Task\<close> and its queryset in \<open>linkedin/models.py\<close> with the claims of
  \<open>linkedin/enrichment/worker.py\<close>: scope, lanes, campaign priority, payload validation, life cycle.
  \<open>Task_Claims\<close> interleaves the read and the guarded update of any number of daemons with cancellations, closings,
  requeues and recoveries (the bulk reset of \<open>heal_tasks\<close> and the one of the enrichment worker), as an inductive step
  relation with a history: a second claim needs a row that was set back, and the history says from what. That the earlier
  daemon has stopped by then is not claimed: a recovery resets a stale row whether or not its run is still going.
  \<open>Rate_Limits\<close> is the limit check of \<open>LinkedInProfile\<close>.

  \<^bold>\<open>Posts.\<close> \<open>Post_Urls\<close> is the address and field validation of \<open>linkedin/reposts.py\<close>. \<open>Attempt_Ledger\<close> holds
  the transitions of the ledger, once for reposts and for the personal posts of
  \<open>linkedin/personal_posts.py\<close>, whose code is the same up to the payload (a type parameter) and the constants (a
  record). \<open>Attempt_Machine\<close> drives it by events in any order, states the life cycle of a row as an
  abstract step relation that every operation refines, and shows that a row is clicked at most once.
  \<open>Post_Workers\<close> is the worker run around the browser procedure, \<open>Personal_Posts\<close> the media validation and
  the verified download, \<open>Child_Supervisor\<close> the part of \<open>daemon_supervisor.py\<close> that keeps the two
  workers from running together, on which the exclusion rests, since the claim of a repost does not look at the posts.

  \<^bold>\<open>Drip campaigns.\<close> \<open>Drip_Store\<close> holds the tables of \<open>drip/models.py\<close> with the stops of \<open>drip/services/stops.py\<close> and
  the ownership query of \<open>ownership.py\<close>; \<open>Drip_Stops\<close> shows that a stop silences what lies below the stopped
  enrollments and nothing else. \<open>Drip_Reconcile\<close> is \<open>drip/services/reconciliation.py\<close>, the pass that hands a lane
  over, freezes its next delivery and queues a task for it. \<open>Drip_Preview\<close> shows that the listing of a pass and
  the pass itself take the same decisions, through what one lane, and one enrollment, sees of the tables. The
  hand-off evaluation, what the CRM knows of a lead, the normalised time of a LinkedIn message and the rendered text
  are arguments; media and tracked links are left out of the pass. \<open>lower\<close> changes the letters of ASCII.

  \<^bold>\<open>Drip sending.\<close> \<open>Drip_Attempts\<close> adds the attempts (\<open>DripDeliveryAttempt\<close>) and the locked rows of \<open>lock_delivery_graph\<close>.
  \<open>Drip_Linkedin\<close> is \<open>drip/tasks/linkedin.py\<close> with \<open>send_direct_message_once\<close> of \<open>linkedin/actions/message.py\<close>: reservation, guard,
  the callback before the click, the ends of an attempt, the handler and the recovery of a stale delivery; media are
  left out. \<open>Gmail_Client\<close> is the mailbox mapping, the delivery permits and the client of \<open>gmail/\<close>, and \<open>Drip_Gmail\<close> is
  \<open>drip/tasks/gmail.py\<close>, the same life of a delivery by mail with its thread and its tracked link.
  \<open>Drip_Controls\<close> is what an operator may do in \<open>drip/admin.py\<close>: pause, resume and stop campaigns, enrollments and lanes.
  \<open>Drip_Ledger\<close> says what the attempts, a delivery and its task have to agree on (\<open>books_ok\<close>), and
  how a change of one row keeps it; \<open>Drip_Quiet\<close> shows it of passes, stops and controls. \<open>Drip_Machine\<close> is the step relation \<open>drip_step\<close>: passes, stops, claims, every
  transaction of both executors, recoveries, the controls, and what other code may change (\<open>elsewhere\<close>: everything but the
  deliveries, the attempts and the reopening of a task), in any order and from any number of processes; a
  claimed task is reserved by one handler. \<open>Drip_Runs\<close> proves of all its runs that a message is submitted at most once and
  only while nothing forbids it, that the ledger only grows, that a theme waits for the earlier ones, and that a recovery
  settles a delivery. \<open>Drip_Handlers\<close> shows that a whole call of either handler is such a run,
  and that a stop beside a mail can lose its record; \<open>Drip_Takeover\<close> that a pause or a stop silences what lies below it, and
  that a stopped lane stays stopped under all controls.

  \<^bold>\<open>Assumptions.\<close> A transaction, and a conditional update, is one step. A query reads the clock once where
  the code reads it twice in one statement. Rows that compare equal come in the order of the table.
  No loop needs fuel: all recursion is structural or has a proved measure.

  \<^bold>\<open>Not modelled.\<close> Playwright, Slack, Google, Gmail and Granola calls, the management commands, migrations
  and the admin, which only move data; the Gaussian process and the language models, which are libraries;
  threads and signals; the enrollment and the hand-off of the drip campaigns, the receipts of submissions
  (\<open>follow_up_submission.py\<close>), the feed schedule, the emergency stop, and the CRM reconciliation.
\<close>

end
